(* ===== verification/Prelude.thy ===== *)
theory Prelude
  imports Main "HOL-Library.Word" "HOL-Library.Signed_Division"
begin

text \<open>
  Shared vocabulary of the development.  The simulator keeps its tables in fixed-size
  \<open>std::array\<close>s and \<open>std::vector\<close>s that never change their length; they are modelled as
  functions from the index, and every component proves that the indices it uses are in range.
  The theory also holds the standard-library searches the code uses (\<open>std::find_if\<close>,
  \<open>std::min_element\<close>, \<open>std::max_element\<close>, \<open>std::minmax_element\<close>) over an index range, and the
  64-bit wrap-around of \<open>uint64_t\<close> counters.
\<close>

unbundle bit_operations_syntax

type_synonym 'a array = "nat \<Rightarrow> 'a"

text \<open>Full 64-bit addresses, the \<open>champsim::address\<close> of the code.\<close>

type_synonym address = "64 word"

named_theorems range_intros "index and counter range facts the component invariants are built from"

named_theorems op_defs "definitions of the small operations that proofs unfold together"

section \<open>Wrap-around of unsigned 64-bit counters\<close>

definition u64 :: "nat \<Rightarrow> nat" where
  "u64 n = n mod 2 ^ 64"

lemma u64_less [simp]: "u64 n < 2 ^ 64"
  by (simp add: u64_def)

text \<open>Evaluation counts on binary integers.\<close>

lemma u64_code [code]: "u64 n = nat (int n mod 18446744073709551616)"
  by (simp add: u64_def nat_mod_distrib)

lemma u64_id [simp]: "n < 2 ^ 64 \<Longrightarrow> u64 n = n"
  by (simp add: u64_def)

section \<open>Bit masks and history registers\<close>

lemma low_mask: "push_bit n 1 - 1 = (mask n :: 'a::len word)"
  by (simp add: mask_eq_exp_minus_1 push_bit_eq_mult)

lemma unat_and_mask: "unat (x AND mask n) = unat x mod 2 ^ n" for x :: "'a::len word"
  by (simp add: take_bit_eq_mask [symmetric] unsigned_take_bit_eq take_bit_nat_def)

lemma bit_times_2: "bit (x * 2) i \<longleftrightarrow> i < LENGTH('a) \<and> (case i of 0 \<Rightarrow> False | Suc j \<Rightarrow> bit x j)"
  for x :: "'a::len word"
  unfolding mult.commute [of x 2] bit_double_iff by (cases i) auto

text \<open>A \<open>std::bitset\<close> used as a shift register: \<open>h <<= 1; h.set(0, b)\<close>.\<close>

definition shift_in :: "bool \<Rightarrow> 'a::len word \<Rightarrow> 'a word" where
  "shift_in b h = (if b then set_bit else unset_bit) 0 (push_bit 1 h)"

lemma bit_shift_in:
  "bit (shift_in b (h :: 'a::len word)) i \<longleftrightarrow>
     i < LENGTH('a) \<and> (case i of 0 \<Rightarrow> b | Suc j \<Rightarrow> bit h j)"
  by (cases b; cases i) (auto simp: shift_in_def bit_set_bit_iff bit_unset_bit_iff bit_times_2)

section \<open>Searches over an index range\<close>

text \<open>
  \<open>std::find_if\<close> over the positions \<open>lo, \<dots>, hi - 1\<close>: the first position that satisfies the
  predicate, \<open>None\<close> for the end iterator.
\<close>

definition find_if :: "(nat \<Rightarrow> bool) \<Rightarrow> nat \<Rightarrow> nat \<Rightarrow> nat option" where
  "find_if P lo hi = find P [lo..<hi]"

lemma find_if_None: "find_if P lo hi = None \<longleftrightarrow> (\<forall>i. lo \<le> i \<and> i < hi \<longrightarrow> \<not> P i)"
  by (auto simp: find_if_def find_None_iff)

lemma find_if_Some_iff:
  "find_if P lo hi = Some i \<longleftrightarrow> lo \<le> i \<and> i < hi \<and> P i \<and> (\<forall>j. lo \<le> j \<and> j < i \<longrightarrow> \<not> P j)"
proof -
  have "(\<exists>k < hi - lo. P (lo + k) \<and> i = lo + k \<and> (\<forall>j < k. \<not> P (lo + j))) \<longleftrightarrow>
      lo \<le> i \<and> i < hi \<and> P i \<and> (\<forall>j. lo \<le> j \<and> j < i \<longrightarrow> \<not> P j)" (is "?l \<longleftrightarrow> ?r")
  proof
    assume ?l
    then obtain k where k: "k < hi - lo" "P (lo + k)" "i = lo + k" "\<forall>j < k. \<not> P (lo + j)"
      by blast
    have "\<not> P j" if "lo \<le> j" "j < i" for j
      using k(4) [rule_format, of "j - lo"] that k(3) by simp
    with k show ?r by simp
  next
    assume ?r
    then show ?l by (intro exI [of _ "i - lo"]) auto
  qed
  moreover have "find_if P lo hi = Some i \<longleftrightarrow>
      (\<exists>k < hi - lo. P (lo + k) \<and> i = lo + k \<and> (\<forall>j < k. \<not> P (lo + j)))"
    unfolding find_if_def find_Some_iff by (intro ex_cong1 conj_cong) simp_all
  ultimately show ?thesis by simp
qed

lemma find_if_SomeD:
  assumes "find_if P lo hi = Some i"
  shows "lo \<le> i" "i < hi" "P i"
  using assms by (auto simp: find_if_Some_iff)

lemma find_if_exists:
  assumes "lo \<le> i" "i < hi" "P i"
  shows "\<exists>j. find_if P lo hi = Some j \<and> lo \<le> j \<and> j \<le> i \<and> P j"
proof (cases "find_if P lo hi")
  case None
  with assms show ?thesis by (auto simp: find_if_None)
next
  case (Some j)
  then have "j \<le> i" using assms by (metis find_if_Some_iff not_le)
  with Some show ?thesis by (auto simp: find_if_Some_iff)
qed

lemma find_if_cong:
  assumes "\<And>i. lo \<le> i \<Longrightarrow> i < hi \<Longrightarrow> P i = Q i"
  shows "find_if P lo hi = find_if Q lo hi"
  unfolding find_if_def using assms by (intro find_cong) auto

text \<open>
  \<open>std::min_element\<close> returns the first smallest position, \<open>std::max_element\<close> the first
  largest one; the range's end for an empty range.  The comparison \<open>lt\<close> is on positions.
\<close>

fun min_scan :: "(nat \<Rightarrow> nat \<Rightarrow> bool) \<Rightarrow> nat \<Rightarrow> nat list \<Rightarrow> nat" where
  "min_scan lt m [] = m"
| "min_scan lt m (x # xs) = min_scan lt (if lt x m then x else m) xs"

fun max_scan :: "(nat \<Rightarrow> nat \<Rightarrow> bool) \<Rightarrow> nat \<Rightarrow> nat list \<Rightarrow> nat" where
  "max_scan lt m [] = m"
| "max_scan lt m (x # xs) = max_scan lt (if lt m x then x else m) xs"

definition min_element :: "(nat \<Rightarrow> nat \<Rightarrow> bool) \<Rightarrow> nat \<Rightarrow> nat \<Rightarrow> nat" where
  "min_element lt lo hi = (if lo < hi then min_scan lt lo [Suc lo..<hi] else hi)"

definition max_element :: "(nat \<Rightarrow> nat \<Rightarrow> bool) \<Rightarrow> nat \<Rightarrow> nat \<Rightarrow> nat" where
  "max_element lt lo hi = (if lo < hi then max_scan lt lo [Suc lo..<hi] else hi)"

text \<open>
  The comparison functions passed to these searches need not be strict: \<open>lru_table\<close> passes one
  that holds of an invalid entry and itself.  All that the results depend on is that the
  comparison lies between the strict and the weak order of some rank.
\<close>

definition ranked_by :: "(nat \<Rightarrow> nat \<Rightarrow> bool) \<Rightarrow> (nat \<Rightarrow> 'b::linorder) \<Rightarrow> bool" where
  "ranked_by lt f \<longleftrightarrow> (\<forall>i j. (f i < f j \<longrightarrow> lt i j) \<and> (lt i j \<longrightarrow> f i \<le> f j))"

lemma ranked_byI:
  "(\<And>i j. f i < f j \<Longrightarrow> lt i j) \<Longrightarrow> (\<And>i j. lt i j \<Longrightarrow> f i \<le> f j) \<Longrightarrow> ranked_by lt f"
  by (simp add: ranked_by_def)

lemma ranked_by_less [simp, intro]: "ranked_by (\<lambda>i j. f i < f j) f"
  by (auto simp: ranked_by_def)

lemma ranked_byD:
  assumes "ranked_by lt f"
  shows "lt i j \<Longrightarrow> f i \<le> f j" "\<not> lt i j \<Longrightarrow> f j \<le> f i"
  using assms unfolding ranked_by_def by (blast, meson not_le)

lemma min_scan_mem: "min_scan lt m xs \<in> insert m (set xs)"
proof (induction xs arbitrary: m)
  case (Cons x xs)
  from Cons [of x] Cons [of m] show ?case by auto
qed simp

lemma max_scan_mem: "max_scan lt m xs \<in> insert m (set xs)"
proof (induction xs arbitrary: m)
  case (Cons x xs)
  from Cons [of x] Cons [of m] show ?case by auto
qed simp

lemma min_scan_least:
  assumes "ranked_by lt f" "x \<in> insert m (set xs)"
  shows "f (min_scan lt m xs) \<le> f x"
  using assms(2)
proof (induction xs arbitrary: m x)
  case (Cons y xs)
  define m' where "m' = (if lt y m then y else m)"
  have "f m' \<le> f m" "f m' \<le> f y"
    using ranked_byD [OF assms(1), of y m] by (auto simp: m'_def)
  moreover have "f (min_scan lt m' xs) \<le> f m'" by (rule Cons.IH) simp
  moreover have "f (min_scan lt m' xs) \<le> f z" if "z \<in> set xs" for z
    using Cons.IH that by blast
  ultimately show ?case
    using Cons.prems by (auto simp: m'_def [symmetric] intro: order_trans)
qed simp

lemma max_scan_greatest:
  assumes "ranked_by lt f" "x \<in> insert m (set xs)"
  shows "f x \<le> f (max_scan lt m xs)"
  using assms(2)
proof (induction xs arbitrary: m x)
  case (Cons y xs)
  define m' where "m' = (if lt m y then y else m)"
  have "f m \<le> f m'" "f y \<le> f m'"
    using ranked_byD [OF assms(1), of m y] by (auto simp: m'_def)
  moreover have "f m' \<le> f (max_scan lt m' xs)" by (rule Cons.IH) simp
  moreover have "f z \<le> f (max_scan lt m' xs)" if "z \<in> set xs" for z
    using Cons.IH that by blast
  ultimately show ?case
    using Cons.prems by (auto simp: m'_def [symmetric] intro: order_trans)
qed simp

lemma min_element_range:
  assumes "lo < hi"
  shows "lo \<le> min_element lt lo hi" "min_element lt lo hi < hi"
  using assms min_scan_mem [of lt lo "[Suc lo..<hi]"] by (auto simp: min_element_def)

lemma max_element_range:
  assumes "lo < hi"
  shows "lo \<le> max_element lt lo hi" "max_element lt lo hi < hi"
  using assms max_scan_mem [of lt lo "[Suc lo..<hi]"] by (auto simp: max_element_def)

lemma min_element_least:
  assumes "ranked_by lt f" "lo \<le> i" "i < hi"
  shows "f (min_element lt lo hi) \<le> f i"
proof -
  from assms(2,3) have "i \<in> insert lo (set [Suc lo..<hi])" by auto
  with assms show ?thesis by (simp add: min_element_def min_scan_least)
qed

lemma max_element_greatest:
  assumes "ranked_by lt f" "lo \<le> i" "i < hi"
  shows "f i \<le> f (max_element lt lo hi)"
proof -
  from assms(2,3) have "i \<in> insert lo (set [Suc lo..<hi])" by auto
  with assms show ?thesis by (simp add: max_element_def max_scan_greatest)
qed

text \<open>
  \<open>std::minmax_element\<close> as libstdc++ computes it: two positions at a time, the smaller of the pair
  against the minimum, the larger against the maximum.
\<close>

fun minmax_scan :: "(nat \<Rightarrow> nat \<Rightarrow> bool) \<Rightarrow> nat \<Rightarrow> nat \<Rightarrow> nat list \<Rightarrow> nat \<times> nat" where
  "minmax_scan lt mn mx [] = (mn, mx)"
| "minmax_scan lt mn mx [a] =
     (if lt a mn then (a, mx) else if \<not> lt a mx then (mn, a) else (mn, mx))"
| "minmax_scan lt mn mx (a # b # xs) =
     (if lt b a
      then minmax_scan lt (if lt b mn then b else mn) (if \<not> lt a mx then a else mx) xs
      else minmax_scan lt (if lt a mn then a else mn) (if \<not> lt b mx then b else mx) xs)"

definition minmax_element :: "(nat \<Rightarrow> nat \<Rightarrow> bool) \<Rightarrow> nat \<Rightarrow> nat \<Rightarrow> nat \<times> nat" where
  "minmax_element lt lo hi =
     (if hi \<le> Suc lo then (lo, lo)
      else if lt (Suc lo) lo then minmax_scan lt (Suc lo) lo [Suc (Suc lo)..<hi]
      else minmax_scan lt lo (Suc lo) [Suc (Suc lo)..<hi])"

lemma minmax_scan_mem:
  "fst (minmax_scan lt mn mx xs) \<in> insert mn (set xs) \<and> snd (minmax_scan lt mn mx xs) \<in> insert mx (set xs)"
proof (induction lt mn mx xs rule: minmax_scan.induct)
  case (3 lt mn mx a b xs)
  then show ?case by (cases "lt b a") (auto split: if_splits)
qed auto

lemma minmax_scan_bounds:
  assumes "ranked_by lt f" "f mn \<le> f mx"
  shows "(\<forall>x \<in> insert mn (insert mx (set xs)).
    f (fst (minmax_scan lt mn mx xs)) \<le> f x \<and> f x \<le> f (snd (minmax_scan lt mn mx xs)))"
  using assms
proof (induction lt mn mx xs rule: minmax_scan.induct)
  case (2 lt mn mx a)
  note D = ranked_byD [OF 2(1), of a mn] ranked_byD [OF 2(1), of a mx]
  show ?case using D 2(2) by (cases "lt a mn"; cases "lt a mx") auto
next
  case (3 lt mn mx a b xs)
  note R = ranked_byD [OF 3(3)]
  define x y where "x = (if lt b a then b else a)" and "y = (if lt b a then a else b)"
  have xy: "f x \<le> f y" using R [of b a] by (auto simp: x_def y_def)
  define mn' mx' where "mn' = (if lt x mn then x else mn)" and "mx' = (if \<not> lt y mx then y else mx)"
  have mn': "f mn' \<le> f mn" "f mn' \<le> f x" using R [of x mn] by (auto simp: mn'_def)
  have mx': "f mx \<le> f mx'" "f y \<le> f mx'" using R [of y mx] by (auto simp: mx'_def)
  have eq: "minmax_scan lt mn mx (a # b # xs) = minmax_scan lt mn' mx' xs"
    by (simp add: x_def y_def mn'_def mx'_def)
  have "\<forall>z \<in> insert mn' (insert mx' (set xs)).
      f (fst (minmax_scan lt mn' mx' xs)) \<le> f z \<and> f z \<le> f (snd (minmax_scan lt mn' mx' xs))"
    using 3 mn' mx' xy by (cases "lt b a") (auto simp: x_def y_def mn'_def mx'_def)
  then have IH: "f (fst (minmax_scan lt mn' mx' xs)) \<le> f mn'" "f mx' \<le> f (snd (minmax_scan lt mn' mx' xs))"
    "\<And>z. z \<in> set xs \<Longrightarrow> f (fst (minmax_scan lt mn' mx' xs)) \<le> f z \<and> f z \<le> f (snd (minmax_scan lt mn' mx' xs))"
    by auto
  have ab: "f x \<le> f a" "f a \<le> f y" "f x \<le> f b" "f b \<le> f y" using xy by (auto simp: x_def y_def)
  have "f (fst (minmax_scan lt mn' mx' xs)) \<le> f x" "f y \<le> f (snd (minmax_scan lt mn' mx' xs))"
    "f (fst (minmax_scan lt mn' mx' xs)) \<le> f mn" "f mx \<le> f (snd (minmax_scan lt mn' mx' xs))"
    using IH(1,2) mn' mx' by (auto intro: order_trans)
  then show ?case unfolding eq
    using IH(3) ab 3(4) by (auto intro: order_trans)
qed auto

lemma minmax_element_range:
  assumes "lo < hi"
  shows "lo \<le> fst (minmax_element lt lo hi)" "fst (minmax_element lt lo hi) < hi"
    "lo \<le> snd (minmax_element lt lo hi)" "snd (minmax_element lt lo hi) < hi"
proof -
  have *: "fst (minmax_scan lt m x xs) \<in> {lo..<hi} \<and> snd (minmax_scan lt m x xs) \<in> {lo..<hi}" if "set (m # x # xs) \<subseteq> {lo..<hi}" for m x xs
    using minmax_scan_mem[of lt m x xs] that by auto
  have "fst (minmax_element lt lo hi) \<in> {lo..<hi} \<and> snd (minmax_element lt lo hi) \<in> {lo..<hi}"
    unfolding minmax_element_def using assms by (auto intro!: * simp del: atLeastLessThan_iff) (auto)
  then show "lo \<le> fst (minmax_element lt lo hi)" "fst (minmax_element lt lo hi) < hi"
    "lo \<le> snd (minmax_element lt lo hi)" "snd (minmax_element lt lo hi) < hi" by auto
qed

lemma minmax_element_bounds:
  assumes "ranked_by lt f" "lo \<le> i" "i < hi"
  shows "f (fst (minmax_element lt lo hi)) \<le> f i \<and> f i \<le> f (snd (minmax_element lt lo hi))"
proof (cases "hi \<le> Suc lo")
  case True
  then have "i = lo" using assms(2,3) by simp
  with True show ?thesis by (simp add: minmax_element_def)
next
  case False
  have i: "i \<in> insert lo (insert (Suc lo) (set [Suc (Suc lo)..<hi]))" using assms(2,3) by auto
  show ?thesis
    using False i ranked_byD [OF assms(1), of "Suc lo" lo]
      minmax_scan_bounds [OF assms(1), of "Suc lo" lo "[Suc (Suc lo)..<hi]"]
      minmax_scan_bounds [OF assms(1), of lo "Suc lo" "[Suc (Suc lo)..<hi]"]
    by (cases "lt (Suc lo) lo") (auto simp: minmax_element_def)
qed

section \<open>Loops that may fail\<close>

text \<open>A loop over a list whose body may throw or run into undefined behaviour: the state after the last
  element, or \<open>None\<close>.\<close>

primrec fold_option :: "('a \<Rightarrow> 's \<Rightarrow> 's option) \<Rightarrow> 'a list \<Rightarrow> 's \<Rightarrow> 's option" where
  "fold_option f [] s = Some s"
| "fold_option f (x # xs) s = Option.bind (f x s) (fold_option f xs)"

lemma fold_option_invariant:
  assumes "fold_option f xs s = Some t" and "P s"
    and "\<And>x s s'. x \<in> set xs \<Longrightarrow> P s \<Longrightarrow> f x s = Some s' \<Longrightarrow> P s'"
  shows "P t"
  using assms
proof (induction xs arbitrary: s)
  case (Cons x xs)
  from Cons.prems(1) obtain s1 where "f x s = Some s1" "fold_option f xs s1 = Some t"
    by (auto simp: bind_eq_Some_conv)
  then show ?case using Cons.IH[of s1] Cons.prems(2,3) by (metis list.set_intros)
qed simp

text \<open>A loop that rewrites each element while it changes the state.\<close>

primrec map_option_state :: "('a \<Rightarrow> 's \<Rightarrow> ('b \<times> 's) option) \<Rightarrow> 'a list \<Rightarrow> 's \<Rightarrow> ('b list \<times> 's) option" where
  "map_option_state f [] s = Some ([], s)"
| "map_option_state f (x # xs) s = Option.bind (f x s) (\<lambda>(y, s').
     map_option (\<lambda>(ys, t). (y # ys, t)) (map_option_state f xs s'))"

text \<open>\<open>std::stable_partition\<close> with a test that changes the state: the test runs once on each element in
  order; those that pass come first.\<close>

primrec partition_state :: "('a \<Rightarrow> 's \<Rightarrow> (bool \<times> 's) option) \<Rightarrow> 'a list \<Rightarrow> 's \<Rightarrow> ('a list \<times> 'a list \<times> 's) option" where
  "partition_state f [] s = Some ([], [], s)"
| "partition_state f (x # xs) s = Option.bind (f x s) (\<lambda>(b, s').
     map_option (\<lambda>(ts, fs, t). if b then (x # ts, fs, t) else (ts, x # fs, t)) (partition_state f xs s'))"

lemma map_option_state_invariant:
  assumes "map_option_state f xs s = Some (ys, t)" and "P s"
    and "\<And>x s y s'. x \<in> set xs \<Longrightarrow> P s \<Longrightarrow> f x s = Some (y, s') \<Longrightarrow> P s'"
  shows "P t"
  using assms
proof (induction xs arbitrary: s ys)
  case (Cons x xs)
  from Cons.prems(1) obtain y s1 zs where "f x s = Some (y, s1)" "map_option_state f xs s1 = Some (zs, t)"
    by (auto simp: bind_eq_Some_conv)
  then show ?case using Cons.IH[of s1 zs] Cons.prems(2,3) by (metis list.set_intros)
qed simp

lemma partition_state_invariant:
  assumes "partition_state f xs s = Some (ts, fs, t)" and "P s"
    and "\<And>x s b s'. x \<in> set xs \<Longrightarrow> P s \<Longrightarrow> f x s = Some (b, s') \<Longrightarrow> P s'"
  shows "P t"
  using assms
proof (induction xs arbitrary: s ts fs)
  case (Cons x xs)
  from Cons.prems(1) obtain b s1 us gs where "f x s = Some (b, s1)" "partition_state f xs s1 = Some (us, gs, t)"
    by (auto simp: bind_eq_Some_conv split: if_splits)
  then show ?case using Cons.IH[of s1 us gs] Cons.prems(2,3) by (metis list.set_intros)
qed simp

text \<open>An update that keeps the image of the element keeps the image of the list.\<close>

lemma map_update_same: "i < length xs \<Longrightarrow> f y = f (xs ! i) \<Longrightarrow> map f (xs[i := y]) = map f xs"
  by (rule nth_equalityI) (auto simp: nth_list_update)

end
