(* ===== verification/Fwcounter.thy ===== *)
theory Fwcounter
  imports Prelude
begin

text \<open>
  The fixed-width saturating counter of \<open>inc/msl/fwcounter.h\<close>.  A counter object holds one
  value of type \<open>signed long long\<close>, modelled as an \<open>int\<close>; the template arguments \<open>MAXVAL\<close> and
  \<open>MINVAL\<close> are the first two arguments \<open>mx\<close> and \<open>mn\<close> of every operation.  The sums and
  differences that the code clamps are far from the 64-bit bounds, so they do not wrap.
\<close>

type_synonym counter = int

section \<open>The class template\<close>

definition fwc_clamp :: "int \<Rightarrow> int \<Rightarrow> int \<Rightarrow> int" where
  "fwc_clamp mx mn v = (if v < mn then mn else if mx < v then mx else v)"

definition fwc_assign :: "int \<Rightarrow> int \<Rightarrow> int \<Rightarrow> counter" where
  "fwc_assign mx mn rhs = fwc_clamp mx mn rhs"

definition fwc_add :: "int \<Rightarrow> int \<Rightarrow> counter \<Rightarrow> int \<Rightarrow> counter" where
  "fwc_add mx mn c rhs = fwc_clamp mx mn (c + rhs)"

definition fwc_sub :: "int \<Rightarrow> int \<Rightarrow> counter \<Rightarrow> int \<Rightarrow> counter" where
  "fwc_sub mx mn c rhs = fwc_clamp mx mn (c - rhs)"

definition fwc_mul :: "int \<Rightarrow> int \<Rightarrow> counter \<Rightarrow> int \<Rightarrow> counter" where
  "fwc_mul mx mn c rhs = fwc_clamp mx mn (c * rhs)"

text \<open>C++ division truncates towards zero; a zero divisor is a precondition violation.\<close>

definition fwc_div :: "int \<Rightarrow> int \<Rightarrow> counter \<Rightarrow> int \<Rightarrow> counter" where
  "fwc_div mx mn c rhs = fwc_clamp mx mn (c sdiv rhs)"

definition fwc_incr :: "int \<Rightarrow> int \<Rightarrow> counter \<Rightarrow> counter" where
  "fwc_incr mx mn c = fwc_add mx mn c 1"

definition fwc_decr :: "int \<Rightarrow> int \<Rightarrow> counter \<Rightarrow> counter" where
  "fwc_decr mx mn c = fwc_sub mx mn c 1"

text \<open>The postfix forms return the old value beside the new state.\<close>

definition fwc_post_incr :: "int \<Rightarrow> int \<Rightarrow> counter \<Rightarrow> counter \<times> counter" where
  "fwc_post_incr mx mn c = (c, fwc_incr mx mn c)"

definition fwc_post_decr :: "int \<Rightarrow> int \<Rightarrow> counter \<Rightarrow> counter \<times> counter" where
  "fwc_post_decr mx mn c = (c, fwc_decr mx mn c)"

definition fwc_is_max :: "int \<Rightarrow> counter \<Rightarrow> bool" where
  "fwc_is_max mx c = (c = mx)"

definition fwc_is_min :: "int \<Rightarrow> counter \<Rightarrow> bool" where
  "fwc_is_min mn c = (c = mn)"

text \<open>The comparators: two base cases, the others defined from them as in the header.\<close>

definition fwc_lt :: "counter \<Rightarrow> int \<Rightarrow> bool" where
  "fwc_lt c rhs = (c < rhs)"

definition fwc_eq :: "counter \<Rightarrow> int \<Rightarrow> bool" where
  "fwc_eq c rhs = (c = rhs)"

definition fwc_gt :: "counter \<Rightarrow> int \<Rightarrow> bool" where
  "fwc_gt c rhs = (\<not> (fwc_eq c rhs \<or> fwc_lt c rhs))"

definition fwc_ge :: "counter \<Rightarrow> int \<Rightarrow> bool" where
  "fwc_ge c rhs = (\<not> fwc_lt c rhs)"

definition fwc_le :: "counter \<Rightarrow> int \<Rightarrow> bool" where
  "fwc_le c rhs = (\<not> fwc_gt c rhs)"

definition fwc_ne :: "counter \<Rightarrow> int \<Rightarrow> bool" where
  "fwc_ne c rhs = (\<not> fwc_eq c rhs)"

text \<open>The two aliases: \<open>fwcounter<W>\<close> counts in \<open>0 \<dots> 2^W - 1\<close>, \<open>sfwcounter<W>\<close> is signed.\<close>

definition fw_max :: "nat \<Rightarrow> int" where
  "fw_max w = 2 ^ w - 1"

definition sfw_max :: "nat \<Rightarrow> int" where
  "sfw_max w = 2 ^ (w - 1) - 1"

definition sfw_min :: "nat \<Rightarrow> int" where
  "sfw_min w = - (2 ^ (w - 1))"

definition fw_set :: "nat \<Rightarrow> int \<Rightarrow> counter" where
  "fw_set w v = fwc_assign (fw_max w) 0 v"

definition fw_plus :: "nat \<Rightarrow> counter \<Rightarrow> int \<Rightarrow> counter" where
  "fw_plus w c d = fwc_add (fw_max w) 0 c d"

definition fw_minus :: "nat \<Rightarrow> counter \<Rightarrow> int \<Rightarrow> counter" where
  "fw_minus w c d = fwc_sub (fw_max w) 0 c d"

definition sfw_plus :: "nat \<Rightarrow> counter \<Rightarrow> int \<Rightarrow> counter" where
  "sfw_plus w c d = fwc_add (sfw_max w) (sfw_min w) c d"

text \<open>The step \<open>taken ? 1 : -1\<close> that every predictor adds.\<close>

definition step_of :: "bool \<Rightarrow> int" where
  "step_of taken = (if taken then 1 else -1)"

lemmas fwc_defs [op_defs] = fwc_clamp_def fwc_assign_def fwc_add_def fwc_sub_def fwc_mul_def
  fwc_div_def fwc_incr_def fwc_decr_def fwc_post_incr_def fwc_post_decr_def fwc_is_max_def
  fwc_is_min_def fwc_lt_def fwc_eq_def fwc_gt_def fwc_ge_def fwc_le_def fwc_ne_def

lemmas fw_defs [op_defs] = fw_max_def sfw_max_def sfw_min_def fw_set_def fw_plus_def fw_minus_def
  sfw_plus_def step_of_def

section \<open>The contract of a saturating counter\<close>

definition counter_ok :: "int \<Rightarrow> int \<Rightarrow> counter \<Rightarrow> bool" where
  "counter_ok mx mn c \<longleftrightarrow> mn \<le> c \<and> c \<le> mx"

locale saturating =
  fixes mx mn :: int
  assumes bounds: "mn \<le> mx"
begin

lemma clamp_ok [simp]: "counter_ok mx mn (fwc_clamp mx mn v)"
  using bounds by (simp add: counter_ok_def fwc_clamp_def)

lemma assign_ok [simp]: "counter_ok mx mn (fwc_assign mx mn v)"
  by (simp add: fwc_assign_def)

lemma add_ok [simp]: "counter_ok mx mn (fwc_add mx mn c d)"
  by (simp add: fwc_add_def)

lemma sub_ok [simp]: "counter_ok mx mn (fwc_sub mx mn c d)"
  by (simp add: fwc_sub_def)

lemma mul_ok: "counter_ok mx mn (fwc_mul mx mn c d)"
  by (simp add: fwc_mul_def)

lemma div_ok: "counter_ok mx mn (fwc_div mx mn c d)"
  by (simp add: fwc_div_def)

lemma incr_ok: "counter_ok mx mn (fwc_incr mx mn c)" and decr_ok: "counter_ok mx mn (fwc_decr mx mn c)"
  by (simp_all add: fwc_incr_def fwc_decr_def)

lemma clamp_minmax: "fwc_clamp mx mn v = max mn (min mx v)"
  using bounds by (simp add: fwc_clamp_def min_def max_def)

lemma add_mono: "c \<le> c' \<Longrightarrow> fwc_add mx mn c d \<le> fwc_add mx mn c' d"
  by (simp add: fwc_add_def clamp_minmax min_def max_def)

lemma clamp_id: "counter_ok mx mn c \<Longrightarrow> fwc_clamp mx mn c = c"
  by (simp add: counter_ok_def fwc_clamp_def)

lemma incr_funpow:
  "counter_ok mx mn c \<Longrightarrow> (fwc_incr mx mn ^^ n) c = min mx (c + int n)"
proof (induction n)
  case 0
  then show ?case by (simp add: counter_ok_def)
next
  case (Suc n)
  then show ?case by (simp add: fwc_incr_def fwc_add_def fwc_clamp_def counter_ok_def min_def)
qed

lemma decr_funpow:
  "counter_ok mx mn c \<Longrightarrow> (fwc_decr mx mn ^^ n) c = max mn (c - int n)"
proof (induction n)
  case 0
  then show ?case by (simp add: counter_ok_def)
next
  case (Suc n)
  then show ?case by (simp add: fwc_decr_def fwc_sub_def fwc_clamp_def counter_ok_def max_def)
qed

lemma decr_is_add: "fwc_decr mx mn c = fwc_add mx mn c (-1)"
  by (simp add: fwc_decr_def fwc_sub_def fwc_add_def)

end

text \<open>The instances the simulator declares.\<close>

interpretation c2: saturating "fw_max 2" 0
  by unfold_locales (simp add: fw_max_def)

interpretation c3: saturating "fw_max 3" 0
  by unfold_locales (simp add: fw_max_def)

interpretation c4: saturating "fw_max 4" 0
  by unfold_locales (simp add: fw_max_def)

interpretation c8: saturating "fw_max 8" 0
  by unfold_locales (simp add: fw_max_def)

interpretation c10: saturating "fw_max 10" 0
  by unfold_locales (simp add: fw_max_def)

interpretation c14: saturating "fw_max 14" 0
  by unfold_locales (simp add: fw_max_def)

interpretation s8: saturating "sfw_max 8" "sfw_min 8"
  by unfold_locales (simp add: sfw_max_def sfw_min_def)

abbreviation fw_ok :: "nat \<Rightarrow> counter \<Rightarrow> bool" where
  "fw_ok w \<equiv> counter_ok (fw_max w) 0"

abbreviation sfw_ok :: "nat \<Rightarrow> counter \<Rightarrow> bool" where
  "sfw_ok w \<equiv> counter_ok (sfw_max w) (sfw_min w)"

lemma fw_max_nonneg: "0 \<le> fw_max w"
  by (simp add: fw_max_def)

lemma fw_ops_ok [simp, range_intros]:
  "fw_ok w (fw_set w v)" "fw_ok w (fw_plus w c d)" "fw_ok w (fw_minus w c d)"
  using fw_max_nonneg [of w] by (simp_all add: counter_ok_def fw_defs fwc_defs fw_max_def)

lemma sfw_plus_ok [simp, range_intros]: "sfw_ok w (sfw_plus w c d)"
proof -
  have "(1::int) \<le> 2 ^ (w - 1)" by simp
  then have "- ((2::int) ^ (w - 1)) \<le> 2 ^ (w - 1) - 1" by linarith
  then show ?thesis by (auto simp: counter_ok_def sfw_plus_def fwc_defs sfw_max_def sfw_min_def)
qed

lemma fw_ok_0 [simp, range_intros]: "fw_ok w 0"
  by (simp add: counter_ok_def fw_max_nonneg)

text \<open>
  A saturating counter that is incremented any number of times holds the exact sum up to
  its maximum and the maximum from there on; decrementing is the mirror image, down to the minimum.
\<close>

theorem counter_saturates:
  assumes "mn \<le> mx" "counter_ok mx mn c"
  shows "(fwc_incr mx mn ^^ n) c = min mx (c + int n) \<and>
    (fwc_decr mx mn ^^ n) c = max mn (c - int n)"
proof -
  from assms(1) have "saturating mx mn" by (rule saturating.intro)
  with assms(2) show ?thesis by (simp add: saturating.incr_funpow saturating.decr_funpow)
qed

theorem counter_saturates_witness:
  "(fwc_incr 3 0 ^^ 5) 1 = min 3 (1 + int 5) \<and> (fwc_decr 3 0 ^^ 5) 1 = max 0 (1 - int 5)"
  by (rule counter_saturates) (simp_all add: counter_ok_def)

end
