(* ===== verification/Msl_Bits.thy ===== *)
theory Msl_Bits
  imports Prelude
begin

text \<open>
  The bit utilities of \<open>inc/msl/bits.h\<close>: integer logarithm, power-of-two tests and rounding,
  integer power, masks and splicing.  The templates are modelled on \<open>nat\<close>, with the number of
  value digits of the C++ type as an argument where the result depends on it; masks are 64-bit.
\<close>

section \<open>Logarithm and powers of two\<close>

text \<open>The loop \<open>while (n >>= 1) ++result\<close>.\<close>

fun lg2 :: "nat \<Rightarrow> nat" where
  "lg2 n = (if n div 2 = 0 then 0 else Suc (lg2 (n div 2)))"

declare lg2.simps [simp del]

definition is_power_of_2 :: "nat \<Rightarrow> bool" where
  "is_power_of_2 n = (n = 2 ^ lg2 n)"

lemma lg2_bounds:
  assumes "0 < n"
  shows "2 ^ lg2 n \<le> n \<and> n < 2 ^ Suc (lg2 n)"
  using assms
proof (induction n rule: lg2.induct)
  case (1 n)
  show ?case
  proof (cases "n div 2 = 0")
    case True
    with 1(2) have "n = 1" by simp
    then show ?thesis by (simp add: lg2.simps)
  next
    case False
    define x :: nat where "x = 2 ^ lg2 (n div 2)"
    from 1(1) False have "x \<le> n div 2" "n div 2 < 2 * x" by (auto simp: x_def)
    then have "2 * x \<le> n" "n < 4 * x" by arith+
    moreover have "lg2 n = Suc (lg2 (n div 2))" using False by (subst lg2.simps) simp
    ultimately show ?thesis by (simp add: x_def)
  qed
qed

lemma lg2_unique: "2 ^ k \<le> n \<Longrightarrow> n < 2 ^ Suc k \<Longrightarrow> lg2 n = k"
proof -
  assume k: "2 ^ k \<le> n" "n < 2 ^ Suc k"
  have "0 < n" using k(1) by (metis less_le_trans zero_less_numeral zero_less_power)
  from lg2_bounds [OF this] k have "(2::nat) ^ k < 2 ^ Suc (lg2 n)" "(2::nat) ^ lg2 n < 2 ^ Suc k"
    by (auto intro: le_less_trans)
  then have "k < Suc (lg2 n)" "lg2 n < Suc k"
    using power_less_imp_less_exp one_less_numeral_iff semiring_norm(76) by blast+
  then show ?thesis by simp
qed

lemma lg2_power [simp]: "lg2 (2 ^ k) = k"
  by (rule lg2_unique) simp_all

lemma is_power_of_2_iff: "is_power_of_2 n \<longleftrightarrow> (\<exists>k. n = 2 ^ k)"
  by (auto simp: is_power_of_2_def)

text \<open>
  \<open>next_pow2\<close> decrements, smears the top bit to the right by shifts of \<open>1, 2, 4, \<dots>\<close> and
  increments.  \<open>d\<close> is \<open>std::numeric_limits<T>::digits\<close>: the width of an unsigned type, one less for
  a signed type.  The decrement and the increment wrap around as for an unsigned type.
\<close>

fun smear :: "nat \<Rightarrow> nat \<Rightarrow> nat" where
  "smear 0 n = n"
| "smear (Suc i) n = (let m = smear i n in m OR drop_bit (2 ^ i) m)"

definition next_pow2 :: "nat \<Rightarrow> nat \<Rightarrow> nat" where
  "next_pow2 d n = (smear (lg2 d) ((n + 2 ^ d - 1) mod 2 ^ d) + 1) mod 2 ^ d"

lemma bit_smear: "bit (smear i n) p \<longleftrightarrow> (\<exists>j < 2 ^ i. bit n (p + j))"
proof (induction i arbitrary: p)
  case 0
  then show ?case by simp
next
  case (Suc i)
  have "bit (smear (Suc i) n) p \<longleftrightarrow>
      (\<exists>j < 2 ^ i. bit n (p + j)) \<or> (\<exists>j < 2 ^ i. bit n (2 ^ i + p + j))"
    by (simp add: Let_def bit_or_iff bit_drop_bit_eq Suc.IH)
  also have "\<dots> \<longleftrightarrow> (\<exists>j < 2 ^ Suc i. bit n (p + j))" (is "?l \<longleftrightarrow> ?r")
  proof
    assume ?l
    then show ?r
    proof
      assume "\<exists>j < 2 ^ i. bit n (p + j)"
      then obtain j where "j < 2 ^ i" "bit n (p + j)" by blast
      then show ?r by (intro exI [of _ j]) simp
    next
      assume "\<exists>j < 2 ^ i. bit n (2 ^ i + p + j)"
      then obtain j where "j < 2 ^ i" "bit n (2 ^ i + p + j)" by blast
      then show ?r by (intro exI [of _ "2 ^ i + j"]) (simp add: ac_simps)
    qed
  next
    assume ?r
    then obtain j where j: "j < 2 ^ Suc i" "bit n (p + j)" by blast
    show ?l
    proof (cases "j < 2 ^ i")
      case True
      with j show ?thesis by blast
    next
      case False
      with j have "j - 2 ^ i < 2 ^ i" "bit n (2 ^ i + p + (j - 2 ^ i))" by (simp_all add: ac_simps)
      then show ?thesis by blast
    qed
  qed
  finally show ?case .
qed

lemma bit_nat_top: "0 < n \<Longrightarrow> bit (n::nat) (lg2 n)"
proof -
  assume "0 < n"
  from lg2_bounds [OF this] have "n div 2 ^ lg2 n = 1"
    by (intro div_nat_eqI) simp_all
  then show ?thesis by (simp add: bit_iff_odd)
qed

lemma bit_nat_above: "lg2 n < p \<Longrightarrow> \<not> bit (n::nat) p"
proof (cases "n = 0")
  case False
  assume "lg2 n < p"
  then have "Suc (lg2 n) \<le> p" by simp
  then have "(2::nat) ^ Suc (lg2 n) \<le> 2 ^ p" by (rule power_increasing) simp
  with False lg2_bounds [of n] have "n < 2 ^ p" by simp
  then show ?thesis by (simp add: bit_iff_odd)
qed simp

lemma smear_all:
  assumes "0 < n" "lg2 n < 2 ^ i"
  shows "smear i n = mask (Suc (lg2 n))"
proof (rule bit_eqI)
  fix p
  have "(\<exists>j < 2 ^ i. bit n (p + j)) \<longleftrightarrow> p \<le> lg2 n"
  proof
    assume "\<exists>j < 2 ^ i. bit n (p + j)"
    then show "p \<le> lg2 n" using bit_nat_above [of n] by (metis le_add1 le_trans not_le)
  next
    assume "p \<le> lg2 n"
    with assms bit_nat_top show "\<exists>j < 2 ^ i. bit n (p + j)"
      by (intro exI [of _ "lg2 n - p"]) auto
  qed
  then show "bit (smear i n) p \<longleftrightarrow> bit (mask (Suc (lg2 n)) :: nat) p"
    by (simp only: bit_smear bit_mask_iff less_Suc_eq_le) simp
qed

text \<open>
  For the unsigned types, whose number of digits is a power of two, the result is the smallest
  power of two that is not below the argument.
\<close>

lemma next_pow2_eq:
  assumes d: "d = 2 ^ e" and n: "1 < n" "n \<le> 2 ^ (d - 1)"
  shows "next_pow2 d n = 2 ^ Suc (lg2 (n - 1))"
proof -
  have "0 < d" using d by simp
  have lt: "n - 1 < 2 ^ (d - 1)" using n by simp
  have "n - 1 < 2 ^ d" using lt by (rule less_le_trans) simp
  then have m: "(n + 2 ^ d - 1) mod 2 ^ d = n - 1" using n(1)
    by (metis Nat.add_diff_assoc2 mod_add_self2 mod_less less_imp_le)
  have "2 ^ lg2 (n - 1) \<le> n - 1" using lg2_bounds [of "n - 1"] n(1) by simp
  then have "(2::nat) ^ lg2 (n - 1) < 2 ^ (d - 1)" using lt by (rule le_less_trans)
  then have lg: "lg2 (n - 1) < d - 1"
    using power_less_imp_less_exp one_less_numeral_iff semiring_norm(76) by blast
  have "smear (lg2 d) (n - 1) = mask (Suc (lg2 (n - 1)))"
    by (rule smear_all) (use n lg d \<open>0 < d\<close> in simp_all)
  then have "smear (lg2 d) (n - 1) + 1 = 2 ^ Suc (lg2 (n - 1))"
    by (simp add: mask_eq_exp_minus_1)
  moreover have "(2::nat) ^ Suc (lg2 (n - 1)) < 2 ^ d"
    using lg \<open>0 < d\<close> by (intro power_strict_increasing) simp_all
  ultimately show ?thesis by (simp only: next_pow2_def m mod_less)
qed

lemma next_pow2_1: "d = 2 ^ e \<Longrightarrow> next_pow2 d 1 = 1"
proof -
  assume d: "d = 2 ^ e"
  have "smear i 0 = 0" for i by (induction i) (simp_all add: Let_def)
  moreover have "(1::nat) < 2 ^ d" using d by (intro one_less_power) simp_all
  ultimately show ?thesis using d by (simp add: next_pow2_def)
qed

section \<open>Integer power\<close>

text \<open>Square and multiply, with the break in the middle of the loop.  Overflow is excluded.\<close>

fun ipow_loop :: "int \<Rightarrow> nat \<Rightarrow> int \<Rightarrow> int" where
  "ipow_loop base exp result =
     (let result = (if odd exp then result * base else result); exp = exp div 2
      in if exp = 0 then result else ipow_loop (base * base) exp result)"

declare ipow_loop.simps [simp del]

definition ipow :: "int \<Rightarrow> nat \<Rightarrow> int" where
  "ipow base exp = ipow_loop base exp 1"

lemma ipow_loop_eq: "ipow_loop base exp result = result * base ^ exp"
proof (induction base exp result rule: ipow_loop.induct)
  case (1 base exp result)
  have "base ^ exp = base ^ (exp mod 2 + 2 * (exp div 2))" by simp
  then have split: "base ^ exp = base ^ (exp mod 2) * (base * base) ^ (exp div 2)"
    by (simp only: power_add power_mult power2_eq_square)
  show ?case
  proof (cases "exp div 2 = 0")
    case True
    then have "exp = 0 \<or> exp = 1" by auto
    with True show ?thesis by (subst ipow_loop.simps) (auto simp: Let_def)
  next
    case False
    with 1 have "ipow_loop base exp result =
        (if odd exp then result * base else result) * (base * base) ^ (exp div 2)"
      by (subst ipow_loop.simps) (simp add: Let_def)
    with split show ?thesis by (cases "odd exp") (auto simp: odd_iff_mod_2_eq_one)
  qed
qed

section \<open>Masks\<close>

text \<open>
  \<open>begin - end\<close> is computed in \<open>uint64_t\<close>: when \<open>begin\<close> is below \<open>end\<close> it wraps to a number of
  at least 64, and the function returns the all-ones word.
\<close>

definition bitmask :: "nat \<Rightarrow> nat \<Rightarrow> 64 word" where
  "bitmask b e = (if b < e \<or> 64 \<le> b - e then - 1 else push_bit e (push_bit (b - e) 1 - 1))"

definition bitmask_to :: "nat \<Rightarrow> 64 word" where
  "bitmask_to b = bitmask b 0"

definition splice_bits :: "64 word \<Rightarrow> 64 word \<Rightarrow> nat \<Rightarrow> nat \<Rightarrow> 64 word" where
  "splice_bits upper lower bu bl =
     (upper AND NOT (bitmask bu bl)) OR (lower AND bitmask bu bl)"

lemma bitmask_mask: "bitmask b e = (if b < e \<or> 64 \<le> b - e then - 1 else push_bit e (mask (b - e)))"
  by (simp add: bitmask_def mask_eq_exp_minus_1)

lemma bit_bitmask:
  "e \<le> b \<Longrightarrow> bit (bitmask b e) n \<longleftrightarrow> n < 64 \<and> (64 \<le> b - e \<or> (e \<le> n \<and> n < b))"
  by (auto simp: bitmask_mask bit_push_bit_iff bit_mask_iff)

lemma bit_bitmask_to: "bit (bitmask_to b) n \<longleftrightarrow> n < 64 \<and> n < b"
  by (auto simp: bitmask_to_def bit_bitmask)

lemma bitmask_to_mask: "bitmask_to b = mask (min b 64)"
  by (rule bit_eqI) (auto simp: bit_bitmask_to bit_mask_iff)

lemma bit_splice_bits:
  assumes "bl \<le> bu" "bu \<le> 64"
  shows "bit (splice_bits upper lower bu bl) n \<longleftrightarrow>
    (if bl \<le> n \<and> n < bu then bit lower n else bit upper n)"
proof (cases "n < 64")
  case True
  have "64 \<le> bu - bl \<longleftrightarrow> bu = 64 \<and> bl = 0" using assms by auto
  with assms True show ?thesis
    by (auto simp: splice_bits_def bit_or_iff bit_and_iff bit_not_iff bit_bitmask)
next
  case False
  then show ?thesis by (auto dest: bit_imp_le_length)
qed

section \<open>Properties\<close>

text \<open>
  On the unsigned types (whose number of digits is a power of two), \<open>next_pow2\<close> returns the
  least power of two that is not below its argument, as its comment says.
\<close>

theorem next_pow2_least:
  assumes "d = 2 ^ e" "0 < n" "n \<le> 2 ^ (d - 1)"
  shows "is_power_of_2 (next_pow2 d n) \<and> n \<le> next_pow2 d n \<and>
    (\<forall>k. n \<le> 2 ^ k \<longrightarrow> next_pow2 d n \<le> 2 ^ k)"
proof (cases "n = 1")
  case True
  with assms(1) next_pow2_1 show ?thesis by (auto simp: is_power_of_2_def lg2.simps)
next
  case False
  with assms have n: "1 < n" and eq: "next_pow2 d n = 2 ^ Suc (lg2 (n - 1))"
    by (simp_all add: next_pow2_eq)
  from n lg2_bounds [of "n - 1"] have b: "2 ^ lg2 (n - 1) \<le> n - 1" "n - 1 < 2 ^ Suc (lg2 (n - 1))"
    by simp_all
  have "2 ^ Suc (lg2 (n - 1)) \<le> (2::nat) ^ k" if "n \<le> 2 ^ k" for k
  proof -
    from b(1) n that have "(2::nat) ^ lg2 (n - 1) < 2 ^ k" by linarith
    then have "lg2 (n - 1) < k" by (rule power_less_imp_less_exp [rotated]) simp
    then show ?thesis by (intro power_increasing) simp_all
  qed
  with b(2) n eq show ?thesis
    by (auto simp only: is_power_of_2_iff)
qed

theorem next_pow2_least_witness:
  "is_power_of_2 (next_pow2 32 5) \<and> 5 \<le> next_pow2 32 5"
  using next_pow2_least [of 32 5 5] by simp

text \<open>
  On a signed 32-bit \<open>int\<close> the template smears by 1, 2, 4 and 8 only, because the number of
  digits is 31 and its logarithm is 4; the result for \<open>2^17 + 1\<close> is \<open>2^18 - 3\<close>, which is not a
  power of two.
\<close>

theorem next_pow2_signed: "next_pow2 31 131073 = 262141 \<and> \<not> is_power_of_2 (next_pow2 31 131073)"
proof -
  have "smear (Suc 0) 131072 = 196608" by (simp add: Let_def drop_bit_eq_div)
  then have "smear (Suc (Suc 0)) 131072 = 245760"
    by (simp only: smear.simps Let_def drop_bit_eq_div) simp
  then have "smear (Suc (Suc (Suc 0))) 131072 = 261120"
    by (simp only: smear.simps Let_def drop_bit_eq_div) simp
  then have "smear (Suc (Suc (Suc (Suc 0)))) 131072 = 262140"
    by (simp only: smear.simps Let_def drop_bit_eq_div) simp
  moreover have "lg2 31 = Suc (Suc (Suc (Suc 0)))" by (rule lg2_unique) simp_all
  ultimately have "next_pow2 31 131073 = 262141"
    by (simp add: next_pow2_def del: smear.simps)
  moreover have "lg2 262141 = 17" by (rule lg2_unique) simp_all
  ultimately show ?thesis by (simp add: is_power_of_2_def)
qed

text \<open>
  \<open>ipow\<close> returns for every exponent, and its result is the power, barring overflow of the
  64-bit products.
\<close>

theorem ipow_eq: "ipow base exp = base ^ exp"
  by (simp add: ipow_def ipow_loop_eq)

end
