(* ===== verification/Instruction.thy ===== *)
theory Instruction
  imports Prelude
begin

text \<open>
  The instruction model of \<open>inc/instruction.h\<close> and \<open>inc/trace_instruction.h\<close>: a trace record, the
  constructor of \<open>ooo_model_instr\<close> that drops the empty slots of the trace record and decides from
  the register lists which kind of branch the instruction is, and the stack-pointer folding that
  the core applies first (\<open>src/ooo_cpu.cc\<close>).
\<close>

section \<open>Data\<close>

datatype branch_type =
  BRANCH_DIRECT_JUMP | BRANCH_INDIRECT | BRANCH_CONDITIONAL | BRANCH_DIRECT_CALL |
  BRANCH_INDIRECT_CALL | BRANCH_RETURN | BRANCH_OTHER | NOT_BRANCH

definition REG_STACK_POINTER :: "8 word" where "REG_STACK_POINTER = 6"
definition REG_FLAGS :: "8 word" where "REG_FLAGS = 25"
definition REG_INSTRUCTION_POINTER :: "8 word" where "REG_INSTRUCTION_POINTER = 26"

text \<open>A record of the trace; the two formats differ only in the number of slots.\<close>

record input_instr =
  in_ip :: address
  in_is_branch :: bool
  in_branch_taken :: bool
  in_destination_registers :: "8 word list"
  in_source_registers :: "8 word list"
  in_destination_memory :: "address list"
  in_source_memory :: "address list"

text \<open>
  The part of \<open>ooo_model_instr\<close> that the constructor fills; the theory of the core extends it with the
  state of an instruction in the pipeline.  Registers are architectural ids here; the renamer replaces them
  by physical ids, so they have the wider type \<open>int16_t\<close>.
\<close>

record ooo_model_instr =
  instr_ip :: address
  is_branch :: bool
  branch_taken :: bool
  branch :: branch_type
  destination_registers :: "int list"
  source_registers :: "int list"
  destination_memory :: "address list"
  source_memory :: "address list"

text \<open>The branch kinds are ordered by their values.\<close>

primrec branch_code :: "branch_type \<Rightarrow> nat" where
  "branch_code BRANCH_DIRECT_JUMP = 0"
| "branch_code BRANCH_INDIRECT = 1"
| "branch_code BRANCH_CONDITIONAL = 2"
| "branch_code BRANCH_DIRECT_CALL = 3"
| "branch_code BRANCH_INDIRECT_CALL = 4"
| "branch_code BRANCH_RETURN = 5"
| "branch_code BRANCH_OTHER = 6"
| "branch_code NOT_BRANCH = 7"

lemma branch_code_inject: "branch_code a = branch_code b \<longleftrightarrow> a = b"
  by (cases a; cases b) simp_all

instantiation branch_type :: linorder
begin

definition less_eq_branch_type :: "branch_type \<Rightarrow> branch_type \<Rightarrow> bool" where
  "less_eq_branch_type a b = (branch_code a \<le> branch_code b)"

definition less_branch_type :: "branch_type \<Rightarrow> branch_type \<Rightarrow> bool" where
  "less_branch_type a b = (branch_code a < branch_code b)"

instance
  by standard (auto simp: less_eq_branch_type_def less_branch_type_def branch_code_inject)

end

section \<open>The constructor\<close>

definition reads_other_reg :: "8 word \<Rightarrow> bool" where
  "reads_other_reg r \<longleftrightarrow>
     r \<noteq> REG_STACK_POINTER \<and> r \<noteq> REG_FLAGS \<and> r \<noteq> REG_INSTRUCTION_POINTER"

text \<open>The chain of tests, each result with the branch flag, the direction and the kind.\<close>

definition classify_branch ::
  "bool \<Rightarrow> bool \<Rightarrow> 8 word list \<Rightarrow> 8 word list \<Rightarrow> bool \<times> bool \<times> branch_type" where
  "classify_branch trace_is_branch trace_taken dst src =
     (let writes_sp = REG_STACK_POINTER \<in> set dst;
          writes_ip = REG_INSTRUCTION_POINTER \<in> set dst;
          reads_sp = REG_STACK_POINTER \<in> set src;
          reads_flags = REG_FLAGS \<in> set src;
          reads_ip = REG_INSTRUCTION_POINTER \<in> set src;
          reads_other = list_ex reads_other_reg src
      in if \<not> reads_sp \<and> \<not> reads_flags \<and> writes_ip \<and> \<not> reads_other
           then (True, True, BRANCH_DIRECT_JUMP)
         else if \<not> reads_sp \<and> \<not> reads_ip \<and> \<not> reads_flags \<and> writes_ip \<and> reads_other
           then (True, True, BRANCH_INDIRECT)
         else if \<not> reads_sp \<and> reads_ip \<and> \<not> writes_sp \<and> writes_ip \<and> (reads_flags \<or> reads_other)
           then (True, trace_taken, BRANCH_CONDITIONAL)
         else if reads_sp \<and> reads_ip \<and> writes_sp \<and> writes_ip \<and> \<not> reads_flags \<and> \<not> reads_other
           then (True, True, BRANCH_DIRECT_CALL)
         else if reads_sp \<and> reads_ip \<and> writes_sp \<and> writes_ip \<and> \<not> reads_flags \<and> reads_other
           then (True, True, BRANCH_INDIRECT_CALL)
         else if reads_sp \<and> \<not> reads_ip \<and> writes_sp \<and> writes_ip
           then (True, True, BRANCH_RETURN)
         else if writes_ip
           then (True, trace_taken, BRANCH_OTHER)
         else (trace_is_branch, False, NOT_BRANCH))"

definition make_instr :: "input_instr \<Rightarrow> ooo_model_instr" where
  "make_instr i =
     (let dst = filter (\<lambda>r. r \<noteq> 0) (in_destination_registers i);
          src = filter (\<lambda>r. r \<noteq> 0) (in_source_registers i);
          dmem = filter (\<lambda>a. a \<noteq> 0) (in_destination_memory i);
          smem = filter (\<lambda>a. a \<noteq> 0) (in_source_memory i)
      in case classify_branch (in_is_branch i) (in_branch_taken i) dst src of
           (isb, taken, kind) \<Rightarrow>
             \<lparr>instr_ip = in_ip i, is_branch = isb, branch_taken = taken, branch = kind,
              destination_registers = map uint dst, source_registers = map uint src,
              destination_memory = dmem, source_memory = smem\<rparr>)"

definition num_mem_ops :: "'a ooo_model_instr_scheme \<Rightarrow> nat" where
  "num_mem_ops i = length (destination_memory i) + length (source_memory i)"

text \<open>
  \<open>do_stack_pointer_folding\<close>: the stack pointer is dropped from the destinations of an
  instruction that writes it, unless it is neither a branch nor a memory access and reads another
  register.
\<close>

definition reads_other_id :: "int \<Rightarrow> bool" where
  "reads_other_id r \<longleftrightarrow>
     r \<noteq> uint REG_STACK_POINTER \<and> r \<noteq> uint REG_FLAGS \<and> r \<noteq> uint REG_INSTRUCTION_POINTER"

definition do_stack_pointer_folding :: "'a ooo_model_instr_scheme \<Rightarrow> 'a ooo_model_instr_scheme" where
  "do_stack_pointer_folding i =
     (if uint REG_STACK_POINTER \<in> set (destination_registers i) then
        (let reads_other = list_ex reads_other_id (source_registers i)
         in if is_branch i \<or> \<not> (destination_memory i = [] \<and> source_memory i = []) \<or> \<not> reads_other
            then i\<lparr>destination_registers :=
                     filter (\<lambda>r. r \<noteq> uint REG_STACK_POINTER) (destination_registers i)\<rparr>
            else i)
      else i)"

section \<open>Properties\<close>

lemma classify_branch_kind:
  assumes "classify_branch b t dst src = (isb, taken, kind)"
  shows "kind = NOT_BRANCH \<longleftrightarrow> REG_INSTRUCTION_POINTER \<notin> set dst"
    and "kind \<noteq> NOT_BRANCH \<Longrightarrow> isb"
    and "kind = NOT_BRANCH \<Longrightarrow> isb = b \<and> \<not> taken"
    and "kind \<noteq> NOT_BRANCH \<Longrightarrow> kind \<noteq> BRANCH_CONDITIONAL \<Longrightarrow> kind \<noteq> BRANCH_OTHER \<Longrightarrow> taken"
    and "kind = BRANCH_CONDITIONAL \<or> kind = BRANCH_OTHER \<Longrightarrow> taken = t"
  using assms by (auto simp: classify_branch_def Let_def split: if_splits)

text \<open>
  Exactly the instructions that write the instruction pointer are classified as branches of some
  kind; every kind but conditional and other forces the direction to taken, and those two keep the
  direction of the trace, while a non-branch never counts as taken.
\<close>

theorem make_instr_branch_kind:
  "(branch (make_instr i) = NOT_BRANCH \<longleftrightarrow>
      REG_INSTRUCTION_POINTER \<notin> set (in_destination_registers i)) \<and>
   branch_taken (make_instr i) =
     (case branch (make_instr i) of NOT_BRANCH \<Rightarrow> False
      | BRANCH_CONDITIONAL \<Rightarrow> in_branch_taken i | BRANCH_OTHER \<Rightarrow> in_branch_taken i | _ \<Rightarrow> True)"
proof -
  obtain isb taken kind where c: "classify_branch (in_is_branch i) (in_branch_taken i)
      (filter (\<lambda>r. r \<noteq> 0) (in_destination_registers i))
      (filter (\<lambda>r. r \<noteq> 0) (in_source_registers i)) = (isb, taken, kind)"
    by (metis prod_cases3)
  have "REG_INSTRUCTION_POINTER \<noteq> 0" by (simp add: REG_INSTRUCTION_POINTER_def)
  with classify_branch_kind [OF c] c show ?thesis
    by (auto simp: make_instr_def Let_def split: branch_type.split)
qed

text \<open>
  A call, a return and a jump written in the trace format are recognised as such: the kinds are
  decided by the registers alone.
\<close>

lemma classify_call: "classify_branch b t [26, 6] [26, 6] = (True, True, BRANCH_DIRECT_CALL)"
  and classify_return: "classify_branch b t [26, 6] [6] = (True, True, BRANCH_RETURN)"
  and classify_conditional: "classify_branch b t [26] [26, 25] = (True, t, BRANCH_CONDITIONAL)"
  by (simp_all add: classify_branch_def reads_other_reg_def REG_STACK_POINTER_def REG_FLAGS_def
      REG_INSTRUCTION_POINTER_def)

lemma folding_keeps_other_registers:
  "r \<noteq> uint REG_STACK_POINTER \<Longrightarrow>
    r \<in> set (destination_registers (do_stack_pointer_folding i)) \<longleftrightarrow> r \<in> set (destination_registers i)"
  by (auto simp: do_stack_pointer_folding_def Let_def)

lemma folding_branch_drops_sp:
  "is_branch i \<Longrightarrow> uint REG_STACK_POINTER \<notin> set (destination_registers (do_stack_pointer_folding i))"
  by (auto simp: do_stack_pointer_folding_def Let_def)

end
