(* ===== verification/Branch_Predictor.thy ===== *)
theory Branch_Predictor
  imports Instruction
begin

text \<open>
  The interface \<open>champsim::modules::branch_predictor\<close> (\<open>inc/modules.h\<close>) as the core uses it
  (\<open>O3_CPU::do_predict_branch\<close>): \<open>predict_branch\<close> is called for every instruction, and for an
  instruction that is a branch \<open>last_branch_result\<close> follows at once with the outcome.  A predictor
  that calls \<open>rand()\<close> receives the value drawn for the update in the event.
\<close>

record branch_event =
  ev_ip :: address
  ev_branch :: bool
  ev_target :: address
  ev_taken :: bool
  ev_type :: branch_type
  ev_rand :: "32 word"

type_synonym 's predict_fun = "address \<Rightarrow> 's \<Rightarrow> bool \<times> 's"
type_synonym 's update_fun = "32 word \<Rightarrow> address \<Rightarrow> address \<Rightarrow> bool \<Rightarrow> branch_type \<Rightarrow> 's \<Rightarrow> 's"

definition bp_step :: "'s predict_fun \<Rightarrow> 's update_fun \<Rightarrow> branch_event \<Rightarrow> 's \<Rightarrow> 's" where
  "bp_step predict update e s =
     (let s = snd (predict (ev_ip e) s)
      in if ev_branch e then update (ev_rand e) (ev_ip e) (ev_target e) (ev_taken e) (ev_type e) s
         else s)"

fun bp_run :: "'s predict_fun \<Rightarrow> 's update_fun \<Rightarrow> branch_event list \<Rightarrow> 's \<Rightarrow> 's" where
  "bp_run predict update [] s = s"
| "bp_run predict update (e # es) s = bp_run predict update es (bp_step predict update e s)"

text \<open>The directions predicted along a run.\<close>

fun bp_predictions :: "'s predict_fun \<Rightarrow> 's update_fun \<Rightarrow> branch_event list \<Rightarrow> 's \<Rightarrow> bool list" where
  "bp_predictions predict update [] s = []"
| "bp_predictions predict update (e # es) s =
     fst (predict (ev_ip e) s) # bp_predictions predict update es (bp_step predict update e s)"

text \<open>
  The contract every predictor module keeps: its invariant (counters within their widths,
  indices within their tables) holds initially and after every call.  The update may rely on
  being called right after the prediction for the same address.
\<close>

locale branch_predictor =
  fixes ok :: "'s \<Rightarrow> bool"
    and predict :: "'s predict_fun"
    and update :: "'s update_fun"
    and init :: 's
  assumes init_ok: "ok init"
    and predict_ok: "ok s \<Longrightarrow> ok (snd (predict ip s))"
    and update_ok: "ok s \<Longrightarrow> ok (update r ip tgt taken ty (snd (predict ip s)))"
begin

lemma step_ok: "ok s \<Longrightarrow> ok (bp_step predict update e s)"
  by (simp add: bp_step_def Let_def predict_ok update_ok)

lemma run_ok: "ok s \<Longrightarrow> ok (bp_run predict update es s)"
  by (induction es arbitrary: s) (simp_all add: step_ok)

lemma run_init_ok: "ok (bp_run predict update es init)"
  by (rule run_ok) (rule init_ok)

end

text \<open>Predictors whose prediction does not change the state: a run only sees the branches.\<close>

locale pure_branch_predictor = branch_predictor +
  assumes predict_pure: "snd (predict ip s) = s"
begin

lemma step_non_branch: "\<not> ev_branch e \<Longrightarrow> bp_step predict update e s = s"
  by (simp add: bp_step_def predict_pure)

lemma run_filter_branches:
  "bp_run predict update es s = bp_run predict update (filter ev_branch es) s"
  by (induction es arbitrary: s) (simp_all add: step_non_branch)

end

lemma bp_run_append:
  "bp_run predict update (es @ fs) s = bp_run predict update fs (bp_run predict update es s)"
  by (induction es arbitrary: s) simp_all

end
