(* ===== verification/Loop_Predictor.thy ===== *)
theory Loop_Predictor
  imports Fwcounter Branch_Predictor
begin

text \<open>
  The loop predictor of L-TAGE, \<open>branch/LTage/loop_predictor.h\<close>: 64 sets of 4 entries, each with
  the iteration count of the last execution of a loop, the current count, a tag, a confidence and
  an age.
\<close>

section \<open>State\<close>

definition NUM_WAYS :: nat where "NUM_WAYS = 4"
definition NUM_SETS :: nat where "NUM_SETS = 64"
definition INDEX_WIDTH :: nat where "INDEX_WIDTH = 6"
definition TAG_WIDTH :: nat where "TAG_WIDTH = 14"
definition ITER_WIDTH :: nat where "ITER_WIDTH = 14"
definition INIT_AGE :: int where "INIT_AGE = 255"

lemmas loop_params [op_defs] =
  NUM_WAYS_def NUM_SETS_def INDEX_WIDTH_def TAG_WIDTH_def ITER_WIDTH_def INIT_AGE_def

record loop_entry =
  past_iter_cnt :: counter
  curr_iter_cnt :: counter
  loop_tag :: "32 word"
  confidence :: counter
  age :: counter

definition loop_entry_reset :: loop_entry where
  "loop_entry_reset = \<lparr>past_iter_cnt = fw_set ITER_WIDTH 0, curr_iter_cnt = fw_set ITER_WIDTH 0,
     loop_tag = 0, confidence = fw_set 2 0, age = fw_set 8 0\<rparr>"

record LoopBranchInfo =
  hit :: bool
  info_index :: nat
  info_way :: nat
  prediction :: bool
  is_valid_loop_prediction :: bool

definition LoopBranchInfo_reset :: LoopBranchInfo where
  "LoopBranchInfo_reset = \<lparr>hit = False, info_index = 0, info_way = 0, prediction = False,
     is_valid_loop_prediction = False\<rparr>"

record LoopPredictor =
  loop_component :: "loop_entry array array"
  loop_branch_info :: LoopBranchInfo
  loop_prediction :: bool

section \<open>Operations\<close>

text \<open>
  Initialisation resets the entries only.  The other members hold whatever they held before
  (indeterminate values in a fresh object), which the argument stands for.
\<close>

definition loop_predictor_init :: "LoopPredictor \<Rightarrow> LoopPredictor" where
  "loop_predictor_init p = p\<lparr>loop_component :=
     (\<lambda>i j. if i < NUM_SETS \<and> j < NUM_WAYS then loop_entry_reset else loop_component p i j)\<rparr>"

definition loop_index :: "address \<Rightarrow> nat" where
  "loop_index ip = unat ip mod NUM_SETS"

definition loop_tag_of :: "address \<Rightarrow> 32 word" where
  "loop_tag_of ip = ucast (drop_bit INDEX_WIDTH ip AND (push_bit TAG_WIDTH 1 - 1))"

definition loop_predict :: "address \<Rightarrow> LoopPredictor \<Rightarrow> bool \<times> LoopPredictor" where
  "loop_predict ip p =
     (let index = loop_index ip; tag = loop_tag_of ip; info = loop_branch_info p
      in case find_if (\<lambda>j. loop_tag (loop_component p index j) = tag) 0 NUM_WAYS of
        Some j \<Rightarrow>
          (let entry = loop_component p index j;
               pred = (if curr_iter_cnt entry = past_iter_cnt entry then False else True)
           in (pred, p\<lparr>loop_prediction := pred,
                 loop_branch_info := info\<lparr>hit := True, info_index := index, info_way := j,
                   is_valid_loop_prediction := fwc_eq (confidence entry) 3,
                   prediction := pred\<rparr>\<rparr>))
      | None \<Rightarrow>
          (False, p\<lparr>loop_prediction := False,
             loop_branch_info := info\<lparr>hit := False, is_valid_loop_prediction := False\<rparr>\<rparr>))"

text \<open>The allocation on a taken miss: the first way of age 0, or else every way ages.\<close>

definition loop_allocate :: "address \<Rightarrow> LoopPredictor \<Rightarrow> LoopPredictor" where
  "loop_allocate ip p =
     (let index = loop_index ip; tag = loop_tag_of ip; ways = loop_component p index
      in case find_if (\<lambda>j. fwc_eq (age (ways j)) 0) 0 NUM_WAYS of
        Some j \<Rightarrow> p\<lparr>loop_component := (loop_component p)(index := ways(j :=
            (ways j)\<lparr>past_iter_cnt := fw_set ITER_WIDTH 0, curr_iter_cnt := fw_set ITER_WIDTH 1,
              confidence := fw_set 2 0, loop_tag := tag, age := fw_set 8 INIT_AGE\<rparr>))\<rparr>
      | None \<Rightarrow> p\<lparr>loop_component := (loop_component p)(index :=
            (\<lambda>j. if j < NUM_WAYS then (ways j)\<lparr>age := fw_minus 8 (age (ways j)) 1\<rparr> else ways j))\<rparr>)"

text \<open>An entry that turned out not to belong to a regular loop.\<close>

definition loop_irregular :: "int \<Rightarrow> loop_entry \<Rightarrow> loop_entry" where
  "loop_irregular cnt e = e\<lparr>past_iter_cnt := fw_set ITER_WIDTH 0,
     curr_iter_cnt := fw_set ITER_WIDTH cnt, age := fw_set 8 0, confidence := fw_set 2 0\<rparr>"

text \<open>The training of the entry that hit, first for a valid prediction, then otherwise.\<close>

definition loop_train_valid :: "bool \<Rightarrow> bool \<Rightarrow> loop_entry \<Rightarrow> loop_entry" where
  "loop_train_valid pred taken e =
     (if pred = taken \<and> taken then
        e\<lparr>age := fw_plus 8 (age e) 1, curr_iter_cnt := fw_plus ITER_WIDTH (curr_iter_cnt e) 1\<rparr>
      else if pred = taken \<and> \<not> taken then
        e\<lparr>age := fw_plus 8 (age e) 1, past_iter_cnt := curr_iter_cnt e,
          curr_iter_cnt := fw_set ITER_WIDTH 0, confidence := fw_plus 2 (confidence e) 1\<rparr>
      else if pred \<noteq> taken \<and> taken then loop_irregular 1 e
      else loop_irregular 0 e)"

definition loop_train :: "bool \<Rightarrow> loop_entry \<Rightarrow> loop_entry" where
  "loop_train taken e =
     (if taken then
        (if past_iter_cnt e = 0 then
           e\<lparr>curr_iter_cnt := fw_plus ITER_WIDTH (curr_iter_cnt e) 1\<rparr>
         else if curr_iter_cnt e + 1 > past_iter_cnt e then loop_irregular 1 e
         else e\<lparr>curr_iter_cnt := fw_plus ITER_WIDTH (curr_iter_cnt e) 1\<rparr>)
      else
        (if past_iter_cnt e = 0 then
           e\<lparr>past_iter_cnt := curr_iter_cnt e, curr_iter_cnt := fw_set ITER_WIDTH 0,
             confidence := fw_plus 2 (confidence e) 1\<rparr>
         else if past_iter_cnt e = curr_iter_cnt e then
           e\<lparr>past_iter_cnt := curr_iter_cnt e, curr_iter_cnt := fw_set ITER_WIDTH 0,
             confidence := fw_plus 2 (confidence e) 1\<rparr>
         else loop_irregular 0 e))"

definition loop_last_branch_result ::
  "address \<Rightarrow> address \<Rightarrow> bool \<Rightarrow> branch_type \<Rightarrow> LoopPredictor \<Rightarrow> LoopPredictor" where
  "loop_last_branch_result ip branch_target taken ty p =
     (let info = loop_branch_info p
      in if \<not> hit info then (if \<not> taken then p else loop_allocate ip p)
         else
           (let index = info_index info; way = info_way info;
                entry = loop_component p index way;
                entry' = (if is_valid_loop_prediction info
                          then loop_train_valid (prediction info) taken entry
                          else loop_train taken entry)
            in p\<lparr>loop_component :=
                   (loop_component p)(index := (loop_component p index)(way := entry'))\<rparr>))"

section \<open>Well-formedness\<close>

definition loop_entry_ok :: "loop_entry \<Rightarrow> bool" where
  "loop_entry_ok e \<longleftrightarrow> fw_ok ITER_WIDTH (past_iter_cnt e) \<and> fw_ok ITER_WIDTH (curr_iter_cnt e) \<and>
     fw_ok 2 (confidence e) \<and> fw_ok 8 (age e)"

definition loop_ok :: "LoopPredictor \<Rightarrow> bool" where
  "loop_ok p \<longleftrightarrow> (\<forall>i < NUM_SETS. \<forall>j < NUM_WAYS. loop_entry_ok (loop_component p i j))"

lemma loop_index_less [simp, range_intros]: "loop_index ip < NUM_SETS"
  by (simp add: loop_index_def NUM_SETS_def)

lemma loop_entry_reset_ok [simp]: "loop_entry_ok loop_entry_reset"
  by (simp add: loop_entry_ok_def loop_entry_reset_def)

lemma loop_irregular_ok [simp]: "loop_entry_ok (loop_irregular c e)"
  by (simp add: loop_entry_ok_def loop_irregular_def)

lemma loop_train_valid_ok: "loop_entry_ok e \<Longrightarrow> loop_entry_ok (loop_train_valid b t e)"
  unfolding loop_train_valid_def by (auto simp: loop_entry_ok_def loop_irregular_def)

lemma loop_train_ok: "loop_entry_ok e \<Longrightarrow> loop_entry_ok (loop_train t e)"
  unfolding loop_train_def by (auto simp: loop_entry_ok_def loop_irregular_def)

lemma loop_init_ok: "loop_ok (loop_predictor_init p)"
  by (simp add: loop_ok_def loop_predictor_init_def)

lemma loop_component_predict [simp]:
  "loop_component (snd (loop_predict ip p)) = loop_component p"
  by (simp add: loop_predict_def Let_def split: option.split)

lemma loop_predict_ok: "loop_ok p \<Longrightarrow> loop_ok (snd (loop_predict ip p))"
  by (simp add: loop_ok_def)

text \<open>Every table access of the update is in range: a hit records a way of the set.\<close>

lemma loop_predict_hit_range:
  assumes "hit (loop_branch_info (snd (loop_predict ip p)))"
  shows "info_index (loop_branch_info (snd (loop_predict ip p))) = loop_index ip"
    and "info_way (loop_branch_info (snd (loop_predict ip p))) < NUM_WAYS"
  using assms by (auto simp: loop_predict_def Let_def split: option.splits dest: find_if_SomeD)

lemma loop_allocate_ok: "loop_ok p \<Longrightarrow> loop_ok (loop_allocate ip p)"
  by (auto simp: loop_ok_def loop_allocate_def Let_def loop_entry_ok_def split: option.split)

lemma loop_update_ok:
  assumes "loop_ok p"
  shows "loop_ok (loop_last_branch_result ip tgt taken ty (snd (loop_predict ip p)))"
proof (cases "hit (loop_branch_info (snd (loop_predict ip p)))")
  case True
  with loop_predict_hit_range [OF True] assms show ?thesis
    by (auto simp: loop_last_branch_result_def Let_def loop_ok_def loop_train_ok loop_train_valid_ok)
next
  case False
  with assms show ?thesis
    by (simp add: loop_last_branch_result_def loop_predict_ok loop_allocate_ok)
qed

abbreviation loop_update :: "LoopPredictor update_fun" where
  "loop_update r \<equiv> loop_last_branch_result"

interpretation loop: branch_predictor loop_ok loop_predict loop_update "loop_predictor_init p"
  by unfold_locales (simp_all add: loop_init_ok loop_predict_ok loop_update_ok)

section \<open>Following one branch\<close>

text \<open>The way and the entry that a branch address hits.\<close>

definition loop_tracks :: "LoopPredictor \<Rightarrow> address \<Rightarrow> nat \<Rightarrow> loop_entry \<Rightarrow> bool" where
  "loop_tracks p ip w e \<longleftrightarrow>
     find_if (\<lambda>j. loop_tag (loop_component p (loop_index ip) j) = loop_tag_of ip) 0 NUM_WAYS = Some w \<and>
     loop_component p (loop_index ip) w = e"

definition loop_verdict :: "address \<Rightarrow> LoopPredictor \<Rightarrow> bool \<times> bool" where
  "loop_verdict ip p =
     (case loop_predict ip p of (pred, q) \<Rightarrow> (is_valid_loop_prediction (loop_branch_info q), pred))"

text \<open>The effect of one outcome on the entry that is hit.\<close>

definition loop_entry_step :: "bool \<Rightarrow> loop_entry \<Rightarrow> loop_entry" where
  "loop_entry_step taken e =
     (if confidence e = 3 then loop_train_valid (curr_iter_cnt e \<noteq> past_iter_cnt e) taken e
      else loop_train taken e)"

lemma loop_tag_step [simp]: "loop_tag (loop_entry_step taken e) = loop_tag e"
  by (simp add: loop_entry_step_def loop_train_valid_def loop_train_def loop_irregular_def)

lemma loop_tracks_verdict:
  "loop_tracks p ip w e \<Longrightarrow>
    loop_verdict ip p = (confidence e = 3, curr_iter_cnt e \<noteq> past_iter_cnt e)"
  by (auto simp: loop_verdict_def loop_tracks_def loop_predict_def Let_def fwc_eq_def)

lemma loop_tracks_update:
  assumes t: "loop_tracks p ip w e"
  shows "loop_tracks (loop_last_branch_result ip tgt taken ty (snd (loop_predict ip p))) ip w
    (loop_entry_step taken e)"
proof -
  have tag: "loop_tag e = loop_tag_of ip"
    using t by (auto simp: loop_tracks_def dest: find_if_SomeD)
  have upd: "loop_last_branch_result ip tgt taken ty (snd (loop_predict ip p)) =
      (snd (loop_predict ip p))\<lparr>loop_component := (loop_component p)(loop_index ip :=
        (loop_component p (loop_index ip))(w := loop_entry_step taken e))\<rparr>"
    using t by (auto simp: loop_tracks_def loop_last_branch_result_def loop_predict_def Let_def
        loop_entry_step_def fwc_eq_def)
  have "find_if (\<lambda>j. loop_tag (if j = w then loop_entry_step taken e
        else loop_component p (loop_index ip) j) = loop_tag_of ip) 0 NUM_WAYS =
      find_if (\<lambda>j. loop_tag (loop_component p (loop_index ip) j) = loop_tag_of ip) 0 NUM_WAYS"
    using t tag by (intro find_if_cong) (auto simp: loop_tracks_def)
  with t show ?thesis by (simp add: upd loop_tracks_def fun_upd_def)
qed

text \<open>Calls for addresses of other sets, and predictions, leave the set alone.\<close>

lemma loop_update_other_set:
  assumes "loop_index ip' \<noteq> i"
  shows "loop_component (loop_last_branch_result ip' tgt taken ty (snd (loop_predict ip' p))) i =
    loop_component p i"
proof (cases "hit (loop_branch_info (snd (loop_predict ip' p)))")
  case True
  with assms loop_predict_hit_range(1) [OF True] show ?thesis
    by (simp add: loop_last_branch_result_def Let_def)
next
  case False
  with assms show ?thesis
    by (simp add: loop_last_branch_result_def loop_allocate_def Let_def split: option.split)
qed

text \<open>The outcomes of one branch in a run, and the runs in which no other branch uses its set.\<close>

definition outcomes :: "address \<Rightarrow> branch_event list \<Rightarrow> bool list" where
  "outcomes ip es = map ev_taken (filter (\<lambda>e. ev_branch e \<and> ev_ip e = ip) es)"

definition own_set :: "address \<Rightarrow> branch_event list \<Rightarrow> bool" where
  "own_set ip es \<longleftrightarrow>
     list_all (\<lambda>e. ev_branch e \<longrightarrow> ev_ip e = ip \<or> loop_index (ev_ip e) \<noteq> loop_index ip) es"

lemma loop_step_tracks:
  assumes "loop_tracks p ip w e" "own_set ip [ev]"
  shows "loop_tracks (bp_step loop_predict loop_update ev p) ip w
    (fold loop_entry_step (outcomes ip [ev]) e)"
proof (cases "ev_branch ev \<and> ev_ip ev = ip")
  case True
  with assms(1) show ?thesis
    by (simp add: bp_step_def Let_def outcomes_def loop_tracks_update)
next
  case False
  then have "loop_component (bp_step loop_predict loop_update ev p) (loop_index ip) =
      loop_component p (loop_index ip)"
    using assms(2) by (auto simp: bp_step_def Let_def own_set_def loop_update_other_set)
  moreover have "outcomes ip [ev] = []" using False by (auto simp: outcomes_def)
  ultimately show ?thesis using assms(1) by (simp add: loop_tracks_def)
qed

lemma loop_run_tracks:
  "loop_tracks p ip w e \<Longrightarrow> own_set ip es \<Longrightarrow>
    loop_tracks (bp_run loop_predict loop_update es p) ip w (fold loop_entry_step (outcomes ip es) e)"
proof (induction es arbitrary: p e)
  case Nil
  then show ?case by (simp add: outcomes_def)
next
  case (Cons ev es)
  from Cons.prems(2) have own: "own_set ip [ev]" "own_set ip es" by (simp_all add: own_set_def)
  have "outcomes ip (ev # es) = outcomes ip [ev] @ outcomes ip es" by (simp add: outcomes_def)
  with Cons.IH [OF loop_step_tracks [OF Cons.prems(1) own(1)] own(2)] show ?case by simp
qed

section \<open>Learning a loop\<close>

text \<open>An entry with the given past count, current count and confidence.\<close>

definition counts :: "int \<Rightarrow> int \<Rightarrow> int \<Rightarrow> loop_entry \<Rightarrow> bool" where
  "counts past cnt conf e \<longleftrightarrow>
     past_iter_cnt e = past \<and> curr_iter_cnt e = cnt \<and> confidence e = conf"

lemma iter_bounds: "fw_max ITER_WIDTH = 16383" "fw_max 2 = 3"
  by (simp_all add: fw_max_def ITER_WIDTH_def)

lemmas entry_step_defs = counts_def loop_entry_step_def loop_train_valid_def loop_train_def
  loop_irregular_def fw_plus_def fw_set_def fwc_add_def fwc_assign_def fwc_clamp_def

lemma counts_first: "counts 0 c conf e \<Longrightarrow> conf < 3 \<Longrightarrow> 0 \<le> c \<Longrightarrow> c < 16383 \<Longrightarrow>
    counts 0 (c + 1) conf (loop_entry_step True e)"
  by (auto simp: entry_step_defs iter_bounds)

lemma counts_iterate: "counts N c conf e \<Longrightarrow> 0 < N \<Longrightarrow> N \<le> 16383 \<Longrightarrow> 0 \<le> c \<Longrightarrow> c < N \<Longrightarrow>
    counts N (c + 1) conf (loop_entry_step True e)"
  by (auto simp: entry_step_defs iter_bounds)

lemma counts_first_exit: "counts 0 N conf e \<Longrightarrow> conf < 3 \<Longrightarrow> 0 \<le> conf \<Longrightarrow>
    counts N 0 (conf + 1) (loop_entry_step False e)"
  by (auto simp: entry_step_defs iter_bounds)

lemma counts_exit: "counts N N conf e \<Longrightarrow> 0 \<le> conf \<Longrightarrow> conf \<le> 3 \<Longrightarrow>
    counts N 0 (min 3 (conf + 1)) (loop_entry_step False e)"
  by (auto simp: entry_step_defs iter_bounds)

text \<open>One execution of a loop of \<open>n\<close> iterations: taken \<open>n\<close> times, then not taken.\<close>

definition loop_exec :: "nat \<Rightarrow> bool list" where
  "loop_exec n = replicate n True @ [False]"

lemma counts_first_iterations:
  "counts 0 c conf e \<Longrightarrow> conf < 3 \<Longrightarrow> 0 \<le> c \<Longrightarrow> c + int n \<le> 16383 \<Longrightarrow>
    counts 0 (c + int n) conf (fold loop_entry_step (replicate n True) e)"
proof (induction n arbitrary: c e)
  case (Suc n)
  then have "counts 0 (c + 1) conf (loop_entry_step True e)" by (intro counts_first) simp_all
  with Suc.IH [of "c + 1"] Suc.prems show ?case by (simp add: algebra_simps)
qed simp

lemma counts_iterations:
  "counts N c conf e \<Longrightarrow> 0 < N \<Longrightarrow> N \<le> 16383 \<Longrightarrow> 0 \<le> c \<Longrightarrow> c + int n \<le> N \<Longrightarrow>
    counts N (c + int n) conf (fold loop_entry_step (replicate n True) e)"
proof (induction n arbitrary: c e)
  case (Suc n)
  then have "counts N (c + 1) conf (loop_entry_step True e)" by (intro counts_iterate) simp_all
  with Suc.IH [of "c + 1"] Suc.prems show ?case by (simp add: algebra_simps)
qed simp

lemma counts_exec:
  assumes "counts (int n) 0 conf e" "0 < n" "int n \<le> 16383" "0 \<le> conf" "conf \<le> 3"
  shows "counts (int n) 0 (min 3 (conf + 1)) (fold loop_entry_step (loop_exec n) e)"
proof -
  from assms have "counts (int n) (int n) conf (fold loop_entry_step (replicate n True) e)"
    using counts_iterations [of "int n" 0 conf e n] by simp
  with assms show ?thesis by (simp add: loop_exec_def counts_exit)
qed

lemma counts_execs:
  assumes "counts (int n) 0 conf e" "0 < n" "int n \<le> 16383" "0 \<le> conf" "conf \<le> 3"
  shows "counts (int n) 0 (min 3 (conf + int k))
    (fold loop_entry_step (concat (replicate k (loop_exec n))) e)"
  using assms
proof (induction k arbitrary: conf e)
  case (Suc k)
  from Suc.prems have "counts (int n) 0 (min 3 (conf + 1)) (fold loop_entry_step (loop_exec n) e)"
    by (rule counts_exec)
  with Suc.IH [OF this] Suc.prems have
    "counts (int n) 0 (min 3 (min 3 (conf + 1) + int k))
      (fold loop_entry_step (concat (replicate (Suc k) (loop_exec n))) e)" by simp
  then show ?case by (simp add: min_def algebra_simps split: if_splits)
qed simp

text \<open>The first execution, seen from the entry allocated on its first taken branch.\<close>

lemma counts_training:
  assumes "counts 0 1 0 e" "0 < n" "int n \<le> 16383"
  shows "counts (int n) 0 (min 3 (1 + int k))
    (fold loop_entry_step (replicate (n - 1) True @ [False] @ concat (replicate k (loop_exec n))) e)"
proof -
  have "counts 0 (1 + int (n - 1)) 0 (fold loop_entry_step (replicate (n - 1) True) e)"
    using assms by (intro counts_first_iterations) simp_all
  then have "counts (int n) 0 1 (fold loop_entry_step (replicate (n - 1) True @ [False]) e)"
    using assms(2) counts_first_exit [of "int n" 0] by (simp add: of_nat_diff)
  from counts_execs [OF this assms(2,3), of k] show ?thesis by simp
qed

text \<open>A taken branch that misses takes over the first way of age 0.\<close>

definition loop_can_allocate :: "address \<Rightarrow> LoopPredictor \<Rightarrow> bool" where
  "loop_can_allocate ip p \<longleftrightarrow>
     find_if (\<lambda>j. loop_tag (loop_component p (loop_index ip) j) = loop_tag_of ip) 0 NUM_WAYS = None \<and>
     (\<exists>j < NUM_WAYS. age (loop_component p (loop_index ip) j) = 0)"

lemma loop_allocate_tracks:
  assumes "loop_can_allocate ip p" "ev_branch ev" "ev_ip ev = ip" "ev_taken ev"
  shows "\<exists>w e. loop_tracks (bp_step loop_predict loop_update ev p) ip w e \<and> counts 0 1 0 e"
proof -
  let ?ways = "loop_component p (loop_index ip)"
  from assms(1) have miss: "find_if (\<lambda>j. loop_tag (?ways j) = loop_tag_of ip) 0 NUM_WAYS = None"
    by (simp add: loop_can_allocate_def)
  from assms(1) obtain j0 where "j0 < NUM_WAYS" "age (?ways j0) = 0"
    by (auto simp: loop_can_allocate_def)
  then obtain w where w: "find_if (\<lambda>j. fwc_eq (age (?ways j)) 0) 0 NUM_WAYS = Some w"
    using find_if_exists [of 0 j0 NUM_WAYS "\<lambda>j. fwc_eq (age (?ways j)) 0"]
    by (auto simp: fwc_eq_def)
  define e where "e = (?ways w)\<lparr>past_iter_cnt := fw_set ITER_WIDTH 0,
    curr_iter_cnt := fw_set ITER_WIDTH 1, confidence := fw_set 2 0, loop_tag := loop_tag_of ip,
    age := fw_set 8 INIT_AGE\<rparr>"
  define q where "q = bp_step loop_predict loop_update ev p"
  have "loop_component q (loop_index ip) = ?ways(w := e)"
    using assms(2-4) miss w
    by (simp add: q_def bp_step_def loop_last_branch_result_def loop_predict_def loop_allocate_def
        Let_def e_def)
  moreover have "find_if (\<lambda>j. loop_tag ((?ways(w := e)) j) = loop_tag_of ip) 0 NUM_WAYS = Some w"
    using miss find_if_SomeD [OF w] by (auto simp: find_if_Some_iff find_if_None e_def)
  ultimately have "loop_tracks q ip w e" by (simp add: loop_tracks_def)
  moreover have "counts 0 1 0 e"
    by (simp add: counts_def e_def fw_set_def fwc_assign_def fwc_clamp_def fw_max_def ITER_WIDTH_def)
  ultimately show ?thesis by (auto simp: q_def)
qed

text \<open>
  The loop predictor learns every loop of \<open>1\<close> to \<open>16383\<close> iterations in three executions.  A
  branch that starts in a set with a free way and shares the set with no other branch is predicted
  validly and correctly ever after: in any later execution the prediction after \<open>i\<close> iterations is
  "taken" exactly when \<open>i\<close> is not yet the number of iterations of the loop.
\<close>

lemma loop_learned:
  assumes n: "0 < n" "n \<le> 16383"
    and start: "loop_can_allocate ip p" "ev_branch ev" "ev_ip ev = ip"
    and alone: "own_set ip es"
    and trace: "outcomes ip (ev # es) =
      concat (replicate (3 + k) (loop_exec n)) @ replicate i True" "i \<le> n"
  shows "loop_verdict ip (bp_run loop_predict loop_update (ev # es) p) = (True, i < n)"
proof -
  have exec: "loop_exec n = True # replicate (n - 1) True @ [False]"
    using n(1) by (cases n) (simp_all add: loop_exec_def)
  have "concat (replicate (3 + k) (loop_exec n)) =
      loop_exec n @ concat (replicate (2 + k) (loop_exec n))" by (simp add: numeral_eq_Suc)
  with trace(1) exec start have taken: "ev_taken ev"
    and rest: "outcomes ip es = (replicate (n - 1) True @ [False] @
      concat (replicate (2 + k) (loop_exec n))) @ replicate i True"
    by (simp_all add: outcomes_def)
  obtain w e where e: "loop_tracks (bp_step loop_predict loop_update ev p) ip w e" "counts 0 1 0 e"
    using loop_allocate_tracks [OF start taken] by blast
  define f where "f = fold loop_entry_step (outcomes ip es) e"
  have "counts (int n) 0 3 (fold loop_entry_step (replicate (n - 1) True @ [False] @
      concat (replicate (2 + k) (loop_exec n))) e)"
    using counts_training [OF e(2) n(1), of "2 + k"] n(2) by (simp add: min_def)
  from counts_iterations [OF this, of i] n trace(2) have "counts (int n) (int i) 3 f"
    by (simp add: f_def rest)
  moreover have "loop_tracks (bp_run loop_predict loop_update (ev # es) p) ip w f"
    using loop_run_tracks [OF e(1) alone] by (simp add: f_def)
  ultimately show ?thesis using trace(2) by (auto simp: counts_def dest!: loop_tracks_verdict)
qed

text \<open>Concrete data for the witnesses.\<close>

definition sample_event :: "address \<Rightarrow> bool \<Rightarrow> branch_event" where
  "sample_event a t = \<lparr>ev_ip = a, ev_branch = True, ev_target = 0, ev_taken = t,
     ev_type = BRANCH_CONDITIONAL, ev_rand = 0\<rparr>"

definition sample_loop_predictor :: LoopPredictor where
  "sample_loop_predictor = loop_predictor_init
     \<lparr>loop_component = (\<lambda>_ _. loop_entry_reset), loop_branch_info = LoopBranchInfo_reset,
      loop_prediction = False\<rparr>"

lemma sample_can_allocate: "loop_can_allocate 64 sample_loop_predictor"
proof -
  have "loop_component sample_loop_predictor i j = loop_entry_reset" for i j
    by (simp add: sample_loop_predictor_def loop_predictor_init_def)
  moreover have "loop_tag_of 64 = 1"
    by (simp add: loop_tag_of_def INDEX_WIDTH_def TAG_WIDTH_def)
  moreover have "(0::nat) < NUM_WAYS" by (simp add: NUM_WAYS_def)
  ultimately show ?thesis
    by (auto simp: loop_can_allocate_def find_if_None loop_entry_reset_def fw_set_def fwc_assign_def
        fwc_clamp_def fw_max_def)
qed

section \<open>Loops that are too long\<close>

definition never_confident :: "nat \<Rightarrow> loop_entry \<Rightarrow> bool" where
  "never_confident m e \<longleftrightarrow>
     (\<exists>c. counts 0 c 0 e \<and> (if m = 0 then 0 else 1) \<le> c \<and> c \<le> 16383) \<or>
     (\<exists>past. counts past (int m) 1 e \<and> 1 \<le> past \<and> past \<le> 16383 \<and> int m \<le> past)"

lemma never_confident_taken:
  "never_confident m e \<Longrightarrow> never_confident (Suc m) (loop_entry_step True e)"
  by (auto simp: never_confident_def entry_step_defs iter_bounds split: if_splits)

lemma never_confident_exit:
  "never_confident m e \<Longrightarrow> 16384 \<le> m \<Longrightarrow> never_confident 0 (loop_entry_step False e)"
  by (auto simp: never_confident_def entry_step_defs iter_bounds)

lemma never_confident_iterations:
  "never_confident m e \<Longrightarrow> never_confident (m + i) (fold loop_entry_step (replicate i True) e)"
proof (induction i arbitrary: m e)
  case (Suc i)
  from Suc.IH [OF never_confident_taken [OF Suc.prems]] show ?case by simp
qed simp

lemma never_confident_execs:
  "never_confident 0 e \<Longrightarrow> 16384 \<le> n \<Longrightarrow>
    never_confident 0 (fold loop_entry_step (concat (replicate k (loop_exec n))) e)"
proof (induction k arbitrary: e)
  case (Suc k)
  from never_confident_iterations [OF Suc.prems(1), of n] Suc.prems(2)
  have "never_confident 0 (fold loop_entry_step (loop_exec n) e)"
    by (simp add: loop_exec_def never_confident_exit)
  from Suc.IH [OF this Suc.prems(2)] show ?case by simp
qed simp

text \<open>
  A loop of \<open>16384\<close> iterations or more is beyond the 14-bit counters and never gains
  confidence: however often it is executed, the loop predictor never overrides TAGE for it.
\<close>

theorem loop_too_long:
  assumes n: "16384 \<le> n"
    and start: "loop_can_allocate ip p" "ev_branch ev" "ev_ip ev = ip"
    and alone: "own_set ip es"
    and trace: "outcomes ip (ev # es) = concat (replicate (Suc k) (loop_exec n)) @ replicate i True"
  shows "\<not> fst (loop_verdict ip (bp_run loop_predict loop_update (ev # es) p))"
proof -
  have exec: "loop_exec n = True # replicate (n - 1) True @ [False]"
    using n by (cases n) (simp_all add: loop_exec_def)
  with trace start have taken: "ev_taken ev"
    and rest: "outcomes ip es = (replicate (n - 1) True @ [False]) @
      concat (replicate k (loop_exec n)) @ replicate i True"
    by (simp_all add: outcomes_def)
  obtain w e where e: "loop_tracks (bp_step loop_predict loop_update ev p) ip w e" "counts 0 1 0 e"
    using loop_allocate_tracks [OF start taken] by blast
  define f where "f = fold loop_entry_step (outcomes ip es) e"
  have "never_confident 1 e" using e(2) by (auto simp: never_confident_def)
  from never_confident_iterations [OF this, of "n - 1"] n
  have "never_confident 0 (fold loop_entry_step (replicate (n - 1) True @ [False]) e)"
    by (simp add: never_confident_exit)
  from never_confident_iterations [OF never_confident_execs [OF this n, of k], of i]
  have "never_confident i f" by (simp add: f_def rest)
  moreover have "loop_tracks (bp_run loop_predict loop_update (ev # es) p) ip w f"
    using loop_run_tracks [OF e(1) alone] by (simp add: f_def)
  ultimately show ?thesis
    by (auto simp: never_confident_def counts_def dest!: loop_tracks_verdict)
qed

theorem loop_too_long_witness:
  "\<exists>es. \<not> fst (loop_verdict 64 (bp_run loop_predict loop_update es sample_loop_predictor)) \<and>
     outcomes 64 es = loop_exec 16384"
proof -
  define es where "es = map (sample_event 64) (replicate 16383 True @ [False])"
  have out: "outcomes 64 (map (sample_event 64) bs) = bs" for bs
    by (induction bs) (simp_all add: outcomes_def sample_event_def)
  have "loop_exec 16384 = True # replicate 16383 True @ [False]"
    by (simp add: loop_exec_def replicate_Suc [symmetric] del: replicate_Suc)
  moreover have "sample_event 64 True # es =
      map (sample_event 64) (True # replicate 16383 True @ [False])" by (simp add: es_def)
  ultimately have ev: "outcomes 64 (sample_event 64 True # es) = loop_exec 16384"
    using out [of "True # replicate 16383 True @ [False]"] by simp
  have own: "own_set 64 es" by (auto simp: own_set_def es_def list_all_iff sample_event_def)
  have head: "ev_branch (sample_event 64 True)" "ev_ip (sample_event 64 True) = 64"
    by (simp_all add: sample_event_def)
  from ev have "outcomes 64 (sample_event 64 True # es) =
      concat (replicate (Suc 0) (loop_exec 16384)) @ replicate 0 True" by simp
  from loop_too_long [OF order_refl sample_can_allocate head own this] ev show ?thesis by blast
qed

end
