(* ===== verification/Tage.thy ===== *)
theory Tage
  imports Fwcounter Branch_Predictor
begin

text \<open>
  The TAGE predictor, class \<open>Tage\<close> of \<open>branch/LTage/tage.h\<close> (\<open>branch/Tage/tage.cc\<close> holds the same
  functions): a bimodal base predictor and twelve tagged components indexed with global histories of
  geometrically growing length.  Components are numbered from 1, as in the code; \<open>-1\<close> is "none".
  The value of \<open>rand()\<close> drawn by an update is its first argument.
\<close>

section \<open>Parameters\<close>

definition NUM_COMPONENTS :: nat where "NUM_COMPONENTS = 13"
definition TAGE_ENTRIES :: nat where "TAGE_ENTRIES = 1024"
definition BIMODAL_ENTRIES :: nat where "BIMODAL_ENTRIES = 16 * 1024"
definition BIMODAL_BITS :: nat where "BIMODAL_BITS = 2"
definition PHIST_BITS :: nat where "PHIST_BITS = 16"
definition WEAKLY_TAKEN :: int where "WEAKLY_TAKEN = 4"
definition WEAKLY_NOT_TAKEN :: int where "WEAKLY_NOT_TAKEN = 3"
definition RESET_USEFUL_INTERVAL :: int where "RESET_USEFUL_INTERVAL = 512 * 1024"

definition TAG_WIDTHS :: "nat list" where
  "TAG_WIDTHS = [7, 7, 8, 8, 9, 10, 11, 12, 12, 13, 14, 15]"

definition HIST_LENS :: "nat list" where
  "HIST_LENS = [4, 6, 10, 16, 25, 40, 64, 101, 160, 254, 403, 640]"

definition TAGE_INDEX_BITS :: "nat list" where
  "TAGE_INDEX_BITS = [10, 10, 10, 10, 10, 10, 10, 10, 10, 10, 10, 10]"

lemmas tage_params = NUM_COMPONENTS_def TAGE_ENTRIES_def BIMODAL_ENTRIES_def BIMODAL_BITS_def
  PHIST_BITS_def WEAKLY_TAKEN_def WEAKLY_NOT_TAKEN_def RESET_USEFUL_INTERVAL_def

section \<open>State\<close>

record tage_entry =
  te_pred :: counter
  te_tag :: "32 word"
  te_u :: counter

definition tage_entry_reset :: tage_entry where
  "tage_entry_reset = \<lparr>te_pred = fw_set 3 0, te_tag = 0, te_u = fw_set 2 0\<rparr>"

record BranchInfo =
  bi_branch_ip :: address
  bi_provider_comp :: int
  bi_provider_comp_entry :: tage_entry
  bi_provider_comp_pred :: bool
  bi_provider_index :: int
  bi_altpred_comp :: int
  bi_altpred_comp_entry :: tage_entry
  bi_altpred_comp_pred :: bool
  bi_altpred_index :: int
  bi_ultimate_pred :: bool
  bi_bimodal_entry :: counter

text \<open>The flags are reset to \<open>-1\<close>, which a \<open>bool\<close> reads as true.\<close>

definition BranchInfo_reset :: BranchInfo where
  "BranchInfo_reset = \<lparr>bi_branch_ip = - 1, bi_provider_comp = - 1,
     bi_provider_comp_entry = tage_entry_reset, bi_provider_comp_pred = True,
     bi_provider_index = - 1, bi_altpred_comp = - 1, bi_altpred_comp_entry = tage_entry_reset,
     bi_altpred_comp_pred = True, bi_altpred_index = - 1, bi_ultimate_pred = True,
     bi_bimodal_entry = fw_set BIMODAL_BITS 2\<rparr>"

record Tage =
  tage_table :: "tage_entry array array"
  tage_bimodal_table :: "counter array"
  branch_info :: BranchInfo
  num_branches :: int
  phist :: "32 word"
  ghist :: "641 word"
  USE_ALT_ON_NA :: counter

definition tage_initialize :: "Tage \<Rightarrow> Tage" where
  "tage_initialize t = t\<lparr>
     tage_table := (\<lambda>i j. if i < NUM_COMPONENTS - 1 \<and> j < TAGE_ENTRIES then tage_entry_reset
                          else tage_table t i j),
     tage_bimodal_table := (\<lambda>i. if i < BIMODAL_ENTRIES
                          then fw_set BIMODAL_BITS (1 + fw_max BIMODAL_BITS div 2)
                          else tage_bimodal_table t i),
     num_branches := 0, ghist := 0, phist := 0, branch_info := BranchInfo_reset\<rparr>"

section \<open>Hashes\<close>

definition get_ghist_hash :: "641 word \<Rightarrow> nat \<Rightarrow> nat \<Rightarrow> 32 word" where
  "get_ghist_hash g inSize outSize =
     fold (\<lambda>i h. if bit g i then h XOR push_bit (i mod outSize) 1 else h) [0..<inSize] 0"

definition tagHash :: "Tage \<Rightarrow> address \<Rightarrow> nat \<Rightarrow> 32 word" where
  "tagHash t ip c =
     (let ipl = ucast ip; len = HIST_LENS ! (c - 1); width = TAG_WIDTHS ! (c - 1);
          h = get_ghist_hash (ghist t) len width;
          h = h XOR push_bit 1 (get_ghist_hash (ghist t) len (width - 1))
      in (ipl AND (push_bit width 1 - 1)) XOR h)"

definition indexHash :: "Tage \<Rightarrow> address \<Rightarrow> nat \<Rightarrow> 32 word" where
  "indexHash t ip c =
     (let ipl = ucast ip; bits = TAGE_INDEX_BITS ! (c - 1);
          h = get_ghist_hash (ghist t) (HIST_LENS ! (c - 1)) bits
      in (ipl XOR drop_bit bits ipl XOR h XOR phist t) AND (push_bit bits 1 - 1))"

text \<open>The entry a component selects for an address, and whether its tag matches.\<close>

definition tage_index :: "Tage \<Rightarrow> address \<Rightarrow> nat \<Rightarrow> nat" where
  "tage_index t ip c = unat (indexHash t ip c)"

definition tage_lookup :: "Tage \<Rightarrow> address \<Rightarrow> nat \<Rightarrow> tage_entry" where
  "tage_lookup t ip c = tage_table t (c - 1) (tage_index t ip c)"

definition tage_match :: "Tage \<Rightarrow> address \<Rightarrow> nat \<Rightarrow> bool" where
  "tage_match t ip c \<longleftrightarrow> te_tag (tage_lookup t ip c) = tagHash t ip c"

section \<open>Prediction\<close>

text \<open>The scan over the components: the last match provides, the match before it is the alternate.\<close>

definition tage_scan :: "Tage \<Rightarrow> address \<Rightarrow> int \<times> int" where
  "tage_scan t ip =
     fold (\<lambda>i (prov, alt). if tage_match t ip i then (int i, if prov \<noteq> - 1 then prov else alt)
                           else (prov, alt))
       [1..<NUM_COMPONENTS] (- 1, - 1)"

definition ctr_taken :: "nat \<Rightarrow> counter \<Rightarrow> bool" where
  "ctr_taken w c \<longleftrightarrow> c > fw_max w div 2"

definition newly_allocated :: "tage_entry \<Rightarrow> bool" where
  "newly_allocated e \<longleftrightarrow>
     (te_pred e = WEAKLY_NOT_TAKEN \<or> te_pred e = WEAKLY_TAKEN) \<and> fwc_eq (te_u e) 0"

definition tage_predict :: "address \<Rightarrow> Tage \<Rightarrow> bool \<times> Tage" where
  "tage_predict ip t =
     (let base = tage_bimodal_table t (unat ip mod BIMODAL_ENTRIES);
          (prov, alt) = tage_scan t ip;
          info = BranchInfo_reset\<lparr>bi_bimodal_entry := base, bi_provider_comp := prov,
                                   bi_altpred_comp := alt\<rparr>
      in if prov = - 1 then
           (let p = ctr_taken BIMODAL_BITS base
            in (p, t\<lparr>branch_info := info\<lparr>bi_ultimate_pred := p\<rparr>\<rparr>))
         else
           (let entry = tage_lookup t ip (nat prov);
                info = info\<lparr>bi_provider_index := int (tage_index t ip (nat prov)),
                            bi_provider_comp_pred := ctr_taken 3 (te_pred entry),
                            bi_provider_comp_entry := entry\<rparr>;
                info = (if alt \<noteq> - 1 then
                          info\<lparr>bi_altpred_index := int (tage_index t ip (nat alt)),
                               bi_altpred_comp_pred := ctr_taken 3 (te_pred (tage_lookup t ip (nat alt))),
                               bi_altpred_comp_entry := tage_lookup t ip (nat alt)\<rparr>
                        else info);
                p = (if newly_allocated entry \<and> fwc_gt (USE_ALT_ON_NA t) 7 then
                       (if alt = - 1 then ctr_taken BIMODAL_BITS base else bi_altpred_comp_pred info)
                     else bi_provider_comp_pred info)
            in (p, t\<lparr>branch_info := info\<lparr>bi_ultimate_pred := p\<rparr>\<rparr>)))"

section \<open>Update\<close>

text \<open>Updating one entry of a component, and the readings of the recorded prediction.\<close>

definition upd_entry :: "int \<Rightarrow> int \<Rightarrow> (tage_entry \<Rightarrow> tage_entry) \<Rightarrow> Tage \<Rightarrow> Tage" where
  "upd_entry c i f t = t\<lparr>tage_table := (tage_table t)(nat (c - 1) :=
     (tage_table t (nat (c - 1)))(nat i := f (tage_table t (nat (c - 1)) (nat i))))\<rparr>"

definition provider_entry :: "Tage \<Rightarrow> tage_entry" where
  "provider_entry t =
     tage_table t (nat (bi_provider_comp (branch_info t) - 1)) (nat (bi_provider_index (branch_info t)))"

definition bimodal_prediction :: "BranchInfo \<Rightarrow> bool" where
  "bimodal_prediction b = ctr_taken BIMODAL_BITS (bi_bimodal_entry b)"

definition provider_prediction :: "BranchInfo \<Rightarrow> bool" where
  "provider_prediction b =
     (if bi_provider_comp b = - 1 then bimodal_prediction b else bi_provider_comp_pred b)"

definition altpred_prediction :: "BranchInfo \<Rightarrow> bool" where
  "altpred_prediction b =
     (if bi_altpred_comp b = - 1 then bimodal_prediction b else bi_altpred_comp_pred b)"

definition tage_update_use_alt :: "bool \<Rightarrow> Tage \<Rightarrow> Tage" where
  "tage_update_use_alt taken t =
     (let b = branch_info t
      in if bi_provider_comp b \<noteq> - 1 then
           if newly_allocated (provider_entry t) then
             if provider_prediction b \<noteq> altpred_prediction b then
               if altpred_prediction b = taken
               then t\<lparr>USE_ALT_ON_NA := fw_plus 4 (USE_ALT_ON_NA t) 1\<rparr>
               else t\<lparr>USE_ALT_ON_NA := fw_minus 4 (USE_ALT_ON_NA t) 1\<rparr>
             else t
           else t
         else t)"

definition tage_update_ctr :: "address \<Rightarrow> bool \<Rightarrow> Tage \<Rightarrow> Tage" where
  "tage_update_ctr ip taken t =
     (let b = branch_info t
      in if bi_provider_comp b \<noteq> - 1 then
           upd_entry (bi_provider_comp b) (bi_provider_index b)
             (\<lambda>e. e\<lparr>te_pred := fw_plus 3 (te_pred e) (step_of taken)\<rparr>) t
         else
           (let i = unat ip mod BIMODAL_ENTRIES
            in t\<lparr>tage_bimodal_table := (tage_bimodal_table t)
                   (i := fw_plus BIMODAL_BITS (tage_bimodal_table t i) (step_of taken))\<rparr>))"

definition tage_update_alt :: "bool \<Rightarrow> Tage \<Rightarrow> Tage" where
  "tage_update_alt taken t =
     (let b = branch_info t
      in if bi_provider_comp b \<noteq> - 1 then
           if te_u (provider_entry t) = 0 \<and> bi_altpred_comp b \<noteq> - 1 then
             upd_entry (bi_altpred_comp b) (bi_altpred_index b)
               (\<lambda>e. e\<lparr>te_pred := (if taken then fw_plus 3 (te_pred e) 1
                                  else fw_minus 3 (te_pred e) 1)\<rparr>) t
           else t
         else t)"

definition tage_update_u :: "bool \<Rightarrow> Tage \<Rightarrow> Tage" where
  "tage_update_u taken t =
     (let b = branch_info t
      in if bi_provider_comp b \<noteq> - 1 then
           if bi_ultimate_pred b \<noteq> altpred_prediction b then
             upd_entry (bi_provider_comp b) (bi_provider_index b)
               (\<lambda>e. e\<lparr>te_u := (if bi_ultimate_pred b = taken then fw_plus 2 (te_u e) 1
                               else fw_minus 2 (te_u e) 1)\<rparr>) t
           else t
         else t)"

text \<open>The component at which the search for a free entry starts.\<close>

definition next_component :: "32 word \<Rightarrow> int \<Rightarrow> int" where
  "next_component r prov =
     (let rnd = r AND (push_bit (nat (int NUM_COMPONENTS - prov - 1)) 1 - 1);
          next_comp = (if prov = - 1 then 1 else prov + 1)
      in if rnd AND 1 \<noteq> 0 then (if rnd AND 2 \<noteq> 0 then next_comp + 2 else next_comp + 1)
         else next_comp)"

definition tage_allocate :: "32 word \<Rightarrow> address \<Rightarrow> bool \<Rightarrow> Tage \<Rightarrow> Tage" where
  "tage_allocate r ip taken t =
     (let b = branch_info t; prov = bi_provider_comp b
      in if bi_ultimate_pred b \<noteq> taken \<and> prov < int NUM_COMPONENTS - 1 then
           (let start = nat (next_component r prov)
            in case find_if (\<lambda>i. fwc_eq (te_u (tage_lookup t ip i)) 0) start NUM_COMPONENTS of
              Some i \<Rightarrow> upd_entry (int i) (int (tage_index t ip i))
                (\<lambda>e. e\<lparr>te_pred := fw_set 3 (if taken then WEAKLY_TAKEN else WEAKLY_NOT_TAKEN),
                       te_tag := tagHash t ip i, te_u := fw_set 2 0\<rparr>) t
            | None \<Rightarrow> fold (\<lambda>i t. upd_entry (int i) (int (tage_index t ip i))
                (\<lambda>e. e\<lparr>te_u := fw_minus 2 (te_u e) 1\<rparr>) t) [start..<NUM_COMPONENTS] t)
         else t)"

definition map_useful :: "(counter \<Rightarrow> counter) \<Rightarrow> Tage \<Rightarrow> Tage" where
  "map_useful f t = t\<lparr>tage_table := (\<lambda>i j. if i < NUM_COMPONENTS - 1 \<and> j < TAGE_ENTRIES
     then (tage_table t i j)\<lparr>te_u := f (te_u (tage_table t i j))\<rparr> else tage_table t i j)\<rparr>"

definition tage_reset_useful :: "Tage \<Rightarrow> Tage" where
  "tage_reset_useful t =
     (let t = t\<lparr>num_branches := num_branches t + 1\<rparr>
      in if num_branches t = RESET_USEFUL_INTERVAL div 2 then
           map_useful (\<lambda>c. fw_set 2 (c AND 1)) t
         else if num_branches t = RESET_USEFUL_INTERVAL then
           map_useful (\<lambda>c. fw_set 2 (c AND 2)) (t\<lparr>num_branches := 0\<rparr>)
         else t)"

definition tage_update_history :: "address \<Rightarrow> bool \<Rightarrow> Tage \<Rightarrow> Tage" where
  "tage_update_history ip taken t =
     (let ipl = ucast ip
      in t\<lparr>phist := (push_bit 1 (phist t) OR (ipl AND 1)) AND (push_bit PHIST_BITS 1 - 1),
           ghist := shift_in taken (ghist t)\<rparr>)"

definition tage_last_branch_result ::
  "32 word \<Rightarrow> address \<Rightarrow> address \<Rightarrow> bool \<Rightarrow> branch_type \<Rightarrow> Tage \<Rightarrow> Tage" where
  "tage_last_branch_result r ip branch_target taken ty t =
     tage_update_history ip taken (tage_reset_useful (tage_allocate r ip taken
       (tage_update_u taken (tage_update_alt taken (tage_update_ctr ip taken
         (tage_update_use_alt taken t))))))"

end
