(* ===== verification/Tage_Correctness.thy ===== *)
theory Tage_Correctness
  imports Tage
begin

text \<open>
  Correctness of TAGE: indices and counters stay in range, the provider is the longest matching
  component, the folded history is a parity of history bits, the history registers hold the last
  outcomes, allocation takes the first free entry, and the useful counters age with the period the
  code states.  The last section shows what a freshly initialised predictor predicts.
\<close>

section \<open>Ranges\<close>

lemma index_bits [simp]:
  assumes "1 \<le> c" "c < NUM_COMPONENTS" shows "TAGE_INDEX_BITS ! (c - Suc 0) = 10"
proof -
  have "\<forall>b \<in> set TAGE_INDEX_BITS. b = 10" by (simp add: TAGE_INDEX_BITS_def)
  moreover have "c - Suc 0 < length TAGE_INDEX_BITS"
    using assms by (simp add: TAGE_INDEX_BITS_def NUM_COMPONENTS_def)
  ultimately show ?thesis using nth_mem by blast
qed

lemma tage_index_range [simp, range_intros]:
  assumes "1 \<le> c" "c < NUM_COMPONENTS" shows "tage_index t ip c < TAGE_ENTRIES"
proof -
  have "TAGE_INDEX_BITS ! (c - 1) = 10" using assms by simp
  then show ?thesis
    unfolding tage_index_def indexHash_def Let_def low_mask by (simp add: unat_and_mask TAGE_ENTRIES_def)
qed

section \<open>The provider and the alternate\<close>

text \<open>The components among the first \<open>n\<close> that match an address.\<close>

definition matching :: "Tage \<Rightarrow> address \<Rightarrow> nat \<Rightarrow> nat set" where
  "matching t ip n = {i. 1 \<le> i \<and> i < n \<and> tage_match t ip i}"

definition longest :: "nat set \<Rightarrow> int" where
  "longest M = (if M = {} then - 1 else int (Max M))"

lemma matching_finite [simp]: "finite (matching t ip n)"
  by (simp add: matching_def)

lemma matching_Suc: "1 \<le> n \<Longrightarrow> matching t ip (Suc n) =
    (if tage_match t ip n then insert n (matching t ip n) else matching t ip n)"
  by (auto simp: matching_def less_Suc_eq)

lemma longest_insert: "finite M \<Longrightarrow> (\<forall>i\<in>M. i < n) \<Longrightarrow> longest (insert n M) = int n"
  by (cases "M = {}") (simp_all add: longest_def max_absorb1)

lemma scan_fold:
  "fold (\<lambda>i (prov, alt). if tage_match t ip i then (int i, if prov \<noteq> - 1 then prov else alt)
                         else (prov, alt)) [1..<Suc n] (- 1, - 1) =
   (let M = matching t ip (Suc n) in (longest M, longest (M - {nat (longest M)})))"
  (is "fold ?f _ _ = _")
proof (induction n)
  case 0
  have "matching t ip (Suc 0) = {}" by (auto simp: matching_def)
  then show ?case by (simp add: longest_def)
next
  case (Suc n)
  let ?M = "matching t ip (Suc n)"
  have below: "\<forall>i\<in>?M. i < Suc n" by (simp add: matching_def)
  then have out: "insert (Suc n) ?M - {Suc n} = ?M" by auto
  define p a where "p = longest ?M" and "a = longest (?M - {nat p})"
  have none: "a = - 1" if "p = - 1"
    using that by (auto simp: p_def a_def longest_def split: if_splits)
  have upt: "[1..<Suc (Suc n)] = [1..<Suc n] @ [Suc n]" by simp
  have Suc_matching: "matching t ip (Suc (Suc n)) =
      (if tage_match t ip (Suc n) then insert (Suc n) ?M else ?M)"
    by (rule matching_Suc) simp
  have new: "longest (insert (Suc n) ?M) = int (Suc n)" using below by (simp add: longest_insert)
  have IH: "fold ?f [1..<Suc n] (- 1, - 1) = (p, a)"
    using Suc.IH by (simp only: Let_def p_def a_def)
  show ?case
  proof (cases "tage_match t ip (Suc n)")
    case True
    then show ?thesis
      unfolding upt fold_append o_apply IH Suc_matching
      using none by (simp only: if_True Let_def new nat_int out fold.simps o_apply id_apply prod.case)
        (auto simp: p_def)
  next
    case False
    then show ?thesis
      unfolding upt fold_append o_apply IH Suc_matching
      by (simp only: if_False Let_def fold.simps o_apply id_apply prod.case p_def a_def)
  qed
qed

lemma tage_scan_eq:
  "tage_scan t ip = (let M = matching t ip NUM_COMPONENTS
                     in (longest M, longest (M - {nat (longest M)})))"
  using scan_fold [of t ip 12] by (simp add: tage_scan_def NUM_COMPONENTS_def)

lemma longest_mem: "finite M \<Longrightarrow> longest M \<noteq> - 1 \<Longrightarrow> nat (longest M) \<in> M \<and> 0 \<le> longest M"
  by (auto simp: longest_def split: if_splits)

lemma longest_nonneg: "longest M = - 1 \<or> 0 \<le> longest M"
  by (simp add: longest_def)

lemma tage_scan_range:
  assumes "tage_scan t ip = (prov, alt)"
  shows "prov = - 1 \<and> alt = - 1 \<or> 1 \<le> prov \<and> prov < int NUM_COMPONENTS \<and>
    (alt = - 1 \<or> 1 \<le> alt \<and> alt < prov)"
proof -
  let ?M = "matching t ip NUM_COMPONENTS"
  have p: "prov = longest ?M" and a: "alt = longest (?M - {nat prov})"
    using assms by (auto simp: tage_scan_eq Let_def)
  show ?thesis
  proof (cases "prov = - 1")
    case True
    then have "?M = {}" using p by (auto simp: longest_def split: if_splits)
    then show ?thesis using p a by (simp add: longest_def)
  next
    case False
    then have m: "nat prov \<in> ?M" "0 \<le> prov" using p longest_mem [of ?M] by auto
    then have r: "1 \<le> prov" "prov < int NUM_COMPONENTS" by (auto simp: matching_def)
    have "alt = - 1 \<or> 1 \<le> alt \<and> alt < prov"
    proof (cases "alt = - 1")
      case False
      then have n: "nat alt \<in> ?M - {nat prov}" "0 \<le> alt"
        using a p longest_mem [of "?M - {nat prov}"] by auto
      have "int (nat alt) \<le> int (Max ?M)" using n(1) by (simp del: int_nat_eq)
      moreover have "prov = int (Max ?M)" using p \<open>prov \<noteq> - 1\<close> by (simp add: longest_def split: if_splits)
      ultimately show ?thesis using n m by (auto simp: matching_def)
    qed simp
    with r show ?thesis by simp
  qed
qed

text \<open>
  C21. The scan of \<open>predict_branch\<close> selects the longest matching component as the provider and the
  longest matching one but the provider as the alternate; \<open>-1\<close> stands for no such component.
\<close>

theorem tage_longest_match:
  "tage_scan t ip =
     (let M = {i. 1 \<le> i \<and> i < NUM_COMPONENTS \<and> tage_match t ip i};
          prov = (if M = {} then - 1 else int (Max M)); R = M - {nat prov}
      in (prov, if R = {} then - 1 else int (Max R)))"
  by (simp add: tage_scan_eq matching_def longest_def Let_def)

section \<open>The invariant\<close>

definition tage_entry_ok :: "tage_entry \<Rightarrow> bool" where
  "tage_entry_ok e \<longleftrightarrow> fw_ok 3 (te_pred e) \<and> fw_ok 2 (te_u e)"

definition tage_tables_ok :: "Tage \<Rightarrow> bool" where
  "tage_tables_ok t \<longleftrightarrow>
     (\<forall>i < NUM_COMPONENTS - 1. \<forall>j < TAGE_ENTRIES. tage_entry_ok (tage_table t i j)) \<and>
     (\<forall>i < BIMODAL_ENTRIES. fw_ok BIMODAL_BITS (tage_bimodal_table t i)) \<and> fw_ok 4 (USE_ALT_ON_NA t)"

definition slot_ok :: "int \<Rightarrow> int \<Rightarrow> bool" where
  "slot_ok c i \<longleftrightarrow> 1 \<le> c \<and> c < int NUM_COMPONENTS \<and> 0 \<le> i \<and> i < int TAGE_ENTRIES"

definition BranchInfo_ok :: "BranchInfo \<Rightarrow> bool" where
  "BranchInfo_ok b \<longleftrightarrow>
     (bi_provider_comp b = - 1 \<or> slot_ok (bi_provider_comp b) (bi_provider_index b)) \<and>
     (bi_altpred_comp b = - 1 \<or> slot_ok (bi_altpred_comp b) (bi_altpred_index b))"

definition tage_ok :: "Tage \<Rightarrow> bool" where
  "tage_ok t \<longleftrightarrow> tage_tables_ok t \<and> BranchInfo_ok (branch_info t) \<and>
     0 \<le> num_branches t \<and> num_branches t < RESET_USEFUL_INTERVAL \<and> unat (phist t) < 2 ^ PHIST_BITS"

lemma slot_index [intro]:
  "1 \<le> c \<Longrightarrow> c < NUM_COMPONENTS \<Longrightarrow> slot_ok (int c) (int (tage_index t ip c))"
  by (simp add: slot_ok_def)

lemma upd_entry_sel [simp]:
  "branch_info (upd_entry c i f t) = branch_info t" "num_branches (upd_entry c i f t) = num_branches t"
  "phist (upd_entry c i f t) = phist t" "ghist (upd_entry c i f t) = ghist t"
  "USE_ALT_ON_NA (upd_entry c i f t) = USE_ALT_ON_NA t"
  "tage_bimodal_table (upd_entry c i f t) = tage_bimodal_table t"
  by (simp_all add: upd_entry_def)

lemma upd_entry_tables_ok:
  assumes "tage_tables_ok t" "slot_ok c i" "\<And>e. tage_entry_ok e \<Longrightarrow> tage_entry_ok (f e)"
  shows "tage_tables_ok (upd_entry c i f t)"
  using assms by (auto simp: tage_tables_ok_def upd_entry_def slot_ok_def)

lemma predict_frame [simp]:
  "tage_table (snd (tage_predict ip t)) = tage_table t"
  "tage_bimodal_table (snd (tage_predict ip t)) = tage_bimodal_table t"
  "num_branches (snd (tage_predict ip t)) = num_branches t"
  "phist (snd (tage_predict ip t)) = phist t" "ghist (snd (tage_predict ip t)) = ghist t"
  "USE_ALT_ON_NA (snd (tage_predict ip t)) = USE_ALT_ON_NA t"
  by (simp_all add: tage_predict_def Let_def split: prod.split)

lemma predict_info_ok: "BranchInfo_ok (branch_info (snd (tage_predict ip t)))"
proof -
  obtain prov alt where scan: "tage_scan t ip = (prov, alt)" by fastforce
  have "prov \<noteq> - 1 \<Longrightarrow> slot_ok prov (int (tage_index t ip (nat prov)))"
    "alt \<noteq> - 1 \<Longrightarrow> slot_ok alt (int (tage_index t ip (nat alt)))"
    using tage_scan_range [OF scan] slot_index [of "nat prov" t ip] slot_index [of "nat alt" t ip]
    by auto
  then show ?thesis
    using tage_scan_range [OF scan]
    by (auto simp: tage_predict_def scan Let_def BranchInfo_ok_def BranchInfo_reset_def)
qed

lemma tage_predict_ok: "tage_ok t \<Longrightarrow> tage_ok (snd (tage_predict ip t))"
  by (simp add: tage_ok_def tage_tables_ok_def predict_info_ok)

lemma tage_init_ok: "tage_ok (tage_initialize (t\<lparr>USE_ALT_ON_NA := 0\<rparr>))"
  by (simp add: tage_ok_def tage_tables_ok_def tage_initialize_def tage_entry_reset_def
      tage_entry_ok_def BranchInfo_ok_def BranchInfo_reset_def tage_params)

text \<open>The stages of an update: what each leaves alone, and that each keeps the tables in range.\<close>

definition same_history :: "Tage \<Rightarrow> Tage \<Rightarrow> bool" where
  "same_history t t' \<longleftrightarrow> branch_info t' = branch_info t \<and> num_branches t' = num_branches t \<and>
     phist t' = phist t \<and> ghist t' = ghist t"

lemma same_history_refl [simp]: "same_history t t"
  by (simp add: same_history_def)

lemma same_history_trans: "same_history a b \<Longrightarrow> same_history b c \<Longrightarrow> same_history a c"
  by (simp add: same_history_def)

lemma same_history_upd [simp]: "same_history t (upd_entry c i f t)"
  by (simp add: same_history_def)

lemma same_history_fold_upd: "same_history t (fold (\<lambda>i. upd_entry (c i) (d i) f) is t)"
  by (induction "is" arbitrary: t) (auto intro: same_history_trans [OF same_history_upd])

lemma tage_index_cong: "ghist t' = ghist t \<Longrightarrow> phist t' = phist t \<Longrightarrow>
    tage_index t' ip c = tage_index t ip c"
  by (simp add: tage_index_def indexHash_def)

lemma fold_upd_index:
  "fold (\<lambda>i s. upd_entry (int i) (int (tage_index s ip i)) f s) is t =
   fold (\<lambda>i. upd_entry (int i) (int (tage_index t ip i)) f) is t"
proof (induction "is" arbitrary: t)
  case (Cons i "is")
  have "tage_index (upd_entry c d f t) ip = tage_index t ip" for c d
    by (intro ext tage_index_cong) simp_all
  then show ?case
    by (simp only: fold.simps o_apply Cons.IH [of "upd_entry (int i) (int (tage_index t ip i)) f t"])
qed simp

lemma tage_allocate_eq:
  "tage_allocate r ip taken t =
     (let prov = bi_provider_comp (branch_info t); start = nat (next_component r prov)
      in if bi_ultimate_pred (branch_info t) \<noteq> taken \<and> prov < int NUM_COMPONENTS - 1 then
           (case find_if (\<lambda>i. fwc_eq (te_u (tage_lookup t ip i)) 0) start NUM_COMPONENTS of
              Some i \<Rightarrow> upd_entry (int i) (int (tage_index t ip i))
                (\<lambda>e. e\<lparr>te_pred := fw_set 3 (if taken then WEAKLY_TAKEN else WEAKLY_NOT_TAKEN),
                       te_tag := tagHash t ip i, te_u := fw_set 2 0\<rparr>) t
            | None \<Rightarrow> fold (\<lambda>i. upd_entry (int i) (int (tage_index t ip i))
                (\<lambda>e. e\<lparr>te_u := fw_minus 2 (te_u e) 1\<rparr>)) [start..<NUM_COMPONENTS] t)
         else t)"
  unfolding tage_allocate_def Let_def by (simp only: fold_upd_index [of ip _ "[_..<NUM_COMPONENTS]" t])

lemma stages_same_history:
  "same_history t (tage_update_use_alt taken t)" "same_history t (tage_update_ctr ip taken t)"
  "same_history t (tage_update_alt taken t)" "same_history t (tage_update_u taken t)"
  by (simp_all add: tage_update_use_alt_def tage_update_ctr_def tage_update_alt_def
      tage_update_u_def Let_def) (simp_all add: same_history_def)

lemma allocate_same_history: "same_history t (tage_allocate r ip taken t)"
  by (simp add: tage_allocate_eq Let_def same_history_fold_upd split: option.split)

definition tage_trained :: "32 word \<Rightarrow> address \<Rightarrow> bool \<Rightarrow> Tage \<Rightarrow> Tage" where
  "tage_trained r ip taken t = tage_allocate r ip taken
     (tage_update_u taken (tage_update_alt taken (tage_update_ctr ip taken
       (tage_update_use_alt taken t))))"

lemma trained_same_history: "same_history t (tage_trained r ip taken t)"
  unfolding tage_trained_def by (meson stages_same_history allocate_same_history same_history_trans)

lemma next_component_pos: "prov = - 1 \<or> 1 \<le> prov \<Longrightarrow> 1 \<le> next_component r prov"
  by (auto simp: next_component_def Let_def)

lemma fold_upd_tables_ok:
  assumes "tage_tables_ok t" "\<And>i. i \<in> set is \<Longrightarrow> slot_ok (int i) (int (d i))"
    "\<And>e. tage_entry_ok e \<Longrightarrow> tage_entry_ok (f e)"
  shows "tage_tables_ok (fold (\<lambda>i. upd_entry (int i) (int (d i)) f) is t)"
  using assms(1,2) by (induction "is" arbitrary: t) (simp_all add: upd_entry_tables_ok assms(3))

lemma stages_ok:
  assumes t: "tage_tables_ok t" and b: "BranchInfo_ok (branch_info t)"
  shows "tage_tables_ok (tage_update_use_alt taken t)" "tage_tables_ok (tage_update_ctr ip taken t)"
    "tage_tables_ok (tage_update_alt taken t)" "tage_tables_ok (tage_update_u taken t)"
proof -
  note upd = upd_entry_tables_ok [OF t]
  show "tage_tables_ok (tage_update_use_alt taken t)"
    using t by (auto simp: tage_update_use_alt_def Let_def tage_tables_ok_def)
  show "tage_tables_ok (tage_update_ctr ip taken t)"
    using t b by (auto simp: tage_update_ctr_def Let_def BranchInfo_ok_def tage_entry_ok_def intro!: upd)
      (simp_all add: tage_tables_ok_def)
  show "tage_tables_ok (tage_update_alt taken t)"
    using t b by (auto simp: tage_update_alt_def Let_def BranchInfo_ok_def tage_entry_ok_def intro!: upd split: if_splits)
  show "tage_tables_ok (tage_update_u taken t)"
    using t b by (auto simp: tage_update_u_def Let_def BranchInfo_ok_def tage_entry_ok_def intro!: upd split: if_splits)
qed

lemma allocate_ok:
  assumes t: "tage_tables_ok t" and b: "BranchInfo_ok (branch_info t)"
  shows "tage_tables_ok (tage_allocate r ip taken t)"
proof -
  let ?prov = "bi_provider_comp (branch_info t)"
  have start: "1 \<le> next_component r ?prov"
    using b by (intro next_component_pos) (auto simp: BranchInfo_ok_def slot_ok_def)
  have slot: "slot_ok (int i) (int (tage_index t ip i))"
    if "nat (next_component r ?prov) \<le> i" "i < NUM_COMPONENTS" for i
    using that start by (intro slot_index) auto
  show ?thesis
  proof (cases "find_if (\<lambda>i. fwc_eq (te_u (tage_lookup t ip i)) 0)
      (nat (next_component r ?prov)) NUM_COMPONENTS")
    case None
    then show ?thesis
      using t slot by (auto simp: tage_allocate_eq Let_def tage_entry_ok_def intro!: fold_upd_tables_ok)
  next
    case (Some i)
    then have "slot_ok (int i) (int (tage_index t ip i))"
      by (intro slot) (auto dest: find_if_SomeD)
    with t Some show ?thesis
      by (simp add: tage_allocate_eq Let_def tage_entry_ok_def upd_entry_tables_ok)
  qed
qed

lemma trained_ok:
  assumes "tage_tables_ok t" "BranchInfo_ok (branch_info t)"
  shows "tage_tables_ok (tage_trained r ip taken t)"
  unfolding tage_trained_def using assms stages_same_history
  by (intro allocate_ok stages_ok) (simp_all add: same_history_def)

lemma last_branch_result_eq:
  "tage_last_branch_result r ip tgt taken ty t =
   tage_update_history ip taken (tage_reset_useful (tage_trained r ip taken t))"
  by (simp add: tage_last_branch_result_def tage_trained_def)

lemma tage_update_ok:
  assumes "tage_ok t" "BranchInfo_ok (branch_info t)"
  shows "tage_ok (tage_last_branch_result r ip tgt taken ty t)"
proof -
  let ?s = "tage_trained r ip taken t"
  have s: "tage_ok ?s"
    using assms trained_ok trained_same_history [of t r ip taken]
    by (simp add: tage_ok_def same_history_def)
  have "fw_ok 2 (fw_set 2 v)" for v by simp
  then have "tage_ok (tage_reset_useful ?s)"
    using s by (auto simp: tage_ok_def tage_tables_ok_def tage_reset_useful_def map_useful_def Let_def
        tage_entry_ok_def RESET_USEFUL_INTERVAL_def)
  then show ?thesis
    unfolding last_branch_result_eq tage_update_history_def Let_def low_mask
    by (simp add: tage_ok_def tage_tables_ok_def unat_and_mask PHIST_BITS_def)
qed

interpretation tage: branch_predictor tage_ok tage_predict tage_last_branch_result
  "tage_initialize (t\<lparr>USE_ALT_ON_NA := 0\<rparr>)"
  by unfold_locales (simp_all add: tage_init_ok tage_predict_ok tage_update_ok predict_info_ok)

text \<open>
  C22. Whatever sequence of predictions and branch outcomes a predictor sees after its
  initialisation, its counters stay within their widths, the components and indices recorded for
  the update denote table entries, and the path history keeps to its 16 bits.
\<close>

theorem tage_run_safe:
  "tage_ok (bp_run tage_predict tage_last_branch_result es
     (tage_initialize (t\<lparr>USE_ALT_ON_NA := 0\<rparr>)))"
  by (rule tage.run_init_ok)

section \<open>Folded history\<close>

lemma bit_xor_single: "bit (h XOR push_bit k 1) p \<longleftrightarrow> bit h p \<noteq> (p = k \<and> p < LENGTH('a))"
  for h :: "'a::len word"
  unfolding bit_xor_iff bit_push_bit_iff by (auto simp: bit_1_iff dest: bit_imp_le_length)

text \<open>
  Bit \<open>p\<close> of the folded global history is the parity of the first \<open>inSize\<close> history bits
  whose position is \<open>p\<close> modulo \<open>outSize\<close>.
\<close>

theorem ghist_hash_parity:
  "bit (get_ghist_hash g inSize outSize) p \<longleftrightarrow>
     p < 32 \<and> odd (card {i. i < inSize \<and> bit g i \<and> i mod outSize = p})"
proof (induction inSize)
  case 0
  then show ?case by (simp add: get_ghist_hash_def)
next
  case (Suc n)
  let ?S = "\<lambda>n. {i. i < n \<and> bit g i \<and> i mod outSize = p}"
  have "?S (Suc n) = (if bit g n \<and> n mod outSize = p then insert n (?S n) else ?S n)"
    by (auto simp: less_Suc_eq)
  then have "odd (card (?S (Suc n))) = (odd (card (?S n)) \<noteq> (bit g n \<and> n mod outSize = p))" by simp
  moreover have "get_ghist_hash g (Suc n) outSize =
      (if bit g n then get_ghist_hash g n outSize XOR push_bit (n mod outSize) 1
       else get_ghist_hash g n outSize)"
    by (simp add: get_ghist_hash_def)
  ultimately show ?case using Suc.IH by (auto simp: bit_xor_single simp del: push_bit_of_1)
qed

lemma ghist_hash_0 [simp]: "get_ghist_hash 0 n m = 0"
  by (rule bit_eqI) (simp add: ghist_hash_parity)

section \<open>Histories and the ageing period\<close>

lemma reset_useful_sel [simp]:
  "ghist (tage_reset_useful t) = ghist t" "phist (tage_reset_useful t) = phist t"
  "num_branches (tage_reset_useful t) =
     (if num_branches t + 1 = RESET_USEFUL_INTERVAL then 0 else num_branches t + 1)"
  by (simp_all add: tage_reset_useful_def map_useful_def Let_def RESET_USEFUL_INTERVAL_def)

lemma ghist_update:
  "bit (ghist (tage_last_branch_result r ip tgt taken ty t)) i \<longleftrightarrow>
     i < 641 \<and> (case i of 0 \<Rightarrow> taken | Suc j \<Rightarrow> bit (ghist t) j)"
proof -
  have h: "ghist (tage_trained r ip b t) = ghist t" for b
    using trained_same_history by (simp add: same_history_def)
  show ?thesis
    unfolding last_branch_result_eq tage_update_history_def Let_def
    by (simp add: h bit_shift_in)
qed

lemma phist_update:
  "bit (phist (tage_last_branch_result r ip tgt taken ty t)) i \<longleftrightarrow>
     i < 16 \<and> (case i of 0 \<Rightarrow> bit ip 0 | Suc j \<Rightarrow> bit (phist t) j)"
proof -
  have h: "phist (tage_trained r ip b t) = phist t" for b
    using trained_same_history by (simp add: same_history_def)
  show ?thesis
    unfolding last_branch_result_eq tage_update_history_def Let_def low_mask PHIST_BITS_def
    by (cases i) (auto simp: h bit_or_iff bit_and_iff bit_times_2 bit_mask_iff bit_1_iff bit_ucast_iff)
qed

lemma num_branches_update:
  "num_branches (tage_last_branch_result r ip tgt taken ty t) =
     (if num_branches t + 1 = RESET_USEFUL_INTERVAL then 0 else num_branches t + 1)"
  using trained_same_history [of t r ip taken]
  by (simp add: last_branch_result_eq tage_update_history_def Let_def same_history_def)

lemma wrap_count:
  fixes K :: int assumes "0 < K"
  shows "(if int n mod K + 1 = K then 0 else int n mod K + 1) = int (Suc n) mod K"
proof -
  have "int (Suc n) mod K = (int n mod K + 1) mod K" by (simp add: mod_simps add.commute)
  moreover have "0 \<le> int n mod K" "int n mod K < K" using assms by simp_all
  ultimately show ?thesis by auto
qed

text \<open>
  C23. After any run from a fresh predictor the global history register holds the outcomes of the
  last 641 branches, newest first, the path history the lowest address bit of the last 16, and the
  branch counter the number of branches modulo the ageing interval; instructions that are not
  branches leave no trace.
\<close>

theorem tage_histories:
  "let t' = bp_run tage_predict tage_last_branch_result es (tage_initialize t);
       bs = rev (filter ev_branch es)
   in (bit (ghist t') i \<longleftrightarrow> i < 641 \<and> i < length bs \<and> ev_taken (bs ! i)) \<and>
      (bit (phist t') i \<longleftrightarrow> i < 16 \<and> i < length bs \<and> bit (ev_ip (bs ! i)) 0) \<and>
      num_branches t' = int (length bs) mod RESET_USEFUL_INTERVAL"
proof (induction es arbitrary: i rule: rev_induct)
  case Nil
  then show ?case by (simp add: tage_initialize_def)
next
  case (snoc e es)
  note step = bp_run_append bp_step_def ghist_update phist_update num_branches_update
  let ?n = "num_branches (bp_run tage_predict tage_last_branch_result (es @ [e]) (tage_initialize t))"
  have "0 < RESET_USEFUL_INTERVAL" by (simp add: RESET_USEFUL_INTERVAL_def)
  note wrap = wrap_count [OF this, of "length (filter ev_branch es)"]
  have n: "?n = int (length (filter ev_branch (es @ [e]))) mod RESET_USEFUL_INTERVAL"
    using snoc.IH [of 0] wrap by (cases "ev_branch e") (simp_all add: step Let_def split del: if_split cong: if_cong del: of_nat_Suc)
  show ?case
  proof (cases i)
    case 0
    show ?thesis using snoc.IH [of 0] n
      by (cases "ev_branch e") (simp_all add: step Let_def 0 add.commute del: of_nat_Suc)
  next
    case (Suc j)
    show ?thesis using snoc.IH [of j] snoc.IH [of i] n
      by (cases "ev_branch e") (simp_all add: step Let_def Suc del: of_nat_Suc, linarith)
  qed
qed

section \<open>Allocation\<close>

lemma lookup_upd_other: "upd_entry c i f t = t' \<Longrightarrow> ghist t' = ghist t \<and> phist t' = phist t"
  by auto

lemma tagHash_cong: "ghist t' = ghist t \<Longrightarrow> tagHash t' ip c = tagHash t ip c"
  by (simp add: tagHash_def)

lemma weak_counter:
  "ctr_taken 3 (fw_set 3 (if taken then WEAKLY_TAKEN else WEAKLY_NOT_TAKEN)) = taken"
  by (simp add: ctr_taken_def fw_defs fwc_defs WEAKLY_TAKEN_def WEAKLY_NOT_TAKEN_def)

lemma next_component_ge: "prov = - 1 \<or> 1 \<le> prov \<Longrightarrow> prov < next_component r prov"
  by (auto simp: next_component_def Let_def)

text \<open>
  C24. After a misprediction the new entry goes to the first component, from the randomised start
  on, whose entry for the address is not useful: that entry now matches the address, predicts the
  observed outcome weakly and counts as newly allocated, and no other entry changes.
\<close>

theorem tage_allocation:
  assumes "tage_ok t" "bi_ultimate_pred (branch_info t) \<noteq> taken"
    and "next_component r (bi_provider_comp (branch_info t)) \<le> int i" "i < NUM_COMPONENTS"
    and "te_u (tage_lookup t ip i) = 0"
    and "\<forall>j < i. next_component r (bi_provider_comp (branch_info t)) \<le> int j \<longrightarrow>
           te_u (tage_lookup t ip j) \<noteq> 0"
  shows "let t' = tage_allocate r ip taken t; e = tage_lookup t' ip i
         in tage_match t' ip i \<and> ctr_taken 3 (te_pred e) = taken \<and> newly_allocated e \<and>
            (c \<noteq> i - 1 \<or> k \<noteq> tage_index t ip i \<longrightarrow> tage_table t' c k = tage_table t c k)"
proof -
  let ?prov = "bi_provider_comp (branch_info t)"
  let ?f = "\<lambda>e. e\<lparr>te_pred := fw_set 3 (if taken then WEAKLY_TAKEN else WEAKLY_NOT_TAKEN),
                   te_tag := tagHash t ip i, te_u := fw_set 2 0\<rparr>"
  have p: "?prov = - 1 \<or> 1 \<le> ?prov"
    using assms(1) by (auto simp: tage_ok_def BranchInfo_ok_def slot_ok_def)
  note start = next_component_pos [OF p, of r] next_component_ge [OF p, of r]
  have "find_if (\<lambda>i. fwc_eq (te_u (tage_lookup t ip i)) 0)
      (nat (next_component r ?prov)) NUM_COMPONENTS = Some i"
    using assms(3-6) start by (auto simp: find_if_Some_iff fwc_eq_def)
  then have t': "tage_allocate r ip taken t = upd_entry (int i) (int (tage_index t ip i)) ?f t"
    using assms(2-4) start by (simp add: tage_allocate_eq Let_def)
  have idx: "tage_index (upd_entry (int i) (int (tage_index t ip i)) ?f t) ip i = tage_index t ip i"
    by (rule tage_index_cong) simp_all
  have "nat (int i - 1) = i - 1" using assms(3) start by linarith
  then have e: "tage_lookup (tage_allocate r ip taken t) ip i = ?f (tage_lookup t ip i)"
    by (simp add: t' tage_lookup_def idx) (simp add: upd_entry_def)
  have "tage_table (tage_allocate r ip taken t) c k = tage_table t c k"
    if "c \<noteq> i - 1 \<or> k \<noteq> tage_index t ip i"
    using that \<open>nat (int i - 1) = i - 1\<close> by (auto simp: t' upd_entry_def)
  moreover have "tagHash (tage_allocate r ip taken t) ip i = tagHash t ip i"
    by (rule tagHash_cong) (simp add: t')
  ultimately show ?thesis
    by (simp add: Let_def tage_match_def e weak_counter)
      (simp add: newly_allocated_def fw_defs fwc_defs WEAKLY_TAKEN_def WEAKLY_NOT_TAKEN_def)
qed

definition sample_tage :: Tage where
  "sample_tage = tage_initialize \<lparr>tage_table = (\<lambda>i j. tage_entry_reset),
     tage_bimodal_table = (\<lambda>i. 0), branch_info = BranchInfo_reset, num_branches = 0, phist = 0,
     ghist = 0, USE_ALT_ON_NA = 0\<rparr>"

lemma sample_tage_ok: "tage_ok sample_tage"
  using tage_init_ok [of "\<lparr>tage_table = (\<lambda>i j. tage_entry_reset),
     tage_bimodal_table = (\<lambda>i. 0), branch_info = BranchInfo_reset, num_branches = 0, phist = 0,
     ghist = 0, USE_ALT_ON_NA = 0\<rparr>"] by (simp add: sample_tage_def)

theorem tage_allocation_witness:
  "let t' = tage_allocate 3 (128 :: address) False sample_tage; e = tage_lookup t' 128 3
   in tage_match t' 128 3 \<and> \<not> ctr_taken 3 (te_pred e) \<and> newly_allocated e"
proof -
  have b: "branch_info sample_tage = BranchInfo_reset"
    by (simp add: sample_tage_def tage_initialize_def)
  have n: "next_component 3 (- 1) = 3"
    by (simp add: next_component_def Let_def NUM_COMPONENTS_def)
  have u: "te_u (tage_lookup sample_tage 128 3) = 0"
    by (simp add: tage_lookup_def sample_tage_def tage_initialize_def tage_entry_reset_def fw_defs fwc_defs)
  show ?thesis
    using tage_allocation [OF sample_tage_ok, of False 3 3 128] u
    by (auto simp: Let_def b n BranchInfo_reset_def NUM_COMPONENTS_def)
qed

text \<open>If no candidate is free, every candidate loses one unit of usefulness, nothing else.\<close>

lemma fold_upd_table:
  "distinct is \<Longrightarrow> (\<forall>i \<in> set is. 1 \<le> i) \<Longrightarrow>
   tage_table (fold (\<lambda>i. upd_entry (int i) (int (d i)) f) is t) k j =
     (if Suc k \<in> set is \<and> j = d (Suc k) then f (tage_table t k j) else tage_table t k j)"
proof (induction "is" arbitrary: t)
  case (Cons i "is")
  have "nat (int i - 1) = i - 1" using Cons.prems(2) by auto
  moreover have "Suc k = i \<longleftrightarrow> k = i - 1" using Cons.prems(2) by auto
  ultimately show ?case
    using Cons.prems by (auto simp: Cons.IH) (auto simp: upd_entry_def)
qed simp

lemma tage_no_free_entry:
  assumes "tage_ok t" "bi_ultimate_pred (branch_info t) \<noteq> taken"
    and "bi_provider_comp (branch_info t) < int NUM_COMPONENTS - 1"
    and "\<forall>j < NUM_COMPONENTS. next_component r (bi_provider_comp (branch_info t)) \<le> int j \<longrightarrow>
           te_u (tage_lookup t ip j) \<noteq> 0"
  shows "tage_table (tage_allocate r ip taken t) k j =
     (if next_component r (bi_provider_comp (branch_info t)) \<le> int (Suc k) \<and>
         Suc k < NUM_COMPONENTS \<and> j = tage_index t ip (Suc k)
      then (tage_table t k j)\<lparr>te_u := fw_minus 2 (te_u (tage_table t k j)) 1\<rparr>
      else tage_table t k j)"
proof -
  let ?prov = "bi_provider_comp (branch_info t)"
  have p: "?prov = - 1 \<or> 1 \<le> ?prov"
    using assms(1) by (auto simp: tage_ok_def BranchInfo_ok_def slot_ok_def)
  note start = next_component_pos [OF p, of r]
  have "find_if (\<lambda>i. fwc_eq (te_u (tage_lookup t ip i)) 0)
      (nat (next_component r ?prov)) NUM_COMPONENTS = None"
    using assms(4) start by (auto simp: find_if_None fwc_eq_def)
  then have "tage_allocate r ip taken t = fold (\<lambda>i. upd_entry (int i) (int (tage_index t ip i))
      (\<lambda>e. e\<lparr>te_u := fw_minus 2 (te_u e) 1\<rparr>)) [nat (next_component r ?prov)..<NUM_COMPONENTS] t"
    using assms(2,3) by (simp add: tage_allocate_eq Let_def)
  moreover have "\<forall>i \<in> set [nat (next_component r ?prov)..<NUM_COMPONENTS]. 1 \<le> i" using start by auto
  ultimately show ?thesis
    by (simp only: fold_upd_table [OF distinct_upt]) (auto simp: nat_le_iff)
qed

section \<open>A freshly initialised predictor\<close>

lemma initial_match:
  assumes "1 \<le> c" "c < NUM_COMPONENTS"
  shows "tage_match (tage_initialize t) ip c \<longleftrightarrow> ucast ip AND mask (TAG_WIDTHS ! (c - 1)) = (0 :: 32 word)"
proof -
  have "c - 1 < NUM_COMPONENTS - 1" using assms by linarith
  then have "te_tag (tage_lookup (tage_initialize t) ip c) = 0"
    using tage_index_range [OF assms, of "tage_initialize t" ip]
    by (simp add: tage_lookup_def) (simp add: tage_initialize_def tage_entry_reset_def)
  moreover have "ghist (tage_initialize t) = 0" by (simp add: tage_initialize_def)
  ultimately show ?thesis
    unfolding tage_match_def tagHash_def Let_def low_mask by auto
qed

lemma mask_and_antimono: "x AND mask n = 0 \<Longrightarrow> m \<le> n \<Longrightarrow> x AND mask m = 0" for x :: "'a::len word"
  by (auto simp: bit_eq_iff bit_and_iff bit_mask_iff)

lemma tag_widths_ge: "i < NUM_COMPONENTS - 1 \<Longrightarrow> 7 \<le> TAG_WIDTHS ! i"
proof -
  have "\<forall>w \<in> set TAG_WIDTHS. 7 \<le> w" "length TAG_WIDTHS = NUM_COMPONENTS - 1"
    by (simp_all add: TAG_WIDTHS_def NUM_COMPONENTS_def)
  then show "i < NUM_COMPONENTS - 1 \<Longrightarrow> ?thesis" using nth_mem by metis
qed

text \<open>
  Initialisation sets the bimodal table to weakly taken and clears the tagged tables to tag 0
  instead of an invalid tag.  A fresh predictor therefore predicts taken exactly for the addresses
  whose low seven bits are not all zero; the others hit a cleared entry and are predicted not taken.
\<close>

theorem tage_cold_start:
  "fst (tage_predict ip (tage_initialize t)) \<longleftrightarrow> ip AND 127 \<noteq> 0"
proof -
  let ?t = "tage_initialize t"
  obtain prov alt where scan: "tage_scan ?t ip = (prov, alt)" by fastforce
  have M: "matching ?t ip NUM_COMPONENTS = {} \<longleftrightarrow> ip AND 127 \<noteq> 0"
  proof -
    have "(2::nat) ^ 7 dvd 2 ^ 32" by (rule le_imp_power_dvd) simp
    then have "unat (ucast ip AND mask 7 :: 32 word) = unat ip mod 2 ^ 7"
      by (simp only: unat_and_mask unsigned_ucast_eq take_bit_nat_def mod_mod_cancel len_num1 len_bit0)
        (simp add: mod_mod_cancel)
    then have seven: "ucast ip AND mask 7 = (0 :: 32 word) \<longleftrightarrow> ip AND mask 7 = 0"
      by (simp add: unat_eq_0 [symmetric] unat_and_mask)
    have "1 \<in> matching ?t ip NUM_COMPONENTS \<longleftrightarrow> ip AND mask 7 = 0"
      using initial_match [of 1 t ip] seven by (auto simp: matching_def NUM_COMPONENTS_def TAG_WIDTHS_def)
    moreover have "i \<in> matching ?t ip NUM_COMPONENTS \<Longrightarrow> ip AND mask 7 = 0" for i
      using initial_match [of i t ip] tag_widths_ge [of "i - 1"] seven mask_and_antimono
      by (fastforce simp: matching_def)
    moreover have "(127 :: address) = mask 7" by (simp add: mask_eq_exp_minus_1)
    ultimately show ?thesis by auto
  qed
  show ?thesis
  proof (cases "prov = - 1")
    case True
    then have "matching ?t ip NUM_COMPONENTS = {}"
      using scan by (auto simp: tage_scan_eq Let_def longest_def split: if_splits)
    moreover have "unat ip mod BIMODAL_ENTRIES < BIMODAL_ENTRIES" by (simp add: BIMODAL_ENTRIES_def)
    ultimately show ?thesis
      using scan True M by (simp add: tage_predict_def Let_def)
        (simp add: tage_initialize_def ctr_taken_def fw_defs fwc_defs BIMODAL_BITS_def)
  next
    case False
    then have r: "1 \<le> nat prov" "nat prov < NUM_COMPONENTS" using tage_scan_range [OF scan] by auto
    then have e: "tage_lookup ?t ip (nat prov) = tage_entry_reset"
      using tage_index_range [OF r, of ?t ip]
      by (simp add: tage_lookup_def) (simp add: tage_initialize_def)
    have "matching ?t ip NUM_COMPONENTS \<noteq> {}"
      using scan False by (auto simp: tage_scan_eq Let_def longest_def split: if_splits)
    then show ?thesis
      using M by (simp add: tage_predict_def scan False e Let_def newly_allocated_def ctr_taken_def
          tage_entry_reset_def fw_defs fwc_defs WEAKLY_TAKEN_def WEAKLY_NOT_TAKEN_def)
  qed
qed

end
