(* ===== verification/Ltage.thy ===== *)
theory Ltage
  imports Tage_Correctness Loop_Predictor
begin

text \<open>
  The modules built from the two predictors: \<open>branch/Tage\<close>, whose class has the same text as the
  class in \<open>branch/LTage/tage.h\<close>, and \<open>branch/LTage\<close>, which runs a loop predictor beside TAGE and
  lets a confident loop prediction override it.
\<close>

section \<open>The module \<open>branch/Tage\<close>\<close>

definition Tage_get_ghist_hash :: "Tage \<Rightarrow> nat \<Rightarrow> nat \<Rightarrow> 32 word" where
  "Tage_get_ghist_hash t inSize outSize = get_ghist_hash (ghist t) inSize outSize"

definition Tage_predict_branch :: "address \<Rightarrow> Tage \<Rightarrow> bool \<times> Tage" where
  "Tage_predict_branch ip t = tage_predict ip t"

definition Tage_last_branch_result ::
  "32 word \<Rightarrow> address \<Rightarrow> address \<Rightarrow> bool \<Rightarrow> branch_type \<Rightarrow> Tage \<Rightarrow> Tage" where
  "Tage_last_branch_result r ip branch_target taken ty t =
     tage_last_branch_result r ip branch_target taken ty t"

definition Tage_initialize_branch_predictor :: "Tage \<Rightarrow> Tage" where
  "Tage_initialize_branch_predictor t = tage_initialize t"

section \<open>The module \<open>branch/LTage\<close>\<close>

record LTage =
  tage_predictor :: Tage
  loop_predictor :: LoopPredictor

definition LTage_predict_branch :: "address \<Rightarrow> LTage \<Rightarrow> bool \<times> LTage" where
  "LTage_predict_branch ip s =
     (let (loop_prediction, l) = loop_predict ip (loop_predictor s);
          (tage_prediction, t) = tage_predict ip (tage_predictor s)
      in (if is_valid_loop_prediction (loop_branch_info l) then loop_prediction else tage_prediction,
          s\<lparr>tage_predictor := t, loop_predictor := l\<rparr>))"

definition LTage_last_branch_result ::
  "32 word \<Rightarrow> address \<Rightarrow> address \<Rightarrow> bool \<Rightarrow> branch_type \<Rightarrow> LTage \<Rightarrow> LTage" where
  "LTage_last_branch_result r ip branch_target taken ty s =
     (let s = s\<lparr>loop_predictor := loop_last_branch_result ip branch_target taken ty (loop_predictor s)\<rparr>
      in s\<lparr>tage_predictor := tage_last_branch_result r ip branch_target taken ty (tage_predictor s)\<rparr>)"

definition LTage_initialize_branch_predictor :: "LTage \<Rightarrow> LTage" where
  "LTage_initialize_branch_predictor s =
     s\<lparr>loop_predictor := loop_predictor_init (loop_predictor s),
       tage_predictor := tage_initialize (tage_predictor s)\<rparr>"

section \<open>The two components of LTAGE\<close>

definition ltage_ok :: "LTage \<Rightarrow> bool" where
  "ltage_ok s \<longleftrightarrow> tage_ok (tage_predictor s) \<and> loop_ok (loop_predictor s)"

lemma LTage_predict_state:
  "snd (LTage_predict_branch ip s) =
     s\<lparr>tage_predictor := snd (tage_predict ip (tage_predictor s)),
       loop_predictor := snd (loop_predict ip (loop_predictor s))\<rparr>"
  by (simp add: LTage_predict_branch_def case_prod_beta Let_def)

lemma LTage_predict_choice:
  "fst (LTage_predict_branch ip s) =
     (case loop_verdict ip (loop_predictor s) of
        (valid, p) \<Rightarrow> if valid then p else fst (tage_predict ip (tage_predictor s)))"
  by (simp add: LTage_predict_branch_def loop_verdict_def case_prod_beta Let_def)

lemma LTage_step:
  "tage_predictor (bp_step LTage_predict_branch LTage_last_branch_result e s) =
     bp_step tage_predict tage_last_branch_result e (tage_predictor s)"
  "loop_predictor (bp_step LTage_predict_branch LTage_last_branch_result e s) =
     bp_step loop_predict loop_update e (loop_predictor s)"
  by (simp_all add: bp_step_def LTage_predict_state LTage_last_branch_result_def Let_def)

interpretation ltage: branch_predictor ltage_ok LTage_predict_branch LTage_last_branch_result
  "LTage_initialize_branch_predictor
     (s\<lparr>tage_predictor := (tage_predictor s)\<lparr>USE_ALT_ON_NA := 0\<rparr>\<rparr>)"
  by unfold_locales
    (simp_all add: ltage_ok_def LTage_initialize_branch_predictor_def LTage_predict_state
      LTage_last_branch_result_def Let_def tage_init_ok loop_init_ok tage_predict_ok loop_predict_ok
      tage_update_ok predict_info_ok loop_update_ok)

lemma LTage_run:
  "tage_predictor (bp_run LTage_predict_branch LTage_last_branch_result es s) =
     bp_run tage_predict tage_last_branch_result es (tage_predictor s)"
  "loop_predictor (bp_run LTage_predict_branch LTage_last_branch_result es s) =
     bp_run loop_predict loop_update es (loop_predictor s)"
  by (induction es arbitrary: s) (simp_all add: LTage_step)

text \<open>
  C20. LTAGE is TAGE with an independent loop predictor on top: along any run, the prediction is the
  loop predictor's where the loop predictor running alone would be confident, and otherwise exactly
  the prediction of the TAGE module running alone on the same branches.
\<close>

theorem ltage_refines_tage:
  "fst (LTage_predict_branch ip (bp_run LTage_predict_branch LTage_last_branch_result es s)) =
     (case loop_verdict ip (bp_run loop_predict loop_update es (loop_predictor s)) of
        (valid, p) \<Rightarrow> if valid then p
          else fst (Tage_predict_branch ip
            (bp_run Tage_predict_branch Tage_last_branch_result es (tage_predictor s))))"
proof -
  have "Tage_predict_branch = tage_predict" "Tage_last_branch_result = tage_last_branch_result"
    by (auto simp: fun_eq_iff Tage_predict_branch_def Tage_last_branch_result_def)
  then show ?thesis by (simp add: LTage_predict_choice LTage_run)
qed

text \<open>
  C19. LTAGE predicts loops exactly.  A loop branch of \<open>1\<close> to \<open>16383\<close> iterations that gets a free way
  of a set it shares with no other branch is, after three executions of the loop, always predicted
  correctly, its exits included, whatever TAGE would say: after \<open>i\<close> iterations of an execution the
  prediction is "taken" exactly when \<open>i\<close> is not yet the trip count.
\<close>

theorem ltage_learns_loops:
  assumes n: "0 < n" "n \<le> 16383"
    and start: "loop_can_allocate ip (loop_predictor s)" "ev_branch ev" "ev_ip ev = ip"
    and alone: "own_set ip es"
    and trace: "outcomes ip (ev # es) =
      concat (replicate (3 + k) (loop_exec n)) @ replicate i True" "i \<le> n"
  shows "fst (LTage_predict_branch ip
    (bp_run LTage_predict_branch LTage_last_branch_result (ev # es) s)) = (i < n)"
  using loop_learned [OF assms] by (simp only: LTage_predict_choice LTage_run prod.case if_True)

definition sample_LTage :: LTage where
  "sample_LTage = \<lparr>tage_predictor = sample_tage, loop_predictor = sample_loop_predictor\<rparr>"

theorem ltage_learns_loops_witness:
  "fst (LTage_predict_branch 64 (bp_run LTage_predict_branch LTage_last_branch_result
     (map (sample_event 64) [True, False, True, False, True, False]) sample_LTage))"
proof -
  have "fst (LTage_predict_branch 64 (bp_run LTage_predict_branch LTage_last_branch_result
      (sample_event 64 True # map (sample_event 64) [False, True, False, True, False]) sample_LTage))
      = (0 < (1::nat))"
    by (rule ltage_learns_loops [where k = 0])
      (simp_all add: sample_LTage_def sample_can_allocate own_set_def outcomes_def loop_exec_def
        numeral_eq_Suc, simp_all add: sample_event_def)
  then show ?thesis by simp
qed

end
