(* ===== verification/Bimodal_Gshare.thy ===== *)
theory Bimodal_Gshare
  imports Fwcounter Branch_Predictor
begin

text \<open>
  The two table predictors \<open>branch/bimodal\<close> and \<open>branch/gshare\<close>: a table of two-bit saturating
  counters indexed by the address, or by the address and the last 14 outcomes.
\<close>

section \<open>Bimodal\<close>

definition PRIME :: nat where "PRIME = 16381"
definition TABLE_SIZE :: nat where "TABLE_SIZE = 16384"

record bimodal =
  bimodal_table :: "counter array"

definition bimodal_hash :: "address \<Rightarrow> nat" where
  "bimodal_hash ip = unat ip mod PRIME"

text \<open>A fresh module holds value-initialised counters.\<close>

definition bimodal_init :: bimodal where
  "bimodal_init = \<lparr>bimodal_table = (\<lambda>_. 0)\<rparr>"

definition bimodal_predict_branch :: "address \<Rightarrow> bimodal \<Rightarrow> bool \<times> bimodal" where
  "bimodal_predict_branch ip s = (let v = bimodal_table s (bimodal_hash ip) in (v > fw_max 2 div 2, s))"

definition bimodal_last_branch_result ::
  "32 word \<Rightarrow> address \<Rightarrow> address \<Rightarrow> bool \<Rightarrow> branch_type \<Rightarrow> bimodal \<Rightarrow> bimodal" where
  "bimodal_last_branch_result r ip branch_target taken ty s =
     s\<lparr>bimodal_table := (bimodal_table s)
         (bimodal_hash ip := fw_plus 2 (bimodal_table s (bimodal_hash ip)) (step_of taken))\<rparr>"

definition bimodal_ok :: "bimodal \<Rightarrow> bool" where
  "bimodal_ok s \<longleftrightarrow> (\<forall>i < TABLE_SIZE. fw_ok 2 (bimodal_table s i))"

lemma bimodal_hash_range [range_intros]: "bimodal_hash ip < TABLE_SIZE"
proof -
  have "bimodal_hash ip < PRIME" by (simp add: bimodal_hash_def PRIME_def)
  then show ?thesis by (simp add: TABLE_SIZE_def PRIME_def)
qed

interpretation bimodal: pure_branch_predictor bimodal_ok bimodal_predict_branch
  bimodal_last_branch_result bimodal_init
  by unfold_locales
    (simp_all add: bimodal_ok_def bimodal_init_def bimodal_predict_branch_def Let_def
      bimodal_last_branch_result_def)

text \<open>The outcomes of the branches that share the counter of an address.\<close>

definition slot_outcomes :: "address \<Rightarrow> branch_event list \<Rightarrow> bool list" where
  "slot_outcomes ip es =
     map ev_taken (filter (\<lambda>e. ev_branch e \<and> bimodal_hash (ev_ip e) = bimodal_hash ip) es)"

lemma bimodal_run_slot:
  "bimodal_table (bp_run bimodal_predict_branch bimodal_last_branch_result es s) (bimodal_hash ip) =
     fold (\<lambda>taken c. fw_plus 2 c (step_of taken)) (slot_outcomes ip es) (bimodal_table s (bimodal_hash ip))"
  by (induction es arbitrary: s)
    (auto simp: slot_outcomes_def bp_step_def bimodal_predict_branch_def bimodal_last_branch_result_def Let_def)

lemma two_steps_decide:
  "fw_ok 2 c \<Longrightarrow> fw_plus 2 (fw_plus 2 c (step_of d)) (step_of d) > fw_max 2 div 2 \<longleftrightarrow> d"
  by (cases d) (auto simp: fw_defs fwc_defs counter_ok_def)

lemma fold_counter_ok: "fw_ok w c \<Longrightarrow> fw_ok w (fold (\<lambda>taken c. fw_plus w c (step_of taken)) bs c)"
  by (induction bs arbitrary: c) simp_all

text \<open>
  Two equal outcomes in a row decide the bimodal prediction: whatever the predictor saw before,
  it then predicts that direction for every address that shares the counter.
\<close>

theorem bimodal_hysteresis:
  assumes "bimodal_ok s" "slot_outcomes ip es = bs @ [d, d]"
  shows "fst (bimodal_predict_branch ip
    (bp_run bimodal_predict_branch bimodal_last_branch_result es s)) = d"
proof -
  have "fw_ok 2 (bimodal_table s (bimodal_hash ip))"
    using assms(1) bimodal_hash_range by (simp add: bimodal_ok_def)
  then show ?thesis
    by (simp add: bimodal_predict_branch_def bimodal_run_slot assms(2) two_steps_decide fold_counter_ok)
qed

definition sample_branch :: "address \<Rightarrow> bool \<Rightarrow> branch_event" where
  "sample_branch a t = \<lparr>ev_ip = a, ev_branch = True, ev_target = 0, ev_taken = t,
     ev_type = BRANCH_CONDITIONAL, ev_rand = 0\<rparr>"

theorem bimodal_hysteresis_witness:
  "fst (bimodal_predict_branch 5 (bp_run bimodal_predict_branch bimodal_last_branch_result
     (map (sample_branch 5) [False, True, True]) bimodal_init))"
proof -
  have "fst (bimodal_predict_branch 5 (bp_run bimodal_predict_branch bimodal_last_branch_result
     (map (sample_branch 5) [False, True, True]) bimodal_init)) = True"
    by (rule bimodal_hysteresis [where bs = "[False]"])
      (simp_all add: bimodal.init_ok slot_outcomes_def sample_branch_def)
  then show ?thesis by simp
qed

section \<open>Gshare\<close>

definition GLOBAL_HISTORY_LENGTH :: nat where "GLOBAL_HISTORY_LENGTH = 14"
definition GS_HISTORY_TABLE_SIZE :: nat where "GS_HISTORY_TABLE_SIZE = 16384"

record gshare =
  branch_history_vector :: "14 word"
  gs_history_table :: "counter array"

text \<open>\<open>slice<up, low>\<close> of an address, as a number.\<close>

definition ip_bits :: "address \<Rightarrow> nat \<Rightarrow> nat \<Rightarrow> 64 word" where
  "ip_bits ip up low = drop_bit low ip AND mask (up - low)"

definition gs_table_hash :: "address \<Rightarrow> 14 word \<Rightarrow> nat" where
  "gs_table_hash ip bh_vector =
     (let log2_size = 14; len = GLOBAL_HISTORY_LENGTH;
          h = ucast bh_vector;
          h = h XOR ip_bits ip log2_size 0;
          h = h XOR ip_bits ip (log2_size + len) len;
          h = h XOR ip_bits ip (log2_size + 2 * len) (2 * len)
      in unat h mod GS_HISTORY_TABLE_SIZE)"

definition gshare_init :: gshare where
  "gshare_init = \<lparr>branch_history_vector = 0, gs_history_table = (\<lambda>_. 0)\<rparr>"

definition gshare_predict_branch :: "address \<Rightarrow> gshare \<Rightarrow> bool \<times> gshare" where
  "gshare_predict_branch ip s =
     (let v = gs_history_table s (gs_table_hash ip (branch_history_vector s)) in (v \<ge> fw_max 2 div 2, s))"

definition gshare_last_branch_result ::
  "32 word \<Rightarrow> address \<Rightarrow> address \<Rightarrow> bool \<Rightarrow> branch_type \<Rightarrow> gshare \<Rightarrow> gshare" where
  "gshare_last_branch_result r ip branch_target taken ty s =
     (let gs_hash = gs_table_hash ip (branch_history_vector s)
      in s\<lparr>gs_history_table := (gs_history_table s)
             (gs_hash := fw_plus 2 (gs_history_table s gs_hash) (step_of taken)),
           branch_history_vector := shift_in taken (branch_history_vector s)\<rparr>)"

definition gshare_ok :: "gshare \<Rightarrow> bool" where
  "gshare_ok s \<longleftrightarrow> (\<forall>i < GS_HISTORY_TABLE_SIZE. fw_ok 2 (gs_history_table s i))"

lemma gs_hash_range [range_intros]: "gs_table_hash ip h < GS_HISTORY_TABLE_SIZE"
  by (simp add: gs_table_hash_def Let_def GS_HISTORY_TABLE_SIZE_def)

interpretation gshare: pure_branch_predictor gshare_ok gshare_predict_branch
  gshare_last_branch_result gshare_init
  by unfold_locales
    (simp_all add: gshare_ok_def gshare_init_def gshare_predict_branch_def Let_def
      gshare_last_branch_result_def)

text \<open>
  The hash mixes the history without loss: for one address, two different 14-bit histories
  select two different counters, both inside the table.
\<close>

theorem gshare_hash_injective:
  "(gs_table_hash ip h = gs_table_hash ip h' \<longleftrightarrow> h = h') \<and> gs_table_hash ip h < GS_HISTORY_TABLE_SIZE"
proof -
  define x where "x = ip_bits ip 14 0 XOR ip_bits ip 28 14 XOR ip_bits ip 42 28"
  have "gs_table_hash ip g = unat (take_bit 14 (ucast g XOR x))" for g :: "14 word"
    unfolding unsigned_take_bit_eq take_bit_nat_def
    by (simp add: gs_table_hash_def Let_def GLOBAL_HISTORY_LENGTH_def GS_HISTORY_TABLE_SIZE_def
        x_def xor.assoc)
  moreover have "take_bit 14 (ucast g XOR x) = ucast g XOR take_bit 14 x" for g :: "14 word"
    by (rule bit_word_eqI) (auto simp: bit_take_bit_iff bit_xor_iff bit_ucast_iff dest: bit_imp_le_length)
  moreover have "(ucast h :: 64 word) XOR y = ucast h' XOR y \<longleftrightarrow> ucast h = (ucast h' :: 64 word)" for y
    by (auto simp: bit_eq_iff bit_xor_iff)
  moreover have "ucast h = (ucast h' :: 64 word) \<longleftrightarrow> h = h'"
  proof
    assume eq: "ucast h = (ucast h' :: 64 word)"
    show "h = h'"
    proof (rule bit_word_eqI)
      fix n assume "n < LENGTH(14)"
      moreover have "bit (ucast h :: 64 word) n = bit (ucast h' :: 64 word) n" using eq by simp
      ultimately show "bit h n = bit h' n" by (simp add: bit_ucast_iff)
    qed
  qed simp
  ultimately have "gs_table_hash ip h = gs_table_hash ip h' \<longleftrightarrow> h = h'"
    by (simp add: word_eq_iff_unsigned [symmetric])
  then show ?thesis using gs_hash_range by blast
qed

text \<open>
  The history vector of gshare holds the outcomes of the last 14 branches, newest first;
  instructions that are not branches do not shift it.
\<close>

theorem gshare_history:
  "bit (branch_history_vector
      (bp_run gshare_predict_branch gshare_last_branch_result es gshare_init)) i \<longleftrightarrow>
   i < 14 \<and> i < length (filter ev_branch es) \<and> ev_taken (rev (filter ev_branch es) ! i)"
proof (induction es arbitrary: i rule: rev_induct)
  case Nil
  then show ?case by (simp add: gshare_init_def)
next
  case (snoc e es)
  have step: "branch_history_vector (bp_run gshare_predict_branch gshare_last_branch_result (es @ [e]) gshare_init) =
      (let h = branch_history_vector (bp_run gshare_predict_branch gshare_last_branch_result es gshare_init)
       in if ev_branch e then shift_in (ev_taken e) h else h)"
    by (simp add: bp_run_append bp_step_def gshare_predict_branch_def gshare_last_branch_result_def Let_def)
  show ?case
  proof (cases i)
    case 0
    then show ?thesis using snoc.IH [of 0] by (simp add: step Let_def bit_shift_in)
  next
    case (Suc j)
    then show ?thesis using snoc.IH [of i] snoc.IH [of j] by (auto simp: step Let_def bit_shift_in)
  qed
qed

text \<open>
  The prediction threshold of gshare is one below that of bimodal (\<open>>=\<close> for \<open>>\<close>): a saturated
  counter still predicts taken after two outcomes that are not taken.
\<close>

lemma gshare_threshold:
  "fw_plus 2 (fw_plus 2 3 (step_of False)) (step_of False) \<ge> fw_max 2 div 2"
  by (simp add: fw_defs fwc_defs)

end
