(* ===== verification/Perceptron.thy ===== *)
theory Perceptron
  imports Fwcounter Branch_Predictor
begin

text \<open>
  The perceptron predictor \<open>branch/perceptron\<close>: 163 perceptrons with a bias and 24 signed 8-bit
  weights, a speculative and a real history register, and a queue of at most 100 predictions whose
  outcome is not known yet.
\<close>

section \<open>One perceptron\<close>

definition PERCEPTRON_HISTORY :: nat where "PERCEPTRON_HISTORY = 24"
definition PERCEPTRON_BITS :: nat where "PERCEPTRON_BITS = 8"
definition NUM_PERCEPTRONS :: nat where "NUM_PERCEPTRONS = 163"
definition NUM_UPDATE_ENTRIES :: nat where "NUM_UPDATE_ENTRIES = 100"

lemmas perceptron_params = PERCEPTRON_HISTORY_def PERCEPTRON_BITS_def NUM_PERCEPTRONS_def
  NUM_UPDATE_ENTRIES_def

record internal_perceptron =
  bias :: counter
  weights :: "counter array"

definition internal_predict :: "internal_perceptron \<Rightarrow> 24 word \<Rightarrow> int" where
  "internal_predict p history =
     fold (\<lambda>i output. if bit history i then output + weights p i else output - weights p i)
       [0..<PERCEPTRON_HISTORY] (bias p)"

definition internal_update :: "bool \<Rightarrow> 24 word \<Rightarrow> internal_perceptron \<Rightarrow> internal_perceptron" where
  "internal_update result history p =
     (let upd_mask = (if result then history else NOT history)
      in p\<lparr>bias := sfw_plus PERCEPTRON_BITS (bias p) (step_of result),
           weights := (\<lambda>i. if i < PERCEPTRON_HISTORY
             then sfw_plus PERCEPTRON_BITS (weights p i) (step_of (bit upd_mask i)) else weights p i)\<rparr>)"

section \<open>The module\<close>

record perceptron_state =
  ps_ip :: address
  ps_prediction :: bool
  ps_output :: int
  ps_history :: "24 word"

record perceptron =
  perceptrons :: "internal_perceptron array"
  perceptron_state_buf :: "perceptron_state list"
  spec_global_history :: "24 word"
  global_history :: "24 word"

definition perceptron_init :: perceptron where
  "perceptron_init = \<lparr>perceptrons = (\<lambda>_. \<lparr>bias = 0, weights = (\<lambda>_. 0)\<rparr>),
     perceptron_state_buf = [], spec_global_history = 0, global_history = 0\<rparr>"

definition perceptron_index :: "address \<Rightarrow> nat" where
  "perceptron_index ip = unat ip mod NUM_PERCEPTRONS"

definition perceptron_predict_branch :: "address \<Rightarrow> perceptron \<Rightarrow> bool \<times> perceptron" where
  "perceptron_predict_branch ip s =
     (let output = internal_predict (perceptrons s (perceptron_index ip)) (spec_global_history s);
          prediction = (output \<ge> 0);
          buf = perceptron_state_buf s @ [\<lparr>ps_ip = ip, ps_prediction = prediction,
                  ps_output = output, ps_history = spec_global_history s\<rparr>]
      in (prediction,
          s\<lparr>perceptron_state_buf := (if length buf > NUM_UPDATE_ENTRIES then tl buf else buf),
            spec_global_history := shift_in prediction (spec_global_history s)\<rparr>))"

text \<open>\<open>std::lround(1.93 * 24 + 14)\<close>: the product is 46.32 up to rounding of the last place.\<close>

definition THETA :: int where "THETA = (193 * int PERCEPTRON_HISTORY + 1400 + 50) div 100"

definition perceptron_last_branch_result ::
  "32 word \<Rightarrow> address \<Rightarrow> address \<Rightarrow> bool \<Rightarrow> branch_type \<Rightarrow> perceptron \<Rightarrow> perceptron" where
  "perceptron_last_branch_result r ip branch_target taken ty s =
     (case find_if (\<lambda>k. ps_ip (perceptron_state_buf s ! k) = ip) 0 (length (perceptron_state_buf s)) of
        None \<Rightarrow> s
      | Some k \<Rightarrow>
          (let st = perceptron_state_buf s ! k;
               gh = shift_in taken (global_history s);
               s = s\<lparr>perceptron_state_buf :=
                       take k (perceptron_state_buf s) @ drop (Suc k) (perceptron_state_buf s),
                     global_history := gh,
                     spec_global_history :=
                       (if ps_prediction st \<noteq> taken then gh else spec_global_history s)\<rparr>
           in if ps_output st \<le> THETA \<and> ps_output st \<ge> - THETA \<or> ps_prediction st \<noteq> taken then
                (let index = perceptron_index ip
                 in s\<lparr>perceptrons := (perceptrons s)
                        (index := internal_update taken (ps_history st) (perceptrons s index))\<rparr>)
              else s))"

section \<open>Invariant\<close>

definition internal_ok :: "internal_perceptron \<Rightarrow> bool" where
  "internal_ok p \<longleftrightarrow> sfw_ok PERCEPTRON_BITS (bias p) \<and>
     (\<forall>i < PERCEPTRON_HISTORY. sfw_ok PERCEPTRON_BITS (weights p i))"

definition perceptron_ok :: "perceptron \<Rightarrow> bool" where
  "perceptron_ok s \<longleftrightarrow> (\<forall>i < NUM_PERCEPTRONS. internal_ok (perceptrons s i)) \<and>
     length (perceptron_state_buf s) \<le> NUM_UPDATE_ENTRIES"

lemma internal_update_ok: "internal_ok (internal_update r h p)" if "internal_ok p"
  using that by (simp add: internal_ok_def internal_update_def Let_def)

lemma perceptron_index_range [range_intros]: "perceptron_index ip < NUM_PERCEPTRONS"
  by (simp add: perceptron_index_def NUM_PERCEPTRONS_def)

lemma perceptron_init_ok: "perceptron_ok perceptron_init"
  by (simp add: perceptron_ok_def perceptron_init_def internal_ok_def perceptron_params
      counter_ok_def sfw_max_def sfw_min_def)

lemma perceptron_predict_ok: "perceptron_ok s \<Longrightarrow> perceptron_ok (snd (perceptron_predict_branch ip s))"
  by (auto simp: perceptron_ok_def perceptron_predict_branch_def Let_def)

lemma perceptron_update_ok:
  "perceptron_ok s \<Longrightarrow> perceptron_ok (perceptron_last_branch_result r ip tgt taken ty s)"
  by (auto simp: perceptron_ok_def perceptron_last_branch_result_def Let_def internal_update_ok
      split: option.split)

interpretation perceptron: branch_predictor perceptron_ok perceptron_predict_branch
  perceptron_last_branch_result perceptron_init
  by unfold_locales (simp_all add: perceptron_init_ok perceptron_predict_ok perceptron_update_ok)

section \<open>The output of a perceptron\<close>

lemma fold_signed_sum:
  "fold (\<lambda>i out. if bit h i then out + w i else out - w i) is b =
     b + (\<Sum>i\<leftarrow>is. if bit h i then w i else - w i :: int)"
  by (induction "is" arbitrary: b) auto

lemma internal_predict_sum:
  "internal_predict p h = bias p + (\<Sum>i<PERCEPTRON_HISTORY. if bit h i then weights p i else - weights p i)"
  by (simp add: internal_predict_def fold_signed_sum interv_sum_list_conv_sum_set_nat atLeast0LessThan)

lemma initial_predict [simp]: "internal_predict (perceptrons perceptron_init k) h = 0"
  by (simp add: internal_predict_sum perceptron_init_def cong: if_cong)

lemma signed_sum_bound:
  "(\<And>i. i < n \<Longrightarrow> \<bar>f i\<bar> \<le> c) \<Longrightarrow> \<bar>\<Sum>i<n. f i\<bar> \<le> int n * (c::int)"
proof (induction n)
  case (Suc n)
  have "\<bar>\<Sum>i<n. f i\<bar> \<le> int n * c" "\<bar>f n\<bar> \<le> c" using Suc by auto
  then show ?case by (auto simp: algebra_simps)
qed simp

text \<open>
  The output of a perceptron whose weights are within their eight bits is the signed sum of
  bias and weights and stays within \<open>3200\<close> in magnitude, far from overflow.
\<close>

theorem perceptron_output_bound:
  assumes "internal_ok p"
  shows "internal_predict p h =
      bias p + (\<Sum>i<PERCEPTRON_HISTORY. if bit h i then weights p i else - weights p i) \<and>
    \<bar>internal_predict p h\<bar> \<le> 3200"
proof -
  have "\<bar>\<Sum>i<PERCEPTRON_HISTORY. if bit h i then weights p i else - weights p i\<bar> \<le>
      int PERCEPTRON_HISTORY * 128"
    using assms by (intro signed_sum_bound)
      (auto simp: internal_ok_def counter_ok_def sfw_max_def sfw_min_def PERCEPTRON_BITS_def)
  moreover have "\<bar>bias p\<bar> \<le> 128"
    using assms by (auto simp: internal_ok_def counter_ok_def sfw_max_def sfw_min_def PERCEPTRON_BITS_def)
  ultimately show ?thesis by (auto simp: internal_predict_sum PERCEPTRON_HISTORY_def)
qed

theorem perceptron_output_bound_witness:
  "internal_predict (perceptrons perceptron_init 0) 5 = 0 \<and>
   \<bar>internal_predict (perceptrons perceptron_init 0) 5\<bar> \<le> 3200"
proof -
  have "internal_ok (perceptrons perceptron_init 0)"
    using perceptron_init_ok by (simp add: perceptron_ok_def NUM_PERCEPTRONS_def)
  from perceptron_output_bound [OF this, of 5] show ?thesis by simp
qed

section \<open>Training\<close>

definition signed_weight :: "bool \<Rightarrow> int \<Rightarrow> int" where
  "signed_weight b w = (if b then w else - w)"

lemma internal_predict_signed:
  "internal_predict p h = bias p + (\<Sum>i<PERCEPTRON_HISTORY. signed_weight (bit h i) (weights p i))"
  by (simp add: internal_predict_sum signed_weight_def)

definition weight_inside :: "int \<Rightarrow> bool" where
  "weight_inside w \<longleftrightarrow> sfw_min PERCEPTRON_BITS < w \<and> w < sfw_max PERCEPTRON_BITS"

text \<open>The contribution of one weight moves by at most one towards the outcome \<open>r\<close>.\<close>

lemma contribution_step:
  fixes b r :: bool
  assumes "sfw_ok PERCEPTRON_BITS w"
  defines "t \<equiv> step_of r * (signed_weight b (sfw_plus PERCEPTRON_BITS w (step_of (b = r))) - signed_weight b w)"
  shows "0 \<le> t" "t \<le> 1" "weight_inside w \<Longrightarrow> t = 1"
  using assms by (cases b; cases r; simp add: signed_weight_def weight_inside_def counter_ok_def
      sfw_plus_def fwc_defs step_of_def sfw_max_def sfw_min_def PERCEPTRON_BITS_def)+

lemma updated_weight:
  "i < PERCEPTRON_HISTORY \<Longrightarrow>
    weights (internal_update r h p) i = sfw_plus PERCEPTRON_BITS (weights p i) (step_of (bit h i = r))"
  by (cases r) (simp_all add: internal_update_def Let_def bit_not_iff PERCEPTRON_HISTORY_def)

lemma training_change:
  fixes p h r
  defines "t \<equiv> \<lambda>i. step_of r * (signed_weight (bit h i) (weights (internal_update r h p) i)
                                - signed_weight (bit h i) (weights p i))"
  shows "step_of r * (internal_predict (internal_update r h p) h - internal_predict p h) =
    step_of r * (signed_weight True (sfw_plus PERCEPTRON_BITS (bias p) (step_of (True = r)))
      - signed_weight True (bias p)) + (\<Sum>i<PERCEPTRON_HISTORY. t i)"
proof -
  have "bias (internal_update r h p) = sfw_plus PERCEPTRON_BITS (bias p) (step_of r)"
    by (simp add: internal_update_def Let_def)
  moreover have "(\<Sum>i<PERCEPTRON_HISTORY. t i) =
      step_of r * ((\<Sum>i<PERCEPTRON_HISTORY. signed_weight (bit h i) (weights (internal_update r h p) i))
        - (\<Sum>i<PERCEPTRON_HISTORY. signed_weight (bit h i) (weights p i)))"
    by (simp add: t_def sum_distrib_left sum_subtractf right_diff_distrib)
  ultimately show ?thesis
    by (simp add: internal_predict_signed signed_weight_def algebra_simps)
qed

text \<open>
  Training moves a perceptron towards the outcome for the history it is trained on: the output
  for that history changes in the direction of the outcome by at most 25, and by exactly 25 as long
  as no weight is saturated.
\<close>

theorem perceptron_training:
  assumes ok: "internal_ok p"
  shows "let d = step_of r * (internal_predict (internal_update r h p) h - internal_predict p h)
    in 0 \<le> d \<and> d \<le> 25 \<and>
       (weight_inside (bias p) \<and> (\<forall>i < PERCEPTRON_HISTORY. weight_inside (weights p i)) \<longrightarrow> d = 25)"
proof -
  let ?b = "step_of r * (signed_weight True (sfw_plus PERCEPTRON_BITS (bias p) (step_of (True = r)))
      - signed_weight True (bias p))"
  let ?t = "\<lambda>i. step_of r * (signed_weight (bit h i) (weights (internal_update r h p) i)
                             - signed_weight (bit h i) (weights p i))"
  have b: "0 \<le> ?b" "?b \<le> 1" "weight_inside (bias p) \<Longrightarrow> ?b = 1"
    using ok contribution_step [of "bias p" r True] by (simp_all add: internal_ok_def)
  have t: "0 \<le> ?t i" "?t i \<le> 1" "weight_inside (weights p i) \<Longrightarrow> ?t i = 1"
    if "i < PERCEPTRON_HISTORY" for i
    using ok that by (auto simp: internal_ok_def updated_weight intro: contribution_step)
  have "0 \<le> (\<Sum>i<PERCEPTRON_HISTORY. ?t i)" by (rule sum_nonneg) (use t in auto)
  moreover have "(\<Sum>i<PERCEPTRON_HISTORY. ?t i) \<le> (\<Sum>i<PERCEPTRON_HISTORY. 1)"
    by (rule sum_mono) (use t in auto)
  moreover have "(\<Sum>i<PERCEPTRON_HISTORY. ?t i) = (\<Sum>i<PERCEPTRON_HISTORY. 1)"
    if "\<forall>i < PERCEPTRON_HISTORY. weight_inside (weights p i)"
    by (rule sum.cong) (use t that in auto)
  ultimately show ?thesis
    using b by (auto simp: Let_def training_change PERCEPTRON_HISTORY_def)
qed

theorem perceptron_training_witness:
  "internal_predict (internal_update True 5 (perceptrons perceptron_init 0)) 5 = 25"
proof -
  let ?p = "perceptrons perceptron_init 0"
  have ok: "internal_ok ?p"
    using perceptron_init_ok by (simp add: perceptron_ok_def NUM_PERCEPTRONS_def)
  have "weight_inside (bias ?p)" "weight_inside (weights ?p i)" for i
    by (simp_all add: perceptron_init_def weight_inside_def sfw_max_def sfw_min_def PERCEPTRON_BITS_def)
  then show ?thesis
    using perceptron_training [OF ok, of True 5] by (simp add: Let_def step_of_def)
qed

section \<open>The history registers\<close>

text \<open>A program in which an address is either always or never a branch.\<close>

definition consistent :: "address set \<Rightarrow> branch_event list \<Rightarrow> bool" where
  "consistent B es \<longleftrightarrow> list_all (\<lambda>e. ev_branch e \<longleftrightarrow> ev_ip e \<in> B) es"

definition no_pending :: "address set \<Rightarrow> perceptron \<Rightarrow> bool" where
  "no_pending B s \<longleftrightarrow> list_all (\<lambda>x. ps_ip x \<notin> B) (perceptron_state_buf s)"

text \<open>The entry that a prediction appends, and the queue in front of it.\<close>

lemma predict_queue:
  obtains q st where "perceptron_state_buf (snd (perceptron_predict_branch ip s)) = q @ [st]"
    "ps_ip st = ip" "set q \<subseteq> set (perceptron_state_buf s)"
    "global_history (snd (perceptron_predict_branch ip s)) = global_history s"
proof -
  let ?b = "perceptron_state_buf s"
  have "set (tl ?b) \<subseteq> set ?b" by (cases ?b) auto
  moreover have "100 \<le> length ?b \<Longrightarrow> tl (?b @ [x]) = tl ?b @ [x]" for x by (cases ?b) auto
  ultimately show thesis
    by (intro that [of "if NUM_UPDATE_ENTRIES \<le> length ?b then tl ?b else ?b"])
      (auto simp: perceptron_predict_branch_def Let_def NUM_UPDATE_ENTRIES_def)
qed

lemma own_entry_found:
  assumes "no_pending B s" "ip \<in> B"
    and q: "perceptron_state_buf t = q @ [st]" "ps_ip st = ip" "set q \<subseteq> set (perceptron_state_buf s)"
  shows "find_if (\<lambda>k. ps_ip (perceptron_state_buf t ! k) = ip) 0 (length (perceptron_state_buf t)) =
    Some (length q)"
proof -
  have "ps_ip (q ! k) \<noteq> ip" if "k < length q" for k
    using assms(1,2) q(3) nth_mem [OF that] by (auto simp: no_pending_def list_all_iff)
  then show ?thesis by (auto simp: find_if_Some_iff q(1,2) nth_append)
qed

lemma perceptron_step_history:
  assumes s: "no_pending B s" and e: "ev_branch e \<longleftrightarrow> ev_ip e \<in> B"
  defines "s' \<equiv> bp_step perceptron_predict_branch perceptron_last_branch_result e s"
  shows "no_pending B s'"
    "global_history s' = (if ev_branch e then shift_in (ev_taken e) (global_history s) else global_history s)"
proof -
  define t where "t = snd (perceptron_predict_branch (ev_ip e) s)"
  obtain q st where q: "perceptron_state_buf t = q @ [st]" "ps_ip st = ev_ip e"
    "set q \<subseteq> set (perceptron_state_buf s)" "global_history t = global_history s"
    unfolding t_def by (rule predict_queue)
  have "no_pending B s' \<and> global_history s' =
    (if ev_branch e then shift_in (ev_taken e) (global_history s) else global_history s)"
  proof (cases "ev_branch e")
    case True
    note found = own_entry_found [OF s _ q(1-3)]
    show ?thesis
      using True e q found s
      by (auto simp: s'_def bp_step_def t_def [symmetric] perceptron_last_branch_result_def Let_def
          no_pending_def list_all_iff)
  next
    case False
    with e q s show ?thesis
      by (auto simp: s'_def bp_step_def t_def [symmetric] Let_def no_pending_def list_all_iff)
  qed
  then show "no_pending B s'" "global_history s' =
    (if ev_branch e then shift_in (ev_taken e) (global_history s) else global_history s)" by auto
qed

lemma perceptron_run_pending:
  assumes "consistent B es"
  shows "no_pending B (bp_run perceptron_predict_branch perceptron_last_branch_result es perceptron_init)"
  using assms
  by (induction es rule: rev_induct)
    (auto simp: consistent_def bp_run_append perceptron_step_history(1),
     simp add: no_pending_def perceptron_init_def)

text \<open>
  In a program whose branch addresses are never executed as other instructions, every outcome
  finds the prediction it belongs to, and the real history register holds the outcomes of the last
  24 branches, newest first.
\<close>

theorem perceptron_history:
  assumes "consistent B es"
  shows "bit (global_history
      (bp_run perceptron_predict_branch perceptron_last_branch_result es perceptron_init)) i \<longleftrightarrow>
    i < 24 \<and> i < length (filter ev_branch es) \<and> ev_taken (rev (filter ev_branch es) ! i)"
  using assms
proof (induction es arbitrary: i rule: rev_induct)
  case Nil
  then show ?case by (simp add: perceptron_init_def)
next
  case (snoc e es)
  then have es: "consistent B es" and e: "ev_branch e \<longleftrightarrow> ev_ip e \<in> B" by (simp_all add: consistent_def)
  note step = perceptron_step_history(2) [OF perceptron_run_pending [OF es] e]
  show ?case
  proof (cases i)
    case 0
    then show ?thesis using snoc.IH [OF es, of 0] by (simp add: bp_run_append step bit_shift_in)
  next
    case (Suc j)
    then show ?thesis using snoc.IH [OF es, of i] snoc.IH [OF es, of j]
      by (auto simp: bp_run_append step bit_shift_in)
  qed
qed

definition sample_instr :: "address \<Rightarrow> bool \<Rightarrow> bool \<Rightarrow> branch_event" where
  "sample_instr a b t = \<lparr>ev_ip = a, ev_branch = b, ev_target = 0, ev_taken = t,
     ev_type = BRANCH_CONDITIONAL, ev_rand = 0\<rparr>"

theorem perceptron_history_witness:
  "bit (global_history (bp_run perceptron_predict_branch perceptron_last_branch_result
     [sample_instr 4 True True, sample_instr 8 False False] perceptron_init)) 0"
  using perceptron_history [of "{4}" "[sample_instr 4 True True, sample_instr 8 False False]" 0]
  by (simp add: consistent_def sample_instr_def)

text \<open>
  The speculative history is not a branch history: the core asks for a prediction for every
  instruction, each shifts a predicted direction in, and only a mispredicted branch restores the
  register.  From a fresh predictor, \<open>n\<close> instructions that are not branches leave the real history
  empty and fill the speculative one with \<open>n\<close> ones.
\<close>

theorem perceptron_speculative_history_pollution:
  assumes "list_all (\<lambda>e. \<not> ev_branch e) es"
  shows "let s = bp_run perceptron_predict_branch perceptron_last_branch_result es perceptron_init
    in global_history s = 0 \<and> spec_global_history s = mask (length es)"
proof -
  have "global_history s = 0 \<and> spec_global_history s = mask (length es) \<and>
      perceptrons s = perceptrons perceptron_init"
    if "s = bp_run perceptron_predict_branch perceptron_last_branch_result es perceptron_init" for s
    using assms that
  proof (induction es arbitrary: s rule: rev_induct)
    case Nil
    then show ?case by (simp add: perceptron_init_def)
  next
    case (snoc e es)
    have "shift_in True (mask n) = (mask (Suc n) :: 24 word)" for n
      by (rule bit_word_eqI) (auto simp: bit_shift_in bit_mask_iff split: nat.split)
    then show ?case
      using snoc by (simp add: bp_run_append bp_step_def perceptron_predict_branch_def Let_def)
  qed
  then show ?thesis by (simp add: Let_def)
qed

theorem perceptron_speculative_history_pollution_witness:
  "spec_global_history (bp_run perceptron_predict_branch perceptron_last_branch_result
     [sample_instr 4 False False, sample_instr 8 False False] perceptron_init) = mask 2"
  using perceptron_speculative_history_pollution
    [of "[sample_instr 4 False False, sample_instr 8 False False]"]
  by (simp add: sample_instr_def Let_def numeral_2_eq_2)

end
