(* ===== verification/Hashed_Perceptron.thy ===== *)
theory Hashed_Perceptron
  imports Fwcounter Msl_Bits Branch_Predictor
begin

text \<open>
  The hashed perceptron predictor \<open>branch/hashed_perceptron\<close> and the folded shift register it keeps
  its histories in.  A register of \<open>length\<close> bits is a vector of 64-bit values, each packing as many
  words of \<open>w\<close> bits as fit; its value is the exclusive or of all words.
\<close>

section \<open>The folded shift register\<close>

record folded_shift_register =
  last_value_mask :: "64 word"
  fsr_words :: "64 word list"

definition NUM_WORDS_PER_VALUE :: "nat \<Rightarrow> nat" where
  "NUM_WORDS_PER_VALUE w = 64 div w"

definition VALUE_LEN :: "nat \<Rightarrow> nat" where
  "VALUE_LEN w = w * NUM_WORDS_PER_VALUE w"

definition fsr_new :: "nat \<Rightarrow> nat \<Rightarrow> folded_shift_register" where
  "fsr_new w len = \<lparr>last_value_mask = bitmask_to (len mod VALUE_LEN w),
     fsr_words = replicate (len div VALUE_LEN w + (if len mod VALUE_LEN w \<noteq> 0 then 1 else 0)) 0\<rparr>"

definition fsr_value :: "nat \<Rightarrow> folded_shift_register \<Rightarrow> 64 word" where
  "fsr_value w r =
     (let joined_words = fold (\<lambda>x acc. acc XOR x) (fsr_words r) 0;
          result = (if NUM_WORDS_PER_VALUE w > 1 then
              snd (fold (\<lambda>_ (joined, result). let joined = drop_bit w joined in (joined, result XOR joined))
                [0..<Suc (NUM_WORDS_PER_VALUE w)] (joined_words, joined_words))
            else joined_words)
      in result AND bitmask_to w)"

definition extract_msb :: "nat \<Rightarrow> 64 word \<Rightarrow> 64 word" where
  "extract_msb w x = (let msb_loc = VALUE_LEN w - 1 in drop_bit msb_loc (x AND push_bit msb_loc 1))"

definition shift_and_apply_lsb :: "nat \<Rightarrow> 64 word \<Rightarrow> 64 word \<Rightarrow> 64 word" where
  "shift_and_apply_lsb w x lsb = (push_bit 1 x OR lsb) AND bitmask_to (VALUE_LEN w)"

definition fsr_push_back :: "nat \<Rightarrow> bool \<Rightarrow> folded_shift_register \<Rightarrow> folded_shift_register" where
  "fsr_push_back w ins r =
     (let msbs = (if ins then 1 else 0) # map (extract_msb w) (fsr_words r);
          ws = map2 (shift_and_apply_lsb w) (fsr_words r) msbs
      in r\<lparr>fsr_words := (if last_value_mask r \<noteq> 0
             then butlast ws @ [last ws AND last_value_mask r] else ws)\<rparr>)"

section \<open>The predictor\<close>

definition NTABLES :: nat where "NTABLES = 16"
definition HP_TABLE_SIZE :: nat where "HP_TABLE_SIZE = 2 ^ 12"
definition TABLE_INDEX_BITS :: nat where "TABLE_INDEX_BITS = 12"
definition THRESHOLD :: int where "THRESHOLD = 1"
definition SPEED :: int where "SPEED = 18"

definition history_lengths :: "nat list" where
  "history_lengths = [0, 3, 4, 6, 8, 10, 14, 19, 26, 36, 49, 67, 91, 125, 170, 232]"

record perceptron_result =
  indices :: "64 word list"
  yout :: int

record hashed_perceptron =
  hp_tables :: "counter array array"
  ghist_words :: "folded_shift_register list"
  theta :: int
  tc :: int
  last_result :: perceptron_result

definition hashed_perceptron_init :: hashed_perceptron where
  "hashed_perceptron_init = \<lparr>hp_tables = (\<lambda>_ _. 0),
     ghist_words = map (fsr_new TABLE_INDEX_BITS) history_lengths, theta = 10, tc = 0,
     last_result = \<lparr>indices = replicate NTABLES 0, yout = 0\<rparr>\<rparr>"

definition hp_get_index :: "address \<Rightarrow> folded_shift_register \<Rightarrow> 64 word" where
  "hp_get_index pc hist = fsr_value TABLE_INDEX_BITS hist XOR (pc AND mask TABLE_INDEX_BITS)"

definition hashed_predict_branch :: "address \<Rightarrow> hashed_perceptron \<Rightarrow> bool \<times> hashed_perceptron" where
  "hashed_predict_branch pc s =
     (let idx = map (hp_get_index pc) (ghist_words s);
          y = fold (\<lambda>i acc. acc + hp_tables s i (unat (idx ! i))) [0..<NTABLES] 0
      in (y \<ge> THRESHOLD, s\<lparr>last_result := \<lparr>indices = idx, yout = y\<rparr>\<rparr>))"

definition adjust_threshold :: "bool \<Rightarrow> hashed_perceptron \<Rightarrow> hashed_perceptron" where
  "adjust_threshold correct s =
     (if \<not> correct then
        (let s = s\<lparr>tc := tc s + 1\<rparr>
         in if tc s \<ge> SPEED then s\<lparr>theta := theta s + 1, tc := 0\<rparr> else s)
      else
        (let s = s\<lparr>tc := tc s - 1\<rparr>
         in if tc s \<le> - SPEED then s\<lparr>theta := theta s - 1, tc := 0\<rparr> else s))"

definition hp_train :: "bool \<Rightarrow> hashed_perceptron \<Rightarrow> hashed_perceptron" where
  "hp_train taken s = s\<lparr>hp_tables := (\<lambda>i j. if i < NTABLES \<and> j = unat (indices (last_result s) ! i)
     then sfw_plus 8 (hp_tables s i j) (step_of taken) else hp_tables s i j)\<rparr>"

definition hashed_last_branch_result ::
  "32 word \<Rightarrow> address \<Rightarrow> address \<Rightarrow> bool \<Rightarrow> branch_type \<Rightarrow> hashed_perceptron \<Rightarrow> hashed_perceptron" where
  "hashed_last_branch_result r pc branch_target taken ty s =
     (let s = s\<lparr>ghist_words := map (fsr_push_back TABLE_INDEX_BITS taken) (ghist_words s)\<rparr>;
          prediction_correct = (taken = (yout (last_result s) \<ge> THRESHOLD));
          prediction_weak = (\<bar>yout (last_result s)\<bar> < theta s)
      in if \<not> prediction_correct \<or> prediction_weak
         then adjust_threshold prediction_correct (hp_train taken s) else s)"

section \<open>What a register holds\<close>

text \<open>The register of \<open>len\<close> bits that holds the bit stream \<open>h\<close>, position 0 the newest.\<close>

definition fsr_holds :: "nat \<Rightarrow> nat \<Rightarrow> (nat \<Rightarrow> bool) \<Rightarrow> folded_shift_register \<Rightarrow> bool" where
  "fsr_holds w len h r \<longleftrightarrow> last_value_mask r = last_value_mask (fsr_new w len) \<and>
     length (fsr_words r) = length (fsr_words (fsr_new w len)) \<and>
     (\<forall>k < length (fsr_words r). \<forall>b < 64. bit (fsr_words r ! k) b \<longleftrightarrow>
        b < VALUE_LEN w \<and> VALUE_LEN w * k + b < len \<and> h (VALUE_LEN w * k + b))"

lemma fsr_holds_new: "fsr_holds w len (\<lambda>_. False) (fsr_new w len)"
  by (simp add: fsr_holds_def fsr_new_def)

lemma VALUE_LEN_bounds: "0 < w \<Longrightarrow> w \<le> 64 \<Longrightarrow> 0 < VALUE_LEN w \<and> VALUE_LEN w \<le> 64"
  by (auto simp: VALUE_LEN_def NUM_WORDS_PER_VALUE_def div_greater_zero_iff)

lemma bit_extract_msb: "0 < VALUE_LEN w \<Longrightarrow> bit (extract_msb w x) b \<longleftrightarrow> b = 0 \<and> bit x (VALUE_LEN w - 1)"
  unfolding extract_msb_def Let_def bit_drop_bit_eq o_apply bit_and_iff bit_push_bit_iff
  by (auto simp: bit_1_iff dest: bit_imp_le_length)

lemma bit_shift_and_apply_lsb:
  assumes "\<And>c. bit lsb c \<longleftrightarrow> c = 0 \<and> l" "0 < VALUE_LEN w"
  shows "bit (shift_and_apply_lsb w x lsb) b \<longleftrightarrow>
    b < 64 \<and> b < VALUE_LEN w \<and> (case b of 0 \<Rightarrow> l | Suc c \<Rightarrow> bit x c)"
  unfolding shift_and_apply_lsb_def bit_and_iff bit_or_iff bit_bitmask_to assms(1)
  by (cases b) (auto simp: bit_times_2)

lemma bitmask_to_0_iff: "bitmask_to m = 0 \<longleftrightarrow> m = 0"
proof (cases "m = 0")
  case True
  then show ?thesis by (simp add: bitmask_to_mask)
next
  case False
  then have "bit (bitmask_to m) 0" by (simp add: bit_bitmask_to)
  with False show ?thesis by auto
qed

text \<open>The words in front of the last one are full; the last one is full when its mask is 0.\<close>

lemma word_position:
  fixes V len k b :: nat
  assumes "0 < V" "k < len div V + (if len mod V \<noteq> 0 then 1 else 0)" "b < V"
  shows "V * k + b < len \<longleftrightarrow> (k = len div V \<longrightarrow> b < len mod V)" "V * k < len"
proof -
  have split: "len = V * (len div V) + len mod V" by simp
  have le: "k \<le> len div V" using assms(2) by (auto split: if_splits)
  show "V * k < len"
  proof (cases "k = len div V")
    case True
    then have "len mod V \<noteq> 0" using assms(2) by (auto split: if_splits)
    moreover have "V * k = V * (len div V)" using True by simp
    ultimately show ?thesis using split by linarith
  next
    case False
    then have "V * Suc k \<le> V * (len div V)" using le by (intro mult_le_mono2) simp
    moreover have "V * Suc k = V * k + V" by simp
    ultimately show ?thesis using split assms(1) by linarith
  qed
  show "V * k + b < len \<longleftrightarrow> (k = len div V \<longrightarrow> b < len mod V)"
  proof (cases "k = len div V")
    case True
    moreover from this have "V * k = V * (len div V)" by simp
    ultimately have "V * k + b < len \<longleftrightarrow> b < len mod V" using split by linarith
    with True show ?thesis by simp
  next
    case False
    then have "V * Suc k \<le> V * (len div V)" using le by (intro mult_le_mono2) simp
    moreover have "V * Suc k = V * k + V" by simp
    ultimately show ?thesis using split assms(3) False by linarith
  qed
qed

lemma push_words:
  fixes ins :: bool
  assumes w: "0 < w" "w \<le> 64" and r: "fsr_holds w len h r" and k: "k < length (fsr_words r)"
  defines "ws \<equiv> map2 (shift_and_apply_lsb w) (fsr_words r)
    ((if ins then 1 else 0) # map (extract_msb w) (fsr_words r))"
  shows "bit (ws ! k) b \<longleftrightarrow> b < VALUE_LEN w \<and>
    (case VALUE_LEN w * k + b of 0 \<Rightarrow> ins | Suc j \<Rightarrow> j < len \<and> h j)"
proof -
  let ?V = "VALUE_LEN w"
  have V: "0 < ?V" "?V \<le> 64" using VALUE_LEN_bounds [OF w] by auto
  have word: "bit (fsr_words r ! i) c \<longleftrightarrow> c < 64 \<and> c < ?V \<and> ?V * i + c < len \<and> h (?V * i + c)"
    if "i < length (fsr_words r)" for i c
    using r that by (cases "c < 64") (auto simp: fsr_holds_def dest: bit_imp_le_length)
  define lsb where "lsb = ((if ins then 1 else 0) # map (extract_msb w) (fsr_words r)) ! k"
  have ws: "ws ! k = shift_and_apply_lsb w (fsr_words r ! k) lsb"
    using k by (simp add: ws_def lsb_def)
  show ?thesis
  proof (cases k)
    case 0
    have "bit lsb c \<longleftrightarrow> c = 0 \<and> ins" for c by (simp add: lsb_def 0 bit_1_iff)
    from bit_shift_and_apply_lsb [OF this V(1)] show ?thesis
      using V word [OF k] ws by (cases b) (auto simp: 0)
  next
    case (Suc i)
    then have i: "i < length (fsr_words r)" using k by simp
    define j where "j = ?V * i + (?V - 1)"
    have j: "?V * k = Suc j" using V by (simp add: Suc j_def)
    have "bit lsb c \<longleftrightarrow> c = 0 \<and> bit (fsr_words r ! i) (?V - 1)" for c
      using i V by (simp add: lsb_def Suc bit_extract_msb)
    from bit_shift_and_apply_lsb [OF this V(1)]
    have A: "bit (ws ! k) b \<longleftrightarrow> b < 64 \<and> b < ?V \<and>
        (case b of 0 \<Rightarrow> bit (fsr_words r ! i) (?V - 1) | Suc c \<Rightarrow> bit (fsr_words r ! k) c)"
      by (simp add: ws)
    have B: "bit (fsr_words r ! i) (?V - 1) \<longleftrightarrow> j < len \<and> h j"
      unfolding word [OF i] j_def using V by auto
    show ?thesis
    proof (cases b)
      case 0
      show ?thesis using A V by (simp only: 0 j B add_0_right nat.case) simp
    next
      case (Suc c)
      show ?thesis using A V by (simp only: Suc word [OF k] add_Suc_right nat.case) auto
    qed
  qed
qed

lemma fsr_push_back_holds:
  assumes w: "0 < w" "w \<le> 64" and r: "fsr_holds w len h r"
  shows "fsr_holds w len (case_nat ins h) (fsr_push_back w ins r)"
proof -
  let ?V = "VALUE_LEN w" and ?n = "length (fsr_words r)"
  define ws where "ws = map2 (shift_and_apply_lsb w) (fsr_words r)
    ((if ins then 1 else 0) # map (extract_msb w) (fsr_words r))"
  have V: "0 < ?V" "?V \<le> 64" using VALUE_LEN_bounds [OF w] by auto
  have n: "?n = len div ?V + (if len mod ?V \<noteq> 0 then 1 else 0)"
    and mask: "last_value_mask r = bitmask_to (len mod ?V)"
    using r by (simp_all add: fsr_holds_def fsr_new_def)
  have len_ws: "length ws = ?n" by (simp add: ws_def)
  have pos: "?V * k + b < len \<longleftrightarrow> (k = len div ?V \<longrightarrow> b < len mod ?V)" "?V * k < len"
    if "k < ?n" "b < ?V" for k b
    using word_position [OF V(1), of k len b] that n by auto
  have last: "last ws = ws ! (len div ?V)" if "len mod ?V \<noteq> 0"
  proof -
    have "length ws = Suc (len div ?V)" using that n len_ws by simp
    then show ?thesis by (subst last_conv_nth) auto
  qed
  have pushed: "fsr_words (fsr_push_back w ins r) ! k =
      (if len mod ?V \<noteq> 0 \<and> k = len div ?V then ws ! k AND bitmask_to (len mod ?V) else ws ! k)"
    if "k < ?n" for k
    using that n len_ws
    by (auto simp: fsr_push_back_def Let_def ws_def [symmetric] mask bitmask_to_0_iff nth_append
        nth_butlast last)
  have "bit (fsr_words (fsr_push_back w ins r) ! k) b \<longleftrightarrow>
      b < ?V \<and> ?V * k + b < len \<and> case_nat ins h (?V * k + b)" if k: "k < ?n" for k b
  proof (cases "b < ?V")
    case True
    have "bit (ws ! k) b \<longleftrightarrow> (case ?V * k + b of 0 \<Rightarrow> ins | Suc j \<Rightarrow> j < len \<and> h j)"
      using push_words [OF w r k, of ins b] True by (simp add: ws_def)
    then show ?thesis
      using True V pos [OF k True] k n
      by (auto simp: pushed bit_and_iff bit_bitmask_to split: nat.splits if_splits)
  next
    case False
    have "\<not> bit (ws ! k) b" using push_words [OF w r k, of ins b] False by (simp add: ws_def)
    then show ?thesis using False k by (auto simp: pushed bit_and_iff)
  qed
  moreover have "length (fsr_words (fsr_push_back w ins r)) = ?n"
    using n len_ws by (auto simp: fsr_push_back_def Let_def ws_def [symmetric] mask bitmask_to_0_iff)
  moreover have "last_value_mask (fsr_push_back w ins r) = last_value_mask r"
    by (simp add: fsr_push_back_def Let_def)
  ultimately show ?thesis using r by (simp add: fsr_holds_def)
qed

section \<open>The folded value is the parity of the history\<close>

lemma fold_xor_bit:
  "bit (fold (\<lambda>x acc. acc XOR x) xs a) b \<longleftrightarrow>
    bit a b \<noteq> odd (\<Sum>k<length xs. of_bool (bit (xs ! k) b) :: nat)" for a :: "'a::len word"
  by (induction xs arbitrary: a) (auto simp: bit_xor_iff sum.lessThan_Suc_shift simp del: sum.lessThan_Suc)

lemma shift_loop:
  fixes J :: "64 word" and w :: nat
  defines "f \<equiv> \<lambda>(_::nat) (joined, result). let joined = drop_bit w joined in (joined, result XOR joined)"
  shows "fst (fold f [0..<m] (J, J)) = drop_bit (w * m) J \<and>
    (bit (snd (fold f [0..<m] (J, J))) p \<longleftrightarrow> odd (card {j. j \<le> m \<and> bit J (p + w * j)}))"
proof (induction m)
  case 0
  have "{j. j \<le> 0 \<and> bit J (p + w * j)} = (if bit J p then {0} else {})" by auto
  then show ?case by simp
next
  case (Suc m)
  have "{j. j \<le> Suc m \<and> bit J (p + w * j)} =
      (if bit J (p + w * Suc m) then insert (Suc m) {j. j \<le> m \<and> bit J (p + w * j)}
       else {j. j \<le> m \<and> bit J (p + w * j)})"
    by (auto simp: le_Suc_eq)
  then show ?case
    using Suc.IH by (auto simp: f_def case_prod_beta Let_def bit_xor_iff bit_drop_bit_eq algebra_simps)
qed

text \<open>Words in front of position \<open>w * NUM\<close> are the only ones that a value holds.\<close>

lemma value_bit:
  assumes w: "0 < w" and J: "\<And>b. bit J b \<Longrightarrow> b < VALUE_LEN w"
    and J_def: "J = fold (\<lambda>x acc. acc XOR x) (fsr_words r) 0"
  shows "bit (fsr_value w r) p \<longleftrightarrow>
    p < 64 \<and> p < w \<and> odd (card {j. j < NUM_WORDS_PER_VALUE w \<and> bit J (p + w * j)})"
proof (cases "p < w")
  case True
  let ?N = "NUM_WORDS_PER_VALUE w"
  have small: "j < ?N" if "bit J (p + w * j)" for j
  proof -
    have "p + w * j < w * ?N" using J [OF that] by (simp add: VALUE_LEN_def)
    then have "w * j < w * ?N" by linarith
    then show ?thesis using w by simp
  qed
  have "{j. j \<le> m \<and> bit J (p + w * j)} = {j. j < ?N \<and> bit J (p + w * j)}" if "?N - 1 \<le> m" for m
    using that small by fastforce
  then have m: "card {j. j \<le> m \<and> bit J (p + w * j)} = card {j. j < ?N \<and> bit J (p + w * j)}"
    if "?N - 1 \<le> m" for m using that by presburger
  show ?thesis
  proof (cases "?N > 1")
    case N: True
    show ?thesis
      using shift_loop [of w "Suc ?N" J p] m [of "Suc ?N"] True N
      by (auto simp add: fsr_value_def J_def [symmetric] Let_def bit_and_iff bit_bitmask_to simp del: upt_Suc)
  next
    case False
    have zero: "{j. j \<le> 0 \<and> bit J (p + w * j)} = (if bit J p then {0} else {})" by auto
    have "?N - 1 \<le> 0" using False by simp
    then have c: "card {j. j < ?N \<and> bit J (p + w * j)} = card {j. j \<le> 0 \<and> bit J (p + w * j)}"
      by (rule m [symmetric])
    have "odd (card {j. j < ?N \<and> bit J (p + w * j)}) \<longleftrightarrow> bit J p"
      unfolding c zero by simp
    moreover have "fsr_value w r = J AND bitmask_to w"
      using False by (simp add: fsr_value_def J_def Let_def)
    ultimately show ?thesis
      using True by (auto simp: bit_and_iff bit_bitmask_to)
  qed
next
  case False
  then show ?thesis by (simp add: fsr_value_def Let_def bit_and_iff bit_bitmask_to)
qed

text \<open>Position \<open>w q + p\<close> runs through the positions congruent to \<open>p\<close>.\<close>

lemma card_residue:
  fixes w p len Q :: nat
  assumes "p < w" "len \<le> w * Q"
  shows "card {i. i < len \<and> h i \<and> i mod w = p} = card {q. q < Q \<and> w * q + p < len \<and> h (w * q + p)}"
proof -
  have "{i. i < len \<and> h i \<and> i mod w = p} =
      (\<lambda>q. w * q + p) ` {q. q < Q \<and> w * q + p < len \<and> h (w * q + p)}"
  proof (intro set_eqI iffI)
    fix i assume "i \<in> {i. i < len \<and> h i \<and> i mod w = p}"
    then have i: "i < len" "h i" "i mod w = p" by auto
    have "i = w * (i div w) + p" using i(3) by (metis mult_div_mod_eq)
    moreover have "i div w < Q"
      using i(1) assms by (simp add: less_mult_imp_div_less mult.commute)
    ultimately show "i \<in> (\<lambda>q. w * q + p) ` {q. q < Q \<and> w * q + p < len \<and> h (w * q + p)}"
      using i(1,2) by auto
  next
    fix i assume "i \<in> (\<lambda>q. w * q + p) ` {q. q < Q \<and> w * q + p < len \<and> h (w * q + p)}"
    then show "i \<in> {i. i < len \<and> h i \<and> i mod w = p}" using assms(1) by auto
  qed
  moreover have "inj (\<lambda>q. w * q + p)" using assms(1) by (auto intro: injI)
  ultimately show ?thesis by (simp add: card_image inj_on_subset)
qed

lemma card_of_bool: "card {q. q < Q \<and> P q} = (\<Sum>q<Q. of_bool (P q))" for Q :: nat
proof -
  have "(\<Sum>q<Q. of_bool (P q)) = card ({..<Q} \<inter> {q. P q})"
    by (simp add: sum_of_bool_eq)
  moreover have "{..<Q} \<inter> {q. P q} = {q. q < Q \<and> P q}" by auto
  ultimately show ?thesis by simp
qed

lemma words_suffice:
  fixes V len :: nat
  assumes "0 < V" shows "len \<le> V * (len div V + (if len mod V \<noteq> 0 then 1 else 0))"
proof (cases "len mod V = 0")
  case False
  have "V * (len div V + 1) = V * (len div V) + V" by simp
  moreover have "len = V * (len div V) + len mod V" "len mod V < V" using assms by simp_all
  ultimately have "len \<le> V * (len div V + 1)" by linarith
  with False show ?thesis by simp
qed auto

lemma fsr_value_parity:
  assumes w: "0 < w" "w \<le> 64" and r: "fsr_holds w len h r"
  shows "bit (fsr_value w r) p \<longleftrightarrow> p < w \<and> odd (card {i. i < len \<and> h i \<and> i mod w = p})"
proof (cases "p < w")
  case True
  let ?V = "VALUE_LEN w" and ?N = "NUM_WORDS_PER_VALUE w" and ?n = "length (fsr_words r)"
  have V: "0 < ?V" "?V \<le> 64" using VALUE_LEN_bounds [OF w] by auto
  have word: "bit (fsr_words r ! k) b \<longleftrightarrow> b < 64 \<and> b < ?V \<and> ?V * k + b < len \<and> h (?V * k + b)"
    if "k < ?n" for k b
    using r that by (cases "b < 64") (auto simp: fsr_holds_def dest: bit_imp_le_length)
  define J where "J = fold (\<lambda>x acc. acc XOR x) (fsr_words r) 0"
  let ?g = "\<lambda>q. w * q + p < len \<and> h (w * q + p)"
  have J: "bit J b \<longleftrightarrow> odd (\<Sum>k<?n. of_bool (bit (fsr_words r ! k) b) :: nat)" for b
    by (simp add: J_def fold_xor_bit)
  have "bit J b \<Longrightarrow> b < ?V" for b
    by (rule ccontr) (simp add: J word)
  note folded = value_bit [OF w(1) this J_def, of p]
  have inner: "(\<Sum>k<?n. of_bool (bit (fsr_words r ! k) (p + w * j))) = (\<Sum>k<?n. of_bool (?g (k * ?N + j)) :: nat)"
    if j: "j < ?N" for j
  proof (rule sum.cong [OF refl])
    fix k assume "k \<in> {..<?n}"
    moreover have "w * Suc j \<le> w * ?N" using j by (intro mult_le_mono2) simp
    then have "p + w * j < ?V" using True by (simp add: VALUE_LEN_def)
    moreover have "?V * k + (p + w * j) = w * (k * ?N + j) + p"
      by (simp add: VALUE_LEN_def algebra_simps)
    ultimately have "bit (fsr_words r ! k) (p + w * j) \<longleftrightarrow> ?g (k * ?N + j)"
      using V by (simp only: word [of k] lessThan_iff) simp
    then show "of_bool (bit (fsr_words r ! k) (p + w * j)) = (of_bool (?g (k * ?N + j)) :: nat)"
      by simp
  qed
  have "odd (card {j. j < ?N \<and> bit J (p + w * j)}) \<longleftrightarrow>
      odd (\<Sum>j<?N. \<Sum>k<?n. of_bool (bit (fsr_words r ! k) (p + w * j)) :: nat)"
    unfolding J by (subst even_sum_iff) (simp_all add: lessThan_def)
  also have "(\<Sum>j<?N. \<Sum>k<?n. of_bool (bit (fsr_words r ! k) (p + w * j)) :: nat) =
      (\<Sum>j<?N. \<Sum>k<?n. of_bool (?g (k * ?N + j)))"
    by (rule sum.cong [OF refl], rule inner) simp
  also have "\<dots> = (\<Sum>k<?n. \<Sum>j<?N. of_bool (?g (k * ?N + j)))" by (rule sum.swap)
  also have "\<dots> = (\<Sum>k<?n. \<Sum>q\<in>{k * ?N..<k * ?N + ?N}. of_bool (?g q))"
    by (intro sum.cong refl sum.reindex_bij_witness [where i = "\<lambda>q. q - k * ?N" and j = "\<lambda>j. k * ?N + j" for k]) auto
  also have "\<dots> = (\<Sum>q<?n * ?N. of_bool (?g q))" by (rule sum.nat_group)
  also have "\<dots> = card {i. i < len \<and> h i \<and> i mod w = p}"
  proof -
    have "?n = len div ?V + (if len mod ?V \<noteq> 0 then 1 else 0)"
      using r by (simp add: fsr_holds_def fsr_new_def)
    then have "len \<le> ?V * ?n" using words_suffice [of ?V len] V by simp
    then have "len \<le> w * (?n * ?N)" by (simp add: VALUE_LEN_def algebra_simps)
    from card_residue [OF True this, of h] show ?thesis by (simp only: card_of_bool)
  qed
  finally show ?thesis using True w folded by simp
next
  case False
  then show ?thesis by (simp add: fsr_value_def Let_def bit_and_iff bit_bitmask_to)
qed

section \<open>Invariant\<close>

definition index_ok :: "64 word \<Rightarrow> bool" where
  "index_ok x \<longleftrightarrow> unat x < HP_TABLE_SIZE"

definition hashed_ok :: "hashed_perceptron \<Rightarrow> bool" where
  "hashed_ok s \<longleftrightarrow> (\<forall>i < NTABLES. \<forall>j < HP_TABLE_SIZE. sfw_ok 8 (hp_tables s i j)) \<and>
     length (ghist_words s) = NTABLES \<and>
     length (indices (last_result s)) = NTABLES \<and> list_all index_ok (indices (last_result s)) \<and>
     \<bar>yout (last_result s)\<bar> \<le> 2048 \<and> 0 \<le> theta s \<and> \<bar>tc s\<bar> < SPEED"

lemma hp_index_ok [simp, range_intros]: "index_ok (hp_get_index pc r)"
proof -
  have "hp_get_index pc r = hp_get_index pc r AND mask 12"
    by (rule bit_word_eqI)
      (auto simp: hp_get_index_def fsr_value_def Let_def TABLE_INDEX_BITS_def bit_xor_iff bit_and_iff
        bit_bitmask_to bit_mask_iff)
  then have "unat (hp_get_index pc r) < 2 ^ 12"
    by (metis unat_and_mask mod_less_divisor zero_less_numeral zero_less_power)
  then show ?thesis by (simp add: index_ok_def HP_TABLE_SIZE_def)
qed

lemma fold_sum: "fold (\<lambda>i acc. acc + f i) is a = a + (\<Sum>i\<leftarrow>is. f i :: int)"
  by (induction "is" arbitrary: a) auto

lemma hashed_init_ok: "hashed_ok hashed_perceptron_init"
  by (simp add: hashed_ok_def hashed_perceptron_init_def history_lengths_def NTABLES_def SPEED_def
      list_all_iff index_ok_def HP_TABLE_SIZE_def counter_ok_def sfw_max_def sfw_min_def)

lemma yout_bound:
  assumes "\<And>i. i < n \<Longrightarrow> \<bar>f i\<bar> \<le> 128"
  shows "\<bar>\<Sum>i\<leftarrow>[0..<n]. f i\<bar> \<le> 128 * int n"
  using assms
proof (induction n)
  case (Suc n)
  have "\<bar>\<Sum>i\<leftarrow>[0..<n]. f i\<bar> \<le> 128 * int n" "\<bar>f n\<bar> \<le> 128" using Suc by auto
  then show ?case by simp
qed simp

lemma hashed_predict_ok:
  assumes s: "hashed_ok s" shows "hashed_ok (snd (hashed_predict_branch pc s))"
proof -
  define idx where "idx = map (hp_get_index pc) (ghist_words s)"
  have len: "length idx = NTABLES" using s by (simp add: idx_def hashed_ok_def)
  have idx: "list_all index_ok idx" by (simp add: idx_def list_all_iff)
  have "\<bar>hp_tables s i (unat (idx ! i))\<bar> \<le> 128" if i: "i < NTABLES" for i
  proof -
    have "idx ! i \<in> set idx" using i len by simp
    then have "unat (idx ! i) < HP_TABLE_SIZE" using idx by (simp add: list_all_iff index_ok_def)
    then have "sfw_ok 8 (hp_tables s i (unat (idx ! i)))" using s i by (simp add: hashed_ok_def)
    then show ?thesis by (auto simp: counter_ok_def sfw_max_def sfw_min_def)
  qed
  from yout_bound [of NTABLES, OF this]
  have "\<bar>fold (\<lambda>i acc. acc + hp_tables s i (unat (idx ! i))) [0..<NTABLES] 0\<bar> \<le> 2048"
    by (simp add: fold_sum NTABLES_def del: upt_conv_Cons)
  then show ?thesis
    using s len idx by (simp add: hashed_predict_branch_def idx_def [symmetric] Let_def hashed_ok_def)
qed

lemma adjust_threshold_ok:
  assumes "hashed_ok s" "correct \<Longrightarrow> 0 < theta s"
  shows "hashed_ok (adjust_threshold correct s)"
  using assms by (auto simp: hashed_ok_def adjust_threshold_def Let_def SPEED_def)

lemma hashed_update_ok:
  assumes "hashed_ok s" shows "hashed_ok (hashed_last_branch_result r pc tgt taken ty s)"
proof -
  define t where "t = s\<lparr>ghist_words := map (fsr_push_back TABLE_INDEX_BITS taken) (ghist_words s)\<rparr>"
  have t: "hashed_ok t" "hashed_ok (hp_train taken t)"
    using assms by (simp_all add: t_def hp_train_def hashed_ok_def)
  have sel: "theta (hp_train b t) = theta s" "last_result t = last_result s" "theta t = theta s" for b
    by (simp_all add: hp_train_def t_def)
  have "\<bar>yout (last_result s)\<bar> < theta s \<Longrightarrow> 0 < theta (hp_train taken t)" by (simp add: sel)
  then show ?thesis
    using t by (auto simp: hashed_last_branch_result_def t_def [symmetric] Let_def sel
        intro!: adjust_threshold_ok)
qed

interpretation hashed: branch_predictor hashed_ok hashed_predict_branch hashed_last_branch_result
  hashed_perceptron_init
  by unfold_locales (simp_all add: hashed_init_ok hashed_predict_ok hashed_update_ok)

text \<open>
  After any run, every table index the predictor computes is below the table size, so the
  checked accesses never throw; the sum stays within 2048 in magnitude, the adaptive threshold
  never becomes negative, and its counter stays strictly between \<open>-18\<close> and \<open>18\<close>.
\<close>

theorem hashed_perceptron_safe:
  "let s = bp_run hashed_predict_branch hashed_last_branch_result es hashed_perceptron_init;
       r = last_result (snd (hashed_predict_branch pc s))
   in length (indices r) = NTABLES \<and> list_all (\<lambda>i. unat i < HP_TABLE_SIZE) (indices r) \<and>
      \<bar>yout r\<bar> \<le> 2048 \<and> 0 \<le> theta s \<and> \<bar>tc s\<bar> < SPEED"
proof -
  let ?s = "bp_run hashed_predict_branch hashed_last_branch_result es hashed_perceptron_init"
  have s: "hashed_ok ?s" by (rule hashed.run_init_ok)
  from hashed_predict_ok [OF s, of pc] s show ?thesis
    by (simp add: hashed_ok_def Let_def list_all_iff index_ok_def)
qed

section \<open>The histories of the predictor\<close>

lemma hashed_update_words:
  "ghist_words (hashed_last_branch_result r pc tgt taken ty s) =
     map (fsr_push_back TABLE_INDEX_BITS taken) (ghist_words s)"
  by (simp add: hashed_last_branch_result_def Let_def adjust_threshold_def hp_train_def)

lemma hashed_predict_words [simp]: "ghist_words (snd (hashed_predict_branch pc s)) = ghist_words s"
  by (simp add: hashed_predict_branch_def Let_def)

lemma hashed_run_holds:
  assumes "t < NTABLES"
  shows "let s = bp_run hashed_predict_branch hashed_last_branch_result es hashed_perceptron_init;
             bs = rev (filter ev_branch es)
    in length (ghist_words s) = NTABLES \<and>
       fsr_holds 12 (history_lengths ! t) (\<lambda>i. i < length bs \<and> ev_taken (bs ! i)) (ghist_words s ! t)"
proof (induction es rule: rev_induct)
  case Nil
  then show ?case
  proof -
    have len: "length history_lengths = NTABLES" by (simp add: history_lengths_def NTABLES_def)
    then have "map (fsr_new 12) history_lengths ! t = fsr_new 12 (history_lengths ! t)"
      using assms by simp
    then show ?thesis
      using len by (simp add: hashed_perceptron_init_def TABLE_INDEX_BITS_def fsr_holds_new)
  qed
next
  case (snoc e es)
  let ?s = "bp_run hashed_predict_branch hashed_last_branch_result es hashed_perceptron_init"
  let ?bs = "rev (filter ev_branch es)"
  have IH: "length (ghist_words ?s) = NTABLES"
    "fsr_holds 12 (history_lengths ! t) (\<lambda>i. i < length ?bs \<and> ev_taken (?bs ! i)) (ghist_words ?s ! t)"
    using snoc.IH by (simp_all add: Let_def)
  have shift: "case_nat (ev_taken e) (\<lambda>i. i < length ?bs \<and> ev_taken (?bs ! i)) =
      (\<lambda>i. i < length (e # ?bs) \<and> ev_taken ((e # ?bs) ! i))"
    by (rule ext) (simp split: nat.split)
  show ?case
    using IH fsr_push_back_holds [OF _ _ IH(2), of "ev_taken e", unfolded shift] assms
    by (simp add: bp_run_append bp_step_def Let_def hashed_update_words TABLE_INDEX_BITS_def)
qed

text \<open>
  The value of each folded history register is the folded history: after any run, bit \<open>p\<close> of
  register \<open>t\<close> is the parity of the outcomes, among the last \<open>history_lengths ! t\<close>, whose age is
  congruent to \<open>p\<close> modulo 12.
\<close>

theorem hashed_perceptron_history:
  assumes "t < NTABLES"
  shows "let s = bp_run hashed_predict_branch hashed_last_branch_result es hashed_perceptron_init;
             bs = rev (filter ev_branch es)
    in bit (fsr_value TABLE_INDEX_BITS (ghist_words s ! t)) p \<longleftrightarrow>
       p < 12 \<and> odd (card {i. i < history_lengths ! t \<and> (i < length bs \<and> ev_taken (bs ! i)) \<and> i mod 12 = p})"
proof -
  have holds: "fsr_holds 12 (history_lengths ! t)
      (\<lambda>i. i < length (rev (filter ev_branch es)) \<and> ev_taken (rev (filter ev_branch es) ! i))
      (ghist_words (bp_run hashed_predict_branch hashed_last_branch_result es hashed_perceptron_init) ! t)"
    using hashed_run_holds [OF assms, of es] by (simp only: Let_def)
  show ?thesis unfolding Let_def TABLE_INDEX_BITS_def by (rule fsr_value_parity [OF _ _ holds]) simp_all
qed

theorem hashed_perceptron_history_witness:
  "\<not> bit (fsr_value TABLE_INDEX_BITS (ghist_words (bp_run hashed_predict_branch
     hashed_last_branch_result [] hashed_perceptron_init) ! 15)) 3"
  using hashed_perceptron_history [of 15 "[]" 3] by (simp add: NTABLES_def)

end
