(* ===== verification/Lru_Table.thy ===== *)
theory Lru_Table
  imports Prelude "HOL-Library.Product_Lexorder"
begin

text \<open>
  The set-associative table \<open>champsim::msl::lru_table\<close> of \<open>inc/msl/lru_table.h\<close>.  The set and tag
  projections of the template are the first arguments \<open>sp\<close> and \<open>tp\<close> of the operations (the set
  projections of the simulator are address slices, so they are naturals); a block is valid when its
  time stamp is positive.  Time stamps come from one 64-bit access counter.
\<close>

section \<open>State\<close>

record 'e block_t =
  last_used :: nat
  data :: 'e

record 'e lru_table =
  NUM_SET :: nat
  NUM_WAY :: nat
  access_count :: nat
  block :: "'e block_t array"

datatype table_error = Overflow_error | Range_error

definition lru_new :: "nat \<Rightarrow> nat \<Rightarrow> 'e \<Rightarrow> table_error + 'e lru_table" where
  "lru_new sets ways dflt =
     (if 2 ^ 63 \<le> sets \<or> 2 ^ 63 \<le> ways then Inl Overflow_error
      else if sets = 0 then Inl Range_error
      else if sets AND (sets - 1) \<noteq> 0 then Inl Range_error
      else Inr \<lparr>NUM_SET = sets, NUM_WAY = ways, access_count = 0,
                block = (\<lambda>_. \<lparr>last_used = 0, data = dflt\<rparr>)\<rparr>)"

section \<open>Operations\<close>

definition set_begin :: "('e \<Rightarrow> nat) \<Rightarrow> 'e \<Rightarrow> 'e lru_table \<Rightarrow> nat" where
  "set_begin sp elem t = (sp elem mod NUM_SET t) * NUM_WAY t"

definition set_end :: "('e \<Rightarrow> nat) \<Rightarrow> 'e \<Rightarrow> 'e lru_table \<Rightarrow> nat" where
  "set_end sp elem t = set_begin sp elem t + NUM_WAY t"

definition match_func :: "('e \<Rightarrow> 't) \<Rightarrow> 'e \<Rightarrow> 'e block_t \<Rightarrow> bool" where
  "match_func tp elem x \<longleftrightarrow> last_used x > 0 \<and> tp (data x) = tp elem"

definition match_and_check :: "('e \<Rightarrow> 't) \<Rightarrow> 't \<Rightarrow> 'e block_t \<Rightarrow> 'e block_t \<Rightarrow> bool" where
  "match_and_check tp tag x y =
     (let x_valid = last_used x > 0; y_valid = last_used y > 0;
          x_match = (tp (data x) = tag); y_match = (tp (data y) = tag);
          cmp_lru = last_used x < last_used y
      in \<not> x_valid \<or> (y_valid \<and> ((\<not> x_match \<and> y_match) \<or> (x_match = y_match \<and> cmp_lru))))"

definition find_hit :: "('e \<Rightarrow> nat) \<Rightarrow> ('e \<Rightarrow> 't) \<Rightarrow> 'e \<Rightarrow> 'e lru_table \<Rightarrow> nat option" where
  "find_hit sp tp elem t =
     find_if (\<lambda>i. match_func tp elem (block t i)) (set_begin sp elem t) (set_end sp elem t)"

definition check_hit :: "('e \<Rightarrow> nat) \<Rightarrow> ('e \<Rightarrow> 't) \<Rightarrow> 'e \<Rightarrow> 'e lru_table \<Rightarrow> 'e option \<times> 'e lru_table" where
  "check_hit sp tp elem t =
     (case find_hit sp tp elem t of
        None \<Rightarrow> (None, t)
      | Some i \<Rightarrow>
          (let now = u64 (access_count t + 1)
           in (Some (data (block t i)),
               t\<lparr>access_count := now, block := (block t)(i := (block t i)\<lparr>last_used := now\<rparr>)\<rparr>)))"

definition fill_at :: "nat \<Rightarrow> 'e \<Rightarrow> 'e lru_table \<Rightarrow> 'e lru_table" where
  "fill_at i elem t =
     (let now = u64 (access_count t + 1)
      in t\<lparr>access_count := now, block := (block t)(i := \<lparr>last_used = now, data = elem\<rparr>)\<rparr>)"

definition fill_pos :: "('e \<Rightarrow> nat) \<Rightarrow> ('e \<Rightarrow> 't) \<Rightarrow> 'e \<Rightarrow> 'e lru_table \<Rightarrow> nat" where
  "fill_pos sp tp elem t =
     (let (miss, hit) = minmax_element (\<lambda>i j. match_and_check tp (tp elem) (block t i) (block t j))
        (set_begin sp elem t) (set_end sp elem t)
      in if tp (data (block t hit)) = tp elem then hit else miss)"

definition fill :: "('e \<Rightarrow> nat) \<Rightarrow> ('e \<Rightarrow> 't) \<Rightarrow> 'e \<Rightarrow> 'e lru_table \<Rightarrow> 'e lru_table" where
  "fill sp tp elem t =
     (if set_begin sp elem t \<noteq> set_end sp elem t then fill_at (fill_pos sp tp elem t) elem t else t)"

text \<open>\<open>std::exchange\<close> leaves a default-initialised block behind.\<close>

definition invalidate ::
  "'e \<Rightarrow> ('e \<Rightarrow> nat) \<Rightarrow> ('e \<Rightarrow> 't) \<Rightarrow> 'e \<Rightarrow> 'e lru_table \<Rightarrow> 'e option \<times> 'e lru_table" where
  "invalidate dflt sp tp elem t =
     (case find_hit sp tp elem t of
        None \<Rightarrow> (None, t)
      | Some i \<Rightarrow> (Some (data (block t i)), t\<lparr>block := (block t)(i := \<lparr>last_used = 0, data = dflt\<rparr>)\<rparr>))"

section \<open>What a table holds\<close>

text \<open>
  Position \<open>i\<close> of set \<open>s\<close> is the valid entry of a tag.  In a well-formed table every position
  carries a stamp no later than the access counter, a tag is valid at one position of a set at
  most, and no two valid positions carry the same stamp.
\<close>

definition in_set :: "nat \<Rightarrow> nat \<Rightarrow> 'e lru_table \<Rightarrow> bool" where
  "in_set s i t \<longleftrightarrow> s * NUM_WAY t \<le> i \<and> i < s * NUM_WAY t + NUM_WAY t"

definition table_ok :: "('e \<Rightarrow> 't) \<Rightarrow> 'e lru_table \<Rightarrow> bool" where
  "table_ok tp t \<longleftrightarrow> 0 < NUM_SET t \<and> 0 < NUM_WAY t \<and>
     (\<forall>i < NUM_SET t * NUM_WAY t. last_used (block t i) \<le> access_count t) \<and>
     (\<forall>s i j. s < NUM_SET t \<and> in_set s i t \<and> in_set s j t \<and> 0 < last_used (block t i) \<and>
        0 < last_used (block t j) \<and> tp (data (block t i)) = tp (data (block t j)) \<longrightarrow> i = j) \<and>
     (\<forall>i < NUM_SET t * NUM_WAY t. \<forall>j < NUM_SET t * NUM_WAY t.
        0 < last_used (block t i) \<and> last_used (block t i) = last_used (block t j) \<longrightarrow> i = j)"

lemma in_set_bound: "in_set s i t \<Longrightarrow> s < NUM_SET t \<Longrightarrow> i < NUM_SET t * NUM_WAY t"
proof -
  assume "in_set s i t" "s < NUM_SET t"
  moreover from this have "Suc s * NUM_WAY t \<le> NUM_SET t * NUM_WAY t" by (intro mult_le_mono1) simp
  ultimately show ?thesis by (simp add: in_set_def)
qed

lemma in_set_unique: "in_set s i t \<Longrightarrow> in_set s' i t \<Longrightarrow> s = s'"
proof -
  assume a: "in_set s i t" "in_set s' i t"
  then have "i div NUM_WAY t = s" "i div NUM_WAY t = s'"
    by (auto simp: in_set_def mult.commute intro!: div_nat_eqI)
  then show ?thesis by simp
qed

abbreviation set_of :: "('e \<Rightarrow> nat) \<Rightarrow> 'e \<Rightarrow> 'e lru_table \<Rightarrow> nat" where
  "set_of sp elem t \<equiv> sp elem mod NUM_SET t"

lemma find_hit_Some:
  assumes "find_hit sp tp elem t = Some i"
  shows "in_set (set_of sp elem t) i t" "0 < last_used (block t i)" "tp (data (block t i)) = tp elem"
  using find_if_SomeD [OF assms [unfolded find_hit_def]]
  by (auto simp: in_set_def set_begin_def set_end_def match_func_def)

lemma find_hit_at:
  assumes "table_ok tp t" "in_set (set_of sp elem t) i t" "0 < last_used (block t i)"
    "tp (data (block t i)) = tp elem"
  shows "find_hit sp tp elem t = Some i"
proof -
  obtain j where j: "find_hit sp tp elem t = Some j"
    using find_if_exists [of "set_begin sp elem t" i "set_end sp elem t" "\<lambda>i. match_func tp elem (block t i)"]
      assms(2-4) by (auto simp: find_hit_def in_set_def set_begin_def set_end_def match_func_def)
  have "set_of sp elem t < NUM_SET t" using assms(1) by (simp add: table_ok_def)
  with find_hit_Some [OF j] assms have "i = j" by (auto simp: table_ok_def)
  with j show ?thesis by simp
qed

lemma find_hit_None:
  "find_hit sp tp elem t = None \<longleftrightarrow>
    (\<forall>i. in_set (set_of sp elem t) i t \<and> 0 < last_used (block t i) \<longrightarrow> tp (data (block t i)) \<noteq> tp elem)"
  by (auto simp: find_hit_def find_if_None in_set_def set_begin_def set_end_def match_func_def)

section \<open>The position that a fill takes\<close>

definition rank :: "('e \<Rightarrow> 't) \<Rightarrow> 't \<Rightarrow> 'e block_t \<Rightarrow> nat \<times> nat" where
  "rank tp tag x = (if last_used x = 0 then (0, 0)
     else (if tp (data x) = tag then 2 else 1, last_used x))"

lemma match_and_check_ranked:
  "ranked_by (\<lambda>i j. match_and_check tp tag (b i) (b j)) (\<lambda>i. rank tp tag (b i))"
  by (rule ranked_byI) (auto simp: match_and_check_def rank_def Let_def less_prod_def split: if_splits)

lemma set_bounds: "in_set (set_of sp elem t) i t \<longleftrightarrow> set_begin sp elem t \<le> i \<and> i < set_end sp elem t"
  by (simp add: in_set_def set_begin_def set_end_def)

lemma fill_pos_in_set:
  assumes "table_ok tp t" shows "in_set (set_of sp elem t) (fill_pos sp tp elem t) t"
proof -
  have "set_begin sp elem t < set_end sp elem t" using assms by (simp add: table_ok_def set_end_def)
  from minmax_element_range [OF this] show ?thesis
    unfolding set_bounds by (auto simp: fill_pos_def case_prod_beta Let_def)
qed

text \<open>A valid match is overwritten; otherwise an invalid block, or the least recently used one.\<close>

lemma fill_pos_match:
  assumes ok: "table_ok tp t" and i: "find_hit sp tp elem t = Some i"
  shows "fill_pos sp tp elem t = i"
proof -
  let ?lt = "\<lambda>i j. match_and_check tp (tp elem) (block t i) (block t j)"
  define h where "h = snd (minmax_element ?lt (set_begin sp elem t) (set_end sp elem t))"
  have ne: "set_begin sp elem t < set_end sp elem t" using ok by (simp add: table_ok_def set_end_def)
  have h: "in_set (set_of sp elem t) h t"
    unfolding set_bounds h_def using minmax_element_range [OF ne] by simp
  note hit = find_hit_Some [OF i]
  have "rank tp (tp elem) (block t i) \<le> rank tp (tp elem) (block t h)"
    unfolding h_def using hit(1) unfolding set_bounds
    by (intro minmax_element_bounds [OF match_and_check_ranked, THEN conjunct2]) auto
  then have "tp (data (block t h)) = tp elem" "0 < last_used (block t h)"
    using hit by (auto simp: rank_def split: if_splits)
  then have "h = i"
    using find_hit_at [where sp = sp and elem = elem, OF ok h] i by simp
  then show ?thesis
    using \<open>tp (data (block t h)) = tp elem\<close> by (simp add: fill_pos_def h_def case_prod_beta Let_def)
qed

lemma fill_pos_victim:
  assumes ok: "table_ok tp t" and miss: "find_hit sp tp elem t = None"
    and i: "in_set (set_of sp elem t) i t"
  shows "last_used (block t (fill_pos sp tp elem t)) = 0 \<or>
    last_used (block t (fill_pos sp tp elem t)) \<le> last_used (block t i)"
proof -
  let ?lt = "\<lambda>i j. match_and_check tp (tp elem) (block t i) (block t j)"
  define m h where "m = fst (minmax_element ?lt (set_begin sp elem t) (set_end sp elem t))"
    and "h = snd (minmax_element ?lt (set_begin sp elem t) (set_end sp elem t))"
  have ne: "set_begin sp elem t < set_end sp elem t" using ok by (simp add: table_ok_def set_end_def)
  have mh: "in_set (set_of sp elem t) m t" "in_set (set_of sp elem t) h t"
    unfolding set_bounds m_def h_def using minmax_element_range [OF ne] by simp_all
  have m: "rank tp (tp elem) (block t m) \<le> rank tp (tp elem) (block t i)"
    unfolding m_def using i unfolding set_bounds
    by (intro minmax_element_bounds [OF match_and_check_ranked, THEN conjunct1]) auto
  have none: "0 < last_used (block t j) \<Longrightarrow> tp (data (block t j)) \<noteq> tp elem"
    if "in_set (set_of sp elem t) j t" for j using miss that by (auto simp: find_hit_None)
  show ?thesis
  proof (cases "tp (data (block t h)) = tp elem")
    case True
    then have "last_used (block t h) = 0" using none [OF mh(2)] by auto
    with True show ?thesis by (simp add: fill_pos_def h_def case_prod_beta Let_def)
  next
    case False
    then have "fill_pos sp tp elem t = m" by (simp add: fill_pos_def h_def m_def case_prod_beta Let_def)
    then show ?thesis
      using m none [OF mh(1)] none [OF i] by (auto simp: rank_def split: if_splits)
  qed
qed

section \<open>Preservation\<close>

lemma restamp_ok:
  assumes ok: "table_ok tp t" and room: "access_count t + 1 < 2 ^ 64"
    and i: "in_set s i t" "s < NUM_SET t"
    and sole: "\<And>j. in_set s j t \<Longrightarrow> 0 < last_used (block t j) \<Longrightarrow> tp (data (block t j)) = tp e \<Longrightarrow> j = i"
  shows "table_ok tp (fill_at i e t)"
proof -
  let ?t = "fill_at i e t"
  have sel: "NUM_SET ?t = NUM_SET t" "NUM_WAY ?t = NUM_WAY t" "access_count ?t = Suc (access_count t)"
    "block ?t = (block t)(i := \<lparr>last_used = Suc (access_count t), data = e\<rparr>)"
    using room by (simp_all add: fill_at_def Let_def u64_def)
  have in_set: "in_set r j ?t = in_set r j t" for r j by (simp add: in_set_def sel)
  have old: "last_used (block t j) \<le> access_count t" if "j < NUM_SET t * NUM_WAY t" for j
    using ok that by (simp add: table_ok_def)
  have tags: "j = k" if "r < NUM_SET t" "in_set r j t" "in_set r k t" "0 < last_used (block ?t j)"
      "0 < last_used (block ?t k)" "tp (data (block ?t j)) = tp (data (block ?t k))" for r j k
  proof (cases "j = i")
    case True
    then have "r = s" using in_set_unique i(1) that(2) by blast
    with True that have "k \<noteq> i \<Longrightarrow> k = i" by (intro sole) (simp_all add: sel)
    with True show ?thesis by blast
  next
    case j: False
    show ?thesis
    proof (cases "k = i")
      case True
      then have "r = s" using in_set_unique i(1) that(3) by blast
      with True j that have "j = i" by (intro sole) (simp_all add: sel)
      with True show ?thesis by simp
    next
      case False
      then show ?thesis using that ok j unfolding table_ok_def sel by (metis fun_upd_apply)
    qed
  qed
  have stamps: "j = k" if "j < NUM_SET t * NUM_WAY t" "k < NUM_SET t * NUM_WAY t"
      "0 < last_used (block ?t j)" "last_used (block ?t j) = last_used (block ?t k)" for j k
  proof (cases "j = i \<or> k = i")
    case True
    then show ?thesis using that old [of j] old [of k] by (cases "j = i"; cases "k = i") (simp_all add: sel)
  next
    case False
    with that ok show ?thesis unfolding table_ok_def sel by (metis fun_upd_apply)
  qed
  have count: "last_used (block ?t j) \<le> Suc (access_count t)" if "j < NUM_SET t * NUM_WAY t" for j
    using old [OF that] by (simp add: sel)
  show ?thesis
    unfolding table_ok_def in_set sel(1-3)
  proof (intro conjI)
    show "0 < NUM_SET t" "0 < NUM_WAY t" using ok by (simp_all add: table_ok_def)
    show "\<forall>i < NUM_SET t * NUM_WAY t. last_used (block ?t i) \<le> Suc (access_count t)"
      using count by blast
    show "\<forall>s i j. s < NUM_SET t \<and> in_set s i t \<and> in_set s j t \<and> 0 < last_used (block ?t i) \<and>
        0 < last_used (block ?t j) \<and> tp (data (block ?t i)) = tp (data (block ?t j)) \<longrightarrow> i = j"
      using tags by blast
    show "\<forall>i < NUM_SET t * NUM_WAY t. \<forall>j < NUM_SET t * NUM_WAY t.
        0 < last_used (block ?t i) \<and> last_used (block ?t i) = last_used (block ?t j) \<longrightarrow> i = j"
      using stamps by blast
  qed
qed

section \<open>The contract of the operations\<close>

definition has_room :: "nat \<Rightarrow> 'e lru_table \<Rightarrow> bool" where
  "has_room n t \<longleftrightarrow> access_count t + n < 2 ^ 64"

lemma fill_at_sel [simp]:
  "NUM_SET (fill_at i e t) = NUM_SET t" "NUM_WAY (fill_at i e t) = NUM_WAY t"
  by (simp_all add: fill_at_def Let_def)

lemma fill_at_block:
  "has_room (Suc n) t \<Longrightarrow>
    block (fill_at i e t) j = (if j = i then \<lparr>last_used = Suc (access_count t), data = e\<rparr> else block t j)"
  by (simp add: fill_at_def Let_def has_room_def u64_def)

lemma fill_at_room: "has_room (Suc n) t \<Longrightarrow> has_room n (fill_at i e t)"
  by (simp add: has_room_def fill_at_def Let_def u64_def)

lemma in_set_fill_at [simp]: "in_set s j (fill_at i e t) = in_set s j t"
  by (simp add: in_set_def)

text \<open>A hit rewrites the entry it found; a fill rewrites the position it chose.\<close>

lemma check_hit_eq:
  "check_hit sp tp e t = (case find_hit sp tp e t of None \<Rightarrow> (None, t)
     | Some i \<Rightarrow> (Some (data (block t i)), fill_at i (data (block t i)) t))"
  by (simp add: check_hit_def fill_at_def Let_def fun_eq_iff split: option.split)

lemma fill_eq: "table_ok tp t \<Longrightarrow> fill sp tp e t = fill_at (fill_pos sp tp e t) e t"
  by (simp add: fill_def table_ok_def set_end_def)

lemma set_of_less: "table_ok tp t \<Longrightarrow> sp e mod NUM_SET t < NUM_SET t"
  by (simp add: table_ok_def)

lemma fill_ok:
  assumes "table_ok tp t" "has_room (Suc n) t" shows "table_ok tp (fill sp tp e t)"
proof -
  have "j = fill_pos sp tp e t"
    if "in_set (set_of sp e t) j t" "0 < last_used (block t j)" "tp (data (block t j)) = tp e" for j
    using fill_pos_match [OF assms(1) find_hit_at [where sp = sp, OF assms(1) that]] by simp
  then show ?thesis
    using assms unfolding fill_eq [OF assms(1)]
    by (intro restamp_ok [OF _ _ fill_pos_in_set]) (auto simp: has_room_def set_of_less)
qed

lemma check_hit_ok:
  assumes "table_ok tp t" "has_room (Suc n) t" shows "table_ok tp (snd (check_hit sp tp e t))"
proof (cases "find_hit sp tp e t")
  case (Some i)
  have "j = i"
    if "in_set (set_of sp e t) j t" "0 < last_used (block t j)" "tp (data (block t j)) = tp (data (block t i))" for j
    using find_hit_at [where sp = sp and elem = e, OF assms(1) that(1,2)] that(3) find_hit_Some(3) [OF Some] Some
    by simp
  then have "table_ok tp (fill_at i (data (block t i)) t)"
    using assms by (intro restamp_ok [OF _ _ find_hit_Some(1) [OF Some]]) (auto simp: has_room_def set_of_less)
  with Some show ?thesis by (simp add: check_hit_eq)
qed (simp add: check_hit_eq assms)

lemma find_hit_fill:
  assumes "table_ok tp t" "has_room (Suc n) t" "sp e = sp e'" "tp e = tp e'"
  shows "find_hit sp tp e' (fill sp tp e t) = Some (fill_pos sp tp e t)"
proof (rule find_hit_at [OF fill_ok [OF assms(1,2)]])
  note block = fill_at_block [OF assms(2)]
  show "in_set (set_of sp e' (fill sp tp e t)) (fill_pos sp tp e t) (fill sp tp e t)"
    using fill_pos_in_set [OF assms(1), of sp e] assms(3) by (simp add: fill_eq [OF assms(1)])
  show "0 < last_used (block (fill sp tp e t) (fill_pos sp tp e t))"
    "tp (data (block (fill sp tp e t) (fill_pos sp tp e t))) = tp e'"
    using assms(4) by (simp_all add: fill_eq [OF assms(1)] block)
qed

lemma check_hit_fill:
  assumes "table_ok tp t" "has_room (Suc n) t" "sp e = sp e'" "tp e = tp e'"
  shows "fst (check_hit sp tp e' (fill sp tp e t)) = Some e"
  using find_hit_fill [OF assms] fill_at_block [OF assms(2)]
  by (simp add: check_hit_eq fill_eq [OF assms(1)])

lemma check_hit_check_hit:
  assumes ok: "table_ok tp t" and room: "has_room (Suc n) t"
  shows "fst (check_hit sp tp e' (snd (check_hit sp tp e t))) = fst (check_hit sp tp e' t)"
proof (cases "find_hit sp tp e t")
  case (Some i)
  let ?t = "fill_at i (data (block t i)) t"
  note block = fill_at_block [OF room]
  have same: "0 < last_used (block ?t j) \<longleftrightarrow> 0 < last_used (block t j)" "data (block ?t j) = data (block t j)" for j
    using find_hit_Some(2) [OF Some] by (simp_all add: block)
  have "find_hit sp tp e' ?t = find_hit sp tp e' t"
    by (simp add: find_hit_def match_func_def same set_begin_def set_end_def)
  then show ?thesis using Some by (simp add: check_hit_eq same split: option.split)
qed (simp add: check_hit_eq)

text \<open>
  The interface a client of a table relies on: it finds what it inserted, and looking something
  up does not change what the table holds.  \<open>ok n\<close> is the invariant with room for \<open>n\<close> accesses.
\<close>

locale lookup_table =
  fixes ok :: "nat \<Rightarrow> 's \<Rightarrow> bool"
    and lookup :: "'e \<Rightarrow> 's \<Rightarrow> 'e option \<times> 's"
    and enter :: "'e \<Rightarrow> 's \<Rightarrow> 's"
    and same :: "'e \<Rightarrow> 'e \<Rightarrow> bool"
  assumes ok_enter: "ok (Suc n) t \<Longrightarrow> ok n (enter e t)"
    and ok_lookup: "ok (Suc n) t \<Longrightarrow> ok n (snd (lookup e t))"
    and lookup_enter: "ok (Suc n) t \<Longrightarrow> same e e' \<Longrightarrow> fst (lookup e' (enter e t)) = Some e"
    and lookup_stable: "ok (Suc n) t \<Longrightarrow> fst (lookup e' (snd (lookup e t))) = fst (lookup e' t)"
begin

lemma ok_lookups: "ok (n + length es) t \<Longrightarrow> ok n (fold (\<lambda>e t. snd (lookup e t)) es t)"
  by (induction es arbitrary: t) (simp_all add: ok_lookup)

lemma lookups_stable:
  "ok (Suc n + length es) t \<Longrightarrow>
    fst (lookup e' (fold (\<lambda>e t. snd (lookup e t)) es t)) = fst (lookup e' t)"
proof (induction es arbitrary: t)
  case (Cons e es)
  from Cons.prems have ok: "ok (Suc (Suc (n + length es))) t" by simp
  then have "ok (Suc n + length es) (snd (lookup e t))" by (simp add: ok_lookup)
  from Cons.IH [OF this] lookup_stable [OF ok] show ?case by simp
qed simp

text \<open>What is entered is found after any number of lookups.\<close>

lemma found_after_lookups:
  assumes "ok (Suc (Suc n) + length es) t" "same e e'"
  shows "fst (lookup e' (fold (\<lambda>e t. snd (lookup e t)) es (enter e t))) = Some e"
proof -
  have "ok (Suc n + length es) (enter e t)" using assms(1) by (simp add: ok_enter)
  moreover have "fst (lookup e' (enter e t)) = Some e"
    using assms by (intro lookup_enter [of "Suc n + length es"]) simp_all
  ultimately show ?thesis by (simp add: lookups_stable)
qed

end

definition lru_ok :: "('e \<Rightarrow> 't) \<Rightarrow> nat \<Rightarrow> 'e lru_table \<Rightarrow> bool" where
  "lru_ok tp n t \<longleftrightarrow> table_ok tp t \<and> has_room n t"

lemma check_hit_room: "has_room (Suc n) t \<Longrightarrow> has_room n (snd (check_hit sp tp e t))"
  by (simp add: check_hit_eq fill_at_room split: option.split) (simp add: has_room_def)

lemma fill_room: "table_ok tp t \<Longrightarrow> has_room (Suc n) t \<Longrightarrow> has_room n (fill sp tp e t)"
  by (simp add: fill_eq fill_at_room)

interpretation lru: lookup_table "lru_ok tp" "check_hit sp tp" "fill sp tp"
  "\<lambda>e e'. sp e = sp e' \<and> tp e = tp e'"
  by unfold_locales
    (auto simp: lru_ok_def fill_ok fill_room check_hit_ok check_hit_room check_hit_fill
      check_hit_check_hit)

section \<open>Retention\<close>

datatype 'e table_op = Lookup 'e | Enter 'e

fun table_step :: "('e \<Rightarrow> nat) \<Rightarrow> ('e \<Rightarrow> 't) \<Rightarrow> 'e table_op \<Rightarrow> 'e lru_table \<Rightarrow> 'e lru_table" where
  "table_step sp tp (Lookup e) t = snd (check_hit sp tp e t)"
| "table_step sp tp (Enter e) t = fill sp tp e t"

text \<open>The positions of a set used after the stamp \<open>x\<close>.\<close>

definition newer :: "nat \<Rightarrow> nat \<Rightarrow> 'e lru_table \<Rightarrow> nat set" where
  "newer s x t = {j. in_set s j t \<and> x < last_used (block t j)}"

lemma in_set_eq: "{j. in_set s j t} = {s * NUM_WAY t..<s * NUM_WAY t + NUM_WAY t}"
  by (auto simp: in_set_def)

lemma newer_finite [simp]: "finite (newer s x t)"
proof (rule finite_subset)
  show "newer s x t \<subseteq> {j. in_set s j t}" by (auto simp: newer_def)
  show "finite {j. in_set s j t}" by (simp add: in_set_eq)
qed

text \<open>The entry \<open>e\<close> at position \<open>i\<close> of set \<open>s\<close>, with at most \<open>k\<close> positions used after it.\<close>

definition retained :: "'e \<Rightarrow> nat \<Rightarrow> nat \<Rightarrow> nat \<Rightarrow> 'e lru_table \<Rightarrow> bool" where
  "retained e s i k t \<longleftrightarrow> s < NUM_SET t \<and> in_set s i t \<and> data (block t i) = e \<and>
     0 < last_used (block t i) \<and> card (newer s (last_used (block t i)) t) \<le> k"

lemma fill_at_retained:
  assumes ok: "table_ok tp t" and room: "has_room (Suc n) t" and r: "retained e s i k t"
    and j: "j \<noteq> i \<or> d = e"
  shows "retained e s i (Suc k) (fill_at j d t)"
proof (cases "j = i")
  case False
  let ?x = "last_used (block t i)"
  have "newer s ?x (fill_at j d t) \<subseteq> insert j (newer s ?x t)"
    by (auto simp: newer_def fill_at_block [OF room])
  then have "card (newer s ?x (fill_at j d t)) \<le> card (insert j (newer s ?x t))"
    by (intro card_mono) simp_all
  also have "\<dots> \<le> Suc (card (newer s ?x t))" by (simp add: card_insert_if)
  finally show ?thesis
    using r False by (simp add: retained_def fill_at_block [OF room])
next
  case True
  have old: "last_used (block t m) \<le> access_count t" if "in_set s m t" for m
    using ok in_set_bound [OF that] r by (auto simp: table_ok_def retained_def)
  have "newer s (Suc (access_count t)) (fill_at i d t) = {}"
    by (auto simp: newer_def fill_at_block [OF room] dest!: old)
  then show ?thesis
    using True j r by (auto simp: retained_def fill_at_block [OF room])
qed

lemma victim_not_retained:
  assumes ok: "table_ok tp t" and r: "retained e (set_of sp d t) i k t" and k: "Suc k < NUM_WAY t"
    and d: "tp d \<noteq> tp e"
  shows "fill_pos sp tp d t \<noteq> i"
proof (cases "find_hit sp tp d t")
  case (Some m)
  with find_hit_Some(3) [OF Some] r d show ?thesis
    by (auto simp: fill_pos_match [OF ok Some] retained_def)
next
  case None
  show ?thesis
  proof
    let ?s = "set_of sp d t" and ?x = "last_used (block t i)"
    assume victim: "fill_pos sp tp d t = i"
    have s: "?s < NUM_SET t" using ok by (rule set_of_less)
    have i: "in_set ?s i t" "0 < ?x" using r by (auto simp: retained_def)
    have "?x < last_used (block t m)" if m: "in_set ?s m t" "m \<noteq> i" for m
    proof -
      have "?x \<le> last_used (block t m)"
        using fill_pos_victim [OF ok None m(1)] victim i(2) by simp
      moreover have "?x \<noteq> last_used (block t m)"
        using ok i m in_set_bound [OF i(1) s] in_set_bound [OF m(1) s] unfolding table_ok_def by blast
      ultimately show ?thesis by simp
    qed
    then have "{m. in_set ?s m t} - {i} \<subseteq> newer ?s ?x t" by (auto simp: newer_def)
    then have "card ({m. in_set ?s m t} - {i}) \<le> card (newer ?s ?x t)" by (intro card_mono) simp_all
    moreover have "card {m. in_set ?s m t} = NUM_WAY t" by (simp add: in_set_eq)
    then have "card ({m. in_set ?s m t} - {i}) = NUM_WAY t - 1"
      using i(1) by (simp add: card_Diff_singleton)
    ultimately show False using r k by (auto simp: retained_def)
  qed
qed

lemma fill_pos_other_set:
  assumes "table_ok tp t" "in_set s i t" "set_of sp d t \<noteq> s" shows "fill_pos sp tp d t \<noteq> i"
  using fill_pos_in_set [OF assms(1), of sp d] assms(2,3) in_set_unique by blast

fun op_entry :: "'e table_op \<Rightarrow> 'e" where
  "op_entry (Lookup e) = e" | "op_entry (Enter e) = e"

text \<open>
  Operations that may run while \<open>e\<close> is to be kept: anything in other sets, and in the set of
  \<open>e\<close> lookups and entries of other tags.
\<close>

fun keeps :: "('e \<Rightarrow> 't) \<Rightarrow> 'e \<Rightarrow> 'e table_op \<Rightarrow> bool" where
  "keeps tp e (Lookup d) = True"
| "keeps tp e (Enter d) = (tp d \<noteq> tp e)"

definition set_ops :: "('e \<Rightarrow> nat) \<Rightarrow> nat \<Rightarrow> 'e \<Rightarrow> 'e table_op list \<Rightarrow> nat" where
  "set_ops sp sets e ops = length (filter (\<lambda>p. sp (op_entry p) mod sets = sp e mod sets) ops)"

lemma lt_step_ok:
  assumes "table_ok tp t" "has_room (Suc n) t"
  shows "table_ok tp (table_step sp tp p t)" "has_room n (table_step sp tp p t)"
    "NUM_SET (table_step sp tp p t) = NUM_SET t" "NUM_WAY (table_step sp tp p t) = NUM_WAY t"
  using assms
  by (cases p; simp add: fill_ok fill_room check_hit_ok check_hit_room;
      simp add: fill_eq check_hit_eq split: option.split)+

lemma step_retained:
  assumes ok: "table_ok tp t" and room: "has_room (Suc n) t" and p: "keeps tp e p"
    and r: "retained e (set_of sp e t) i k t"
    and k: "set_of sp (op_entry p) t = set_of sp e t \<Longrightarrow> Suc k < NUM_WAY t"
  shows "retained e (set_of sp e t) i
    (if set_of sp (op_entry p) t = set_of sp e t then Suc k else k) (table_step sp tp p t)"
proof -
  let ?s = "set_of sp e t"
  have i: "in_set ?s i t" using r by (simp add: retained_def)
  have elsewhere: "retained e ?s i k (fill_at j d t)" if "\<not> in_set ?s j t" for j d
  proof -
    have "j \<noteq> i" using that i by blast
    moreover have "newer ?s x (fill_at j d t) = newer ?s x t" for x
      using that by (auto simp: newer_def fill_at_block [OF room])
    ultimately show ?thesis using r by (simp add: retained_def fill_at_block [OF room])
  qed
  show ?thesis
  proof (cases p)
    case (Lookup d)
    show ?thesis
    proof (cases "find_hit sp tp d t")
      case None
      with Lookup r show ?thesis by (auto simp: check_hit_eq retained_def)
    next
      case (Some j)
      note hit = find_hit_Some [OF Some]
      show ?thesis
      proof (cases "set_of sp d t = ?s")
        case True
        have "j \<noteq> i \<or> data (block t j) = e" using r by (auto simp: retained_def)
        from fill_at_retained [OF ok room r this] True Lookup Some show ?thesis by (simp add: check_hit_eq)
      next
        case False
        then have "\<not> in_set ?s j t" using hit(1) in_set_unique by blast
        from elsewhere [OF this] False Lookup Some show ?thesis by (simp add: check_hit_eq)
      qed
    qed
  next
    case (Enter d)
    show ?thesis
    proof (cases "set_of sp d t = ?s")
      case True
      have "fill_pos sp tp d t \<noteq> i"
        using True Enter p k r by (intro victim_not_retained [OF ok]) auto
      from fill_at_retained [OF ok room r disjI1 [OF this]] True Enter show ?thesis
        by (simp add: fill_eq [OF ok])
    next
      case False
      then have "\<not> in_set ?s (fill_pos sp tp d t) t"
        using fill_pos_in_set [OF ok, of sp d] in_set_unique by blast
      from elsewhere [OF this] False Enter show ?thesis by (simp add: fill_eq [OF ok])
    qed
  qed
qed

lemma run_retained:
  assumes "table_ok tp t" "has_room (Suc (length ops)) t" "list_all (keeps tp e) ops"
    and "retained e (set_of sp e t) i k t" "k + set_ops sp (NUM_SET t) e ops < NUM_WAY t"
  shows "\<exists>t'. t' = fold (table_step sp tp) ops t \<and> table_ok tp t' \<and> has_room 1 t' \<and>
    NUM_SET t' = NUM_SET t \<and> retained e (set_of sp e t') i (NUM_WAY t) t'"
  using assms
proof (induction ops arbitrary: t k)
  case Nil
  then show ?case by (auto simp: retained_def set_ops_def)
next
  case (Cons p ops)
  let ?t = "table_step sp tp p t"
  let ?k = "if set_of sp (op_entry p) t = set_of sp e t then Suc k else k"
  have room: "has_room (Suc (Suc (length ops))) t" using Cons.prems(2) by simp
  note step = lt_step_ok [OF Cons.prems(1) room, of sp p]
  have "retained e (set_of sp e t) i ?k ?t"
    using Cons.prems(3,5) by (intro step_retained [where sp = sp and e = e, OF Cons.prems(1) room _ Cons.prems(4)])
      (auto simp: set_ops_def)
  then have "\<exists>t'. t' = fold (table_step sp tp) ops ?t \<and> table_ok tp t' \<and> has_room 1 t' \<and>
      NUM_SET t' = NUM_SET ?t \<and> retained e (set_of sp e t') i (NUM_WAY ?t) t'"
    using Cons.prems(3,5) step
    by (intro Cons.IH [of _ ?k]) (auto simp: set_ops_def step(3,4))
  then show ?case by (auto simp: step(3,4))
qed

text \<open>
  C25. LRU retention: an entry just filled in is found, with its data, after any sequence of lookups
  and fills of other tags as long as fewer than \<open>NUM_WAY\<close> of them go to its set; operations
  on other sets do not count.
\<close>

theorem lru_retention:
  assumes "table_ok tp t" "has_room (Suc (Suc (length ops))) t"
    and "list_all (keeps tp e) ops" "set_ops sp (NUM_SET t) e ops < NUM_WAY t"
  shows "fst (check_hit sp tp e (fold (table_step sp tp) ops (fill sp tp e t))) = Some e"
proof -
  let ?t = "fill sp tp e t" and ?i = "fill_pos sp tp e t"
  note ok = fill_ok [OF assms(1,2), of sp e]
  note room = fill_room [OF assms(1,2), of sp e]
  have sel: "NUM_SET ?t = NUM_SET t" "NUM_WAY ?t = NUM_WAY t" by (simp_all add: fill_eq [OF assms(1)])
  have old: "last_used (block t m) \<le> access_count t" if "in_set (set_of sp e t) m t" for m
    using assms(1) in_set_bound [OF that set_of_less [OF assms(1), of sp e]] by (auto simp: table_ok_def)
  have "newer (set_of sp e t) (Suc (access_count t)) ?t = {}"
    by (auto simp: newer_def fill_eq [OF assms(1)] fill_at_block [OF assms(2)] dest!: old)
  then have "retained e (set_of sp e ?t) ?i 0 ?t"
    using fill_pos_in_set [OF assms(1), of sp e] set_of_less [OF assms(1), of sp e]
    by (simp add: retained_def fill_eq [OF assms(1)] fill_at_block [OF assms(2)])
  from run_retained [where sp = sp and e = e, OF ok room assms(3) this] assms(4)
  obtain t' where t': "t' = fold (table_step sp tp) ops ?t" "table_ok tp t'" "has_room 1 t'"
    "retained e (set_of sp e t') ?i (NUM_WAY t) t'" by (auto simp: sel)
  have "find_hit sp tp e t' = Some ?i"
    using t'(4) by (intro find_hit_at [OF t'(2)]) (auto simp: retained_def)
  then show ?thesis using t'(4) by (simp add: t'(1) [symmetric] check_hit_eq retained_def)
qed

definition sample_table :: "(nat \<times> nat) lru_table" where
  "sample_table = \<lparr>NUM_SET = 2, NUM_WAY = 2, access_count = 0,
     block = (\<lambda>_. \<lparr>last_used = 0, data = (0, 0)\<rparr>)\<rparr>"

theorem lru_retention_witness:
  "fst (check_hit fst fst (4, 7) (fold (table_step fst fst) [Enter (6, 1), Enter (5, 2), Lookup (5, 0)]
     (fill fst fst (4, 7) sample_table))) = Some (4, 7)"
  by (rule lru_retention)
    (simp_all add: sample_table_def table_ok_def has_room_def set_ops_def)

end
