(* ===== verification/Btb.thy ===== *)
theory Btb
  imports Lru_Table Instruction
begin

text \<open>
  The branch target buffer \<open>btb/basic_btb\<close>: a return address stack, a table for indirect targets
  and an LRU table of direct targets, and the module that dispatches on the kind of branch.  The
  constructor argument of a table entry's default is the default-initialised entry.
\<close>

section \<open>Return address stack\<close>

definition ras_max_size :: nat where "ras_max_size = 64"
definition num_call_size_trackers :: nat where "num_call_size_trackers = 1024"

record return_stack =
  ras_stack :: "address list"
  call_size_trackers :: "64 word array"

definition return_stack_init :: return_stack where
  "return_stack_init = \<lparr>ras_stack = [], call_size_trackers = (\<lambda>_. 4)\<rparr>"

definition tracker_index :: "address \<Rightarrow> nat" where
  "tracker_index a = unat (a AND mask (10))"

definition ras_prediction :: "return_stack \<Rightarrow> address \<times> bool" where
  "ras_prediction s =
     (if ras_stack s = [] then (0, True)
      else (let target = last (ras_stack s) in (target + call_size_trackers s (tracker_index target), True)))"

definition ras_push :: "address \<Rightarrow> return_stack \<Rightarrow> return_stack" where
  "ras_push ip s =
     (let st = ras_stack s @ [ip]
      in s\<lparr>ras_stack := (if length st > ras_max_size then tl st else st)\<rparr>)"

text \<open>The warning printed for the first ten backward returns is left out.\<close>

definition calibrate_call_size :: "address \<Rightarrow> return_stack \<Rightarrow> return_stack" where
  "calibrate_call_size branch_target s =
     (if ras_stack s \<noteq> [] then
        (let call_ip = last (ras_stack s);
             s = s\<lparr>ras_stack := butlast (ras_stack s)\<rparr>;
             estimated = (if call_ip > branch_target then call_ip - branch_target
                          else branch_target - call_ip)
         in if estimated \<le> 10
            then s\<lparr>call_size_trackers := (call_size_trackers s)(tracker_index call_ip := estimated)\<rparr>
            else s)
      else s)"

section \<open>Indirect targets\<close>

definition indirect_size :: nat where "indirect_size = 4096"

record indirect_predictor =
  ind_predictor :: "address array"
  conditional_history :: "12 word"

definition indirect_predictor_init :: indirect_predictor where
  "indirect_predictor_init = \<lparr>ind_predictor = (\<lambda>_. 0), conditional_history = 0\<rparr>"

definition indirect_hash :: "address \<Rightarrow> indirect_predictor \<Rightarrow> nat" where
  "indirect_hash ip s = unat (drop_bit 2 ip XOR ucast (conditional_history s)) mod indirect_size"

definition indirect_prediction :: "address \<Rightarrow> indirect_predictor \<Rightarrow> address \<times> bool" where
  "indirect_prediction ip s = (ind_predictor s (indirect_hash ip s), True)"

definition update_target :: "address \<Rightarrow> address \<Rightarrow> indirect_predictor \<Rightarrow> indirect_predictor" where
  "update_target ip branch_target s =
     s\<lparr>ind_predictor := (ind_predictor s)(indirect_hash ip s := branch_target)\<rparr>"

definition update_direction :: "bool \<Rightarrow> indirect_predictor \<Rightarrow> indirect_predictor" where
  "update_direction taken s = s\<lparr>conditional_history := shift_in taken (conditional_history s)\<rparr>"

section \<open>Direct targets\<close>

datatype branch_info = INDIRECT | RETURN | ALWAYS_TAKEN | CONDITIONAL

record btb_entry_t =
  ip_tag :: address
  btb_target :: address
  btb_type :: branch_info

definition btb_index :: "btb_entry_t \<Rightarrow> nat" where
  "btb_index e = unat (drop_bit 2 (ip_tag e))"

definition btb_tag :: "btb_entry_t \<Rightarrow> 64 word" where
  "btb_tag e = drop_bit 2 (ip_tag e)"

type_synonym direct_predictor = "btb_entry_t lru_table"

definition direct_sets :: nat where "direct_sets = 1024"
definition direct_ways :: nat where "direct_ways = 8"

definition btb_entry_default :: btb_entry_t where
  "btb_entry_default = \<lparr>ip_tag = 0, btb_target = 0, btb_type = ALWAYS_TAKEN\<rparr>"

definition direct_predictor_init :: direct_predictor where
  "direct_predictor_init = projr (lru_new direct_sets direct_ways btb_entry_default)"

definition direct_check_hit :: "address \<Rightarrow> direct_predictor \<Rightarrow> btb_entry_t option \<times> direct_predictor" where
  "direct_check_hit ip s =
     check_hit btb_index btb_tag \<lparr>ip_tag = ip, btb_target = 0, btb_type = ALWAYS_TAKEN\<rparr> s"

definition info_of :: "branch_type \<Rightarrow> branch_info" where
  "info_of ty =
     (if ty = BRANCH_INDIRECT \<or> ty = BRANCH_INDIRECT_CALL then INDIRECT
      else if ty = BRANCH_RETURN then RETURN
      else if ty = BRANCH_CONDITIONAL then CONDITIONAL
      else ALWAYS_TAKEN)"

definition direct_update :: "address \<Rightarrow> address \<Rightarrow> branch_type \<Rightarrow> direct_predictor \<Rightarrow> direct_predictor" where
  "direct_update ip branch_target ty s =
     (let fresh = \<lparr>ip_tag = ip, btb_target = branch_target, btb_type = info_of ty\<rparr>;
          (opt_entry, s) = check_hit btb_index btb_tag fresh s;
          opt_entry = map_option (\<lambda>e. (let e = e\<lparr>btb_type := info_of ty\<rparr>
            in if branch_target \<noteq> 0 then e\<lparr>btb_target := branch_target\<rparr> else e)) opt_entry
      in if branch_target \<noteq> 0
         then fill btb_index btb_tag (case opt_entry of Some e \<Rightarrow> e | None \<Rightarrow> fresh) s
         else s)"

section \<open>The module\<close>

record basic_btb =
  btb_ras :: return_stack
  btb_indirect :: indirect_predictor
  btb_direct :: direct_predictor

definition basic_btb_init :: basic_btb where
  "basic_btb_init = \<lparr>btb_ras = return_stack_init, btb_indirect = indirect_predictor_init,
     btb_direct = direct_predictor_init\<rparr>"

definition btb_prediction :: "address \<Rightarrow> basic_btb \<Rightarrow> (address \<times> bool) \<times> basic_btb" where
  "btb_prediction ip s =
     (let (btb_entry, d) = direct_check_hit ip (btb_direct s); s = s\<lparr>btb_direct := d\<rparr>
      in (case btb_entry of
            None \<Rightarrow> (0, False)
          | Some e \<Rightarrow>
              if btb_type e = RETURN then ras_prediction (btb_ras s)
              else if btb_type e = INDIRECT then indirect_prediction ip (btb_indirect s)
              else (btb_target e, btb_type e \<noteq> CONDITIONAL), s))"

definition update_btb :: "address \<Rightarrow> address \<Rightarrow> bool \<Rightarrow> branch_type \<Rightarrow> basic_btb \<Rightarrow> basic_btb" where
  "update_btb ip branch_target taken ty s =
     (let s = (if ty = BRANCH_DIRECT_CALL \<or> ty = BRANCH_INDIRECT_CALL
               then s\<lparr>btb_ras := ras_push ip (btb_ras s)\<rparr> else s);
          s = (if ty = BRANCH_INDIRECT \<or> ty = BRANCH_INDIRECT_CALL
               then s\<lparr>btb_indirect := update_target ip branch_target (btb_indirect s)\<rparr> else s);
          s = (if ty = BRANCH_CONDITIONAL
               then s\<lparr>btb_indirect := update_direction taken (btb_indirect s)\<rparr> else s);
          s = (if ty = BRANCH_RETURN
               then s\<lparr>btb_ras := calibrate_call_size branch_target (btb_ras s)\<rparr> else s)
      in s\<lparr>btb_direct := direct_update ip branch_target ty (btb_direct s)\<rparr>)"

section \<open>The table of direct targets\<close>

interpretation btb: lookup_table "lru_ok btb_tag" "check_hit btb_index btb_tag" "fill btb_index btb_tag"
  "\<lambda>e e'. btb_tag e = btb_tag e'"
proof -
  have "btb_tag e = btb_tag e' \<longleftrightarrow> btb_index e = btb_index e' \<and> btb_tag e = btb_tag e'" for e e'
    by (auto simp: btb_index_def btb_tag_def)
  then show "lookup_table (lru_ok btb_tag) (check_hit btb_index btb_tag) (fill btb_index btb_tag)
      (\<lambda>e e'. btb_tag e = btb_tag e')"
    using lru.lookup_table_axioms [of btb_tag btb_index] by simp
qed

lemma direct_init_ok: "lru_ok btb_tag (2 ^ 63) direct_predictor_init"
  by (simp add: direct_predictor_init_def lru_new_def direct_sets_def direct_ways_def lru_ok_def
      table_ok_def has_room_def)

lemma hit_same_tag: "fst (check_hit sp tp e t) = Some d \<Longrightarrow> tp d = tp e"
  by (auto simp: check_hit_eq dest: find_hit_Some(3) split: option.splits)

lemma direct_update_room:
  "lru_ok btb_tag (Suc (Suc n)) t \<Longrightarrow> lru_ok btb_tag n (direct_update ip tgt ty t)"
proof -
  assume ok: "lru_ok btb_tag (Suc (Suc n)) t"
  have "lru_ok btb_tag (Suc n) (snd (check_hit btb_index btb_tag e t))" for e
    using ok by (rule btb.ok_lookup)
  moreover from this have "lru_ok btb_tag n (fill btb_index btb_tag d (snd (check_hit btb_index btb_tag e t)))" for d e
    by (rule btb.ok_enter)
  moreover have "lru_ok btb_tag (Suc n) r \<Longrightarrow> lru_ok btb_tag n r" for r
    by (simp add: lru_ok_def has_room_def)
  ultimately show ?thesis by (simp add: direct_update_def case_prod_beta Let_def)
qed

text \<open>After an update with a target, the table answers with that target and the kind of the branch.\<close>

lemma direct_hit_after_update:
  assumes ok: "lru_ok btb_tag (Suc (Suc n)) t" and tgt: "tgt \<noteq> 0"
  obtains e where "fst (direct_check_hit ip (direct_update ip tgt ty t)) = Some e"
    "btb_target e = tgt" "btb_type e = info_of ty"
proof -
  let ?fresh = "\<lparr>ip_tag = ip, btb_target = tgt, btb_type = info_of ty\<rparr>"
  let ?ask = "\<lparr>ip_tag = ip, btb_target = 0, btb_type = ALWAYS_TAKEN\<rparr>"
  let ?t = "snd (check_hit btb_index btb_tag ?fresh t)"
  define e where "e = (case fst (check_hit btb_index btb_tag ?fresh t) of None \<Rightarrow> ?fresh
    | Some d \<Rightarrow> d\<lparr>btb_type := info_of ty, btb_target := tgt\<rparr>)"
  have "btb_tag e = btb_tag ?ask"
    by (auto simp: e_def btb_tag_def split: option.split dest: hit_same_tag)
  moreover have "lru_ok btb_tag (Suc n) ?t" using ok by (rule btb.ok_lookup)
  ultimately have "fst (check_hit btb_index btb_tag ?ask (fill btb_index btb_tag e ?t)) = Some e"
    by (intro btb.lookup_enter)
  moreover have "direct_update ip tgt ty t = fill btb_index btb_tag e ?t"
    using tgt by (simp add: direct_update_def e_def case_prod_beta Let_def split: option.split)
  moreover have "btb_target e = tgt" "btb_type e = info_of ty"
    by (simp_all add: e_def split: option.split)
  ultimately show thesis by (intro that [of e]) (simp_all add: direct_check_hit_def)
qed

section \<open>The module after an update\<close>

text \<open>
  C26. Once a branch has been updated with a target, the buffer predicts it: a jump or direct call
  with its target and always taken, a conditional branch with its target and direction left to the
  branch predictor, an indirect jump or call with the target just stored, and a return with what
  the return address stack says.
\<close>

theorem btb_predicts_updated:
  assumes "lru_ok btb_tag (Suc (Suc n)) (btb_direct s)" "tgt \<noteq> 0"
  shows "let s' = update_btb ip tgt taken ty s
    in fst (btb_prediction ip s') =
      (if ty = BRANCH_RETURN then ras_prediction (btb_ras s')
       else (tgt, ty \<noteq> BRANCH_CONDITIONAL))"
proof -
  let ?s = "update_btb ip tgt taken ty s"
  have d: "btb_direct ?s = direct_update ip tgt ty (btb_direct s)"
    by (simp add: update_btb_def Let_def)
  obtain e where e: "fst (direct_check_hit ip (btb_direct ?s)) = Some e"
    "btb_target e = tgt" "btb_type e = info_of ty"
    unfolding d by (rule direct_hit_after_update [OF assms])
  have "indirect_prediction ip (btb_indirect ?s) = (tgt, True)" if "info_of ty = INDIRECT"
    using that by (auto simp: info_of_def update_btb_def Let_def indirect_prediction_def update_target_def
        indirect_hash_def split: if_splits)
  then show ?thesis
    using e by (auto simp: btb_prediction_def case_prod_beta Let_def info_of_def split: if_splits)
qed

theorem btb_predicts_updated_witness:
  "fst (btb_prediction 64 (update_btb 64 128 True BRANCH_CONDITIONAL basic_btb_init)) = (128, False)"
proof -
  have "lru_ok btb_tag (Suc (Suc 0)) (btb_direct basic_btb_init)"
    using direct_init_ok by (simp add: basic_btb_init_def lru_ok_def has_room_def)
  from btb_predicts_updated [OF this, of 128 64 True BRANCH_CONDITIONAL] show ?thesis by simp
qed

section \<open>The return address stack\<close>

lemma tracker_range: "tracker_index a < num_call_size_trackers"
  by (simp add: tracker_index_def unat_and_mask num_call_size_trackers_def)

datatype ras_op = Call address | Ret address

fun ras_step :: "ras_op \<Rightarrow> return_stack \<Rightarrow> return_stack" where
  "ras_step (Call ip) s = ras_push ip s"
| "ras_step (Ret tgt) s = calibrate_call_size tgt s"

text \<open>Balanced call and return sequences and the depth they reach.\<close>

inductive balanced :: "nat \<Rightarrow> ras_op list \<Rightarrow> bool" where
  balanced_Nil: "balanced d []"
| balanced_call: "balanced d xs \<Longrightarrow> balanced (Suc d) ys \<Longrightarrow> balanced (Suc d) (Call ip # xs @ Ret tgt # ys)"

lemma calibrate_stack: "ras_stack (calibrate_call_size tgt s) = butlast (ras_stack s)"
  by (simp add: calibrate_call_size_def Let_def)

text \<open>A balanced sequence leaves the top entries in place, whatever falls out at the bottom.\<close>

lemma balanced_keeps_top:
  assumes "balanced d ops" "ras_stack s = lo @ hi" "d + length hi \<le> ras_max_size"
  shows "\<exists>lo'. ras_stack (fold ras_step ops s) = lo' @ hi"
  using assms
proof (induction arbitrary: s lo hi rule: balanced.induct)
  case (balanced_Nil d)
  then show ?case by auto
next
  case (balanced_call d xs ys ip tgt)
  have push: "\<exists>lo'. ras_stack (ras_push ip s) = lo' @ (hi @ [ip])"
  proof (cases "length (ras_stack s @ [ip]) > ras_max_size")
    case True
    then have "lo \<noteq> []" using balanced_call.prems by auto
    then have "tl ((lo @ hi) @ [ip]) = tl lo @ (hi @ [ip])" by simp
    then show ?thesis using True balanced_call.prems(1) by (auto simp: ras_push_def Let_def)
  next
    case False
    then show ?thesis using balanced_call.prems(1) by (simp add: ras_push_def Let_def)
  qed
  then obtain lo1 where "ras_stack (ras_push ip s) = lo1 @ (hi @ [ip])" by blast
  moreover have "d + length (hi @ [ip]) \<le> ras_max_size" using balanced_call.prems(2) by simp
  ultimately obtain lo2 where "ras_stack (fold ras_step xs (ras_push ip s)) = lo2 @ (hi @ [ip])"
    using balanced_call.IH(1) by blast
  then have "ras_stack (calibrate_call_size tgt (fold ras_step xs (ras_push ip s))) = lo2 @ hi"
    by (simp add: calibrate_stack butlast_append)
  from balanced_call.IH(2) [OF this balanced_call.prems(2)] show ?case by simp
qed

text \<open>
  C27. The return address stack matches returns to calls: after a call and any balanced sequence of
  nested calls and returns of depth at most 63, the next return is predicted to continue behind
  that call, at the call size currently recorded for it.
\<close>

theorem ras_matches_calls:
  assumes "balanced d ops" "d < ras_max_size"
  shows "let s' = fold ras_step ops (ras_push ip s)
    in ras_prediction s' = (ip + call_size_trackers s' (tracker_index ip), True)"
proof -
  have "\<exists>lo. ras_stack (ras_push ip s) = lo @ [ip]"
    by (cases "ras_stack s") (auto simp: ras_push_def Let_def ras_max_size_def)
  then obtain lo where "ras_stack (ras_push ip s) = lo @ [ip]" by blast
  from balanced_keeps_top [OF assms(1) this] assms(2)
  obtain lo' where "ras_stack (fold ras_step ops (ras_push ip s)) = lo' @ [ip]" by auto
  then show ?thesis by (simp add: ras_prediction_def Let_def)
qed

theorem ras_matches_calls_witness:
  "let s' = fold ras_step [Call 100, Ret 104] (ras_push 8 return_stack_init)
   in ras_prediction s' = (8 + call_size_trackers s' (tracker_index 8), True)"
proof -
  have "balanced (Suc 0) (Call 100 # [] @ Ret 104 # [])" by (intro balanced.intros)
  from ras_matches_calls [OF this, of 8 return_stack_init] show ?thesis
    by (simp add: ras_max_size_def Let_def)
qed

text \<open>
  The call size is learned from a return that lands at most ten bytes behind the call: the next
  return of that call is then predicted exactly.
\<close>

theorem ras_learns_call_size:
  assumes "ras_stack s \<noteq> []" "last (ras_stack s) = ip" "ip \<le> tgt" "tgt - ip \<le> 10"
  shows "ras_prediction (ras_push ip (calibrate_call_size tgt s)) = (tgt, True)"
proof -
  have "\<not> tgt < ip" using assms(3) by simp
  then have "call_size_trackers (calibrate_call_size tgt s) (tracker_index ip) = tgt - ip"
    using assms by (simp add: calibrate_call_size_def Let_def)
  moreover have "last (ras_stack (ras_push ip t)) = ip \<and> ras_stack (ras_push ip t) \<noteq> []" for t
    by (cases "ras_stack t") (auto simp: ras_push_def Let_def ras_max_size_def)
  moreover have "call_size_trackers (ras_push ip t) = call_size_trackers t" for t
    by (simp add: ras_push_def Let_def)
  ultimately show ?thesis by (simp add: ras_prediction_def Let_def)
qed

text \<open>
  A return that lands a little below its call is recorded with its distance but without the
  direction: the next prediction lies as far above the call.
\<close>

lemma ras_backward_return:
  assumes "ras_stack s \<noteq> []" "last (ras_stack s) = ip" "tgt < ip" "ip - tgt \<le> 10"
  shows "ras_prediction (ras_push ip (calibrate_call_size tgt s)) = (ip + (ip - tgt), True)"
proof -
  have "call_size_trackers (calibrate_call_size tgt s) (tracker_index ip) = ip - tgt"
    using assms by (simp add: calibrate_call_size_def Let_def)
  moreover have "last (ras_stack (ras_push ip t)) = ip \<and> ras_stack (ras_push ip t) \<noteq> []" for t
    by (cases "ras_stack t") (auto simp: ras_push_def Let_def ras_max_size_def)
  moreover have "call_size_trackers (ras_push ip t) = call_size_trackers t" for t
    by (simp add: ras_push_def Let_def)
  ultimately show ?thesis by (simp add: ras_prediction_def Let_def)
qed

theorem ras_learns_call_size_witness:
  "ras_prediction (ras_push 8 (calibrate_call_size 10 (ras_push 8 return_stack_init))) = (10, True)"
  by (rule ras_learns_call_size) (simp_all add: ras_push_def return_stack_init_def ras_max_size_def)

end
