(* ===== verification/Access_Type.thy ===== *)
theory Access_Type
  imports Prelude
begin

text \<open>The kinds of memory access, \<open>inc/access_type.h\<close>, ordered by their underlying values as the
  statistics order their keys.\<close>

datatype access_type = LOAD | RFO | PREFETCH | WRITE | TRANSLATION

primrec access_code :: "access_type \<Rightarrow> nat" where
  "access_code LOAD = 0"
| "access_code RFO = 1"
| "access_code PREFETCH = 2"
| "access_code WRITE = 3"
| "access_code TRANSLATION = 4"

lemma access_code_inject: "access_code a = access_code b \<longleftrightarrow> a = b"
  by (cases a; cases b) simp_all

instantiation access_type :: linorder
begin

definition less_eq_access_type :: "access_type \<Rightarrow> access_type \<Rightarrow> bool" where
  "less_eq_access_type a b = (access_code a \<le> access_code b)"

definition less_access_type :: "access_type \<Rightarrow> access_type \<Rightarrow> bool" where
  "less_access_type a b = (access_code a < access_code b)"

instance
  by standard (auto simp: less_eq_access_type_def less_access_type_def access_code_inject)

end

end
