(* ===== verification/Replacement.thy ===== *)
theory Replacement
  imports Fwcounter Msl_Bits Access_Type
begin

text \<open>
  The replacement policies \<open>replacement/{lru,srrip,drrip,ship}\<close> and the dispatch through which a
  cache calls them (\<open>CACHE::replacement_module_model\<close>, \<open>inc/cache.h\<close>).  An update returns
  \<open>None\<close> where the code's checked access \<open>.at\<close> throws \<open>std::out_of_range\<close>.
\<close>

text \<open>Arguments: cpu, set (\<open>si\<close>), way, full address, ip, victim address, access type, hit.\<close>

type_synonym 's update_state =
  "nat \<Rightarrow> nat \<Rightarrow> nat \<Rightarrow> address \<Rightarrow> address \<Rightarrow> address \<Rightarrow> access_type \<Rightarrow> bool \<Rightarrow> 's \<Rightarrow> 's option"

type_synonym 's cache_fill =
  "nat \<Rightarrow> nat \<Rightarrow> nat \<Rightarrow> address \<Rightarrow> address \<Rightarrow> address \<Rightarrow> access_type \<Rightarrow> 's \<Rightarrow> 's option"

section \<open>Dispatch\<close>

text \<open>
  \<open>fill\<close> is the module's \<open>replacement_cache_fill\<close> when it has one.  An update on a miss is passed on
  only to modules that have one.
\<close>

definition impl_update_replacement_state ::
  "'s cache_fill option \<Rightarrow> 's update_state \<Rightarrow> 's update_state" where
  "impl_update_replacement_state fill update cpu si way full_addr ip victim_addr type hit s =
     (if hit \<or> fill \<noteq> None
      then (let new_victim_addr = (if hit then 0 else victim_addr)
            in update cpu si way full_addr ip new_victim_addr type hit s)
      else Some s)"

definition impl_replacement_cache_fill ::
  "'s cache_fill option \<Rightarrow> 's update_state \<Rightarrow> 's cache_fill" where
  "impl_replacement_cache_fill fill update cpu si way full_addr ip victim_addr type s =
     (case fill of
        Some f \<Rightarrow> f cpu si way full_addr ip victim_addr type s
      | None \<Rightarrow> impl_update_replacement_state fill update cpu si way full_addr ip victim_addr type False s)"

section \<open>LRU\<close>

record lru =
  lru_NUM_WAY :: nat
  lru_size :: nat
  last_used_cycles :: "nat array"
  lru_cycle :: nat

definition lru_init :: "nat \<Rightarrow> nat \<Rightarrow> lru" where
  "lru_init sets ways = \<lparr>lru_NUM_WAY = ways, lru_size = sets * ways,
     last_used_cycles = (\<lambda>_. 0), lru_cycle = 0\<rparr>"

definition lru_find_victim :: "nat \<Rightarrow> lru \<Rightarrow> nat" where
  "lru_find_victim si s =
     (let b = si * lru_NUM_WAY s
      in min_element (\<lambda>i j. last_used_cycles s i < last_used_cycles s j) b (b + lru_NUM_WAY s) - b)"

definition lru_touch :: "nat \<Rightarrow> nat \<Rightarrow> lru \<Rightarrow> lru option" where
  "lru_touch si way s =
     (let i = si * lru_NUM_WAY s + way
      in if i < lru_size s
         then Some (s\<lparr>last_used_cycles := (last_used_cycles s)(i := lru_cycle s),
                      lru_cycle := u64 (lru_cycle s + 1)\<rparr>)
         else None)"

definition lru_cache_fill :: "lru cache_fill" where
  "lru_cache_fill cpu si way full_addr ip victim_addr type s = lru_touch si way s"

definition lru_update_state :: "lru update_state" where
  "lru_update_state cpu si way full_addr ip victim_addr type hit s =
     (if hit \<and> type \<noteq> WRITE then lru_touch si way s else Some s)"

section \<open>SRRIP\<close>

definition maxRRPV :: int where "maxRRPV = 3"

record srrip =
  srrip_sets :: nat
  srrip_ways :: nat
  rrpv_values :: "int array array"

definition srrip_init :: "nat \<Rightarrow> nat \<Rightarrow> srrip" where
  "srrip_init sets ways = \<lparr>srrip_sets = sets, srrip_ways = ways, rrpv_values = (\<lambda>_ _. maxRRPV)\<rparr>"

text \<open>The victim among \<open>n\<close> values, and the values aged so that the victim's is the maximum.\<close>

definition rrpv_victim :: "nat \<Rightarrow> int array \<Rightarrow> nat" where
  "rrpv_victim n v = max_element (\<lambda>i j. v i < v j) 0 n"

definition rrpv_age :: "nat \<Rightarrow> int array \<Rightarrow> int array" where
  "rrpv_age n v = (let diff = maxRRPV - v (rrpv_victim n v) in (\<lambda>i. if i < n then v i + diff else v i))"

definition srrip_find_victim :: "nat \<Rightarrow> srrip \<Rightarrow> (nat \<times> srrip) option" where
  "srrip_find_victim si s =
     (if si < srrip_sets s
      then Some (rrpv_victim (srrip_ways s) (rrpv_values s si),
                 s\<lparr>rrpv_values := (rrpv_values s)(si := rrpv_age (srrip_ways s) (rrpv_values s si))\<rparr>)
      else None)"

definition srrip_update_state :: "srrip update_state" where
  "srrip_update_state cpu si way full_addr ip victim_addr type hit s =
     (if si < srrip_sets s \<and> way < srrip_ways s
      then Some (s\<lparr>rrpv_values := (rrpv_values s)(si := (rrpv_values s si)
             (way := (if hit then 0 else maxRRPV - 1)))\<rparr>)
      else None)"

section \<open>DRRIP\<close>

definition NUM_POLICY :: nat where "NUM_POLICY = 2"
definition SDM_SIZE :: nat where "SDM_SIZE = 32"
definition BIP_MAX :: nat where "BIP_MAX = 32"
definition PSEL_WIDTH :: nat where "PSEL_WIDTH = 10"

record drrip =
  dr_NUM_SET :: nat
  dr_NUM_WAY :: nat
  bip_counter :: nat
  dr_rand_sets :: "nat list"
  PSEL :: "counter array"
  dr_rrpv :: "int array"

text \<open>
  \<open>rand_sets\<close> are the sorted numbers of the generator; \<open>bip_counter\<close> is not initialised and holds an
  arbitrary 32-bit value at first.
\<close>

definition drrip_init :: "nat \<Rightarrow> nat \<Rightarrow> nat list \<Rightarrow> nat \<Rightarrow> drrip" where
  "drrip_init sets ways rand bip = \<lparr>dr_NUM_SET = sets, dr_NUM_WAY = ways, bip_counter = bip mod 2 ^ 32,
     dr_rand_sets = sort rand, PSEL = (\<lambda>_. 0), dr_rrpv = (\<lambda>_. 0)\<rparr>"

definition dr_set_rrpv :: "nat \<Rightarrow> nat \<Rightarrow> int \<Rightarrow> drrip \<Rightarrow> drrip option" where
  "dr_set_rrpv si way v s =
     (let i = si * dr_NUM_WAY s + way
      in if i < dr_NUM_SET s * dr_NUM_WAY s then Some (s\<lparr>dr_rrpv := (dr_rrpv s)(i := v)\<rparr>) else None)"

definition drrip_update_bip :: "nat \<Rightarrow> nat \<Rightarrow> drrip \<Rightarrow> drrip option" where
  "drrip_update_bip si way s =
     Option.bind (dr_set_rrpv si way maxRRPV s)
       (\<lambda>s. let s = s\<lparr>bip_counter := (bip_counter s + 1) mod 2 ^ 32\<rparr>
            in if bip_counter s = BIP_MAX then dr_set_rrpv si way (maxRRPV - 1) (s\<lparr>bip_counter := 0\<rparr>)
               else Some s)"

definition drrip_update_srrip :: "nat \<Rightarrow> nat \<Rightarrow> drrip \<Rightarrow> drrip option" where
  "drrip_update_srrip si way s = dr_set_rrpv si way (maxRRPV - 1) s"

text \<open>The position of a set among the sampled sets of a cpu.\<close>

definition drrip_leader :: "nat \<Rightarrow> nat \<Rightarrow> drrip \<Rightarrow> nat option" where
  "drrip_leader cpu si s =
     (let b = cpu * NUM_POLICY * SDM_SIZE
      in map_option (\<lambda>k. k - b) (find_if (\<lambda>k. dr_rand_sets s ! k = si) b (b + NUM_POLICY * SDM_SIZE)))"

definition drrip_update_state :: "drrip update_state" where
  "drrip_update_state cpu si way full_addr ip victim_addr type hit s =
     (if type = WRITE then dr_set_rrpv si way (maxRRPV - 1) s
      else if hit then dr_set_rrpv si way 0 s
      else (case drrip_leader cpu si s of
              None \<Rightarrow>
                (if PSEL s cpu > fw_max PSEL_WIDTH div 2 then drrip_update_bip si way s
                 else drrip_update_srrip si way s)
            | Some leader \<Rightarrow>
                (if leader = 0
                 then drrip_update_bip si way
                        (s\<lparr>PSEL := (PSEL s)(cpu := fw_minus PSEL_WIDTH (PSEL s cpu) 1)\<rparr>)
                 else if leader = 1
                 then drrip_update_srrip si way
                        (s\<lparr>PSEL := (PSEL s)(cpu := fw_plus PSEL_WIDTH (PSEL s cpu) 1)\<rparr>)
                 else Some s)))"

text \<open>The victim of a flattened table: the way, and the table with the set aged.\<close>

definition flat_victim :: "nat \<Rightarrow> nat \<Rightarrow> int array \<Rightarrow> nat \<times> int array" where
  "flat_victim ways si v =
     (let b = si * ways; victim = max_element (\<lambda>i j. v i < v j) b (b + ways);
          diff = maxRRPV - v victim
      in (victim - b, if diff \<noteq> 0 then (\<lambda>i. if b \<le> i \<and> i < b + ways then v i + diff else v i) else v))"

definition drrip_find_victim :: "nat \<Rightarrow> drrip \<Rightarrow> nat \<times> drrip" where
  "drrip_find_victim si s =
     (let (w, v) = flat_victim (dr_NUM_WAY s) si (dr_rrpv s) in (w, s\<lparr>dr_rrpv := v\<rparr>))"

section \<open>SHiP\<close>

definition SHCT_SIZE :: nat where "SHCT_SIZE = 16384"
definition SHCT_PRIME :: nat where "SHCT_PRIME = 16381"
definition SAMPLER_SET_FACTOR :: nat where "SAMPLER_SET_FACTOR = 256"
definition SHCT_WIDTH :: nat where "SHCT_WIDTH = 3"

record SAMPLER_class =
  sm_valid :: bool
  sm_used :: bool
  sm_address :: address
  sm_ip :: address
  sm_last_used :: nat

record ship =
  sh_NUM_SET :: nat
  sh_NUM_WAY :: nat
  sh_access_count :: nat
  sh_rand_sets :: "nat list"
  sh_sampler :: "SAMPLER_class array"
  sh_rrpv :: "int array"
  SHCT :: "counter array array"

definition ship_init :: "nat \<Rightarrow> nat \<Rightarrow> nat list \<Rightarrow> ship" where
  "ship_init sets ways rand = \<lparr>sh_NUM_SET = sets, sh_NUM_WAY = ways, sh_access_count = 0,
     sh_rand_sets = sort rand,
     sh_sampler = (\<lambda>_. \<lparr>sm_valid = False, sm_used = False, sm_address = 0, sm_ip = 0, sm_last_used = 0\<rparr>),
     sh_rrpv = (\<lambda>_. maxRRPV), SHCT = (\<lambda>_ _. 0)\<rparr>"

definition SHCT_index :: "address \<Rightarrow> nat" where
  "SHCT_index ip = unat (ip AND mask 32) mod SHCT_PRIME"

definition sh_set_rrpv :: "nat \<Rightarrow> nat \<Rightarrow> int \<Rightarrow> ship \<Rightarrow> ship option" where
  "sh_set_rrpv si way v s =
     (let i = si * sh_NUM_WAY s + way
      in if i < sh_NUM_SET s * sh_NUM_WAY s then Some (s\<lparr>sh_rrpv := (sh_rrpv s)(i := v)\<rparr>) else None)"

definition ship_find_victim :: "nat \<Rightarrow> ship \<Rightarrow> nat \<times> ship" where
  "ship_find_victim si s = (let (w, v) = flat_victim (sh_NUM_WAY s) si (sh_rrpv s) in (w, s\<lparr>sh_rrpv := v\<rparr>))"

definition bump_SHCT :: "nat \<Rightarrow> nat \<Rightarrow> int \<Rightarrow> ship \<Rightarrow> ship" where
  "bump_SHCT cpu i d s =
     s\<lparr>SHCT := (SHCT s)(cpu := (SHCT s cpu)(i := fw_plus SHCT_WIDTH (SHCT s cpu i) d))\<rparr>"

text \<open>
  The sampler entries of a sampled set start at the position of the set among \<open>rand_sets\<close>; the code
  does not multiply it by the number of ways.
\<close>

definition ship_update_sampler :: "nat \<Rightarrow> nat \<Rightarrow> address \<Rightarrow> address \<Rightarrow> ship \<Rightarrow> ship" where
  "ship_update_sampler cpu si full_addr ip s =
     (case find_if (\<lambda>k. sh_rand_sets s ! k = si) 0 (length (sh_rand_sets s)) of
        None \<Rightarrow> s
      | Some s_set_begin \<Rightarrow>
          (let s_set_end = s_set_begin + sh_NUM_WAY s;
               shamt = 8 + lg2 (sh_NUM_WAY s);
               found = find_if (\<lambda>k. sm_valid (sh_sampler s k) \<and>
                 drop_bit shamt (sm_address (sh_sampler s k)) = drop_bit shamt full_addr) s_set_begin s_set_end;
               (m, s) = (case found of
                   Some k \<Rightarrow>
                     (let s = bump_SHCT cpu (SHCT_index (sm_ip (sh_sampler s k))) (- 1) s
                      in (k, s\<lparr>sh_sampler := (sh_sampler s)(k := (sh_sampler s k)\<lparr>sm_used := True\<rparr>)\<rparr>))
                 | None \<Rightarrow>
                     (let k = min_element (\<lambda>i j. sm_last_used (sh_sampler s i) < sm_last_used (sh_sampler s j))
                                s_set_begin s_set_end;
                          s = (if sm_used (sh_sampler s k)
                               then bump_SHCT cpu (SHCT_index (sm_ip (sh_sampler s k))) 1 s else s)
                      in (k, s\<lparr>sh_sampler := (sh_sampler s)(k := (sh_sampler s k)
                              \<lparr>sm_valid := True, sm_address := full_addr, sm_ip := ip, sm_used := False\<rparr>)\<rparr>)))
           in s\<lparr>sh_sampler := (sh_sampler s)(m := (sh_sampler s m)\<lparr>sm_last_used := sh_access_count s\<rparr>),
                sh_access_count := u64 (sh_access_count s + 1)\<rparr>))"

definition ship_update_state :: "ship update_state" where
  "ship_update_state cpu si way full_addr ip victim_addr type hit s =
     (if type = WRITE then (if \<not> hit then sh_set_rrpv si way (maxRRPV - 1) s else Some s)
      else
        (let s = ship_update_sampler cpu si full_addr ip s
         in if hit then sh_set_rrpv si way 0 s
            else Option.bind (sh_set_rrpv si way (maxRRPV - 1) s)
              (\<lambda>s. if fwc_is_max (fw_max SHCT_WIDTH) (SHCT s cpu (SHCT_index ip))
                   then sh_set_rrpv si way maxRRPV s else Some s)))"

section \<open>The random sampler sets\<close>

text \<open>
  Both policies draw their sampled sets from \<open>std::knuth_b{1}\<close>, which the standard defines: the
  generator \<open>minstd_rand0\<close> behind a shuffle of 256 entries.
\<close>

definition minstd_rand0 :: "int \<Rightarrow> int" where
  "minstd_rand0 x = 16807 * x mod 2147483647"

fun lcg_outputs :: "nat \<Rightarrow> int \<Rightarrow> int list" where
  "lcg_outputs 0 x = []"
| "lcg_outputs (Suc n) x = (let x' = minstd_rand0 x in x' # lcg_outputs n x')"

fun shuffle_outputs :: "nat \<Rightarrow> int list \<Rightarrow> int \<Rightarrow> int \<Rightarrow> int list" where
  "shuffle_outputs 0 V y x = []"
| "shuffle_outputs (Suc n) V y x =
     (let j = nat (256 * (y - 1) div 2147483646); y' = V ! j; x' = minstd_rand0 x
      in y' # shuffle_outputs n (V[j := x']) y' x')"

definition knuth_b :: "int \<Rightarrow> nat \<Rightarrow> int list" where
  "knuth_b seed n =
     (let V = lcg_outputs 256 seed; y = minstd_rand0 (last V) in shuffle_outputs n V y y)"

lemma knuth_b_bound: "list_all (\<lambda>r. 16807 \<le> r) (knuth_b 1 64)"
  by code_simp

end
