(* ===== verification/Replacement_Correctness.thy ===== *)
theory Replacement_Correctness
  imports Replacement
begin

text \<open>
  The contract of the replacement policies: victims are ways of the set, the checked accesses do not
  throw, LRU evicts in the order of the last uses, the RRPV policies evict a block of greatest
  re-reference interval.  The last sections show what the dispatch and the random sampler sets do
  to SRRIP, DRRIP and SHiP.
\<close>

section \<open>The interface\<close>

datatype repl_event =
    Victim nat
  | Hit nat nat nat address address access_type
  | Fill nat nat nat address address address access_type

definition repl_step ::
  "(nat \<Rightarrow> 's \<Rightarrow> nat \<times> 's) \<Rightarrow> 's cache_fill option \<Rightarrow> 's update_state \<Rightarrow> repl_event \<Rightarrow> 's \<Rightarrow> 's option" where
  "repl_step victim fill update ev s =
     (case ev of
        Victim si \<Rightarrow> Some (snd (victim si s))
      | Hit cpu si way fa ip ty \<Rightarrow> impl_update_replacement_state fill update cpu si way fa ip 0 ty True s
      | Fill cpu si way fa ip va ty \<Rightarrow> impl_replacement_cache_fill fill update cpu si way fa ip va ty s)"

fun repl_run ::
  "(nat \<Rightarrow> 's \<Rightarrow> nat \<times> 's) \<Rightarrow> 's cache_fill option \<Rightarrow> 's update_state \<Rightarrow> repl_event list \<Rightarrow> 's \<Rightarrow> 's option" where
  "repl_run victim fill update [] s = Some s"
| "repl_run victim fill update (e # es) s =
     Option.bind (repl_step victim fill update e s) (repl_run victim fill update es)"

fun event_in_range :: "nat \<Rightarrow> nat \<Rightarrow> nat \<Rightarrow> repl_event \<Rightarrow> bool" where
  "event_in_range cpus sets ways (Victim si) = (si < sets)"
| "event_in_range cpus sets ways (Hit cpu si way fa ip ty) = (cpu < cpus \<and> si < sets \<and> way < ways)"
| "event_in_range cpus sets ways (Fill cpu si way fa ip va ty) = (cpu < cpus \<and> si < sets \<and> way < ways)"

locale replacement_policy =
  fixes ok :: "'s \<Rightarrow> bool"
    and cpus sets ways :: nat
    and victim :: "nat \<Rightarrow> 's \<Rightarrow> nat \<times> 's"
    and fill :: "'s cache_fill option"
    and update :: "'s update_state"
  assumes victim_range: "ok s \<Longrightarrow> si < sets \<Longrightarrow> fst (victim si s) < ways"
    and victim_ok: "ok s \<Longrightarrow> si < sets \<Longrightarrow> ok (snd (victim si s))"
    and update_ok: "ok s \<Longrightarrow> cpu < cpus \<Longrightarrow> si < sets \<Longrightarrow> way < ways \<Longrightarrow>
      \<exists>s'. update cpu si way fa ip va ty h s = Some s' \<and> ok s'"
    and fill_ok: "ok s \<Longrightarrow> cpu < cpus \<Longrightarrow> si < sets \<Longrightarrow> way < ways \<Longrightarrow> fill = Some f \<Longrightarrow>
      \<exists>s'. f cpu si way fa ip va ty s = Some s' \<and> ok s'"
begin

lemma step_ok:
  assumes "ok s" "event_in_range cpus sets ways e"
  shows "\<exists>s'. repl_step victim fill update e s = Some s' \<and> ok s'"
proof (cases e)
  case (Victim si)
  with assms show ?thesis by (simp add: repl_step_def victim_ok)
next
  case (Hit cpu si way fa ip ty)
  with assms show ?thesis
    by (simp add: repl_step_def impl_update_replacement_state_def update_ok)
next
  case (Fill cpu si way fa ip va ty)
  with assms show ?thesis
    by (cases fill) (simp_all add: repl_step_def impl_replacement_cache_fill_def
      impl_update_replacement_state_def fill_ok)
qed

text \<open>No run within the bounds of the cache throws.\<close>

lemma run_ok:
  "ok s \<Longrightarrow> list_all (event_in_range cpus sets ways) es \<Longrightarrow>
    \<exists>s'. repl_run victim fill update es s = Some s' \<and> ok s'"
proof (induction es arbitrary: s)
  case (Cons e es)
  then obtain s' where "repl_step victim fill update e s = Some s'" "ok s'" using step_ok by fastforce
  with Cons show ?case by simp
qed simp

end

text \<open>Without a \<open>replacement_cache_fill\<close> of its own a module does not learn of fills.\<close>

lemma fill_without_cache_fill:
  "impl_replacement_cache_fill None update cpu si way fa ip va ty s = Some s"
  by (simp add: impl_replacement_cache_fill_def impl_update_replacement_state_def)

lemma flat_index: "way < ways \<Longrightarrow> si < sets \<Longrightarrow> si * ways + way < sets * ways" for si :: nat
proof -
  assume "way < ways" "si < sets"
  moreover from \<open>si < sets\<close> have "Suc si * ways \<le> sets * ways" by (intro mult_le_mono1) simp
  ultimately show ?thesis by simp
qed

section \<open>LRU\<close>

definition lru_ok :: "nat \<Rightarrow> nat \<Rightarrow> lru \<Rightarrow> bool" where
  "lru_ok sets ways s \<longleftrightarrow> 0 < ways \<and> lru_NUM_WAY s = ways \<and> lru_size s = sets * ways"

lemma lru_touch_ok:
  "lru_ok sets ways s \<Longrightarrow> si < sets \<Longrightarrow> way < ways \<Longrightarrow>
    \<exists>s'. lru_touch si way s = Some s' \<and> lru_ok sets ways s'"
  by (simp add: lru_touch_def Let_def lru_ok_def flat_index)

lemma lru_victim_range: "lru_ok sets ways s \<Longrightarrow> lru_find_victim si s < ways"
  using min_element_range [of "si * ways" "si * ways + ways"
      "\<lambda>i j. last_used_cycles s i < last_used_cycles s j"]
  by (simp add: lru_find_victim_def Let_def lru_ok_def less_diff_conv2)

interpretation lru_policy: replacement_policy "lru_ok sets ways" cpus sets ways
  "\<lambda>si s. (lru_find_victim si s, s)" "Some lru_cache_fill" lru_update_state
  by unfold_locales
    (auto simp: lru_victim_range lru_update_state_def lru_cache_fill_def lru_touch_ok)

text \<open>The stamps after a sequence of uses (set, way).\<close>

fun lru_touches :: "(nat \<times> nat) list \<Rightarrow> lru \<Rightarrow> lru option" where
  "lru_touches [] s = Some s"
| "lru_touches ((si, way) # us) s = Option.bind (lru_touch si way s) (lru_touches us)"

definition stamps_ok :: "nat \<Rightarrow> lru \<Rightarrow> bool" where
  "stamps_ok n s \<longleftrightarrow> (\<forall>i < lru_size s. last_used_cycles s i \<le> lru_cycle s) \<and> lru_cycle s + n < 2 ^ 64"

lemma lru_touch_stamp:
  assumes "lru_ok sets ways s" "stamps_ok (Suc n) s" "si < sets" "way < ways"
  obtains t where "lru_touch si way s = Some t" "lru_ok sets ways t" "stamps_ok n t"
    "lru_cycle t = Suc (lru_cycle s)"
    "\<And>i. last_used_cycles t i = (if i = si * ways + way then lru_cycle s else last_used_cycles s i)"
proof -
  from lru_touch_ok [OF assms(1,3,4)] obtain t where t: "lru_touch si way s = Some t" "lru_ok sets ways t"
    by blast
  have upd: "t = s\<lparr>last_used_cycles := (last_used_cycles s)(si * ways + way := lru_cycle s),
      lru_cycle := u64 (lru_cycle s + 1)\<rparr>"
    using t(1) assms(1) by (simp add: lru_touch_def Let_def lru_ok_def split: if_splits)
  show thesis
  proof (rule that [OF t])
    show "stamps_ok n t" "lru_cycle t = Suc (lru_cycle s)"
      using assms(2) by (auto simp: upd stamps_ok_def le_SucI)
  qed (auto simp: upd)
qed

text \<open>Position \<open>j\<close> was used strictly before position \<open>i\<close>.\<close>

lemma lru_touches_older:
  assumes "lru_ok sets ways s" "stamps_ok (length us) s" "list_all (\<lambda>(si, w). si < sets \<and> w < ways) us"
    and "si < sets" "w < ways" "w' < ways" "(si, w') \<notin> set us"
    and older: "last_used_cycles s (si * ways + w') < last_used_cycles s (si * ways + w)"
  shows "\<exists>t. lru_touches us s = Some t \<and> lru_ok sets ways t \<and>
    last_used_cycles t (si * ways + w') < last_used_cycles t (si * ways + w)"
  using assms
proof (induction us arbitrary: s)
  case (Cons u us)
  obtain sj v where u: "u = (sj, v)" "sj < sets" "v < ways" using Cons.prems(3) by auto
  obtain t where t: "lru_touch sj v s = Some t" "lru_ok sets ways t" "stamps_ok (length us) t"
    "\<And>i. last_used_cycles t i = (if i = sj * ways + v then lru_cycle s else last_used_cycles s i)"
    using lru_touch_stamp [OF Cons.prems(1) Cons.prems(2) [unfolded list.size add_Suc_right add_0_right] u(2,3)]
    by blast
  have pos: "si * ways + w' \<noteq> sj * ways + v"
  proof
    assume "si * ways + w' = sj * ways + v"
    moreover have "(si * ways + w') div ways = si" "(sj * ways + v) div ways = sj"
      using Cons.prems(6) u(3) by simp_all
    ultimately have "si = sj \<and> w' = v" by auto
    then show False using Cons.prems(7) u(1) by simp
  qed
  have "si * ways + w < lru_size s"
    using Cons.prems(1,4,5) by (simp add: lru_ok_def flat_index)
  then have "last_used_cycles s (si * ways + w) \<le> lru_cycle s"
    using Cons.prems(2) by (simp add: stamps_ok_def)
  then have "last_used_cycles t (si * ways + w') < last_used_cycles t (si * ways + w)"
    using pos Cons.prems(8) by (auto simp: t(4))
  with Cons.IH [OF t(2,3)] Cons.prems(3-7) t(1) u show ?case by simp
qed simp

text \<open>
  LRU evicts in the order of the last uses: once a way of a set has been used, it is not chosen
  as the victim of that set as long as some other way has not been used since.
\<close>

theorem lru_victim_order:
  assumes "lru_ok sets ways s" "stamps_ok (Suc (length us)) s"
    and "list_all (\<lambda>(si, w). si < sets \<and> w < ways) us"
    and "si < sets" "w < ways" "w' < ways" "w' \<noteq> w" "(si, w') \<notin> set us"
    and "last_used_cycles s (si * ways + w') < lru_cycle s"
  shows "\<exists>t. lru_touches ((si, w) # us) s = Some t \<and> lru_find_victim si t \<noteq> w"
proof -
  obtain t where t: "lru_touch si w s = Some t" "lru_ok sets ways t" "stamps_ok (length us) t"
    "\<And>i. last_used_cycles t i = (if i = si * ways + w then lru_cycle s else last_used_cycles s i)"
    using lru_touch_stamp [OF assms(1,2,4,5)] by auto
  have "last_used_cycles t (si * ways + w') < last_used_cycles t (si * ways + w)"
    using assms(7,9) by (simp add: t(4))
  from lru_touches_older [OF t(2,3) assms(3,4,5,6,8) this]
  obtain r where r: "lru_touches us t = Some r" "lru_ok sets ways r"
    "last_used_cycles r (si * ways + w') < last_used_cycles r (si * ways + w)" by blast
  have "lru_find_victim si r \<noteq> w"
  proof
    assume v: "lru_find_victim si r = w"
    let ?m = "min_element (\<lambda>i j. last_used_cycles r i < last_used_cycles r j) (si * ways) (si * ways + ways)"
    have "si * ways \<le> ?m" using assms(5) by (intro min_element_range) simp
    then have "?m = si * ways + w"
      using v r(2) by (simp add: lru_find_victim_def Let_def lru_ok_def)
    moreover have "last_used_cycles r ?m \<le> last_used_cycles r (si * ways + w')"
      using assms(6) by (intro min_element_least [where f = "last_used_cycles r"]) auto
    ultimately show False using r(3) by simp
  qed
  with t(1) r(1) show ?thesis by simp
qed

theorem lru_victim_order_witness:
  "\<exists>t. lru_touches [(0, 1), (0, 0), (0, 0)] (lru_init 1 3 \<lparr>lru_cycle := 1\<rparr>) = Some t \<and>
    lru_find_victim 0 t \<noteq> 1"
  by (rule lru_victim_order [where sets = 1 and ways = 3 and w' = 2])
    (simp_all add: lru_ok_def lru_init_def stamps_ok_def)

section \<open>Re-reference values\<close>

definition rrpvs_ok :: "nat \<Rightarrow> int array \<Rightarrow> bool" where
  "rrpvs_ok n v \<longleftrightarrow> (\<forall>i < n. 0 \<le> v i \<and> v i \<le> maxRRPV)"

lemma rrpvs_upd: "rrpvs_ok n v \<Longrightarrow> 0 \<le> x \<Longrightarrow> x \<le> maxRRPV \<Longrightarrow> rrpvs_ok n (v(i := x))"
  by (simp add: rrpvs_ok_def)

lemma rrpv_victim_greatest:
  assumes "0 < n" shows "rrpv_victim n v < n" "i < n \<Longrightarrow> v i \<le> v (rrpv_victim n v)"
  using assms max_element_range [of 0 n] max_element_greatest [of "\<lambda>i j. v i < v j" v 0 i n]
  by (simp_all add: rrpv_victim_def)

lemma rrpv_age_ok: "0 < n \<Longrightarrow> rrpvs_ok n v \<Longrightarrow> rrpvs_ok n (rrpv_age n v)"
  using rrpv_victim_greatest [where n = n and v = v]
  by (fastforce simp: rrpvs_ok_def rrpv_age_def Let_def)

definition srrip_ok :: "nat \<Rightarrow> nat \<Rightarrow> srrip \<Rightarrow> bool" where
  "srrip_ok sets ways s \<longleftrightarrow> 0 < ways \<and> srrip_sets s = sets \<and> srrip_ways s = ways \<and>
     (\<forall>si < sets. rrpvs_ok ways (rrpv_values s si))"

lemma srrip_victim_ok:
  "srrip_ok sets ways s \<Longrightarrow> si < sets \<Longrightarrow>
    \<exists>w t. srrip_find_victim si s = Some (w, t) \<and> w < ways \<and> srrip_ok sets ways t"
  by (auto simp: srrip_find_victim_def srrip_ok_def rrpv_victim_greatest rrpv_age_ok)

lemma srrip_update_ok:
  "srrip_ok sets ways s \<Longrightarrow> si < sets \<Longrightarrow> way < ways \<Longrightarrow>
    \<exists>t. srrip_update_state cpu si way fa ip va ty h s = Some t \<and> srrip_ok sets ways t"
  by (auto simp: srrip_update_state_def srrip_ok_def maxRRPV_def rrpvs_ok_def)

interpretation srrip_policy: replacement_policy "srrip_ok sets ways" cpus sets ways
  "\<lambda>si s. the (srrip_find_victim si s)" None srrip_update_state
  by unfold_locales (use srrip_victim_ok srrip_update_ok in fastforce)+

text \<open>
  The SRRIP victim is a way whose re-reference value is the greatest of its set; ageing brings
  that value to the maximum, raises all others by the same amount and so keeps their order and bounds.
\<close>

theorem srrip_victim_is_oldest:
  assumes "srrip_ok sets ways s" "si < sets" "i < ways" "j < ways"
  shows "\<exists>w t. srrip_find_victim si s = Some (w, t) \<and> w < ways \<and>
    rrpv_values s si i \<le> rrpv_values s si w \<and> rrpv_values t si w = maxRRPV \<and>
    rrpv_values t si i \<le> maxRRPV \<and>
    rrpv_values t si i - rrpv_values t si j = rrpv_values s si i - rrpv_values s si j"
proof -
  let ?v = "rrpv_values s si" and ?w = "rrpv_victim ways (rrpv_values s si)"
  have "0 < ways" using assms(1) by (simp add: srrip_ok_def)
  note g = rrpv_victim_greatest [OF this, where v = ?v]
  have "?v i \<le> ?v ?w" using g(2) assms(3) by blast
  then show ?thesis
    using assms g(1) by (simp add: srrip_find_victim_def srrip_ok_def rrpv_age_def Let_def)
qed

theorem srrip_victim_is_oldest_witness:
  "\<exists>w t. srrip_find_victim 0 (srrip_init 1 2) = Some (w, t) \<and> w < 2 \<and>
    rrpv_values (srrip_init 1 2) 0 0 \<le> rrpv_values (srrip_init 1 2) 0 w \<and> rrpv_values t 0 w = maxRRPV \<and>
    rrpv_values t 0 0 \<le> maxRRPV \<and>
    rrpv_values t 0 0 - rrpv_values t 0 1 = rrpv_values (srrip_init 1 2) 0 0 - rrpv_values (srrip_init 1 2) 0 1"
  by (rule srrip_victim_is_oldest [where sets = 1])
    (simp_all add: srrip_ok_def srrip_init_def rrpvs_ok_def maxRRPV_def)

text \<open>
  C29. A cache never tells SRRIP about a fill.  The dispatch turns a fill of a module without
  \<open>replacement_cache_fill\<close> into an update with \<open>hit = false\<close>, and then drops that update because
  the module has no \<open>replacement_cache_fill\<close>: the block just filled keeps the victim's value 3,
  while the policy itself would give it the value 2.
\<close>

theorem srrip_fill_is_lost:
  assumes "srrip_ok sets ways s" "si < sets" "srrip_find_victim si s = Some (w, t)"
  shows "impl_replacement_cache_fill None srrip_update_state cpu si w fa ip va ty t = Some t \<and>
    rrpv_values t si w = 3 \<and>
    (\<exists>r. srrip_update_state cpu si w fa ip va ty False t = Some r \<and> rrpv_values r si w = 2)"
proof -
  have "0 < ways" using assms(1) by (simp add: srrip_ok_def)
  note g = rrpv_victim_greatest [OF this, where v = "rrpv_values s si"]
  have "w < ways" "rrpv_values t si w = 3" "srrip_sets t = sets" "srrip_ways t = ways"
    using assms g by (auto simp: srrip_find_victim_def srrip_ok_def rrpv_age_def Let_def maxRRPV_def)
  with assms(2) show ?thesis
    by (simp add: fill_without_cache_fill srrip_update_state_def maxRRPV_def)
qed

theorem srrip_fill_is_lost_witness:
  "\<exists>t. srrip_find_victim 0 (srrip_init 1 2) = Some (0, t) \<and>
    impl_replacement_cache_fill None srrip_update_state 0 0 0 0 0 0 LOAD t = Some t"
proof -
  have ok: "srrip_ok 1 2 (srrip_init 1 2)"
    by (simp add: srrip_ok_def srrip_init_def rrpvs_ok_def maxRRPV_def)
  obtain w t where t: "srrip_find_victim 0 (srrip_init 1 2) = Some (w, t)"
    using srrip_victim_ok [OF ok] by auto
  moreover have "rrpv_victim 2 (\<lambda>_. maxRRPV) = 0"
    by (simp add: rrpv_victim_def max_element_def numeral_2_eq_2)
  then have "w = 0" using t by (simp add: srrip_find_victim_def srrip_init_def)
  ultimately show ?thesis using srrip_fill_is_lost [OF ok _ t, of 0 0 0 0 LOAD] by auto
qed

section \<open>Flattened tables: DRRIP and SHiP\<close>

lemma flat_victim_ok:
  assumes "0 < ways" "si < sets" "rrpvs_ok (sets * ways) v"
  shows "fst (flat_victim ways si v) < ways" "rrpvs_ok (sets * ways) (snd (flat_victim ways si v))"
proof -
  let ?b = "si * ways"
  let ?m = "max_element (\<lambda>i j. v i < v j) ?b (?b + ways)"
  have m: "?b \<le> ?m" "?m < ?b + ways" using assms(1) max_element_range by simp_all
  show "fst (flat_victim ways si v) < ways"
    using m by (simp add: flat_victim_def Let_def less_diff_conv2)
  have "?b + ways \<le> sets * ways" using assms(1,2) flat_index [of "ways - 1" ways si sets] by simp
  moreover have "v i \<le> v ?m" if "?b \<le> i" "i < ?b + ways" for i
    using that by (intro max_element_greatest [where f = v]) auto
  ultimately show "rrpvs_ok (sets * ways) (snd (flat_victim ways si v))"
    using assms(3) m by (fastforce simp: flat_victim_def Let_def rrpvs_ok_def)
qed

definition drrip_ok :: "nat \<Rightarrow> nat \<Rightarrow> drrip \<Rightarrow> bool" where
  "drrip_ok sets ways s \<longleftrightarrow> 0 < ways \<and> dr_NUM_SET s = sets \<and> dr_NUM_WAY s = ways \<and>
     rrpvs_ok (sets * ways) (dr_rrpv s)"

lemma dr_set_rrpv_ok:
  "drrip_ok sets ways s \<Longrightarrow> si < sets \<Longrightarrow> way < ways \<Longrightarrow> 0 \<le> x \<Longrightarrow> x \<le> maxRRPV \<Longrightarrow>
    \<exists>t. dr_set_rrpv si way x s = Some t \<and> drrip_ok sets ways t"
  by (simp add: dr_set_rrpv_def Let_def drrip_ok_def flat_index rrpvs_upd)

lemma drrip_ok_upd [simp]:
  "drrip_ok sets ways (s\<lparr>bip_counter := b\<rparr>) = drrip_ok sets ways s"
  "drrip_ok sets ways (s\<lparr>PSEL := p\<rparr>) = drrip_ok sets ways s"
  by (simp_all add: drrip_ok_def)

lemma drrip_bip_ok:
  assumes "drrip_ok sets ways s" "si < sets" "way < ways"
  shows "\<exists>t. drrip_update_bip si way s = Some t \<and> drrip_ok sets ways t"
proof -
  obtain t where t: "dr_set_rrpv si way maxRRPV s = Some t" "drrip_ok sets ways t"
    using dr_set_rrpv_ok [OF assms, of maxRRPV] by (auto simp: maxRRPV_def)
  have "\<exists>r. dr_set_rrpv si way (maxRRPV - 1) (t\<lparr>bip_counter := 0\<rparr>) = Some r \<and> drrip_ok sets ways r"
    using t(2) assms by (intro dr_set_rrpv_ok) (simp_all add: maxRRPV_def)
  with t show ?thesis by (auto simp: drrip_update_bip_def Let_def)
qed

lemma drrip_update_ok:
  assumes "drrip_ok sets ways s" "si < sets" "way < ways"
  shows "\<exists>t. drrip_update_state cpu si way fa ip va ty h s = Some t \<and> drrip_ok sets ways t"
proof -
  have rrpv: "\<exists>t. dr_set_rrpv si way x r = Some t \<and> drrip_ok sets ways t"
    if "drrip_ok sets ways r" "x \<in> {0, maxRRPV - 1}" for r x
    using that assms by (intro dr_set_rrpv_ok) (auto simp: maxRRPV_def)
  show ?thesis
    using assms rrpv
    by (auto simp: drrip_update_state_def drrip_update_srrip_def drrip_bip_ok split: option.split)
qed

lemma drrip_victim_ok:
  "drrip_ok sets ways s \<Longrightarrow> si < sets \<Longrightarrow>
    fst (drrip_find_victim si s) < ways \<and> drrip_ok sets ways (snd (drrip_find_victim si s))"
  using flat_victim_ok by (auto simp: drrip_find_victim_def drrip_ok_def case_prod_beta)

interpretation drrip_policy: replacement_policy "drrip_ok sets ways" cpus sets ways
  drrip_find_victim None drrip_update_state
  by unfold_locales (auto simp: drrip_victim_ok drrip_update_ok)

definition ship_ok :: "nat \<Rightarrow> nat \<Rightarrow> ship \<Rightarrow> bool" where
  "ship_ok sets ways s \<longleftrightarrow> 0 < ways \<and> sh_NUM_SET s = sets \<and> sh_NUM_WAY s = ways \<and>
     rrpvs_ok (sets * ways) (sh_rrpv s)"

lemma sh_set_rrpv_ok:
  "ship_ok sets ways s \<Longrightarrow> si < sets \<Longrightarrow> way < ways \<Longrightarrow> 0 \<le> x \<Longrightarrow> x \<le> maxRRPV \<Longrightarrow>
    \<exists>t. sh_set_rrpv si way x s = Some t \<and> ship_ok sets ways t"
  by (simp add: sh_set_rrpv_def Let_def ship_ok_def flat_index rrpvs_upd)

lemma ship_sampler_ok: "ship_ok sets ways (ship_update_sampler cpu si fa ip s) = ship_ok sets ways s"
  by (simp add: ship_update_sampler_def ship_ok_def bump_SHCT_def Let_def split: option.split)

lemma ship_update_ok:
  assumes "ship_ok sets ways s" "si < sets" "way < ways"
  shows "\<exists>t. ship_update_state cpu si way fa ip va ty h s = Some t \<and> ship_ok sets ways t"
proof -
  have rrpv: "\<exists>t. sh_set_rrpv si way x r = Some t \<and> ship_ok sets ways t"
    if "ship_ok sets ways r" "x \<in> {0, maxRRPV - 1, maxRRPV}" for r x
    using that assms by (intro sh_set_rrpv_ok) (auto simp: maxRRPV_def)
  have sampled: "ship_ok sets ways (ship_update_sampler cpu si fa ip s)" using assms by (simp add: ship_sampler_ok)
  obtain t where t: "sh_set_rrpv si way (maxRRPV - 1) (ship_update_sampler cpu si fa ip s) = Some t"
    "ship_ok sets ways t" using rrpv [OF sampled, of "maxRRPV - 1"] by auto
  show ?thesis
    using assms rrpv [OF sampled] rrpv [OF assms(1)] rrpv [OF t(2)] t
    by (auto simp: ship_update_state_def Let_def)
qed

lemma ship_victim_ok:
  "ship_ok sets ways s \<Longrightarrow> si < sets \<Longrightarrow>
    fst (ship_find_victim si s) < ways \<and> ship_ok sets ways (snd (ship_find_victim si s))"
  using flat_victim_ok by (auto simp: ship_find_victim_def ship_ok_def case_prod_beta)

interpretation ship_policy: replacement_policy "ship_ok sets ways" cpus sets ways
  ship_find_victim None ship_update_state
  by unfold_locales (auto simp: ship_victim_ok ship_update_ok)

text \<open>
  C28. No policy throws and every victim is a way of its set: for each of the four policies, any
  sequence of victim searches, hits and fills with sets and ways of the cache runs to the end and
  leaves a state whose next victim is in range.
\<close>

theorem replacement_runs_safely:
  assumes "0 < ways" "list_all (event_in_range cpus sets ways) es" "si < sets"
  shows "(\<exists>s. repl_run (\<lambda>si s. (lru_find_victim si s, s)) (Some lru_cache_fill) lru_update_state es
            (lru_init sets ways) = Some s \<and> lru_find_victim si s < ways) \<and>
    (\<exists>s. repl_run (\<lambda>si s. the (srrip_find_victim si s)) None srrip_update_state es
            (srrip_init sets ways) = Some s \<and> fst (the (srrip_find_victim si s)) < ways) \<and>
    (\<exists>s. repl_run drrip_find_victim None drrip_update_state es
            (drrip_init sets ways rand bip) = Some s \<and> fst (drrip_find_victim si s) < ways) \<and>
    (\<exists>s. repl_run ship_find_victim None ship_update_state es
            (ship_init sets ways rand) = Some s \<and> fst (ship_find_victim si s) < ways)"
proof (intro conjI)
  have "lru_ok sets ways (lru_init sets ways)" using assms(1) by (simp add: lru_ok_def lru_init_def)
  from lru_policy.run_ok [OF this assms(2)]
  show "\<exists>s. repl_run (\<lambda>si s. (lru_find_victim si s, s)) (Some lru_cache_fill) lru_update_state es
      (lru_init sets ways) = Some s \<and> lru_find_victim si s < ways"
    using lru_victim_range by blast
  have "srrip_ok sets ways (srrip_init sets ways)"
    using assms(1) by (simp add: srrip_ok_def srrip_init_def rrpvs_ok_def maxRRPV_def)
  from srrip_policy.run_ok [OF this assms(2)]
  show "\<exists>s. repl_run (\<lambda>si s. the (srrip_find_victim si s)) None srrip_update_state es
      (srrip_init sets ways) = Some s \<and> fst (the (srrip_find_victim si s)) < ways"
    using srrip_policy.victim_range [OF _ assms(3)] by blast
  have "drrip_ok sets ways (drrip_init sets ways rand bip)"
    using assms(1) by (simp add: drrip_ok_def drrip_init_def rrpvs_ok_def maxRRPV_def)
  from drrip_policy.run_ok [OF this assms(2)]
  show "\<exists>s. repl_run drrip_find_victim None drrip_update_state es
      (drrip_init sets ways rand bip) = Some s \<and> fst (drrip_find_victim si s) < ways"
    using drrip_policy.victim_range [OF _ assms(3)] by blast
  have "ship_ok sets ways (ship_init sets ways rand)"
    using assms(1) by (simp add: ship_ok_def ship_init_def rrpvs_ok_def maxRRPV_def)
  from ship_policy.run_ok [OF this assms(2)]
  show "\<exists>s. repl_run ship_find_victim None ship_update_state es
      (ship_init sets ways rand) = Some s \<and> fst (ship_find_victim si s) < ways"
    using ship_policy.victim_range [OF _ assms(3)] by blast
qed

theorem replacement_runs_safely_witness:
  "\<exists>s. repl_run ship_find_victim None ship_update_state
       [Victim 0, Hit 0 0 1 64 4 LOAD, Fill 0 0 0 128 8 0 WRITE] (ship_init 1 2 [0]) = Some s \<and>
     fst (ship_find_victim 0 s) < 2"
  using replacement_runs_safely
    [of 2 1 1 "[Victim 0, Hit 0 0 1 64 4 LOAD, Fill 0 0 0 128 8 0 WRITE]" 0 "[0]" 0] by simp

section \<open>The sampled sets of DRRIP\<close>

lemma shuffle_length [simp]: "length (shuffle_outputs n V y x) = n"
  by (induction n arbitrary: V y x) (simp_all add: Let_def)

lemma sampled_sets_large:
  assumes "k < 64" shows "16807 \<le> sort (map nat (knuth_b 1 64)) ! k"
proof -
  let ?l = "sort (map nat (knuth_b 1 64))"
  have "length ?l = 64" by (simp add: knuth_b_def Let_def)
  then have "?l ! k \<in> set ?l" using assms by (intro nth_mem) simp
  then show ?thesis using knuth_b_bound by (auto simp: list_all_iff)
qed

text \<open>
  With one core no set of a cache of up to 16807 sets is a leader set: the numbers drawn for the
  leader sets are used as set indices without being reduced to the number of sets, and the smallest
  of them is 16807.  A miss then never changes the selector, so DRRIP never duels.
\<close>

theorem drrip_never_duels:
  assumes "dr_rand_sets s = dr_rand_sets (drrip_init sets ways (map nat (knuth_b 1 64)) bip)"
    and "si < 16807" "drrip_update_state 0 si way fa ip va ty h s = Some t"
  shows "drrip_leader 0 si s = None \<and> PSEL t = PSEL s"
proof -
  have none: "drrip_leader 0 si s = None"
    using sampled_sets_large assms(1,2)
    by (fastforce simp: drrip_leader_def find_if_None drrip_init_def NUM_POLICY_def SDM_SIZE_def Let_def)
  have rrpv: "PSEL r = PSEL u" if "dr_set_rrpv si way x u = Some r" for x u r
    using that by (auto simp: dr_set_rrpv_def Let_def split: if_splits)
  have bip: "PSEL r = PSEL u" if "drrip_update_bip si way u = Some r" for u r
    using that by (auto simp: drrip_update_bip_def Let_def bind_eq_Some_conv dest!: rrpv split: if_splits)
  show ?thesis
    using assms(3) none rrpv bip
    by (auto simp: drrip_update_state_def drrip_update_srrip_def split: if_splits)
qed

theorem drrip_never_duels_witness:
  "drrip_leader 0 5 (drrip_init 1024 2 (map nat (knuth_b 1 64)) 0) = None"
proof -
  let ?s = "drrip_init 1024 2 (map nat (knuth_b 1 64)) 0"
  have "drrip_ok 1024 2 ?s" by (simp add: drrip_ok_def drrip_init_def rrpvs_ok_def maxRRPV_def)
  from drrip_update_ok [OF this, of 5 1 0 0 0 0 LOAD False]
  obtain t where "drrip_update_state 0 5 1 0 0 0 LOAD False ?s = Some t" by auto
  from drrip_never_duels [OF refl _ this] show ?thesis by simp
qed

end
