(* ===== verification/Register_Allocator.thy ===== *)
theory Register_Allocator
  imports Prelude "HOL-Library.Multiset"
begin

text \<open>The register renamer, \<open>src/register_allocator.cc\<close>: the frontend and backend alias tables, the
  queue of free physical registers and the physical register file.  Identifiers of physical registers
  are \<open>int16_t\<close> with \<open>-1\<close> for no register.  An access that the code leaves undefined (an alias
  table indexed outside its \<open>256\<close> entries, the front of an empty queue), a failed assertion and a
  throwing \<open>at\<close> are all the value \<open>None\<close>.\<close>

section \<open>State\<close>

record physical_register =
  arch_reg_index :: int
  producing_instruction_id :: nat
  pr_valid :: bool
  pr_busy :: bool

record RegisterAllocator =
  frontend_RAT :: "int list"
  backend_RAT :: "int list"
  free_registers :: "int list"
  physical_register_file :: "physical_register list"

definition NUM_ARCH_REGS :: nat where "NUM_ARCH_REGS = 256"

definition empty_register :: "int \<Rightarrow> physical_register" where
  "empty_register a = \<lparr>arch_reg_index = a, producing_instruction_id = 0, pr_valid = False, pr_busy = False\<rparr>"

definition new_RegisterAllocator :: "nat \<Rightarrow> RegisterAllocator option" where
  "new_RegisterAllocator n = (if n \<le> 32767
     then Some \<lparr>frontend_RAT = replicate NUM_ARCH_REGS (- 1), backend_RAT = replicate NUM_ARCH_REGS (- 1),
       free_registers = map int [0..<n], physical_register_file = replicate n (empty_register 0)\<rparr>
     else None)"

text \<open>A bounded read of a table: \<open>None\<close> outside it.\<close>

definition at_index :: "'a list \<Rightarrow> int \<Rightarrow> 'a option" where
  "at_index xs i = (if 0 \<le> i \<and> nat i < length xs then Some (xs ! nat i) else None)"

definition set_at :: "'a list \<Rightarrow> int \<Rightarrow> 'a \<Rightarrow> 'a list option" where
  "set_at xs i y = (if 0 \<le> i \<and> nat i < length xs then Some (xs[nat i := y]) else None)"

section \<open>Operations\<close>

definition rename_dest_register :: "int \<Rightarrow> nat \<Rightarrow> RegisterAllocator \<Rightarrow> (int \<times> RegisterAllocator) option" where
  "rename_dest_register reg producer_id r = (case free_registers r of
     [] \<Rightarrow> None
   | phys # rest \<Rightarrow>
       (case (set_at (frontend_RAT r) reg phys, set_at (physical_register_file r) phys
          \<lparr>arch_reg_index = reg, producing_instruction_id = producer_id, pr_valid = False, pr_busy = True\<rparr>) of
          (Some rat, Some prf) \<Rightarrow> Some (phys, r\<lparr>free_registers := rest, frontend_RAT := rat, physical_register_file := prf\<rparr>)
        | _ \<Rightarrow> None))"

definition rename_src_register :: "int \<Rightarrow> RegisterAllocator \<Rightarrow> (int \<times> RegisterAllocator) option" where
  "rename_src_register reg r = (case at_index (frontend_RAT r) reg of
     None \<Rightarrow> None
   | Some phys \<Rightarrow>
       if phys < 0 then
         (case free_registers r of
            [] \<Rightarrow> None
          | phys # rest \<Rightarrow>
              (case (set_at (frontend_RAT r) reg phys, set_at (backend_RAT r) reg phys,
                 set_at (physical_register_file r) phys
                   \<lparr>arch_reg_index = reg, producing_instruction_id = 0, pr_valid = True, pr_busy = True\<rparr>) of
                 (Some frat, Some brat, Some prf) \<Rightarrow> Some (phys, r\<lparr>free_registers := rest, frontend_RAT := frat,
                    backend_RAT := brat, physical_register_file := prf\<rparr>)
               | _ \<Rightarrow> None))
       else Some (phys, r))"

definition complete_dest_register :: "int \<Rightarrow> RegisterAllocator \<Rightarrow> RegisterAllocator option" where
  "complete_dest_register physreg r = (case at_index (physical_register_file r) physreg of
     None \<Rightarrow> None
   | Some e \<Rightarrow> Some (r\<lparr>physical_register_file := (physical_register_file r)[nat physreg := e\<lparr>pr_valid := True\<rparr>]\<rparr>))"

definition free_register :: "int \<Rightarrow> RegisterAllocator \<Rightarrow> RegisterAllocator option" where
  "free_register physreg r = (case set_at (physical_register_file r) physreg (empty_register 255) of
     None \<Rightarrow> None
   | Some prf \<Rightarrow> Some (r\<lparr>physical_register_file := prf, free_registers := free_registers r @ [physreg]\<rparr>))"

definition retire_dest_register :: "int \<Rightarrow> RegisterAllocator \<Rightarrow> RegisterAllocator option" where
  "retire_dest_register physreg r = (case at_index (physical_register_file r) physreg of
     None \<Rightarrow> None
   | Some e \<Rightarrow>
       (case (at_index (backend_RAT r) (arch_reg_index e), set_at (backend_RAT r) (arch_reg_index e) physreg) of
          (Some old_phys_reg, Some brat) \<Rightarrow>
            (let r = r\<lparr>backend_RAT := brat\<rparr>
             in if old_phys_reg \<noteq> - 1 then free_register old_phys_reg r else Some r)
        | _ \<Rightarrow> None))"

definition isValid :: "int \<Rightarrow> RegisterAllocator \<Rightarrow> bool option" where
  "isValid physreg r = map_option pr_valid (at_index (physical_register_file r) physreg)"

definition isAllocated :: "int \<Rightarrow> RegisterAllocator \<Rightarrow> bool option" where
  "isAllocated archreg r = map_option (\<lambda>p. p \<noteq> - 1) (at_index (frontend_RAT r) archreg)"

definition count_free_registers :: "RegisterAllocator \<Rightarrow> nat" where
  "count_free_registers r = length (free_registers r)"

primrec count_reg_dependencies :: "int list \<Rightarrow> RegisterAllocator \<Rightarrow> nat option" where
  "count_reg_dependencies [] r = Some 0"
| "count_reg_dependencies (reg # regs) r = (case isValid reg r of
     None \<Rightarrow> None
   | Some v \<Rightarrow> map_option (\<lambda>n. (if v then 0 else 1) + n) (count_reg_dependencies regs r))"

definition reset_frontend_RAT :: "RegisterAllocator \<Rightarrow> RegisterAllocator" where
  "reset_frontend_RAT r = r\<lparr>frontend_RAT := backend_RAT r\<rparr>"

section \<open>Runs of the core\<close>

text \<open>The core renames in program order and retires in program order (\<open>do_scheduling\<close> and
  \<open>retire_rob\<close>), so the destinations in flight form a queue, oldest first; \<open>Retire\<close> takes its head.\<close>

datatype ra_op = Src int | Dest int nat | Complete int | Retire

fun ra_step :: "ra_op \<Rightarrow> int list \<times> RegisterAllocator \<Rightarrow> (int list \<times> RegisterAllocator) option" where
  "ra_step (Src reg) (w, r) = map_option (\<lambda>(p, r'). (w, r')) (rename_src_register reg r)"
| "ra_step (Dest reg i) (w, r) = map_option (\<lambda>(p, r'). (w @ [p], r')) (rename_dest_register reg i r)"
| "ra_step (Complete p) (w, r) = (if p \<in> set w then map_option (Pair w) (complete_dest_register p r) else Some (w, r))"
| "ra_step Retire (w, r) = (case w of [] \<Rightarrow> Some (w, r) | p # ws \<Rightarrow> map_option (Pair ws) (retire_dest_register p r))"

primrec ra_run :: "ra_op list \<Rightarrow> int list \<times> RegisterAllocator \<Rightarrow> (int list \<times> RegisterAllocator) option" where
  "ra_run [] s = Some s"
| "ra_run (x # xs) s = Option.bind (ra_step x s) (ra_run xs)"

definition mapped :: "int list \<Rightarrow> int list" where
  "mapped rat = filter (\<lambda>p. p \<noteq> - 1) rat"

definition arch_of :: "RegisterAllocator \<Rightarrow> int \<Rightarrow> int" where
  "arch_of r p = arch_reg_index (physical_register_file r ! nat p)"

text \<open>The register a source must read: the youngest destination in flight, else the committed one.\<close>

definition youngest :: "int list \<Rightarrow> RegisterAllocator \<Rightarrow> nat \<Rightarrow> int" where
  "youngest w r a = (let l = filter (\<lambda>p. arch_of r p = int a) w in if l = [] then backend_RAT r ! a else last l)"

definition ra_ok :: "nat \<Rightarrow> int list \<times> RegisterAllocator \<Rightarrow> bool" where
  "ra_ok n s = (case s of (w, r) \<Rightarrow>
     length (frontend_RAT r) = NUM_ARCH_REGS \<and> length (backend_RAT r) = NUM_ARCH_REGS
     \<and> length (physical_register_file r) = n
     \<and> mset (free_registers r @ w @ mapped (backend_RAT r)) = mset (map int [0..<n])
     \<and> (\<forall>p\<in>set w. 0 \<le> arch_of r p \<and> arch_of r p < int NUM_ARCH_REGS)
     \<and> (\<forall>a<NUM_ARCH_REGS. frontend_RAT r ! a = youngest w r a))"

lemma ra_parts:
  assumes "ra_ok n (w, r)"
  shows "length (frontend_RAT r) = NUM_ARCH_REGS" and "length (backend_RAT r) = NUM_ARCH_REGS"
    and "length (physical_register_file r) = n"
    and "mset (free_registers r @ w @ mapped (backend_RAT r)) = mset (map int [0..<n])"
    and "\<And>p. p \<in> set w \<Longrightarrow> 0 \<le> arch_of r p \<and> arch_of r p < int NUM_ARCH_REGS"
    and "\<And>a. a < NUM_ARCH_REGS \<Longrightarrow> frontend_RAT r ! a = youngest w r a"
  using assms by (simp_all add: ra_ok_def)

lemma ra_partition:
  assumes "ra_ok n (w, r)"
  shows "distinct (free_registers r @ w @ mapped (backend_RAT r))"
    and "set (free_registers r @ w @ mapped (backend_RAT r)) = int ` {0..<n}"
proof -
  have eq: "mset (free_registers r @ w @ mapped (backend_RAT r)) = mset (map int [0..<n])"
    using ra_parts(4)[OF assms] .
  show "distinct (free_registers r @ w @ mapped (backend_RAT r))"
    using mset_eq_imp_distinct_iff[OF eq] by (simp add: distinct_map)
  show "set (free_registers r @ w @ mapped (backend_RAT r)) = int ` {0..<n}"
    using mset_eq_setD[OF eq] by simp
qed

lemma ra_in_range:
  assumes "ra_ok n (w, r)" and "p \<in> set (free_registers r) \<or> p \<in> set w \<or> (p \<in> set (backend_RAT r) \<and> p \<noteq> - 1)"
  shows "0 \<le> p" and "nat p < n"
proof -
  have "p \<in> set (free_registers r @ w @ mapped (backend_RAT r))"
    using assms(2) by (auto simp: mapped_def)
  then have "p \<in> int ` {0..<n}" by (simp only: ra_partition(2)[OF assms(1)])
  then show "0 \<le> p" and "nat p < n" by auto
qed

lemma mapped_update:
  assumes "a < length rat"
  shows "mset (mapped (rat[a := y])) + (if rat ! a \<noteq> - 1 then {#rat ! a#} else {#})
    = mset (mapped rat) + (if y \<noteq> - 1 then {#y#} else {#})"
proof -
  define M where "M = mset rat - {#rat ! a#}"
  have m: "mset rat = add_mset (rat ! a) M" using assms by (simp add: M_def)
  have u: "mset (rat[a := y]) = add_mset y M" using assms by (simp add: mset_update M_def)
  show ?thesis by (simp add: mapped_def m u)
qed

lemma youngest_cong:
  assumes "\<And>q. q \<in> set w \<Longrightarrow> arch_of r' q = arch_of r q" and "backend_RAT r' ! a = backend_RAT r ! a"
  shows "youngest w r' a = youngest w r a"
proof -
  have "filter (\<lambda>p. arch_of r' p = int a) w = filter (\<lambda>p. arch_of r p = int a) w"
    using assms(1) by (intro filter_cong) simp_all
  then show ?thesis using assms(2) by (simp add: youngest_def Let_def)
qed

lemma youngest_unmapped:
  assumes ok: "ra_ok n (w, r)" and y: "youngest w r a < 0"
  shows "filter (\<lambda>p. arch_of r p = int a) w = []" and "youngest w r a = backend_RAT r ! a"
proof -
  show f: "filter (\<lambda>p. arch_of r p = int a) w = []"
  proof (rule ccontr)
    assume ne: "filter (\<lambda>p. arch_of r p = int a) w \<noteq> []"
    have "last (filter (\<lambda>p. arch_of r p = int a) w) \<in> set w" using last_in_set[OF ne] by simp
    then have "0 \<le> youngest w r a" using ne ra_in_range(1)[OF ok] by (simp add: youngest_def)
    then show False using y by simp
  qed
  show "youngest w r a = backend_RAT r ! a" using f by (simp add: youngest_def)
qed

lemma rename_dest_ok:
  assumes ok: "ra_ok n (w, r)" and reg: "0 \<le> reg" "reg < int NUM_ARCH_REGS" and fr: "free_registers r = p # rest"
  shows "\<exists>r'. rename_dest_register reg i r = Some (p, r') \<and> ra_ok n (w @ [p], r') \<and> free_registers r' = rest
    \<and> backend_RAT r' = backend_RAT r"
proof -
  note pa = ra_parts[OF ok]
  have p: "0 \<le> p" "nat p < n" using ra_in_range[OF ok, of p] fr by simp_all
  have ra: "nat reg < NUM_ARCH_REGS" using reg by linarith
  define e where "e = \<lparr>arch_reg_index = reg, producing_instruction_id = i, pr_valid = False, pr_busy = True\<rparr>"
  define r' where "r' = r\<lparr>free_registers := rest, frontend_RAT := (frontend_RAT r)[nat reg := p],
    physical_register_file := (physical_register_file r)[nat p := e]\<rparr>"
  have eq: "rename_dest_register reg i r = Some (p, r')"
    using reg p ra pa(1,3) by (simp add: rename_dest_register_def fr set_at_def r'_def e_def)
  have w: "p \<notin> set w" using ra_partition(1)[OF ok] fr by auto
  have arch: "arch_of r' q = (if q = p then reg else arch_of r q)" if "0 \<le> q" for q
    using p pa(3) that by (auto simp: arch_of_def r'_def e_def nth_list_update eq_nat_nat_iff)
  have archw: "arch_of r' q = arch_of r q" if "q \<in> set w" for q
    using arch[of q] ra_in_range(1)[OF ok, of q] that w by auto
  have y: "frontend_RAT r' ! a = youngest (w @ [p]) r' a" if a: "a < NUM_ARCH_REGS" for a
  proof (cases "a = nat reg")
    case True
    then show ?thesis using arch[of p] p reg a pa(1) by (simp add: youngest_def r'_def)
  next
    case False
    then have na: "arch_of r' p \<noteq> int a" using arch[of p] p reg by auto
    have "youngest (w @ [p]) r' a = youngest w r' a" using na by (simp add: youngest_def)
    also have "\<dots> = youngest w r a" by (rule youngest_cong) (simp_all add: archw, simp add: r'_def)
    finally show ?thesis using False a pa(1,6) by (simp add: r'_def)
  qed
  have "mset (free_registers r' @ (w @ [p]) @ mapped (backend_RAT r')) = mset (map int [0..<n])"
    using pa(4) by (simp add: fr r'_def)
  moreover have "\<forall>q\<in>set (w @ [p]). 0 \<le> arch_of r' q \<and> arch_of r' q < int NUM_ARCH_REGS"
    using pa(5) archw arch[of p] p reg by auto
  ultimately have "ra_ok n (w @ [p], r')" using y pa(1-3) by (simp add: ra_ok_def) (simp add: r'_def)
  then show ?thesis using eq by (simp add: r'_def)
qed

lemma rename_src_mapped:
  assumes "ra_ok n (w, r)" and "0 \<le> reg" "reg < int NUM_ARCH_REGS" and "0 \<le> youngest w r (nat reg)"
  shows "rename_src_register reg r = Some (youngest w r (nat reg), r)"
proof -
  have "nat reg < NUM_ARCH_REGS" using assms(2,3) by linarith
  then show ?thesis
    using assms ra_parts(1,6)[OF assms(1)] by (simp add: rename_src_register_def at_index_def)
qed

lemma rename_src_unmapped:
  assumes ok: "ra_ok n (w, r)" and reg: "0 \<le> reg" "reg < int NUM_ARCH_REGS" and y: "youngest w r (nat reg) < 0"
    and fr: "free_registers r = p # rest"
  shows "\<exists>r'. rename_src_register reg r = Some (p, r') \<and> ra_ok n (w, r') \<and> isValid p r' = Some True
    \<and> youngest w r' (nat reg) = p"
proof -
  note pa = ra_parts[OF ok]
  have p: "0 \<le> p" "nat p < n" using ra_in_range[OF ok, of p] fr by simp_all
  have ra: "nat reg < NUM_ARCH_REGS" using reg by linarith
  define e where "e = \<lparr>arch_reg_index = reg, producing_instruction_id = 0, pr_valid = True, pr_busy = True\<rparr>"
  define r' where "r' = r\<lparr>free_registers := rest, frontend_RAT := (frontend_RAT r)[nat reg := p],
    backend_RAT := (backend_RAT r)[nat reg := p], physical_register_file := (physical_register_file r)[nat p := e]\<rparr>"
  have eq: "rename_src_register reg r = Some (p, r')"
    using reg p ra pa(1-3) pa(6)[OF ra] y by (simp add: rename_src_register_def at_index_def fr set_at_def r'_def e_def)
  have w: "p \<notin> set w" using ra_partition(1)[OF ok] fr by auto
  have archw: "arch_of r' q = arch_of r q" if "q \<in> set w" for q
    using p pa(3) ra_in_range(1)[OF ok, of q] that w
    by (auto simp: arch_of_def r'_def nth_list_update eq_nat_nat_iff)
  have unm: "backend_RAT r ! nat reg = - 1"
  proof (rule ccontr)
    assume ne: "backend_RAT r ! nat reg \<noteq> - 1"
    have "backend_RAT r ! nat reg \<in> set (backend_RAT r)" using ra pa(2) by simp
    then have "0 \<le> backend_RAT r ! nat reg" using ra_in_range(1)[OF ok] ne by blast
    then show False using youngest_unmapped(2)[OF ok y] y by simp
  qed
  have yr: "youngest w r' (nat reg) = p"
  proof -
    have "filter (\<lambda>q. arch_of r' q = int (nat reg)) w = []"
      using youngest_unmapped(1)[OF ok y] archw by (simp add: filter_empty_conv)
    then show ?thesis using ra pa(2) by (simp add: youngest_def r'_def)
  qed
  have fy: "frontend_RAT r' ! a = youngest w r' a" if a: "a < NUM_ARCH_REGS" for a
  proof (cases "a = nat reg")
    case True
    then show ?thesis using yr ra pa(1) by (simp add: r'_def)
  next
    case False
    have "youngest w r' a = youngest w r a" using False by (intro youngest_cong) (simp_all add: archw, simp add: r'_def)
    then show ?thesis using False a pa(6) by (simp add: r'_def)
  qed
  have "mset (mapped (backend_RAT r')) = add_mset p (mset (mapped (backend_RAT r)))"
    using mapped_update[of "nat reg" "backend_RAT r" p] ra pa(2) unm p by (simp add: r'_def)
  then have "mset (free_registers r' @ w @ mapped (backend_RAT r')) = mset (map int [0..<n])"
    using pa(4) by (simp add: fr r'_def)
  then have "ra_ok n (w, r')" using fy pa(1-3,5) archw by (simp add: ra_ok_def) (simp add: r'_def)
  moreover have "isValid p r' = Some True" using p pa(3) by (simp add: isValid_def at_index_def r'_def e_def)
  ultimately show ?thesis using eq yr by blast
qed

lemma complete_ok:
  assumes ok: "ra_ok n (w, r)" and p: "p \<in> set w"
  shows "\<exists>r'. complete_dest_register p r = Some r' \<and> ra_ok n (w, r') \<and> isValid p r' = Some True"
proof -
  note pa = ra_parts[OF ok]
  have pr: "0 \<le> p" "nat p < n" using ra_in_range[OF ok, of p] p by simp_all
  define r' where "r' = r\<lparr>physical_register_file :=
    (physical_register_file r)[nat p := (physical_register_file r ! nat p)\<lparr>pr_valid := True\<rparr>]\<rparr>"
  have eq: "complete_dest_register p r = Some r'"
    using pr pa(3) by (simp add: complete_dest_register_def at_index_def r'_def)
  have arch: "arch_of r' q = arch_of r q" for q
    using pr pa(3) by (cases "nat q = nat p") (simp_all add: arch_of_def r'_def nth_list_update)
  have "youngest w r' a = youngest w r a" for a by (rule youngest_cong) (simp_all add: arch, simp add: r'_def)
  then have "ra_ok n (w, r')" using pa by (simp add: ra_ok_def arch) (simp add: r'_def)
  moreover have "isValid p r' = Some True" using pr pa(3) by (simp add: isValid_def at_index_def r'_def)
  ultimately show ?thesis using eq by blast
qed

text \<open>Retiring the oldest destination commits it and recycles the register it replaces, if any.\<close>

lemma retire_ok:
  assumes ok: "ra_ok n (p # ws, r)"
  shows "\<exists>r'. retire_dest_register p r = Some r' \<and> ra_ok n (ws, r')
    \<and> free_registers r' = free_registers r @ (let old = backend_RAT r ! nat (arch_of r p) in if old \<noteq> - 1 then [old] else [])"
proof -
  note pa = ra_parts[OF ok]
  define a where "a = nat (arch_of r p)"
  define old where "old = backend_RAT r ! a"
  have pr: "0 \<le> p" "nat p < n" using ra_in_range[OF ok, of p] by simp_all
  have ar: "0 \<le> arch_of r p" "a < NUM_ARCH_REGS" using pa(5)[of p] by (simp_all add: a_def nat_less_iff)
  have oldr: "0 \<le> old" "nat old < n" if "old \<noteq> - 1"
    using ra_in_range[OF ok, of old] that pa(2) ar by (simp_all add: old_def)
  define r' where "r' = r\<lparr>backend_RAT := (backend_RAT r)[a := p],
    physical_register_file := (if old = - 1 then physical_register_file r else (physical_register_file r)[nat old := empty_register 255]),
    free_registers := free_registers r @ (if old \<noteq> - 1 then [old] else [])\<rparr>"
  have eq: "retire_dest_register p r = Some r'"
    using pr ar oldr pa(1-3)
    by (simp add: retire_dest_register_def at_index_def set_at_def free_register_def r'_def arch_of_def[symmetric]
        a_def[symmetric] old_def[symmetric] Let_def)
  have oldw: "old \<notin> set (p # ws)" if "old \<noteq> - 1"
  proof -
    have "old \<in> set (mapped (backend_RAT r))" using that ar pa(2) by (simp add: mapped_def old_def)
    then show ?thesis using ra_partition(1)[OF ok] by auto
  qed
  have arch: "arch_of r' q = arch_of r q" if "q \<in> set (p # ws)" for q
  proof (cases "old = - 1")
    case True
    then show ?thesis by (simp add: arch_of_def r'_def)
  next
    case False
    then have "nat q \<noteq> nat old" using oldw oldr that ra_in_range(1)[OF ok, of q] by (auto simp: eq_nat_nat_iff)
    then show ?thesis using False by (simp add: arch_of_def r'_def)
  qed
  have y: "frontend_RAT r' ! b = youngest ws r' b" if b: "b < NUM_ARCH_REGS" for b
  proof -
    have br: "backend_RAT r' = (backend_RAT r)[a := p]" by (simp add: r'_def)
    have f: "filter (\<lambda>q. arch_of r' q = int b) ws = filter (\<lambda>q. arch_of r q = int b) ws"
      by (rule filter_cong) (simp_all add: arch)
    have "frontend_RAT r' ! b = youngest (p # ws) r b" using pa(6)[OF b] by (simp add: r'_def)
    also have "\<dots> = youngest ws r' b"
    proof (cases "b = a")
      case True
      then have "arch_of r p = int b" using ar by (simp add: a_def)
      then show ?thesis using True b pa(2) f by (simp add: youngest_def Let_def br)
    next
      case False
      then have "arch_of r p \<noteq> int b" using ar by (simp add: a_def)
      then show ?thesis using False f by (simp add: youngest_def Let_def br)
    qed
    finally show ?thesis .
  qed
  have "mset (mapped (backend_RAT r')) + (if old \<noteq> - 1 then {#old#} else {#}) = add_mset p (mset (mapped (backend_RAT r)))"
    using mapped_update[of a "backend_RAT r" p] ar pa(2) pr by (simp add: r'_def old_def split: if_splits)
  then have "mset (free_registers r' @ ws @ mapped (backend_RAT r')) = mset (free_registers r @ (p # ws) @ mapped (backend_RAT r))"
    by (auto simp: r'_def split: if_splits)
  then have "mset (free_registers r' @ ws @ mapped (backend_RAT r')) = mset (map int [0..<n])" using pa(4) by metis
  then have "ra_ok n (ws, r')" using y pa(1-3,5) arch by (simp add: ra_ok_def) (simp add: r'_def)
  then show ?thesis using eq by (simp add: r'_def a_def[symmetric] old_def[symmetric] Let_def)
qed

lemma ra_init_ok:
  assumes "new_RegisterAllocator n = Some r"
  shows "ra_ok n ([], r)"
  using assms by (auto simp: new_RegisterAllocator_def ra_ok_def youngest_def mapped_def split: if_splits)

lemma rename_src_regs:
  assumes "rename_src_register reg r \<noteq> None"
  shows "0 \<le> reg" "nat reg < length (frontend_RAT r)"
  using assms by (auto simp: rename_src_register_def at_index_def split: if_splits)

lemma rename_dest_regs:
  assumes "rename_dest_register reg i r \<noteq> None"
  shows "0 \<le> reg" "nat reg < length (frontend_RAT r)" "free_registers r \<noteq> []"
  using assms by (auto simp: rename_dest_register_def set_at_def split: if_splits list.splits)

lemma ra_step_ok:
  assumes ok: "ra_ok n s" and step: "ra_step x s = Some s'"
  shows "ra_ok n s'"
proof -
  obtain w r where s: "s = (w, r)" by fastforce
  note ok = ok[unfolded s]
  show ?thesis
  proof (cases x)
    case (Src reg)
    have ne: "rename_src_register reg r \<noteq> None" using step by (auto simp: s Src)
    then have reg: "0 \<le> reg" "reg < int NUM_ARCH_REGS" using rename_src_regs[OF ne] ra_parts(1)[OF ok] by auto
    show ?thesis
    proof (cases "0 \<le> youngest w r (nat reg)")
      case True
      then show ?thesis using rename_src_mapped[OF ok reg] step ok by (simp add: s Src)
    next
      case False
      then have y: "frontend_RAT r ! nat reg < 0" using ra_parts(6)[OF ok, of "nat reg"] reg by (simp add: nat_less_iff)
      then obtain p rest where "free_registers r = p # rest"
        using ne reg ra_parts(1)[OF ok] by (cases "free_registers r") (simp_all add: rename_src_register_def at_index_def nat_less_iff)
      then show ?thesis using rename_src_unmapped[OF ok reg, of p rest] False step by (auto simp: s Src)
    qed
  next
    case (Dest reg i)
    have ne: "rename_dest_register reg i r \<noteq> None" using step by (auto simp: s Dest)
    then have reg: "0 \<le> reg" "reg < int NUM_ARCH_REGS" using rename_dest_regs[OF ne] ra_parts(1)[OF ok] by auto
    obtain p rest where "free_registers r = p # rest" using rename_dest_regs(3)[OF ne] by (cases "free_registers r") auto
    then show ?thesis using rename_dest_ok[OF ok reg, of p rest i] step by (auto simp: s Dest)
  next
    case (Complete p)
    then show ?thesis using complete_ok[OF ok, of p] step ok by (auto simp: s split: if_splits)
  next
    case Retire
    then show ?thesis using retire_ok[of n _ _ r] step ok by (cases w) (fastforce simp: s)+
  qed
qed

lemma ra_run_ok: "ra_ok n s \<Longrightarrow> ra_run xs s = Some s' \<Longrightarrow> ra_ok n s'"
  by (induction xs arbitrary: s) (auto simp: bind_eq_Some_conv intro: ra_step_ok)

section \<open>Properties\<close>

lemma registers_conserved_parts:
  assumes "new_RegisterAllocator n = Some r0" and "ra_run xs ([], r0) = Some (w, r)"
  shows "distinct (free_registers r @ w @ mapped (backend_RAT r))"
    and "set (free_registers r @ w @ mapped (backend_RAT r)) = int ` {0..<n}"
    and "count_free_registers r + length w + length (mapped (backend_RAT r)) = n"
proof -
  have ok: "ra_ok n (w, r)" by (rule ra_run_ok[OF ra_init_ok[OF assms(1)] assms(2)])
  show "distinct (free_registers r @ w @ mapped (backend_RAT r))"
    and "set (free_registers r @ w @ mapped (backend_RAT r)) = int ` {0..<n}"
    using ra_partition[OF ok] by simp_all
  have "length (free_registers r @ w @ mapped (backend_RAT r)) = length (map int [0..<n])"
    by (rule mset_eq_length[OF ra_parts(4)[OF ok]])
  then show "count_free_registers r + length w + length (mapped (backend_RAT r)) = n"
    by (simp add: count_free_registers_def)
qed

text \<open>C30. Physical registers are conserved: after any run of the core, every physical register is in
  exactly one of three places, the free queue, the destinations in flight, and the committed table;
  none is lost and none is handed out twice.\<close>

theorem registers_conserved:
  assumes "new_RegisterAllocator n = Some r0" and "ra_run xs ([], r0) = Some (w, r)"
  shows "distinct (free_registers r @ w @ mapped (backend_RAT r))
    \<and> set (free_registers r @ w @ mapped (backend_RAT r)) = int ` {0..<n}
    \<and> count_free_registers r + length w + length (mapped (backend_RAT r)) = n"
  using registers_conserved_parts[OF assms] by blast

definition sample_ra :: "ra_op list" where
  "sample_ra = [Src 3, Dest 3 7, Dest 5 8, Dest 3 9, Complete 1, Retire, Src 5]"

lemma registers_conserved_witness:
  "\<exists>r0 w r. new_RegisterAllocator 6 = Some r0 \<and> ra_run sample_ra ([], r0) = Some (w, r)
    \<and> w = [2, 3] \<and> free_registers r = [4, 5, 0] \<and> distinct (free_registers r @ w @ mapped (backend_RAT r))"
proof -
  define r0 where "r0 = the (new_RegisterAllocator 6)"
  have n: "new_RegisterAllocator 6 = Some r0" by (simp add: r0_def new_RegisterAllocator_def)
  have "map_option (\<lambda>(w, r). (w, free_registers r)) (ra_run sample_ra ([], r0)) = Some ([2, 3], [4, 5, 0])"
    unfolding r0_def by code_simp
  then obtain w r where run: "ra_run sample_ra ([], r0) = Some (w, r)" and "w = [2, 3]" "free_registers r = [4, 5, 0]"
    by auto
  then show ?thesis using n registers_conserved[OF n run] by blast
qed

lemma renaming_in_program_order_parts:
  assumes "new_RegisterAllocator n = Some r0" and "ra_run xs ([], r0) = Some (w, r)"
    and reg: "0 \<le> reg" "reg < int NUM_ARCH_REGS"
  shows "0 \<le> youngest w r (nat reg) \<Longrightarrow> rename_src_register reg r = Some (youngest w r (nat reg), r)"
    and "youngest w r (nat reg) < 0 \<Longrightarrow> free_registers r = p # rest
      \<Longrightarrow> \<exists>r'. rename_src_register reg r = Some (p, r') \<and> isValid p r' = Some True \<and> youngest w r' (nat reg) = p"
    and "length w + NUM_ARCH_REGS < n \<Longrightarrow> rename_src_register reg r \<noteq> None \<and> rename_dest_register reg i r \<noteq> None"
    and "w = q # ws \<Longrightarrow> retire_dest_register q r \<noteq> None"
proof -
  have ok: "ra_ok n (w, r)" by (rule ra_run_ok[OF ra_init_ok[OF assms(1)] assms(2)])
  show "0 \<le> youngest w r (nat reg) \<Longrightarrow> rename_src_register reg r = Some (youngest w r (nat reg), r)"
    by (rule rename_src_mapped[OF ok reg])
  show "youngest w r (nat reg) < 0 \<Longrightarrow> free_registers r = p # rest
      \<Longrightarrow> \<exists>r'. rename_src_register reg r = Some (p, r') \<and> isValid p r' = Some True \<and> youngest w r' (nat reg) = p"
    using rename_src_unmapped[OF ok reg, of p rest] by blast
  show "rename_src_register reg r \<noteq> None \<and> rename_dest_register reg i r \<noteq> None" if len: "length w + NUM_ARCH_REGS < n"
  proof -
    have "length (mapped (backend_RAT r)) \<le> NUM_ARCH_REGS"
      using length_filter_le[of "\<lambda>p. p \<noteq> - 1" "backend_RAT r"] ra_parts(2)[OF ok] by (simp add: mapped_def)
    moreover have "length (free_registers r @ w @ mapped (backend_RAT r)) = n"
      using mset_eq_length[OF ra_parts(4)[OF ok]] by simp
    ultimately have "free_registers r \<noteq> []" using len by auto
    then obtain f fs where f: "free_registers r = f # fs" by (cases "free_registers r") auto
    have "rename_src_register reg r \<noteq> None"
      using rename_src_mapped[OF ok reg] rename_src_unmapped[OF ok reg _ f] by (cases "0 \<le> youngest w r (nat reg)") auto
    then show ?thesis using rename_dest_ok[OF ok reg f, of i] by auto
  qed
  show "w = q # ws \<Longrightarrow> retire_dest_register q r \<noteq> None" using retire_ok[of n q ws r] ok by auto
qed

text \<open>C31. Renaming follows the program order: after any run, a source register is renamed to the
  youngest destination in flight that writes it, if there is one, and to the committed register
  otherwise.  A register that has never been written gets a free register that is already valid.
  While fewer than \<open>n - 256\<close> destinations are in flight, renaming never runs out of registers, and
  the oldest destination can always be retired.\<close>

theorem renaming_in_program_order:
  assumes "new_RegisterAllocator n = Some r0" and "ra_run xs ([], r0) = Some (w, r)"
    and reg: "0 \<le> reg" "reg < int NUM_ARCH_REGS"
  shows "(0 \<le> youngest w r (nat reg) \<longrightarrow> rename_src_register reg r = Some (youngest w r (nat reg), r))
    \<and> (\<forall>p rest. youngest w r (nat reg) < 0 \<and> free_registers r = p # rest
      \<longrightarrow> (\<exists>r'. rename_src_register reg r = Some (p, r') \<and> isValid p r' = Some True \<and> youngest w r' (nat reg) = p))
    \<and> (length w + NUM_ARCH_REGS < n \<longrightarrow> rename_src_register reg r \<noteq> None \<and> rename_dest_register reg i r \<noteq> None)
    \<and> (\<forall>q ws. w = q # ws \<longrightarrow> retire_dest_register q r \<noteq> None)"
  using renaming_in_program_order_parts[OF assms] by blast

lemma renaming_in_program_order_witness:
  "\<exists>r0 w r. new_RegisterAllocator 6 = Some r0 \<and> ra_run sample_ra ([], r0) = Some (w, r)
    \<and> rename_src_register 3 r = Some (3, r) \<and> retire_dest_register 2 r \<noteq> None"
proof -
  define r0 where "r0 = the (new_RegisterAllocator 6)"
  have n: "new_RegisterAllocator 6 = Some r0" by (simp add: r0_def new_RegisterAllocator_def)
  have "map_option (\<lambda>(w, r). (w, youngest w r 3)) (ra_run sample_ra ([], r0)) = Some ([2, 3], 3)"
    unfolding r0_def by code_simp
  then obtain w r where run: "ra_run sample_ra ([], r0) = Some (w, r)" and w: "w = [2, 3]" and y: "youngest w r 3 = 3"
    by auto
  have reg: "(0::int) \<le> 3" "3 < int NUM_ARCH_REGS" by (simp_all add: NUM_ARCH_REGS_def)
  have "rename_src_register 3 r = Some (3, r)" using renaming_in_program_order[OF n run reg] y by simp
  moreover have "retire_dest_register 2 r \<noteq> None" using renaming_in_program_order[OF n run reg] w by simp
  ultimately show ?thesis using n run by blast
qed

end
