(* ===== verification/Bandwidth.thy ===== *)
theory Bandwidth
  imports Prelude
begin

text \<open>Bandwidth budgets (\<open>src/bandwidth.cc\<close>) and the algorithms that spend them: the spans of
  \<open>inc/util/span.h\<close> and \<open>inc/util/algorithm.h\<close>.  A deque is a list; a span that starts at the front of a
  queue is the pair of the elements in it and the rest.  A throw or a failed assertion is \<open>None\<close>.\<close>

section \<open>Bandwidth\<close>

record bandwidth =
  bw_value :: int
  bw_maximum :: int

definition new_bandwidth :: "int \<Rightarrow> bandwidth" where
  "new_bandwidth m = \<lparr>bw_value = m, bw_maximum = m\<rparr>"

definition bw_consume :: "int \<Rightarrow> bandwidth \<Rightarrow> bandwidth option" where
  "bw_consume delta b = (let v = bw_value b - delta in if v < 0 then None else Some (b\<lparr>bw_value := v\<rparr>))"

definition bw_consume_one :: "bandwidth \<Rightarrow> bandwidth option" where
  "bw_consume_one = bw_consume 1"

definition amount_remaining :: "bandwidth \<Rightarrow> int" where
  "amount_remaining b = bw_value b"

definition has_remaining :: "bandwidth \<Rightarrow> bool" where
  "has_remaining b = (amount_remaining b > 0)"

definition amount_consumed :: "bandwidth \<Rightarrow> int" where
  "amount_consumed b = bw_maximum b - bw_value b"

definition bw_reset :: "bandwidth \<Rightarrow> bandwidth" where
  "bw_reset b = b\<lparr>bw_value := bw_maximum b\<rparr>"

section \<open>Spans\<close>

definition get_span :: "'a list \<Rightarrow> bandwidth \<Rightarrow> ('a list \<times> 'a list) option" where
  "get_span xs sz = (if amount_remaining sz < 0 then None
     else (let distance = nat (min (int (length xs)) (amount_remaining sz)) in Some (take distance xs, drop distance xs)))"

text \<open>\<open>std::find_if_not\<close> ends the span at the first element that fails; the rest of the queue follows.\<close>

definition get_span_p :: "'a list \<Rightarrow> bandwidth \<Rightarrow> ('a \<Rightarrow> bool) \<Rightarrow> ('a list \<times> 'a list) option" where
  "get_span_p xs sz f = map_option (\<lambda>(s, rest). (takeWhile f s, dropWhile f s @ rest)) (get_span xs sz)"

text \<open>The callers also pass tests that change state (a fill that succeeds, a request that is accepted):
  the test then runs on the elements in order until the first failure, whose effects remain.\<close>

fun while_ok :: "('a \<Rightarrow> 's \<Rightarrow> (bool \<times> 's) option) \<Rightarrow> 'a list \<Rightarrow> 's \<Rightarrow> ('a list \<times> 'a list \<times> 's) option" where
  "while_ok f [] s = Some ([], [], s)"
| "while_ok f (x # xs) s = (case f x s of None \<Rightarrow> None
     | Some (False, s') \<Rightarrow> Some ([], x # xs, s')
     | Some (True, s') \<Rightarrow> map_option (\<lambda>(done_now, rest, t). (x # done_now, rest, t)) (while_ok f xs s'))"

text \<open>\<open>extract_if\<close> moves the elements that satisfy the test to the output and compacts the others.\<close>

fun extract_loop :: "('a \<Rightarrow> bool) \<Rightarrow> 'a list \<Rightarrow> 'a list \<Rightarrow> 'a list \<Rightarrow> 'a list \<times> 'a list" where
  "extract_loop f [] kept out = (kept, out)"
| "extract_loop f (x # xs) kept out =
     (if f x then extract_loop f xs kept (out @ [x]) else extract_loop f xs (kept @ [x]) out)"

definition extract_if :: "('a \<Rightarrow> bool) \<Rightarrow> 'a list \<Rightarrow> 'a list \<Rightarrow> 'a list \<times> 'a list" where
  "extract_if f xs out = extract_loop f (dropWhile (\<lambda>x. \<not> f x) xs) (takeWhile (\<lambda>x. \<not> f x) xs) out"

definition transform_while_n :: "'a list \<Rightarrow> 'b list \<Rightarrow> bandwidth \<Rightarrow> ('a \<Rightarrow> bool) \<Rightarrow> ('a \<Rightarrow> 'b) \<Rightarrow> ('a list \<times> 'b list \<times> int) option" where
  "transform_while_n queue out sz test_func transform_func =
     map_option (\<lambda>(s, rest). (rest, out @ map transform_func s, int (length s))) (get_span_p queue sz test_func)"

section \<open>Laws\<close>

lemma bw_consume_Some:
  "bw_consume d b = Some b' \<longleftrightarrow> d \<le> bw_value b \<and> b' = b\<lparr>bw_value := bw_value b - d\<rparr>"
  by (auto simp: bw_consume_def Let_def)

lemma get_span_p_bounds:
  assumes "get_span_p xs sz f = Some (s, rest)"
  shows "s @ rest = xs" and "int (length s) \<le> amount_remaining sz" and "\<forall>x\<in>set s. f x"
proof -
  have nn: "0 \<le> amount_remaining sz" using assms by (auto simp: get_span_p_def get_span_def split: if_splits)
  define n where "n = nat (min (int (length xs)) (amount_remaining sz))"
  have s: "s = takeWhile f (take n xs)" "rest = dropWhile f (take n xs) @ drop n xs"
    using assms by (auto simp: get_span_p_def get_span_def Let_def n_def split: if_splits)
  show "s @ rest = xs" using s by (simp flip: append_assoc)
  have "length s \<le> n" using s length_takeWhile_le[of f "take n xs"] by simp
  then show "int (length s) \<le> amount_remaining sz" using nn by (simp add: n_def)
  show "\<forall>x\<in>set s. f x" using s set_takeWhileD by fastforce
qed

text \<open>A span never overruns the budget it was cut to, so consuming it does not throw.\<close>

lemma get_span_p_consume:
  assumes "get_span_p xs sz f = Some (s, rest)"
  shows "bw_consume (int (length s)) sz \<noteq> None"
  using get_span_p_bounds(2)[OF assms] by (simp add: bw_consume_def Let_def amount_remaining_def)

lemma while_ok_split: "while_ok f xs s = Some (d, rest, t) \<Longrightarrow> d @ rest = xs"
  by (induction f xs s arbitrary: d rest t rule: while_ok.induct) (auto split: option.splits bool.splits)

lemma extract_loop_filter:
  "extract_loop f xs kept out = (kept @ filter (\<lambda>x. \<not> f x) xs, out @ filter f xs)"
  by (induction f xs kept out rule: extract_loop.induct) auto

lemma extract_if_filter:
  "extract_if f xs out = (filter (\<lambda>x. \<not> f x) xs, out @ filter f xs)"
proof -
  have "filter (\<lambda>x. \<not> f x) xs = takeWhile (\<lambda>x. \<not> f x) xs @ filter (\<lambda>x. \<not> f x) (dropWhile (\<lambda>x. \<not> f x) xs)"
    by (induction xs) auto
  moreover have "filter f xs = filter f (dropWhile (\<lambda>x. \<not> f x) xs)" by (induction xs) auto
  ultimately show ?thesis by (simp add: extract_if_def extract_loop_filter)
qed

lemma while_ok_invariant:
  assumes "while_ok f xs s = Some (d, rest, t)" and "P s"
    and "\<And>x s b s'. x \<in> set xs \<Longrightarrow> P s \<Longrightarrow> f x s = Some (b, s') \<Longrightarrow> P s'"
  shows "P t"
  using assms
proof (induction f xs s arbitrary: d rest t rule: while_ok.induct)
  case (2 f x xs s)
  show ?case
  proof (cases "f x s")
    case None
    then show ?thesis using "2.prems"(1) by simp
  next
    case (Some r)
    obtain b s1 where r: "r = (b, s1)" by fastforce
    have P1: "P s1" using "2.prems"(2,3) Some r by (metis list.set_intros(1))
    show ?thesis
    proof (cases b)
      case False
      then show ?thesis using "2.prems"(1) Some r P1 by simp
    next
      case True
      then obtain d1 rest1 where "while_ok f xs s1 = Some (d1, rest1, t)" using "2.prems"(1) Some r by auto
      then show ?thesis using "2.IH"[of r b s1] Some r True P1 "2.prems"(3) by (metis list.set_intros(2))
    qed
  qed
qed simp

end
