(* ===== verification/Event_Counter.thy ===== *)
theory Event_Counter
  imports Prelude
begin

text \<open>The statistics counter \<open>inc/event_counter.h\<close>: a sorted vector of keys beside a vector of values.
  Reading or erasing a key that is not there is undefined in the code and \<open>None\<close> here.\<close>

record 'k event_counter =
  ec_keys :: "'k list"
  ec_values :: "int list"

definition ec_empty :: "'k event_counter" where
  "ec_empty = \<lparr>ec_keys = [], ec_values = []\<rparr>"

text \<open>\<open>std::lower_bound\<close> on the sorted keys: the first position whose key is not below.\<close>

definition get_iter :: "'k::linorder \<Rightarrow> 'k event_counter \<Rightarrow> nat" where
  "get_iter key c = length (takeWhile (\<lambda>k. k < key) (ec_keys c))"

definition ec_absent :: "'k::linorder \<Rightarrow> 'k event_counter \<Rightarrow> bool" where
  "ec_absent key c = (get_iter key c = length (ec_keys c) \<or> ec_keys c ! get_iter key c \<noteq> key)"

definition ec_insert_at :: "nat \<Rightarrow> 'a \<Rightarrow> 'a list \<Rightarrow> 'a list" where
  "ec_insert_at i x xs = take i xs @ x # drop i xs"

definition ec_allocate :: "'k::linorder \<Rightarrow> 'k event_counter \<Rightarrow> 'k event_counter" where
  "ec_allocate key c = (let i = get_iter key c
     in if ec_absent key c then c\<lparr>ec_keys := ec_insert_at i key (ec_keys c), ec_values := ec_insert_at i 0 (ec_values c)\<rparr>
        else c)"

definition ec_deallocate :: "'k::linorder \<Rightarrow> 'k event_counter \<Rightarrow> 'k event_counter option" where
  "ec_deallocate key c = (let i = get_iter key c
     in if i = length (ec_keys c) then None
        else Some (c\<lparr>ec_keys := take i (ec_keys c) @ drop (Suc i) (ec_keys c),
                     ec_values := take i (ec_values c) @ drop (Suc i) (ec_values c)\<rparr>))"

definition ec_increment :: "'k::linorder \<Rightarrow> 'k event_counter \<Rightarrow> 'k event_counter" where
  "ec_increment key c = (let c = ec_allocate key c; i = get_iter key c
     in c\<lparr>ec_values := (ec_values c)[i := ec_values c ! i + 1]\<rparr>)"

definition ec_set :: "'k::linorder \<Rightarrow> int \<Rightarrow> 'k event_counter \<Rightarrow> 'k event_counter" where
  "ec_set key val c = (let c = ec_allocate key c; i = get_iter key c in c\<lparr>ec_values := (ec_values c)[i := val]\<rparr>)"

definition ec_at :: "'k::linorder \<Rightarrow> 'k event_counter \<Rightarrow> int option" where
  "ec_at key c = (let i = get_iter key c in if i < length (ec_values c) then Some (ec_values c ! i) else None)"

definition ec_value_or :: "'k::linorder \<Rightarrow> int \<Rightarrow> 'k event_counter \<Rightarrow> int" where
  "ec_value_or key val c = (if ec_absent key c then val else ec_values c ! get_iter key c)"

definition ec_total :: "'k event_counter \<Rightarrow> int" where
  "ec_total c = fold (\<lambda>v acc. acc + v) (ec_values c) 0"

definition ec_plus :: "'k::linorder event_counter \<Rightarrow> 'k event_counter \<Rightarrow> 'k event_counter" where
  "ec_plus lhs rhs = lhs\<lparr>ec_values := map (\<lambda>(val, key). val + ec_value_or key 0 rhs) (zip (ec_values lhs) (ec_keys lhs))\<rparr>"

definition ec_minus :: "'k::linorder event_counter \<Rightarrow> 'k event_counter \<Rightarrow> 'k event_counter" where
  "ec_minus lhs rhs = lhs\<lparr>ec_values := map (\<lambda>(val, key). val - ec_value_or key 0 rhs) (zip (ec_values lhs) (ec_keys lhs))\<rparr>"

section \<open>The interface of a counter\<close>

text \<open>What the statistics rely on: counts start at zero, and an event changes the count of its own key.\<close>

locale counter_map =
  fixes inv :: "'c \<Rightarrow> bool" and count :: "'k \<Rightarrow> 'c \<Rightarrow> int" and empty :: 'c and incr :: "'k \<Rightarrow> 'c \<Rightarrow> 'c"
  assumes inv_empty: "inv empty"
    and inv_incr: "inv c \<Longrightarrow> inv (incr k c)"
    and count_empty: "count k empty = 0"
    and count_incr: "inv c \<Longrightarrow> count k (incr j c) = count k c + (if j = k then 1 else 0)"
begin

definition count_events :: "'k list \<Rightarrow> 'c" where
  "count_events ks = fold incr ks empty"

lemma fold_incr: "inv c \<Longrightarrow> inv (fold incr ks c) \<and> count k (fold incr ks c) = count k c + int (length (filter (\<lambda>j. j = k) ks))"
  by (induction ks arbitrary: c) (auto simp: inv_incr count_incr)

lemma inv_events: "inv (count_events ks)"
  using fold_incr[OF inv_empty, THEN conjunct1] by (simp add: count_events_def)

lemma count_of_events: "count k (count_events ks) = int (length (filter (\<lambda>j. j = k) ks))"
  using fold_incr[OF inv_empty, of ks k] by (simp add: count_events_def count_empty)

end

section \<open>The sorted vectors provide it\<close>

definition ec_ok :: "'k::linorder event_counter \<Rightarrow> bool" where
  "ec_ok c = (sorted_wrt (<) (ec_keys c) \<and> length (ec_values c) = length (ec_keys c))"

text \<open>A sorted vector splits at the lower bound.\<close>

lemma ec_split:
  assumes "ec_ok c"
  obtains xs ys us vs where "ec_keys c = xs @ ys" "ec_values c = us @ vs" "length us = length xs" "length vs = length ys"
    "get_iter key c = length xs" "\<forall>x\<in>set xs. x < key" "\<forall>y\<in>set ys. key \<le> y"
proof -
  define n where "n = length (takeWhile (\<lambda>k. k < key) (ec_keys c))"
  have x: "takeWhile (\<lambda>k. k < key) (ec_keys c) = take n (ec_keys c)"
    unfolding n_def by (rule takeWhile_eq_take)
  have d: "dropWhile (\<lambda>k. k < key) (ec_keys c) = drop n (ec_keys c)"
    unfolding n_def by (rule dropWhile_eq_drop)
  have below: "\<forall>k\<in>set (take n (ec_keys c)). k < key" unfolding x[symmetric] by (auto dest: set_takeWhileD)
  have above: "\<forall>k\<in>set (drop n (ec_keys c)). key \<le> k"
  proof (cases "drop n (ec_keys c)")
    case (Cons y ys)
    have "\<not> y < key" using hd_dropWhile[of "\<lambda>k. k < key" "ec_keys c"] Cons d by simp
    moreover have "sorted_wrt (<) (y # ys)" using assms sorted_wrt_drop[of "(<)" "ec_keys c" n] by (simp add: ec_ok_def Cons)
    ultimately show ?thesis using Cons by auto
  qed simp
  have "n \<le> length (ec_keys c)" by (simp add: n_def length_takeWhile_le)
  then show ?thesis
    using that[of "take n (ec_keys c)" "drop n (ec_keys c)" "take n (ec_values c)" "drop n (ec_values c)"]
      below above assms by (simp add: ec_ok_def get_iter_def n_def[symmetric])
qed

lemma ec_value_alt:
  assumes "ec_ok c"
  shows "ec_value_or key d c = (case map_of (zip (ec_keys c) (ec_values c)) key of None \<Rightarrow> d | Some v \<Rightarrow> v)"
proof -
  obtain xs ys us vs where s: "ec_keys c = xs @ ys" "ec_values c = us @ vs" "length us = length xs" "length vs = length ys"
    "get_iter key c = length xs" "\<forall>x\<in>set xs. x < key" "\<forall>y\<in>set ys. key \<le> y"
    using ec_split[OF assms] by metis
  have nx: "map_of (zip xs us) key = None" using s(3,6) by (auto simp: map_of_zip_is_None)
  have sy: "sorted_wrt (<) ys" using assms s(1) by (simp add: ec_ok_def sorted_wrt_append)
  show ?thesis
  proof (cases ys)
    case Nil
    then show ?thesis using s by (simp add: ec_value_or_def ec_absent_def nx)
  next
    case (Cons y zs)
    then obtain v ws where v: "vs = v # ws" using s(4) by (cases vs) auto
    show ?thesis
    proof (cases "y = key")
      case True
      have "map_of (zip xs us @ (key, v) # zip zs ws) key = Some v" using nx by (simp add: map_add_def)
      then show ?thesis using s True Cons v by (simp add: ec_value_or_def ec_absent_def nth_append)
    next
      case False
      have "key \<notin> set ys" using sy Cons s(7) False by auto
      then have ny: "map_of (zip ys vs) key = None" using s(4) by (simp add: map_of_zip_is_None)
      have "ec_absent key c" using s(1,5) False Cons by (simp add: ec_absent_def nth_append)
      moreover have "map_of (zip (ec_keys c) (ec_values c)) key = None" using s(1-4) by (simp add: map_add_def nx ny)
      ultimately show ?thesis by (simp add: ec_value_or_def)
    qed
  qed
qed

text \<open>Two operations splice the vectors at the lower bound.\<close>

lemma ec_set_alt:
  assumes "ec_ok c"
  shows "ec_ok (ec_set key v c)"
    and "ec_value_or k d (ec_set key v c) = (if k = key then v else ec_value_or k d c)"
    and "ec_increment key c = ec_set key (ec_value_or key 0 c + 1) c"
proof -
  obtain xs ys us vs where s: "ec_keys c = xs @ ys" "ec_values c = us @ vs" "length us = length xs" "length vs = length ys"
    "get_iter key c = length xs" "\<forall>x\<in>set xs. x < key" "\<forall>y\<in>set ys. key \<le> y"
    using ec_split[OF assms] by metis
  have sx: "sorted_wrt (<) xs" "sorted_wrt (<) ys" "\<forall>x\<in>set xs. \<forall>y\<in>set ys. x < y"
    using assms s(1) by (simp_all add: ec_ok_def sorted_wrt_append)
  have tw: "get_iter key (c\<lparr>ec_keys := xs @ key # zs, ec_values := ws\<rparr>) = length xs" for zs ws
    using s(6) by (simp add: get_iter_def takeWhile_append)
  define zs where "zs = (if ec_absent key c then ys else tl ys)"
  define ws where "ws = (if ec_absent key c then vs else tl vs)"
  have present: "ys = key # zs \<and> vs = ec_value_or key 0 c # ws" if "\<not> ec_absent key c"
    using that s(1-5) by (cases ys; cases vs) (auto simp: ec_absent_def ec_value_or_def nth_append zs_def ws_def)
  have absent: "key \<notin> set ys \<and> (\<forall>y\<in>set ys. key < y)" if "ec_absent key c"
  proof (cases ys)
    case (Cons y t)
    then have "y \<noteq> key" using that s by (auto simp: ec_absent_def nth_append)
    then have "key < y" using s(7) Cons by auto
    then show ?thesis using sx(2) Cons by auto
  qed simp
  have above: "\<forall>z\<in>set zs. key < z"
  proof (cases "ec_absent key c")
    case True
    then show ?thesis using absent by (simp add: zs_def)
  next
    case False
    then have "ys = key # zs" using present by blast
    then show ?thesis using sx(2) by simp
  qed
  have sz: "sorted_wrt (<) zs" using sx(2) by (cases ys) (auto simp: zs_def)
  have len: "length ws = length zs" using s(4) by (auto simp: ws_def zs_def)
  have alloc: "ec_allocate key c = c\<lparr>ec_keys := xs @ key # zs, ec_values := us @ ec_value_or key 0 c # ws\<rparr>"
  proof (cases "ec_absent key c")
    case True
    then show ?thesis using s by (simp add: ec_allocate_def ec_insert_at_def ec_value_or_def zs_def ws_def Let_def)
  next
    case False
    then show ?thesis using s present by (simp add: ec_allocate_def)
  qed
  have eq: "ec_set key v c = c\<lparr>ec_keys := xs @ key # zs, ec_values := us @ v # ws\<rparr>" for v
    using s(3) by (simp add: ec_set_def alloc tw Let_def list_update_append)
  have ok: "ec_ok (ec_set key v c)" for v
    using sx s(3,6) above sz len by (auto simp: eq ec_ok_def sorted_wrt_append intro: less_trans)
  then show "ec_ok (ec_set key v c)" .
  show "ec_increment key c = ec_set key (ec_value_or key 0 c + 1) c"
    using s(3) by (simp add: ec_increment_def alloc eq tw Let_def list_update_append nth_append)
  have c: "map_of (zip (ec_keys c) (ec_values c)) k = map_of (zip (xs @ key # zs) (us @ v # ws)) k" if "k \<noteq> key"
  proof (cases "ec_absent key c")
    case True
    then show ?thesis using s that
      by (auto simp: zs_def ws_def map_add_def split: option.split dest!: map_of_SomeD dest: set_zip_leftD)
  next
    case False
    then show ?thesis using s that present
      by (auto simp: map_add_def split: option.split dest!: map_of_SomeD dest: set_zip_leftD)
  qed
  have nx: "map_of (zip xs us) key = None" using s(3,6) by (auto simp: map_of_zip_is_None)
  have "map_of (zip (xs @ key # zs) (us @ v # ws)) key = Some v" using s(3) by (simp add: map_add_def nx)
  then show "ec_value_or k d (ec_set key v c) = (if k = key then v else ec_value_or k d c)"
    using c ec_value_alt[OF ok[of v], of k d] ec_value_alt[OF assms, of k d] by (simp add: eq)
qed

lemma ec_empty_ok: "ec_ok ec_empty" "ec_value_or k d ec_empty = d"
  by (simp_all add: ec_ok_def ec_empty_def ec_value_or_def ec_absent_def get_iter_def)

interpretation stats: counter_map "ec_ok :: 'k::linorder event_counter \<Rightarrow> bool" "\<lambda>k. ec_value_or k 0" ec_empty ec_increment
  by unfold_locales (simp_all add: ec_empty_ok ec_set_alt)

lemma ec_total_sum: "ec_total c = sum_list (ec_values c)"
proof -
  have "fold (\<lambda>v acc. acc + v) vs a = a + sum_list vs" for vs and a :: int
    by (induction vs arbitrary: a) auto
  then show ?thesis by (simp add: ec_total_def)
qed

section \<open>Property\<close>

lemma event_counts_parts:
  "ec_value_or k 0 (fold ec_increment ks ec_empty) = int (length (filter (\<lambda>j. j = k) ks))"
  "ec_total (fold ec_increment ks ec_empty) = int (length ks)"
proof -
  show "ec_value_or k 0 (fold ec_increment ks ec_empty) = int (length (filter (\<lambda>j. j = k) ks))"
    using stats.count_of_events[of k ks] by (simp add: stats.count_events_def)
  have incr: "ec_total (ec_increment k c) = ec_total c + 1" if ok: "ec_ok c" for k :: 'a and c
  proof -
    obtain xs ys us vs where s: "ec_keys c = xs @ ys" "ec_values c = us @ vs" "length us = length xs" "length vs = length ys"
      "get_iter k c = length xs" "\<forall>x\<in>set xs. x < k"
      using ec_split[OF ok] by metis
    have tw: "get_iter k (c\<lparr>ec_keys := xs @ k # zs, ec_values := ws\<rparr>) = length xs" for zs ws
      using s(6) by (simp add: get_iter_def takeWhile_append)
    show ?thesis
    proof (cases "ec_absent k c")
      case True
      then show ?thesis using s tw
        by (simp add: ec_total_sum ec_increment_def ec_allocate_def ec_insert_at_def Let_def list_update_append nth_append)
    next
      case False
      then obtain v ws where "vs = v # ws" using s by (cases vs) (auto simp: ec_absent_def)
      then show ?thesis using s False
        by (simp add: ec_total_sum ec_increment_def ec_allocate_def Let_def list_update_append nth_append)
    qed
  qed
  have "ec_ok c \<Longrightarrow> ec_total (fold ec_increment ks c) = ec_total c + int (length ks)" for c :: "'a event_counter"
    by (induction ks arbitrary: c) (simp_all add: incr stats.inv_incr)
  from this[OF ec_empty_ok(1)] show "ec_total (fold ec_increment ks ec_empty) = int (length ks)"
    by (simp add: ec_total_sum ec_empty_def)
qed

text \<open>A counter counts: after any sequence of events, the value read for a key is the number of
  events with that key, keys without events read as the default, and the total is the number of all
  events.\<close>

theorem event_counts:
  "ec_value_or k 0 (fold ec_increment ks ec_empty) = int (length (filter (\<lambda>j. j = k) ks))
    \<and> ec_total (fold ec_increment ks ec_empty) = int (length ks)"
  using event_counts_parts by blast

text \<open>Adding counters keeps only the keys of the left one: events that only the right counter has
  seen are lost.\<close>

lemma ec_plus_loses_keys:
  assumes "ec_ok a" and "ec_absent k a"
  shows "ec_value_or k 0 (ec_plus a b) = 0"
  using assms by (simp add: ec_value_or_def ec_absent_def get_iter_def ec_plus_def)

end
