(* ===== verification/Channel.thy ===== *)
theory Channel
  imports Access_Type
begin

text \<open>The queues between two levels of the memory hierarchy, \<open>src/channel.cc\<close>: bounded read, prefetch
  and write queues towards the lower level, the queue of responses back, and the collision check that
  merges requests for one block and forwards writes to reads.\<close>

section \<open>Requests and responses\<close>

record request =
  rq_forward_checked :: bool
  rq_is_translated :: bool
  rq_response_requested :: bool
  rq_asid :: "8 word \<times> 8 word"
  rq_type :: access_type
  rq_pf_metadata :: "32 word"
  rq_cpu :: "32 word"
  rq_address :: address
  rq_v_address :: address
  rq_data :: address
  rq_instr_id :: nat
  rq_ip :: address
  rq_deps :: "nat list"

definition default_request :: request where
  "default_request = \<lparr>rq_forward_checked = False, rq_is_translated = True, rq_response_requested = True,
     rq_asid = (255, 255), rq_type = LOAD, rq_pf_metadata = 0, rq_cpu = - 1, rq_address = 0, rq_v_address = 0,
     rq_data = 0, rq_instr_id = 0, rq_ip = 0, rq_deps = []\<rparr>"

record response =
  rs_address :: address
  rs_v_address :: address
  rs_data :: address
  rs_pf_metadata :: "32 word"
  rs_deps :: "nat list"

definition response_of :: "request \<Rightarrow> response" where
  "response_of req = \<lparr>rs_address = rq_address req, rs_v_address = rq_v_address req, rs_data = rq_data req,
     rs_pf_metadata = rq_pf_metadata req, rs_deps = rq_deps req\<rparr>"

record cache_queue_stats =
  RQ_ACCESS :: nat
  RQ_MERGED :: nat
  RQ_FULL :: nat
  RQ_TO_CACHE :: nat
  PQ_ACCESS :: nat
  PQ_MERGED :: nat
  PQ_FULL :: nat
  PQ_TO_CACHE :: nat
  WQ_ACCESS :: nat
  WQ_MERGED :: nat
  WQ_FULL :: nat
  WQ_TO_CACHE :: nat
  WQ_FORWARD :: nat

definition zero_queue_stats :: cache_queue_stats where
  "zero_queue_stats = \<lparr>RQ_ACCESS = 0, RQ_MERGED = 0, RQ_FULL = 0, RQ_TO_CACHE = 0, PQ_ACCESS = 0, PQ_MERGED = 0,
     PQ_FULL = 0, PQ_TO_CACHE = 0, WQ_ACCESS = 0, WQ_MERGED = 0, WQ_FULL = 0, WQ_TO_CACHE = 0, WQ_FORWARD = 0\<rparr>"

record channel =
  RQ_SIZE :: nat
  PQ_SIZE :: nat
  WQ_SIZE :: nat
  ch_offset_bits :: nat
  ch_match_offset :: bool
  RQ :: "request list"
  PQ :: "request list"
  WQ :: "request list"
  returned :: "response list"
  sim_stats :: cache_queue_stats
  roi_stats :: cache_queue_stats

definition new_channel :: "nat \<Rightarrow> nat \<Rightarrow> nat \<Rightarrow> nat \<Rightarrow> bool \<Rightarrow> channel" where
  "new_channel rq_size pq_size wq_size offset_bits match_offset =
     \<lparr>RQ_SIZE = rq_size, PQ_SIZE = pq_size, WQ_SIZE = wq_size, ch_offset_bits = offset_bits,
      ch_match_offset = match_offset, RQ = [], PQ = [], WQ = [], returned = [],
      sim_stats = zero_queue_stats, roi_stats = zero_queue_stats\<rparr>"

section \<open>Collisions\<close>

text \<open>\<open>slice_upper(shamt)\<close> of an address, compared as an integer.\<close>

definition slice_upper :: "nat \<Rightarrow> address \<Rightarrow> address" where
  "slice_upper shamt a = drop_bit shamt a"

text \<open>The first earlier request of the block, if it is translated exactly when the new one is.\<close>

definition do_collision_for :: "request list \<Rightarrow> request \<Rightarrow> nat \<Rightarrow> nat option" where
  "do_collision_for xs packet shamt =
     (case find_if (\<lambda>i. slice_upper shamt (rq_address (xs ! i)) = slice_upper shamt (rq_address packet)) 0 (length xs) of
        None \<Rightarrow> None
      | Some i \<Rightarrow> if rq_is_translated packet = rq_is_translated (xs ! i) then Some i else None)"

text \<open>\<open>std::set_union\<close>, as the library merges two ranges.\<close>

fun set_union :: "nat list \<Rightarrow> nat list \<Rightarrow> nat list" where
  "set_union [] ys = ys"
| "set_union (x # xs) [] = x # xs"
| "set_union (x # xs) (y # ys) = (if x < y then x # set_union xs (y # ys)
     else if y < x then y # set_union (x # xs) ys else x # set_union xs ys)"

definition merge_into :: "request \<Rightarrow> request \<Rightarrow> request" where
  "merge_into source destination = destination\<lparr>
     rq_response_requested := rq_response_requested destination \<or> rq_response_requested source,
     rq_deps := set_union (rq_deps destination) (rq_deps source)\<rparr>"

definition do_collision_for_merge :: "request list \<Rightarrow> request \<Rightarrow> nat \<Rightarrow> request list option" where
  "do_collision_for_merge xs packet shamt =
     map_option (\<lambda>i. xs[i := merge_into packet (xs ! i)]) (do_collision_for xs packet shamt)"

definition do_collision_for_return :: "request list \<Rightarrow> request \<Rightarrow> nat \<Rightarrow> response list \<Rightarrow> response list option" where
  "do_collision_for_return xs packet shamt ret =
     map_option (\<lambda>i. if rq_response_requested packet
        then ret @ [\<lparr>rs_address = rq_address packet, rs_v_address = rq_v_address packet, rs_data = rq_data (xs ! i),
                     rs_pf_metadata = rq_pf_metadata (xs ! i), rs_deps = rq_deps packet\<rparr>]
        else ret) (do_collision_for xs packet shamt)"

text \<open>The loops of \<open>check_collision\<close>: the requests before the iterator, and those from it on.  A merged
  or forwarded request is erased, the others are marked as checked.  The counts are of merges and of
  forwards.\<close>

fun wq_loop :: "nat \<Rightarrow> request list \<Rightarrow> request list \<Rightarrow> nat \<Rightarrow> request list \<times> nat" where
  "wq_loop shamt before [] merged = (before, merged)"
| "wq_loop shamt before (p # rest) merged = (case do_collision_for_merge before p shamt of
     Some before' \<Rightarrow> wq_loop shamt before' rest (merged + 1)
   | None \<Rightarrow> wq_loop shamt (before @ [p\<lparr>rq_forward_checked := True\<rparr>]) rest merged)"

fun rq_loop :: "request list \<Rightarrow> nat \<Rightarrow> nat \<Rightarrow> request list \<Rightarrow> request list \<Rightarrow> response list \<Rightarrow> nat \<Rightarrow> nat
    \<Rightarrow> request list \<times> response list \<times> nat \<times> nat" where
  "rq_loop wq wshamt rshamt before [] ret fwd merged = (before, ret, fwd, merged)"
| "rq_loop wq wshamt rshamt before (p # rest) ret fwd merged =
     (case do_collision_for_return wq p wshamt ret of
        Some ret' \<Rightarrow> rq_loop wq wshamt rshamt before rest ret' (fwd + 1) merged
      | None \<Rightarrow> (case do_collision_for_merge before p rshamt of
          Some before' \<Rightarrow> rq_loop wq wshamt rshamt before' rest ret fwd (merged + 1)
        | None \<Rightarrow> rq_loop wq wshamt rshamt (before @ [p\<lparr>rq_forward_checked := True\<rparr>]) rest ret fwd merged))"

definition check_collision :: "channel \<Rightarrow> channel" where
  "check_collision c = (let
     write_shamt = (if ch_match_offset c then 0 else ch_offset_bits c);
     read_shamt = ch_offset_bits c;
     (wq, wmerged) = wq_loop write_shamt (takeWhile rq_forward_checked (WQ c)) (dropWhile rq_forward_checked (WQ c)) 0;
     (rq, ret, rfwd, rmerged) = rq_loop wq write_shamt read_shamt
        (takeWhile rq_forward_checked (RQ c)) (dropWhile rq_forward_checked (RQ c)) (returned c) 0 0;
     (pq, ret, pfwd, pmerged) = rq_loop wq write_shamt read_shamt
        (takeWhile rq_forward_checked (PQ c)) (dropWhile rq_forward_checked (PQ c)) ret 0 0;
     st = sim_stats c
   in c\<lparr>WQ := wq, RQ := rq, PQ := pq, returned := ret,
        sim_stats := st\<lparr>WQ_MERGED := WQ_MERGED st + wmerged, RQ_MERGED := RQ_MERGED st + rmerged,
          PQ_MERGED := PQ_MERGED st + pmerged, WQ_FORWARD := WQ_FORWARD st + rfwd + pfwd\<rparr>\<rparr>)"

section \<open>Adding requests\<close>

definition do_add_queue :: "request list \<Rightarrow> nat \<Rightarrow> request \<Rightarrow> request list option" where
  "do_add_queue queue queue_size packet =
     (if length queue \<ge> queue_size then None else Some (queue @ [packet\<lparr>rq_forward_checked := False\<rparr>]))"

definition add_rq :: "request \<Rightarrow> channel \<Rightarrow> bool \<times> channel" where
  "add_rq packet c = (let c = c\<lparr>sim_stats := (sim_stats c)\<lparr>RQ_ACCESS := RQ_ACCESS (sim_stats c) + 1\<rparr>\<rparr>
     in case do_add_queue (RQ c) (RQ_SIZE c) packet of
          Some q \<Rightarrow> (True, c\<lparr>RQ := q, sim_stats := (sim_stats c)\<lparr>RQ_TO_CACHE := RQ_TO_CACHE (sim_stats c) + 1\<rparr>\<rparr>)
        | None \<Rightarrow> (False, c\<lparr>sim_stats := (sim_stats c)\<lparr>RQ_FULL := RQ_FULL (sim_stats c) + 1\<rparr>\<rparr>))"

definition add_wq :: "request \<Rightarrow> channel \<Rightarrow> bool \<times> channel" where
  "add_wq packet c = (let c = c\<lparr>sim_stats := (sim_stats c)\<lparr>WQ_ACCESS := WQ_ACCESS (sim_stats c) + 1\<rparr>\<rparr>
     in case do_add_queue (WQ c) (WQ_SIZE c) packet of
          Some q \<Rightarrow> (True, c\<lparr>WQ := q, sim_stats := (sim_stats c)\<lparr>WQ_TO_CACHE := WQ_TO_CACHE (sim_stats c) + 1\<rparr>\<rparr>)
        | None \<Rightarrow> (False, c\<lparr>sim_stats := (sim_stats c)\<lparr>WQ_FULL := WQ_FULL (sim_stats c) + 1\<rparr>\<rparr>))"

definition add_pq :: "request \<Rightarrow> channel \<Rightarrow> bool \<times> channel" where
  "add_pq packet c = (let c = c\<lparr>sim_stats := (sim_stats c)\<lparr>PQ_ACCESS := PQ_ACCESS (sim_stats c) + 1\<rparr>\<rparr>
     in case do_add_queue (PQ c) (PQ_SIZE c) packet of
          Some q \<Rightarrow> (True, c\<lparr>PQ := q, sim_stats := (sim_stats c)\<lparr>PQ_TO_CACHE := PQ_TO_CACHE (sim_stats c) + 1\<rparr>\<rparr>)
        | None \<Rightarrow> (False, c\<lparr>sim_stats := (sim_stats c)\<lparr>PQ_FULL := PQ_FULL (sim_stats c) + 1\<rparr>\<rparr>))"

definition rq_occupancy :: "channel \<Rightarrow> nat" where "rq_occupancy c = length (RQ c)"
definition wq_occupancy :: "channel \<Rightarrow> nat" where "wq_occupancy c = length (WQ c)"
definition pq_occupancy :: "channel \<Rightarrow> nat" where "pq_occupancy c = length (PQ c)"

section \<open>Merging loses no dependent\<close>

definition block_of :: "nat \<Rightarrow> request \<Rightarrow> address" where
  "block_of n p = slice_upper n (rq_address p)"

text \<open>Instruction \<open>d\<close> waits for block \<open>b\<close>: some request that wants a response lists it.\<close>

definition waits :: "nat \<Rightarrow> address \<Rightarrow> nat \<Rightarrow> request list \<Rightarrow> bool" where
  "waits n b d qs = (\<exists>q\<in>set qs. rq_response_requested q \<and> block_of n q = b \<and> d \<in> set (rq_deps q))"

definition answered :: "nat \<Rightarrow> address \<Rightarrow> nat \<Rightarrow> response list \<Rightarrow> bool" where
  "answered n b d rs = (\<exists>r\<in>set rs. slice_upper n (rs_address r) = b \<and> d \<in> set (rs_deps r))"

lemma set_set_union [simp]: "set (set_union xs ys) = set xs \<union> set ys"
  by (induction xs ys rule: set_union.induct) auto

lemma block_of_merge [simp]: "block_of n (merge_into p q) = block_of n q"
  by (simp add: block_of_def merge_into_def)

lemma block_of_checked [simp]: "block_of n (p\<lparr>rq_forward_checked := v\<rparr>) = block_of n p"
  by (simp add: block_of_def)

lemma waits_append [simp]: "waits n b d (xs @ ys) \<longleftrightarrow> waits n b d xs \<or> waits n b d ys"
  by (auto simp: waits_def)

lemma waits_Cons [simp]: "waits n b d (p # ps) \<longleftrightarrow>
    rq_response_requested p \<and> block_of n p = b \<and> d \<in> set (rq_deps p) \<or> waits n b d ps"
  by (auto simp: waits_def)

lemma waits_Nil [simp]: "\<not> waits n b d []"
  by (simp add: waits_def)

lemma collision_Some:
  assumes "do_collision_for xs p n = Some i"
  shows "i < length xs" and "block_of n (xs ! i) = block_of n p"
  using assms by (auto simp: do_collision_for_def block_of_def split: option.splits if_splits dest: find_if_SomeD)

lemma collision_None_iff:
  assumes "\<forall>q\<in>set xs. rq_is_translated q = rq_is_translated p"
  shows "do_collision_for xs p n = None \<longleftrightarrow> block_of n p \<notin> set (map (block_of n) xs)"
proof (cases "find_if (\<lambda>i. slice_upper n (rq_address (xs ! i)) = slice_upper n (rq_address p)) 0 (length xs)")
  case None
  then have "do_collision_for xs p n = None" by (simp add: do_collision_for_def)
  moreover have "block_of n p \<notin> set (map (block_of n) xs)"
    using None by (auto simp: find_if_None block_of_def in_set_conv_nth)
  ultimately show ?thesis by simp
next
  case (Some i)
  then have i: "i < length xs" "block_of n (xs ! i) = block_of n p" by (auto simp: block_of_def dest: find_if_SomeD)
  then have "block_of n p \<in> set (map (block_of n) xs)" by (metis image_eqI list.set_map nth_mem)
  then show ?thesis using Some assms i(1) by (simp add: do_collision_for_def)
qed

lemma merge_keeps_waits:
  assumes "do_collision_for_merge xs p n = Some xs'" and "waits n b d (xs @ [p])"
  shows "waits n b d xs'"
proof -
  obtain i where i: "do_collision_for xs p n = Some i" "xs' = xs[i := merge_into p (xs ! i)]"
    using assms(1) by (auto simp: do_collision_for_merge_def)
  note ci = collision_Some[OF i(1)]
  have m: "merge_into p (xs ! i) \<in> set xs'" using i(2) ci(1) by (simp add: set_update_memI)
  obtain q where q: "q \<in> set xs \<or> q = p" "rq_response_requested q" "block_of n q = b" "d \<in> set (rq_deps q)"
    using assms(2) by (auto simp: waits_def)
  show ?thesis
  proof (cases "q = p \<or> q = xs ! i")
    case True
    then show ?thesis using m q ci(2) unfolding waits_def by (intro bexI[OF _ m]) (auto simp: merge_into_def block_of_def)
  next
    case False
    then obtain j where "j < length xs" "q = xs ! j" "j \<noteq> i" using q(1) by (auto simp: in_set_conv_nth)
    then have "q \<in> set xs'" using i(2) by (metis length_list_update nth_list_update_neq nth_mem)
    then show ?thesis using q by (auto simp: waits_def)
  qed
qed

lemma return_answers:
  assumes "do_collision_for_return wq p m ret = Some ret'"
  shows "waits n b d [p] \<Longrightarrow> answered n b d ret'" and "answered n b d ret \<Longrightarrow> answered n b d ret'"
    and "\<exists>new. ret' = ret @ new \<and> (\<forall>r\<in>set new. \<exists>w\<in>set wq. rs_data r = rq_data w \<and> slice_upper m (rs_address r) = block_of m w)"
proof -
  obtain i where i: "do_collision_for wq p m = Some i"
    and r: "ret' = (if rq_response_requested p then ret @ [\<lparr>rs_address = rq_address p, rs_v_address = rq_v_address p,
       rs_data = rq_data (wq ! i), rs_pf_metadata = rq_pf_metadata (wq ! i), rs_deps = rq_deps p\<rparr>] else ret)"
    using assms by (auto simp: do_collision_for_return_def)
  show "waits n b d [p] \<Longrightarrow> answered n b d ret'" and "answered n b d ret \<Longrightarrow> answered n b d ret'"
    by (auto simp: waits_def answered_def r block_of_def)
  have "wq ! i \<in> set wq" using collision_Some(1)[OF i] by simp
  then show "\<exists>new. ret' = ret @ new \<and> (\<forall>r\<in>set new. \<exists>w\<in>set wq. rs_data r = rq_data w \<and> slice_upper m (rs_address r) = block_of m w)"
    using collision_Some(2)[OF i] by (auto simp: r block_of_def)
qed

lemma rq_loop_waits:
  assumes "rq_loop wq m n before rest ret fwd k = (rq', ret', fwd', k')"
  shows "waits n b d (before @ rest) \<or> answered n b d ret \<Longrightarrow> waits n b d rq' \<or> answered n b d ret'"
    and "\<exists>new. ret' = ret @ new \<and> (\<forall>r\<in>set new. \<exists>w\<in>set wq. rs_data r = rq_data w \<and> slice_upper m (rs_address r) = block_of m w)"
proof -
  have "(waits n b d (before @ rest) \<or> answered n b d ret \<longrightarrow> waits n b d rq' \<or> answered n b d ret')
    \<and> (\<exists>new. ret' = ret @ new \<and> (\<forall>r\<in>set new. \<exists>w\<in>set wq. rs_data r = rq_data w \<and> slice_upper m (rs_address r) = block_of m w))"
    using assms
  proof (induction wq m n before rest ret fwd k rule: rq_loop.induct)
    case (1 wq m n before ret fwd k)
    then show ?case by auto
  next
    case (2 wq m n before p rest ret fwd k)
    show ?case
    proof (cases "do_collision_for_return wq p m ret")
      case (Some ret1)
      note IH = "2.IH"(3)[OF Some] and ra = return_answers[OF Some]
      have eq: "rq_loop wq m n before rest ret1 (fwd + 1) k = (rq', ret', fwd', k')" using "2.prems" Some by simp
      show ?thesis using IH[OF eq] ra(1)[of n b d] ra(2)[of n b d] ra(3) by fastforce
    next
      case None
      show ?thesis
      proof (cases "do_collision_for_merge before p n")
        case (Some before1)
        have eq: "rq_loop wq m n before1 rest ret fwd (k + 1) = (rq', ret', fwd', k')" using "2.prems" None Some by simp
        show ?thesis
          using "2.IH"(2)[OF None Some eq] merge_keeps_waits[OF Some, of b d] by auto
      next
        case mNone: None
        have eq: "rq_loop wq m n (before @ [p\<lparr>rq_forward_checked := True\<rparr>]) rest ret fwd k = (rq', ret', fwd', k')"
          using "2.prems" None mNone by simp
        show ?thesis using "2.IH"(1)[OF None mNone eq] by auto
      qed
    qed
  qed
  then show "waits n b d (before @ rest) \<or> answered n b d ret \<Longrightarrow> waits n b d rq' \<or> answered n b d ret'"
    and "\<exists>new. ret' = ret @ new \<and> (\<forall>r\<in>set new. \<exists>w\<in>set wq. rs_data r = rq_data w \<and> slice_upper m (rs_address r) = block_of m w)"
    by blast+
qed

lemma wq_loop_waits:
  "wq_loop n before rest k = (wq', k') \<Longrightarrow> waits n b d (before @ rest) \<Longrightarrow> waits n b d wq'"
proof (induction n before rest k rule: wq_loop.induct)
  case (2 n before p rest k)
  show ?case
  proof (cases "do_collision_for_merge before p n")
    case None
    then show ?thesis using 2 by simp
  next
    case (Some before1)
    then show ?thesis using 2 merge_keeps_waits[OF Some, of b d] by auto
  qed
qed simp

lemma split_checked: "takeWhile rq_forward_checked q @ dropWhile rq_forward_checked q = q"
  by (rule takeWhile_dropWhile_id)

section \<open>One request per block\<close>

text \<open>In a queue whose requests have the same translation status \<open>t\<close>, a checked queue holds each block
  once.\<close>

definition unique_blocks :: "nat \<Rightarrow> bool \<Rightarrow> request list \<Rightarrow> bool" where
  "unique_blocks n t qs = (distinct (map (block_of n) qs) \<and> (\<forall>q\<in>set qs. rq_is_translated q = t \<and> rq_forward_checked q))"

lemma merge_unique:
  assumes u: "unique_blocks n t xs" and m: "do_collision_for_merge xs p n = Some xs'"
  shows "unique_blocks n t xs'" and "length xs' = length xs"
proof -
  obtain i where i: "do_collision_for xs p n = Some i" "xs' = xs[i := merge_into p (xs ! i)]"
    using m by (auto simp: do_collision_for_merge_def)
  have b: "map (block_of n) xs' = map (block_of n) xs"
    using collision_Some(1)[OF i(1)] by (simp add: i(2) map_update_same)
  have "rq_is_translated q = t \<and> rq_forward_checked q" if "q \<in> set xs'" for q
  proof -
    have "q = merge_into p (xs ! i) \<or> q \<in> set xs" using that set_update_subset_insert[of xs i] by (auto simp: i(2))
    then show ?thesis using u collision_Some(1)[OF i(1)] by (auto simp: unique_blocks_def merge_into_def)
  qed
  then show "unique_blocks n t xs'" using u b by (simp add: unique_blocks_def)
  show "length xs' = length xs" by (simp add: i(2))
qed

lemma append_unique:
  assumes "unique_blocks n t xs" and "do_collision_for_merge xs p n = None" and "rq_is_translated p = t"
  shows "unique_blocks n t (xs @ [p\<lparr>rq_forward_checked := True\<rparr>])"
proof -
  have "\<forall>q\<in>set xs. rq_is_translated q = rq_is_translated p" using assms(1,3) by (simp add: unique_blocks_def)
  then have "block_of n p \<notin> set (map (block_of n) xs)"
    using collision_None_iff[of xs p n] assms(2) by (simp add: do_collision_for_merge_def)
  then show ?thesis using assms(1,3) by (auto simp: unique_blocks_def)
qed

lemma wq_loop_unique:
  assumes "wq_loop n before rest k = (wq', k')" and "unique_blocks n t before" and "\<forall>p\<in>set rest. rq_is_translated p = t"
  shows "unique_blocks n t wq' \<and> length wq' \<le> length before + length rest"
  using assms
proof (induction n before rest k rule: wq_loop.induct)
  case (2 n before p rest k)
  show ?case
  proof (cases "do_collision_for_merge before p n")
    case None
    then show ?thesis using 2 append_unique[OF _ None] by fastforce
  next
    case (Some before1)
    then show ?thesis using 2 merge_unique[OF _ Some] by fastforce
  qed
qed simp

lemma rq_loop_unique:
  assumes "rq_loop wq m n before rest ret fwd k = (rq', ret', fwd', k')"
    and "unique_blocks n t before" and "\<forall>p\<in>set rest. rq_is_translated p = t"
  shows "unique_blocks n t rq' \<and> length rq' \<le> length before + length rest"
  using assms
proof (induction wq m n before rest ret fwd k rule: rq_loop.induct)
  case (2 wq m n before p rest ret fwd k)
  show ?case
  proof (cases "do_collision_for_return wq p m ret")
    case (Some ret1)
    then show ?thesis using 2 by fastforce
  next
    case None
    then show ?thesis
    proof (cases "do_collision_for_merge before p n")
      case mNone: None
      then show ?thesis using 2 None append_unique[OF _ mNone] by fastforce
    next
      case (Some before1)
      then show ?thesis using 2 None merge_unique[OF _ Some] by fastforce
    qed
  qed
qed simp

section \<open>The interface of a queue\<close>

lemma diff_eq_SucD: "a - b = Suc n \<Longrightarrow> a - Suc b = n"
  by arith

text \<open>What the clients of a channel rely on: an addition is accepted exactly when there is room, an
  accepted request is the last of the queue, a refused one leaves it alone.\<close>

locale request_port =
  fixes add :: "request \<Rightarrow> 's \<Rightarrow> bool \<times> 's" and content :: "'s \<Rightarrow> request list" and capacity :: "'s \<Rightarrow> nat"
  assumes accepts: "fst (add p s) \<longleftrightarrow> length (content s) < capacity s"
    and content_add: "content (snd (add p s)) = content s @ (if fst (add p s) then [p\<lparr>rq_forward_checked := False\<rparr>] else [])"
    and capacity_add: "capacity (snd (add p s)) = capacity s"
begin

text \<open>A client that sends requests until the first refusal.\<close>

fun send_all :: "request list \<Rightarrow> 's \<Rightarrow> request list \<times> 's" where
  "send_all [] s = ([], s)"
| "send_all (p # ps) s = (if fst (add p s) then send_all ps (snd (add p s)) else (p # ps, snd (add p s)))"

lemma send_all_delivers:
  assumes "length (content s) \<le> capacity s"
  shows "content (snd (send_all ps s)) = content s
      @ map (\<lambda>p. p\<lparr>rq_forward_checked := False\<rparr>) (take (capacity s - length (content s)) ps)"
    and "fst (send_all ps s) = drop (capacity s - length (content s)) ps"
  using assms
proof (induction ps s rule: send_all.induct)
  case (2 p ps s)
  {
    case 1
    then show ?case
      using 2 accepts[of p s] content_add[of p s] capacity_add[of p s]
      by (cases "capacity s - length (content s)") (auto simp: Suc_le_eq not_less dest: diff_eq_SucD)
  next
    case 2
    then show ?case
      using "2.IH" accepts[of p s] content_add[of p s] capacity_add[of p s]
      by (cases "capacity s - length (content s)") (auto simp: Suc_le_eq not_less dest: diff_eq_SucD)
  }
qed simp_all

lemma capacity_respected:
  "length (content s) \<le> capacity s \<Longrightarrow> length (content (snd (add p s))) \<le> capacity (snd (add p s))"
  using accepts[of p s] content_add[of p s] capacity_add[of p s] by auto

end

lemmas add_defs = add_rq_def add_wq_def add_pq_def do_add_queue_def Let_def

interpretation rq_port: request_port add_rq RQ RQ_SIZE
  by unfold_locales (auto simp: add_defs split: option.splits if_splits)

interpretation wq_port: request_port add_wq WQ WQ_SIZE
  by unfold_locales (auto simp: add_defs split: option.splits if_splits)

interpretation pq_port: request_port add_pq PQ PQ_SIZE
  by unfold_locales (auto simp: add_defs split: option.splits if_splits)

section \<open>The bus of a core\<close>

record CacheBus =
  bus_lower_level :: channel
  bus_cpu :: "32 word"

definition issue_read :: "request \<Rightarrow> CacheBus \<Rightarrow> bool \<times> CacheBus" where
  "issue_read p bus = (let p = p\<lparr>rq_address := rq_v_address p, rq_is_translated := False, rq_cpu := bus_cpu bus, rq_type := LOAD\<rparr>;
     (ok, ll) = add_rq p (bus_lower_level bus) in (ok, bus\<lparr>bus_lower_level := ll\<rparr>))"

definition issue_write :: "request \<Rightarrow> CacheBus \<Rightarrow> bool \<times> CacheBus" where
  "issue_write p bus = (let p = p\<lparr>rq_address := rq_v_address p, rq_is_translated := False, rq_cpu := bus_cpu bus,
        rq_type := WRITE, rq_response_requested := False\<rparr>;
     (ok, ll) = add_wq p (bus_lower_level bus) in (ok, bus\<lparr>bus_lower_level := ll\<rparr>))"

section \<open>Properties\<close>

text \<open>A channel in use: requests are added, the collision check runs, the lower level takes requests
  from the front of a queue and responds, the upper level takes the responses.\<close>

datatype channel_op = Add_RQ request | Add_WQ request | Add_PQ request | Check | Take_RQ nat | Take_WQ nat | Take_PQ nat
  | Respond response | Take_Returned nat

fun channel_step :: "channel_op \<Rightarrow> channel \<Rightarrow> channel" where
  "channel_step (Add_RQ p) c = snd (add_rq p c)"
| "channel_step (Add_WQ p) c = snd (add_wq p c)"
| "channel_step (Add_PQ p) c = snd (add_pq p c)"
| "channel_step Check c = check_collision c"
| "channel_step (Take_RQ n) c = c\<lparr>RQ := drop n (RQ c)\<rparr>"
| "channel_step (Take_WQ n) c = c\<lparr>WQ := drop n (WQ c)\<rparr>"
| "channel_step (Take_PQ n) c = c\<lparr>PQ := drop n (PQ c)\<rparr>"
| "channel_step (Respond r) c = c\<lparr>returned := returned c @ [r]\<rparr>"
| "channel_step (Take_Returned n) c = c\<lparr>returned := drop n (returned c)\<rparr>"

fun requests_translated :: "bool \<Rightarrow> channel_op \<Rightarrow> bool" where
  "requests_translated t (Add_RQ p) = (rq_is_translated p = t)"
| "requests_translated t (Add_WQ p) = (rq_is_translated p = t)"
| "requests_translated t (Add_PQ p) = (rq_is_translated p = t)"
| "requests_translated t _ = True"

definition write_shamt :: "channel \<Rightarrow> nat" where
  "write_shamt c = (if ch_match_offset c then 0 else ch_offset_bits c)"

text \<open>A queue in use: a checked front without duplicates, and unchecked requests behind it.\<close>

definition queue_ok :: "nat \<Rightarrow> bool \<Rightarrow> nat \<Rightarrow> request list \<Rightarrow> bool" where
  "queue_ok n t cap q = (length q \<le> cap \<and> (\<forall>p\<in>set q. rq_is_translated p = t)
     \<and> (\<exists>cs us. q = cs @ us \<and> unique_blocks n t cs \<and> (\<forall>u\<in>set us. \<not> rq_forward_checked u)))"

definition channel_ok :: "bool \<Rightarrow> channel \<Rightarrow> bool" where
  "channel_ok t c = (queue_ok (ch_offset_bits c) t (RQ_SIZE c) (RQ c) \<and> queue_ok (write_shamt c) t (WQ_SIZE c) (WQ c)
     \<and> queue_ok (ch_offset_bits c) t (PQ_SIZE c) (PQ c))"

lemma queue_ok_drop: "queue_ok n t cap q \<Longrightarrow> queue_ok n t cap (drop k q)"
proof -
  assume q: "queue_ok n t cap q"
  then obtain cs us where s: "q = cs @ us" "unique_blocks n t cs" "\<forall>u\<in>set us. \<not> rq_forward_checked u"
    by (auto simp: queue_ok_def)
  have "unique_blocks n t (drop k cs)"
    using s(2) by (auto simp: unique_blocks_def drop_map[symmetric] dest: in_set_dropD)
  moreover have "\<forall>u\<in>set (drop (k - length cs) us). \<not> rq_forward_checked u" using s(3) by (auto dest: in_set_dropD)
  moreover have "drop k q = drop k cs @ drop (k - length cs) us" using s(1) by simp
  ultimately have "\<exists>cs us. drop k q = cs @ us \<and> unique_blocks n t cs \<and> (\<forall>u\<in>set us. \<not> rq_forward_checked u)" by blast
  moreover have "length (drop k q) \<le> cap \<and> (\<forall>p\<in>set (drop k q). rq_is_translated p = t)"
    using q unfolding queue_ok_def by (metis diff_le_self in_set_dropD le_trans length_drop)
  ultimately show ?thesis unfolding queue_ok_def by blast
qed

lemma queue_ok_add:
  "queue_ok n t cap q \<Longrightarrow> rq_is_translated p = t \<Longrightarrow> do_add_queue q cap p = Some q' \<Longrightarrow> queue_ok n t cap q'"
  unfolding queue_ok_def do_add_queue_def by (fastforce split: if_splits)

lemma queue_ok_split:
  assumes "queue_ok n t cap q"
  shows "unique_blocks n t (takeWhile rq_forward_checked q)" and "\<forall>p\<in>set (dropWhile rq_forward_checked q). rq_is_translated p = t"
    and "length (takeWhile rq_forward_checked q) + length (dropWhile rq_forward_checked q) \<le> cap"
proof -
  obtain cs us where q: "q = cs @ us" "unique_blocks n t cs" "\<forall>u\<in>set us. \<not> rq_forward_checked u"
    using assms by (auto simp: queue_ok_def)
  have "takeWhile rq_forward_checked us = []" using q(3) by (cases us) auto
  then have "takeWhile rq_forward_checked q = cs" using q(1,2) by (simp add: unique_blocks_def)
  then show "unique_blocks n t (takeWhile rq_forward_checked q)" using q(2) by simp
  show "\<forall>p\<in>set (dropWhile rq_forward_checked q). rq_is_translated p = t"
    using assms by (auto simp: queue_ok_def dest: set_dropWhileD)
  show "length (takeWhile rq_forward_checked q) + length (dropWhile rq_forward_checked q) \<le> cap"
    using assms arg_cong[OF split_checked[of q], of length] by (simp add: queue_ok_def del: takeWhile_dropWhile_id)
qed

lemma check_collision_parts:
  obtains k1 k2 f1 f2 k3 ret where
    "wq_loop (write_shamt c) (takeWhile rq_forward_checked (WQ c)) (dropWhile rq_forward_checked (WQ c)) 0
       = (WQ (check_collision c), k1)"
    "rq_loop (WQ (check_collision c)) (write_shamt c) (ch_offset_bits c) (takeWhile rq_forward_checked (RQ c))
       (dropWhile rq_forward_checked (RQ c)) (returned c) 0 0 = (RQ (check_collision c), ret, f1, k2)"
    "rq_loop (WQ (check_collision c)) (write_shamt c) (ch_offset_bits c) (takeWhile rq_forward_checked (PQ c))
       (dropWhile rq_forward_checked (PQ c)) ret 0 0 = (PQ (check_collision c), returned (check_collision c), f2, k3)"
    "RQ_SIZE (check_collision c) = RQ_SIZE c" "WQ_SIZE (check_collision c) = WQ_SIZE c" "PQ_SIZE (check_collision c) = PQ_SIZE c"
    "ch_offset_bits (check_collision c) = ch_offset_bits c" "write_shamt (check_collision c) = write_shamt c"
proof -
  obtain wq k1 where w: "wq_loop (write_shamt c) (takeWhile rq_forward_checked (WQ c)) (dropWhile rq_forward_checked (WQ c)) 0
    = (wq, k1)" by fastforce
  obtain rq ret f1 k2 where r: "rq_loop wq (write_shamt c) (ch_offset_bits c) (takeWhile rq_forward_checked (RQ c))
       (dropWhile rq_forward_checked (RQ c)) (returned c) 0 0 = (rq, ret, f1, k2)" by (metis prod_cases4)
  obtain pq ret' f2 k3 where p: "rq_loop wq (write_shamt c) (ch_offset_bits c) (takeWhile rq_forward_checked (PQ c))
       (dropWhile rq_forward_checked (PQ c)) ret 0 0 = (pq, ret', f2, k3)" by (metis prod_cases4)
  have e: "check_collision c = c\<lparr>WQ := wq, RQ := rq, PQ := pq, returned := ret',
        sim_stats := (sim_stats c)\<lparr>WQ_MERGED := WQ_MERGED (sim_stats c) + k1, RQ_MERGED := RQ_MERGED (sim_stats c) + k2,
          PQ_MERGED := PQ_MERGED (sim_stats c) + k3, WQ_FORWARD := WQ_FORWARD (sim_stats c) + f1 + f2\<rparr>\<rparr>"
    using w r p by (simp add: check_collision_def write_shamt_def Let_def)
  have ws: "write_shamt (check_collision c) = write_shamt c" by (simp add: e write_shamt_def)
  show ?thesis
    by (rule that[of k1 ret f1 k2 f2 k3]) (simp_all only: ws, simp_all add: e w r p)
qed

lemma check_collision_unique:
  assumes "channel_ok t c"
  shows "unique_blocks (ch_offset_bits c) t (RQ (check_collision c))" and "unique_blocks (write_shamt c) t (WQ (check_collision c))"
    and "unique_blocks (ch_offset_bits c) t (PQ (check_collision c))" and "length (RQ (check_collision c)) \<le> RQ_SIZE c"
    and "length (WQ (check_collision c)) \<le> WQ_SIZE c" and "length (PQ (check_collision c)) \<le> PQ_SIZE c"
proof -
  have ok: "queue_ok (ch_offset_bits c) t (RQ_SIZE c) (RQ c)" "queue_ok (write_shamt c) t (WQ_SIZE c) (WQ c)"
    "queue_ok (ch_offset_bits c) t (PQ_SIZE c) (PQ c)" using assms by (simp_all add: channel_ok_def)
  note s = queue_ok_split[OF ok(1)] queue_ok_split[OF ok(2)] queue_ok_split[OF ok(3)]
  obtain k1 k2 f1 f2 k3 ret where
    w: "wq_loop (write_shamt c) (takeWhile rq_forward_checked (WQ c)) (dropWhile rq_forward_checked (WQ c)) 0
       = (WQ (check_collision c), k1)" and
    r: "rq_loop (WQ (check_collision c)) (write_shamt c) (ch_offset_bits c) (takeWhile rq_forward_checked (RQ c))
       (dropWhile rq_forward_checked (RQ c)) (returned c) 0 0 = (RQ (check_collision c), ret, f1, k2)" and
    p: "rq_loop (WQ (check_collision c)) (write_shamt c) (ch_offset_bits c) (takeWhile rq_forward_checked (PQ c))
       (dropWhile rq_forward_checked (PQ c)) ret 0 0 = (PQ (check_collision c), returned (check_collision c), f2, k3)"
    by (rule check_collision_parts)
  show "unique_blocks (ch_offset_bits c) t (RQ (check_collision c))" and "unique_blocks (write_shamt c) t (WQ (check_collision c))"
    and "unique_blocks (ch_offset_bits c) t (PQ (check_collision c))" and "length (RQ (check_collision c)) \<le> RQ_SIZE c"
    and "length (WQ (check_collision c)) \<le> WQ_SIZE c" and "length (PQ (check_collision c)) \<le> PQ_SIZE c"
    using wq_loop_unique[OF w s(4,5)] rq_loop_unique[OF r s(1,2)] rq_loop_unique[OF p s(7,8)] s(3,6,9)
    by auto
qed

lemma unique_queue_ok: "unique_blocks n t q \<Longrightarrow> length q \<le> cap \<Longrightarrow> queue_ok n t cap q"
  unfolding queue_ok_def by (intro conjI exI[of _ q] exI[of _ "[]"]) (auto simp: unique_blocks_def)

lemma channel_step_ok:
  assumes ok: "channel_ok t c" and t: "requests_translated t x"
  shows "channel_ok t (channel_step x c)"
proof (cases x)
  case Check
  obtain same: "RQ_SIZE (check_collision c) = RQ_SIZE c" "WQ_SIZE (check_collision c) = WQ_SIZE c"
    "PQ_SIZE (check_collision c) = PQ_SIZE c" "ch_offset_bits (check_collision c) = ch_offset_bits c"
    "write_shamt (check_collision c) = write_shamt c" by (rule check_collision_parts)
  show ?thesis using Check check_collision_unique[OF ok] by (simp add: channel_ok_def same unique_queue_ok)
qed (use ok t in \<open>auto simp: channel_ok_def add_rq_def add_wq_def add_pq_def Let_def write_shamt_def
    intro: queue_ok_drop queue_ok_add split: option.splits\<close>)

lemma new_channel_ok: "channel_ok t (new_channel r p w n m)"
  by (simp add: channel_ok_def new_channel_def queue_ok_def unique_blocks_def)

lemma channel_run_ok:
  "channel_ok t c \<Longrightarrow> \<forall>x\<in>set xs. requests_translated t x \<Longrightarrow> channel_ok t (fold channel_step xs c)"
  by (induction xs arbitrary: c) (auto intro: channel_step_ok)

definition sample_request :: "address \<Rightarrow> nat \<Rightarrow> request" where
  "sample_request a d = default_request\<lparr>rq_cpu := 0, rq_address := a, rq_v_address := a, rq_instr_id := d, rq_deps := [d]\<rparr>"

definition sample_channel :: channel where
  "sample_channel = fold channel_step
     [Add_RQ (sample_request 0x1008 1), Add_RQ (sample_request 0x2000 2), Add_RQ (sample_request 0x1010 3),
      Add_WQ ((sample_request 0x2004 0)\<lparr>rq_data := 7, rq_response_requested := False\<rparr>)] (new_channel 4 4 4 6 False)"

lemma collision_loses_no_dependent_parts:
  fixes c :: channel
  defines "c' \<equiv> check_collision c" and "n \<equiv> ch_offset_bits c"
  shows "waits n b d (RQ c) \<Longrightarrow> waits n b d (RQ c') \<or> answered n b d (returned c')"
    and "waits n b d (PQ c) \<Longrightarrow> waits n b d (PQ c') \<or> answered n b d (returned c')"
    and "\<exists>new. returned c' = returned c @ new
      \<and> (\<forall>r\<in>set new. \<exists>w\<in>set (WQ c'). rs_data r = rq_data w \<and> slice_upper (write_shamt c) (rs_address r) = block_of (write_shamt c) w)"
proof -
  obtain k1 k2 f1 f2 k3 ret where
    w: "wq_loop (write_shamt c) (takeWhile rq_forward_checked (WQ c)) (dropWhile rq_forward_checked (WQ c)) 0 = (WQ c', k1)" and
    r: "rq_loop (WQ c') (write_shamt c) n (takeWhile rq_forward_checked (RQ c))
       (dropWhile rq_forward_checked (RQ c)) (returned c) 0 0 = (RQ c', ret, f1, k2)" and
    p: "rq_loop (WQ c') (write_shamt c) n (takeWhile rq_forward_checked (PQ c))
       (dropWhile rq_forward_checked (PQ c)) ret 0 0 = (PQ c', returned c', f2, k3)"
    unfolding c'_def n_def by (rule check_collision_parts)
  note rw = rq_loop_waits(1)[OF r, of b d, unfolded split_checked] rq_loop_waits(2)[OF r]
    and pw = rq_loop_waits(1)[OF p, of b d, unfolded split_checked] rq_loop_waits(2)[OF p]
  show "waits n b d (RQ c) \<Longrightarrow> waits n b d (RQ c') \<or> answered n b d (returned c')"
    using rw(1) pw(2) by (auto simp: answered_def)
  show "waits n b d (PQ c) \<Longrightarrow> waits n b d (PQ c') \<or> answered n b d (returned c')"
    using pw(1) by blast
  show "\<exists>new. returned c' = returned c @ new
      \<and> (\<forall>r\<in>set new. \<exists>w\<in>set (WQ c'). rs_data r = rq_data w \<and> slice_upper (write_shamt c) (rs_address r) = block_of (write_shamt c) w)"
  proof -
    obtain n1 where "ret = returned c @ n1"
      and 1: "\<forall>r\<in>set n1. \<exists>w\<in>set (WQ c'). rs_data r = rq_data w \<and> slice_upper (write_shamt c) (rs_address r) = block_of (write_shamt c) w"
      using rw(2) by blast
    moreover obtain n2 where "returned c' = ret @ n2"
      and 2: "\<forall>r\<in>set n2. \<exists>w\<in>set (WQ c'). rs_data r = rq_data w \<and> slice_upper (write_shamt c) (rs_address r) = block_of (write_shamt c) w"
      using pw(2) by blast
    ultimately have "returned c' = returned c @ (n1 @ n2)" by simp
    moreover have "\<forall>r\<in>set (n1 @ n2). \<exists>w\<in>set (WQ c'). rs_data r = rq_data w
        \<and> slice_upper (write_shamt c) (rs_address r) = block_of (write_shamt c) w" using 1 2 by auto
    ultimately show ?thesis by blast
  qed
qed

text \<open>C36. The collision check loses no dependent: an instruction that waits for a block in the read or
  the prefetch queue still waits for that block in the same queue after the check, or its answer is in
  the response queue; earlier responses stay, and every new response carries the data of a write that
  is still queued for the same block.\<close>

theorem collision_loses_no_dependent:
  "(waits (ch_offset_bits c) b d (RQ c) \<longrightarrow>
      waits (ch_offset_bits c) b d (RQ (check_collision c)) \<or> answered (ch_offset_bits c) b d (returned (check_collision c)))
    \<and> (waits (ch_offset_bits c) b d (PQ c) \<longrightarrow>
      waits (ch_offset_bits c) b d (PQ (check_collision c)) \<or> answered (ch_offset_bits c) b d (returned (check_collision c)))
    \<and> (\<exists>new. returned (check_collision c) = returned c @ new \<and> (\<forall>r\<in>set new. \<exists>w\<in>set (WQ (check_collision c)).
        rs_data r = rq_data w \<and> slice_upper (write_shamt c) (rs_address r) = block_of (write_shamt c) w))"
  using collision_loses_no_dependent_parts by blast

lemma collision_loses_no_dependent_witness:
  "(waits 6 0x40 3 (RQ (check_collision sample_channel)) \<or> answered 6 0x40 3 (returned (check_collision sample_channel)))
   \<and> length (RQ (check_collision sample_channel)) = 1 \<and> map rs_data (returned (check_collision sample_channel)) = [7]"
proof -
  have o: "ch_offset_bits sample_channel = 6" by code_simp
  have "waits 6 0x40 3 (RQ sample_channel)" by code_simp
  then have "waits 6 0x40 3 (RQ (check_collision sample_channel)) \<or> answered 6 0x40 3 (returned (check_collision sample_channel))"
    using collision_loses_no_dependent[of sample_channel "0x40" 3] unfolding o by blast
  moreover have "length (RQ (check_collision sample_channel)) = 1 \<and> map rs_data (returned (check_collision sample_channel)) = [7]"
    by code_simp
  ultimately show ?thesis by blast
qed

lemma collision_leaves_one_per_block_parts:
  fixes xs :: "channel_op list" and rq_size pq_size wq_size n :: nat and m :: bool
  assumes "\<forall>x\<in>set xs. requests_translated t x"
  defines "c \<equiv> check_collision (fold channel_step xs (new_channel rq_size pq_size wq_size n m))"
  shows "distinct (map (block_of n) (RQ c))" and "distinct (map (block_of n) (PQ c))"
    and "distinct (map (block_of (if m then 0 else n)) (WQ c))"
    and "\<forall>p\<in>set (RQ c @ PQ c @ WQ c). rq_forward_checked p"
    and "length (RQ c) \<le> rq_size" and "length (PQ c) \<le> pq_size" and "length (WQ c) \<le> wq_size"
proof -
  define c0 where "c0 = fold channel_step xs (new_channel rq_size pq_size wq_size n m)"
  have "ch_offset_bits c0 = n \<and> ch_match_offset c0 = m \<and> RQ_SIZE c0 = rq_size \<and> PQ_SIZE c0 = pq_size \<and> WQ_SIZE c0 = wq_size"
  proof -
    have step: "ch_offset_bits (channel_step x c) = ch_offset_bits c \<and> ch_match_offset (channel_step x c) = ch_match_offset c
      \<and> RQ_SIZE (channel_step x c) = RQ_SIZE c \<and> PQ_SIZE (channel_step x c) = PQ_SIZE c \<and> WQ_SIZE (channel_step x c) = WQ_SIZE c" for x c
      by (cases x) (auto simp: add_defs check_collision_def split: option.splits prod.splits)
    have "ch_offset_bits (fold channel_step xs c) = ch_offset_bits c \<and> ch_match_offset (fold channel_step xs c) = ch_match_offset c
      \<and> RQ_SIZE (fold channel_step xs c) = RQ_SIZE c \<and> PQ_SIZE (fold channel_step xs c) = PQ_SIZE c
      \<and> WQ_SIZE (fold channel_step xs c) = WQ_SIZE c" for c
      by (induction xs arbitrary: c) (simp_all add: step)
    then show ?thesis by (simp add: c0_def new_channel_def)
  qed
  then have f: "ch_offset_bits c0 = n" "write_shamt c0 = (if m then 0 else n)" "RQ_SIZE c0 = rq_size" "PQ_SIZE c0 = pq_size"
    "WQ_SIZE c0 = wq_size" by (simp_all add: write_shamt_def)
  have ok: "channel_ok t c0" unfolding c0_def by (rule channel_run_ok[OF new_channel_ok assms(1)])
  note u = check_collision_unique[OF ok, unfolded f]
  have c: "c = check_collision c0" by (simp add: c_def c0_def)
  show "distinct (map (block_of n) (RQ c))" and "distinct (map (block_of n) (PQ c))"
    and "distinct (map (block_of (if m then 0 else n)) (WQ c))"
    and "\<forall>p\<in>set (RQ c @ PQ c @ WQ c). rq_forward_checked p"
    using u(1-3) unfolding c unique_blocks_def by auto
  show "length (RQ c) \<le> rq_size" and "length (PQ c) \<le> pq_size" and "length (WQ c) \<le> wq_size"
    using u(4-6) by (simp_all add: c)
qed

text \<open>The collision check leaves one request per block: whatever the queues have seen, if all
  requests have the same translation status, after a check the blocks of the read queue, of the
  prefetch queue and of the write queue are pairwise different, every request is marked as checked, and
  no queue is longer than its size.\<close>

theorem collision_leaves_one_per_block:
  fixes xs :: "channel_op list" and rq_size pq_size wq_size n :: nat and m :: bool
  assumes "\<forall>x\<in>set xs. requests_translated t x"
  defines "c \<equiv> check_collision (fold channel_step xs (new_channel rq_size pq_size wq_size n m))"
  shows "distinct (map (block_of n) (RQ c)) \<and> distinct (map (block_of n) (PQ c))
    \<and> distinct (map (block_of (if m then 0 else n)) (WQ c))
    \<and> (\<forall>p\<in>set (RQ c @ PQ c @ WQ c). rq_forward_checked p)
    \<and> length (RQ c) \<le> rq_size \<and> length (PQ c) \<le> pq_size \<and> length (WQ c) \<le> wq_size"
  unfolding c_def by (intro conjI collision_leaves_one_per_block_parts[OF assms(1)])

lemma collision_leaves_one_per_block_witness:
  "distinct (map (block_of 6) (RQ (check_collision (fold channel_step
     [Add_RQ (sample_request 0x1008 1), Add_RQ (sample_request 0x1010 3)] (new_channel 4 4 4 6 False)))))"
proof -
  have "\<forall>x\<in>set [Add_RQ (sample_request 0x1008 1), Add_RQ (sample_request 0x1010 3)]. requests_translated True x"
    by (simp add: sample_request_def default_request_def)
  from collision_leaves_one_per_block[OF this, where n = 6 and rq_size = 4 and pq_size = 4 and wq_size = 4 and m = False]
  show ?thesis by blast
qed

end
