(* ===== verification/Addresses.thy ===== *)
theory Addresses
  imports Msl_Bits
begin

text \<open>Extents and address slices, \<open>inc/extent.h\<close> and \<open>inc/address.h\<close>: a slice is a range of bit positions
  and the value of an address in it.  Bit widths are natural numbers; the failed assertion of an
  extent and the exceptions of a slice are the value \<open>None\<close>.\<close>

section \<open>Extents\<close>

record extent =
  ex_upper :: nat
  ex_lower :: nat

definition address_bits :: nat where "address_bits = 64"

definition dynamic_extent :: "nat \<Rightarrow> nat \<Rightarrow> extent option" where
  "dynamic_extent up low = (if low \<le> up then Some \<lparr>ex_upper = up, ex_lower = low\<rparr> else None)"

definition dynamic_extent_size :: "nat \<Rightarrow> nat \<Rightarrow> extent option" where
  "dynamic_extent_size low sz = dynamic_extent (low + sz) low"

definition page_number_extent :: "nat \<Rightarrow> extent" where
  "page_number_extent log2_page = \<lparr>ex_upper = address_bits, ex_lower = log2_page\<rparr>"

definition page_offset_extent :: "nat \<Rightarrow> extent" where
  "page_offset_extent log2_page = \<lparr>ex_upper = log2_page, ex_lower = 0\<rparr>"

definition block_number_extent :: "nat \<Rightarrow> extent" where
  "block_number_extent log2_block = \<lparr>ex_upper = address_bits, ex_lower = log2_block\<rparr>"

definition block_offset_extent :: "nat \<Rightarrow> extent" where
  "block_offset_extent log2_block = \<lparr>ex_upper = log2_block, ex_lower = 0\<rparr>"

definition extent_size :: "extent \<Rightarrow> nat" where
  "extent_size e = ex_upper e - ex_lower e"

definition extent_union :: "extent \<Rightarrow> extent \<Rightarrow> extent" where
  "extent_union l r = \<lparr>ex_upper = max (ex_upper l) (ex_upper r), ex_lower = min (ex_lower l) (ex_lower r)\<rparr>"

definition relative_extent :: "extent \<Rightarrow> extent \<Rightarrow> extent" where
  "relative_extent whole sub = (let n = extent_size whole
     in \<lparr>ex_upper = ex_lower whole + min (ex_upper sub) n, ex_lower = ex_lower whole + min (ex_lower sub) n\<rparr>)"

definition translate :: "address \<Rightarrow> extent \<Rightarrow> extent \<Rightarrow> address" where
  "translate v from_ext to_ext = (if ex_lower from_ext \<le> ex_lower to_ext
     then drop_bit (ex_lower to_ext - ex_lower from_ext) v
     else push_bit (ex_lower from_ext - ex_lower to_ext) v)"

definition extent_shift_down :: "extent \<Rightarrow> nat \<Rightarrow> extent" where
  "extent_shift_down e shamt = \<lparr>ex_upper = ex_upper e - shamt, ex_lower = ex_lower e - shamt\<rparr>"

definition extent_shift_up :: "extent \<Rightarrow> nat \<Rightarrow> extent" where
  "extent_shift_up e shamt = \<lparr>ex_upper = ex_upper e + shamt, ex_lower = ex_lower e + shamt\<rparr>"

section \<open>Slices\<close>

record address_slice =
  sl_extent :: extent
  sl_value :: address

definition slice_of_value :: "extent \<Rightarrow> address \<Rightarrow> address_slice option" where
  "slice_of_value ext v = (if ex_upper ext > address_bits \<or> ex_lower ext > address_bits then None
     else Some \<lparr>sl_extent = ext, sl_value = v AND bitmask_to (extent_size ext)\<rparr>)"

definition slice_of_slice :: "extent \<Rightarrow> address_slice \<Rightarrow> address_slice option" where
  "slice_of_slice ext s = (if ex_upper ext > address_bits \<or> ex_lower ext > address_bits then None
     else Some \<lparr>sl_extent = ext,
       sl_value = drop_bit (ex_lower ext) (push_bit (ex_lower (sl_extent s)) (sl_value s) AND bitmask (ex_upper ext) (ex_lower ext))\<rparr>)"

text \<open>\<open>to<T>()\<close> for an integral type with the given greatest value.\<close>

definition slice_to :: "nat \<Rightarrow> address_slice \<Rightarrow> nat option" where
  "slice_to tmax s = (if unat (sl_value s) > tmax then None else Some (unat (sl_value s)))"

definition slice_eq :: "address_slice \<Rightarrow> address_slice \<Rightarrow> bool option" where
  "slice_eq a b = (if ex_upper (sl_extent a) \<noteq> ex_upper (sl_extent b) \<or> ex_lower (sl_extent a) \<noteq> ex_lower (sl_extent b)
     then None else Some (sl_value a = sl_value b))"

definition slice_less :: "address_slice \<Rightarrow> address_slice \<Rightarrow> bool option" where
  "slice_less a b = (if ex_upper (sl_extent a) \<noteq> ex_upper (sl_extent b) \<or> ex_lower (sl_extent a) \<noteq> ex_lower (sl_extent b)
     then None else Some (sl_value a < sl_value b))"

definition slice_add :: "address_slice \<Rightarrow> int \<Rightarrow> address_slice" where
  "slice_add s delta = s\<lparr>sl_value := (sl_value s + word_of_int delta) AND bitmask_to (extent_size (sl_extent s))\<rparr>"

definition slice_sub :: "address_slice \<Rightarrow> int \<Rightarrow> address_slice" where
  "slice_sub s delta = slice_add s (- delta)"

definition slice_incr :: "address_slice \<Rightarrow> address_slice" where
  "slice_incr s = slice_add s 1"

definition slice_decr :: "address_slice \<Rightarrow> address_slice" where
  "slice_decr s = slice_sub s 1"

definition sub_slice :: "extent \<Rightarrow> address_slice \<Rightarrow> address_slice option" where
  "sub_slice sub s = slice_of_value (relative_extent (sl_extent s) sub) (drop_bit (ex_lower sub) (sl_value s))"

definition slice_upper_of :: "nat \<Rightarrow> address_slice \<Rightarrow> address_slice option" where
  "slice_upper_of new_lower s = Option.bind (dynamic_extent address_bits new_lower) (\<lambda>e. sub_slice e s)"

definition slice_lower_of :: "nat \<Rightarrow> address_slice \<Rightarrow> address_slice option" where
  "slice_lower_of new_upper s = Option.bind (dynamic_extent new_upper 0) (\<lambda>e. sub_slice e s)"

definition split_slice :: "nat \<Rightarrow> address_slice \<Rightarrow> (address_slice \<times> address_slice) option" where
  "split_slice loc s = Option.bind (slice_upper_of loc s) (\<lambda>u. map_option (Pair u) (slice_lower_of loc s))"

definition slice_uoffset :: "address_slice \<Rightarrow> address_slice \<Rightarrow> nat option" where
  "slice_uoffset base other = (if sl_value base > sl_value other then None else Some (unat (sl_value other - sl_value base)))"

definition slice_offset :: "address_slice \<Rightarrow> address_slice \<Rightarrow> int option" where
  "slice_offset base other = Option.bind (slice_less other base) (\<lambda>neg.
     Option.bind (if neg then slice_uoffset other base else slice_uoffset base other) (\<lambda>d.
       if d > 2 ^ 63 - 1 then None else Some (if neg then - int d else int d)))"

text \<open>\<open>splice\<close> folds its slices; the bits of a later slice overwrite those of the earlier ones.\<close>

definition splice_two :: "address_slice \<Rightarrow> address_slice \<Rightarrow> address_slice option" where
  "splice_two a b = (let
     return_extent = extent_union (sl_extent a) (sl_extent b);
     lhs_shifted = translate (sl_value a) (sl_extent a) return_extent;
     rhs_shifted = translate (sl_value b) (sl_extent b) return_extent;
     window = extent_shift_down (sl_extent b) (ex_lower return_extent)
   in slice_of_value return_extent (splice_bits lhs_shifted rhs_shifted (ex_upper window) (ex_lower window)))"

section \<open>Laws\<close>

text \<open>The full address, and the conversion back to it (\<open>champsim::address\<close> of a slice).\<close>

definition full_extent :: extent where
  "full_extent = \<lparr>ex_upper = address_bits, ex_lower = 0\<rparr>"

definition full_slice :: "address \<Rightarrow> address_slice" where
  "full_slice a = \<lparr>sl_extent = full_extent, sl_value = a\<rparr>"

definition to_address :: "address_slice \<Rightarrow> address option" where
  "to_address s = map_option sl_value (slice_of_slice full_extent s)"

definition aligned :: "nat \<Rightarrow> address \<Rightarrow> address" where
  "aligned n a = push_bit n (drop_bit n a)"

lemma bitmask_to_id: "v AND bitmask_to 64 = v"
  by (simp add: bitmask_to_def bitmask_def)

lemma upper_slice:
  assumes "n \<le> 64"
  shows "slice_upper_of n (full_slice a) = Some \<lparr>sl_extent = \<lparr>ex_upper = 64, ex_lower = n\<rparr>, sl_value = drop_bit n a\<rparr>"
proof -
  have "drop_bit n a AND bitmask_to (64 - n) = drop_bit n a"
    using assms by (intro bit_eqI) (auto simp: bit_and_iff bit_bitmask_to bit_drop_bit_eq dest: bit_imp_le_length)
  then show ?thesis
    using assms by (simp add: slice_upper_of_def dynamic_extent_def sub_slice_def relative_extent_def full_slice_def full_extent_def
        extent_size_def address_bits_def slice_of_value_def Let_def)
qed

lemma lower_slice:
  assumes "n \<le> 64"
  shows "slice_lower_of n (full_slice a) = Some \<lparr>sl_extent = \<lparr>ex_upper = n, ex_lower = 0\<rparr>, sl_value = take_bit n a\<rparr>"
proof -
  have "a AND bitmask_to n = take_bit n a"
    by (intro bit_eqI) (auto simp: bit_and_iff bit_bitmask_to bit_take_bit_iff)
  then show ?thesis
    using assms by (simp add: slice_lower_of_def dynamic_extent_def sub_slice_def relative_extent_def full_slice_def full_extent_def
        extent_size_def address_bits_def slice_of_value_def Let_def)
qed

text \<open>The address of an upper slice is the address with its low bits cleared.\<close>

lemma to_address_upper:
  assumes "n \<le> 64"
  shows "Option.bind (slice_upper_of n (full_slice a)) to_address = Some (aligned n a)"
  using assms by (simp add: upper_slice to_address_def slice_of_slice_def full_extent_def address_bits_def aligned_def bitmask_def)

lemma slice_eq_upper:
  assumes "n \<le> 64"
  shows "Option.bind (slice_upper_of n (full_slice a)) (\<lambda>x. Option.bind (slice_upper_of n (full_slice b)) (slice_eq x))
    = Some (drop_bit n a = drop_bit n b)"
  using assms by (simp add: upper_slice slice_eq_def)

section \<open>Property\<close>

lemma address_roundtrip_parts:
  "loc \<le> address_bits \<Longrightarrow> Option.bind (split_slice loc (full_slice a)) (\<lambda>(u, l). splice_two u l) = Some (full_slice a)"
  "slice_of_value ext v = Some x \<Longrightarrow> slice_of_value ext w = Some y \<Longrightarrow> slice_offset x y = Some d \<Longrightarrow> slice_add x d = y"
proof -
  show "Option.bind (split_slice loc (full_slice a)) (\<lambda>(u, l). splice_two u l) = Some (full_slice a)" if "loc \<le> address_bits"
  proof -
    have l: "loc \<le> 64" using that by (simp add: address_bits_def)
    have "splice_bits (push_bit loc (drop_bit loc a)) (take_bit loc a) loc 0 = a"
      using l by (intro bit_eqI) (auto simp: splice_bits_def bit_or_iff bit_and_iff bit_not_iff bit_bitmask bit_push_bit_iff
          bit_drop_bit_eq bit_take_bit_iff)
    moreover have "split_slice loc (full_slice a) = Some (\<lparr>sl_extent = \<lparr>ex_upper = 64, ex_lower = loc\<rparr>, sl_value = drop_bit loc a\<rparr>,
        \<lparr>sl_extent = \<lparr>ex_upper = loc, ex_lower = 0\<rparr>, sl_value = take_bit loc a\<rparr>)"
      using l by (simp add: split_slice_def upper_slice lower_slice)
    ultimately show ?thesis
      using l by (cases "loc = 0") (simp_all add: splice_two_def extent_union_def translate_def extent_shift_down_def slice_of_value_def full_slice_def
          full_extent_def address_bits_def extent_size_def bitmask_to_id Let_def)
  qed
  show "slice_add x d = y" if x: "slice_of_value ext v = Some x" and y: "slice_of_value ext w = Some y" and d: "slice_offset x y = Some d"
  proof -
    have e: "sl_extent x = ext" "sl_extent y = ext" "sl_value y = w AND bitmask_to (extent_size ext)"
      using x y by (auto simp: slice_of_value_def split: if_splits)
    then have m: "sl_value y AND bitmask_to (extent_size ext) = sl_value y" by (simp add: and.assoc)
    have "sl_value x + word_of_int d = sl_value y"
      using d e by (auto simp: slice_offset_def slice_less_def slice_uoffset_def split: if_splits option.splits)
    then show ?thesis using e m by (simp add: slice_add_def)
  qed
qed

text \<open>C37. Address slices round-trip: an address split at any bit position and spliced again is the same
  address, and the offset between two slices of one extent, when it is representable, added to the
  first gives the second.\<close>

theorem address_roundtrip:
  "(loc \<le> address_bits \<longrightarrow> Option.bind (split_slice loc (full_slice a)) (\<lambda>(u, l). splice_two u l) = Some (full_slice a))
    \<and> (slice_of_value ext v = Some x \<and> slice_of_value ext w = Some y \<and> slice_offset x y = Some d \<longrightarrow> slice_add x d = y)"
  using address_roundtrip_parts by blast

lemma address_roundtrip_witness:
  "Option.bind (split_slice 12 (full_slice 0xabcdef)) (\<lambda>(u, l). splice_two u l) = Some (full_slice 0xabcdef)"
  using address_roundtrip[of 12 "0xabcdef"] by (simp add: address_bits_def)

end
