(* ===== verification/Waitable.thy ===== *)
theory Waitable
  imports Main
begin

text \<open>A value with a time at which it is ready, \<open>inc/waitable.h\<close>.  Times are those of the simulation
  clock, in picoseconds; the sentinel is the greatest time.\<close>

type_synonym time = int

definition time_sentinel :: time where "time_sentinel = 2 ^ 63 - 1"

record 'v waitable =
  m_value :: 'v
  event_cycle :: "time option"

definition waitable_of :: "'v \<Rightarrow> 'v waitable" where
  "waitable_of v = \<lparr>m_value = v, event_cycle = None\<rparr>"

definition waitable_at :: "'v \<Rightarrow> time \<Rightarrow> 'v waitable" where
  "waitable_at v t = \<lparr>m_value = v, event_cycle = Some t\<rparr>"

definition ready_at :: "time \<Rightarrow> 'v waitable \<Rightarrow> 'v waitable" where
  "ready_at t w = w\<lparr>event_cycle := Some t\<rparr>"

definition ready_by :: "time \<Rightarrow> 'v waitable \<Rightarrow> 'v waitable" where
  "ready_by t w = w\<lparr>event_cycle := Some (min t (case event_cycle w of None \<Rightarrow> time_sentinel | Some e \<Rightarrow> e))\<rparr>"

definition waitable_map :: "('v \<Rightarrow> 'w) \<Rightarrow> 'v waitable \<Rightarrow> 'w waitable" where
  "waitable_map f w = (case event_cycle w of Some e \<Rightarrow> waitable_at (f (m_value w)) e | None \<Rightarrow> waitable_of (f (m_value w)))"

definition waitable_and_then :: "('v \<Rightarrow> 'w waitable) \<Rightarrow> 'v waitable \<Rightarrow> 'w waitable" where
  "waitable_and_then f w = f (m_value w)"

definition waitable_reset :: "'v waitable \<Rightarrow> 'v waitable" where
  "waitable_reset w = w\<lparr>event_cycle := None\<rparr>"

definition is_ready_at :: "'v waitable \<Rightarrow> time \<Rightarrow> bool" where
  "is_ready_at w t = ((case event_cycle w of None \<Rightarrow> time_sentinel | Some e \<Rightarrow> e) \<le> t)"

definition has_unknown_readiness :: "'v waitable \<Rightarrow> bool" where
  "has_unknown_readiness w = (event_cycle w = None)"

lemma unknown_not_ready: "has_unknown_readiness w \<Longrightarrow> t < time_sentinel \<Longrightarrow> \<not> is_ready_at w t"
  by (simp add: has_unknown_readiness_def is_ready_at_def)

lemma is_ready_mono: "is_ready_at w t \<Longrightarrow> t \<le> u \<Longrightarrow> is_ready_at w u"
  by (simp add: is_ready_at_def)

lemma ready_by_at: "is_ready_at (ready_by t w) u \<longleftrightarrow> t \<le> u \<or> is_ready_at w u"
  by (auto simp: ready_by_def is_ready_at_def)

end
