(* ===== verification/Cache.thy ===== *)
theory Cache
  imports Channel Bandwidth Event_Counter Waitable Addresses "HOL-Library.Product_Lexorder" "HOL-Library.Monad_Syntax"
begin

text \<open>
  A cache of the memory hierarchy, \<open>src/cache.cc\<close> and the class of \<open>inc/cache.h\<close>: tag checks, the miss
  status holding registers (MSHRs), fills with writebacks, address translation of requests, and one cycle
  of operation.  The prefetcher and the replacement policy are modules: their hooks are the record
  \<open>cache_hooks\<close>, and their state is the field \<open>c_modules\<close>.  The queues to the upper levels are numbered;
  \<open>c_upper_levels\<close> is the vector of pointers to them, which the code rotates, and \<open>to_return\<close> lists their
  numbers.  \<open>c_log2_page\<close> and \<open>c_log2_block\<close> are constants of the generated configuration.  A failed assertion, a null
  dereference and a throw are \<open>None\<close>; times are in picoseconds.
\<close>

section \<open>State\<close>

record cache_block =
  cb_valid :: bool
  cb_prefetch :: bool
  cb_dirty :: bool
  cb_address :: address
  cb_v_address :: address
  cb_data :: address
  cb_pf_metadata :: "32 word"

definition empty_block :: cache_block where
  "empty_block = \<lparr>cb_valid = False, cb_prefetch = False, cb_dirty = False, cb_address = 0, cb_v_address = 0,
     cb_data = 0, cb_pf_metadata = 0\<rparr>"

record tag_lookup_type =
  tl_address :: address
  tl_v_address :: address
  tl_data :: address
  tl_ip :: address
  tl_instr_id :: nat
  tl_pf_metadata :: "32 word"
  tl_cpu :: "32 word"
  tl_type :: access_type
  tl_prefetch_from_this :: bool
  tl_skip_fill :: bool
  tl_is_translated :: bool
  tl_translate_issued :: bool
  tl_asid :: "8 word \<times> 8 word"
  tl_event_cycle :: time
  tl_deps :: "nat list"
  tl_to_return :: "nat list"

text \<open>The constructor copies the request, but not its address space.\<close>

definition tag_of_request :: "request \<Rightarrow> bool \<Rightarrow> bool \<Rightarrow> tag_lookup_type" where
  "tag_of_request req local_pref skip = \<lparr>tl_address = rq_address req, tl_v_address = rq_v_address req,
     tl_data = rq_data req, tl_ip = rq_ip req, tl_instr_id = rq_instr_id req, tl_pf_metadata = rq_pf_metadata req,
     tl_cpu = rq_cpu req, tl_type = rq_type req, tl_prefetch_from_this = local_pref, tl_skip_fill = skip,
     tl_is_translated = rq_is_translated req, tl_translate_issued = False, tl_asid = (255, 255),
     tl_event_cycle = time_sentinel, tl_deps = rq_deps req, tl_to_return = []\<rparr>"

record mshr_type =
  ms_address :: address
  ms_v_address :: address
  ms_ip :: address
  ms_instr_id :: nat
  ms_data_promise :: "(address \<times> 32 word) waitable"
  ms_cpu :: "32 word"
  ms_type :: access_type
  ms_prefetch_from_this :: bool
  ms_asid :: "8 word \<times> 8 word"
  ms_time_enqueued :: time
  ms_deps :: "nat list"
  ms_to_return :: "nat list"

definition mshr_of_tag :: "tag_lookup_type \<Rightarrow> time \<Rightarrow> mshr_type" where
  "mshr_of_tag req t = \<lparr>ms_address = tl_address req, ms_v_address = tl_v_address req, ms_ip = tl_ip req,
     ms_instr_id = tl_instr_id req, ms_data_promise = waitable_of (0, 0), ms_cpu = tl_cpu req, ms_type = tl_type req,
     ms_prefetch_from_this = tl_prefetch_from_this req, ms_asid = (255, 255), ms_time_enqueued = t,
     ms_deps = tl_deps req, ms_to_return = tl_to_return req\<rparr>"

definition mshr_merge :: "mshr_type \<Rightarrow> mshr_type \<Rightarrow> mshr_type" where
  "mshr_merge predecessor successor = (let
     merged_instr = set_union (ms_deps predecessor) (ms_deps successor);
     merged_return = set_union (ms_to_return predecessor) (ms_to_return successor);
     retval = (if ms_type successor = PREFETCH then predecessor else successor)
   in retval\<lparr>ms_time_enqueued := (if ms_type successor \<noteq> PREFETCH \<and> ms_type predecessor = PREFETCH
          then ms_time_enqueued successor else ms_time_enqueued predecessor),
        ms_deps := merged_instr, ms_to_return := merged_return, ms_data_promise := ms_data_promise predecessor\<rparr>)"

type_synonym access_counter = "(access_type \<times> 32 word) event_counter"

record cache_stats =
  pf_requested :: nat
  pf_issued :: nat
  pf_useful :: nat
  pf_useless :: nat
  pf_fill :: nat
  st_hits :: access_counter
  st_misses :: access_counter
  mshr_merges :: access_counter
  mshr_returns :: access_counter
  total_miss_latency_cycles :: int

definition zero_cache_stats :: cache_stats where
  "zero_cache_stats = \<lparr>pf_requested = 0, pf_issued = 0, pf_useful = 0, pf_useless = 0, pf_fill = 0, st_hits = ec_empty,
     st_misses = ec_empty, mshr_merges = ec_empty, mshr_returns = ec_empty, total_miss_latency_cycles = 0\<rparr>"

record 'm CACHE =
  c_clock_period :: time
  c_current_time :: time
  c_warmup :: bool
  c_log2_page :: nat
  c_log2_block :: nat
  c_channels :: "channel array"
  c_upper_levels :: "nat list"
  c_lower_level :: channel
  c_lower_translate :: "channel option"
  c_cpu :: "32 word"
  c_NUM_SET :: nat
  c_NUM_WAY :: nat
  c_MSHR_SIZE :: nat
  c_PQ_SIZE :: nat
  c_HIT_LATENCY :: time
  c_FILL_LATENCY :: time
  c_OFFSET_BITS :: nat
  c_block :: "cache_block array"
  c_MAX_TAG :: int
  c_MAX_FILL :: int
  c_prefetch_as_load :: bool
  c_match_offset_bits :: bool
  c_virtual_prefetch :: bool
  c_pref_activate_mask :: "access_type list"
  c_sim_stats :: cache_stats
  c_roi_stats :: cache_stats
  c_MSHR :: "mshr_type list"
  c_inflight_writes :: "mshr_type list"
  c_internal_PQ :: "tag_lookup_type list"
  c_inflight_tag_check :: "tag_lookup_type list"
  c_translation_stash :: "tag_lookup_type list"
  c_modules :: 'm

text \<open>The hooks of the modules.  A prefetcher may call back into the cache, so its hooks act on the whole
  state; the arguments are those of the code.\<close>

record 'm cache_hooks =
  h_prefetcher_cache_operate :: "address \<Rightarrow> address \<Rightarrow> bool \<Rightarrow> bool \<Rightarrow> access_type \<Rightarrow> 32 word \<Rightarrow> 'm CACHE \<Rightarrow> 32 word \<times> 'm CACHE"
  h_prefetcher_cache_fill :: "address \<Rightarrow> nat \<Rightarrow> nat \<Rightarrow> bool \<Rightarrow> address \<Rightarrow> 32 word \<Rightarrow> 'm CACHE \<Rightarrow> 32 word \<times> 'm CACHE"
  h_prefetcher_cycle_operate :: "'m CACHE \<Rightarrow> 'm CACHE"
  h_find_victim :: "32 word \<Rightarrow> nat \<Rightarrow> nat \<Rightarrow> cache_block list \<Rightarrow> address \<Rightarrow> address \<Rightarrow> access_type \<Rightarrow> 'm \<Rightarrow> (int \<times> 'm) option"
  h_update_replacement_state :: "32 word \<Rightarrow> nat \<Rightarrow> nat \<Rightarrow> address \<Rightarrow> address \<Rightarrow> address \<Rightarrow> access_type \<Rightarrow> bool \<Rightarrow> 'm \<Rightarrow> 'm option"
  h_replacement_cache_fill :: "32 word \<Rightarrow> nat \<Rightarrow> nat \<Rightarrow> address \<Rightarrow> address \<Rightarrow> address \<Rightarrow> access_type \<Rightarrow> 'm \<Rightarrow> 'm option"

section \<open>Sets and addresses\<close>

definition get_set_index :: "'m CACHE \<Rightarrow> address \<Rightarrow> nat" where
  "get_set_index c a = unat (take_bit (lg2 (c_NUM_SET c)) (drop_bit (c_OFFSET_BITS c) a))"

definition set_first :: "'m CACHE \<Rightarrow> address \<Rightarrow> nat" where
  "set_first c a = get_set_index c a * c_NUM_WAY c"

definition matches_address :: "'m CACHE \<Rightarrow> address \<Rightarrow> address \<Rightarrow> bool" where
  "matches_address c a x = (slice_upper (c_OFFSET_BITS c) x = slice_upper (c_OFFSET_BITS c) a)"

definition module_address :: "'m CACHE \<Rightarrow> address \<Rightarrow> address \<Rightarrow> address" where
  "module_address c a v_a = aligned (if c_match_offset_bits c then 0 else c_OFFSET_BITS c) (if c_virtual_prefetch c then v_a else a)"

definition find_block :: "'m CACHE \<Rightarrow> address \<Rightarrow> nat option" where
  "find_block c a = find_if (\<lambda>i. cb_valid (c_block c i) \<and> matches_address c a (cb_address (c_block c i)))
     (set_first c a) (set_first c a + c_NUM_WAY c)"

definition invalidate_entry :: "address \<Rightarrow> 'm CACHE \<Rightarrow> nat \<times> 'm CACHE" where
  "invalidate_entry a c = (case find_if (\<lambda>i. matches_address c a (cb_address (c_block c i)))
       (set_first c a) (set_first c a + c_NUM_WAY c) of
     None \<Rightarrow> (c_NUM_WAY c, c)
   | Some i \<Rightarrow> (i - set_first c a, c\<lparr>c_block := (c_block c)(i := (c_block c i)\<lparr>cb_valid := False\<rparr>)\<rparr>))"

definition should_activate_prefetcher :: "'m CACHE \<Rightarrow> tag_lookup_type \<Rightarrow> bool" where
  "should_activate_prefetcher c pkt = (\<not> tl_prefetch_from_this pkt \<and> tl_type pkt \<in> set (c_pref_activate_mask c))"

text \<open>A duration that does not apply during warmup.\<close>

definition unless_warmup :: "'m CACHE \<Rightarrow> time \<Rightarrow> time" where
  "unless_warmup c d = (if c_warmup c then 0 else d)"

definition deliver :: "nat list \<Rightarrow> response \<Rightarrow> 'm CACHE \<Rightarrow> 'm CACHE" where
  "deliver ids resp c = c\<lparr>c_channels := fold (\<lambda>i ch. ch(i := (ch i)\<lparr>returned := returned (ch i) @ [resp]\<rparr>)) ids (c_channels c)\<rparr>"

definition on_stats :: "(cache_stats \<Rightarrow> cache_stats) \<Rightarrow> 'm CACHE \<Rightarrow> 'm CACHE" where
  "on_stats f c = c\<lparr>c_sim_stats := f (c_sim_stats c)\<rparr>"

section \<open>Fills\<close>

definition fill_block :: "mshr_type \<Rightarrow> 32 word \<Rightarrow> cache_block" where
  "fill_block mshr metadata = \<lparr>cb_valid = True, cb_prefetch = ms_prefetch_from_this mshr, cb_dirty = (ms_type mshr = WRITE),
     cb_address = ms_address mshr, cb_v_address = ms_v_address mshr, cb_data = fst (m_value (ms_data_promise mshr)),
     cb_pf_metadata = metadata\<rparr>"

definition writeback_packet :: "mshr_type \<Rightarrow> cache_block \<Rightarrow> request" where
  "writeback_packet m b = default_request\<lparr>rq_cpu := ms_cpu m, rq_address := cb_address b, rq_data := cb_data b,
     rq_instr_id := ms_instr_id m, rq_ip := 0, rq_type := WRITE, rq_pf_metadata := cb_pf_metadata b,
     rq_response_requested := False\<rparr>"

text \<open>The way to fill: the first invalid one, else the victim of the policy (\<open>NUM_WAY\<close> for a bypass).\<close>

definition choose_way :: "'m cache_hooks \<Rightarrow> mshr_type \<Rightarrow> 'm CACHE \<Rightarrow> (nat \<times> 'm CACHE) option" where
  "choose_way h m c = (let si = get_set_index c (ms_address m); b = set_first c (ms_address m)
     in case find_if (\<lambda>i. \<not> cb_valid (c_block c i)) b (b + c_NUM_WAY c) of
          Some i \<Rightarrow> Some (i - b, c)
        | None \<Rightarrow> do {
            (v, s) \<leftarrow> h_find_victim h (ms_cpu m) (ms_instr_id m) si (map (c_block c) [b..<b + c_NUM_WAY c]) (ms_ip m)
                        (ms_address m) (ms_type m) (c_modules c);
            if v < 0 \<or> int (c_NUM_WAY c) < v \<or> (v = int (c_NUM_WAY c) \<and> ms_type m = WRITE) then None
            else Some (nat v, c\<lparr>c_modules := s\<rparr>) })"

text \<open>The eviction of a dirty block: \<open>False\<close> when the lower level refuses the writeback.\<close>

definition write_back :: "mshr_type \<Rightarrow> nat \<Rightarrow> 'm CACHE \<Rightarrow> bool \<times> 'm CACHE" where
  "write_back m way c = (let b = c_block c (set_first c (ms_address m) + way)
     in if way \<noteq> c_NUM_WAY c \<and> cb_valid b \<and> cb_dirty b
        then (let (ok, ll) = add_wq (writeback_packet m b) (c_lower_level c) in (ok, c\<lparr>c_lower_level := ll\<rparr>))
        else (True, c))"

text \<open>The stores into the set, the statistics and the responses.\<close>

definition finish_fill :: "mshr_type \<Rightarrow> nat \<Rightarrow> 32 word \<Rightarrow> 'm CACHE \<Rightarrow> 'm CACHE" where
  "finish_fill m way metadata c = (let i = set_first c (ms_address m) + way; blk = c_block c i;
     c1 = (if way \<noteq> c_NUM_WAY c
           then (let c = (if cb_valid blk \<and> cb_prefetch blk then on_stats (\<lambda>s. s\<lparr>pf_useless := pf_useless s + 1\<rparr>) c else c);
                     c = (if ms_type m = PREFETCH then on_stats (\<lambda>s. s\<lparr>pf_fill := pf_fill s + 1\<rparr>) c else c)
                 in c\<lparr>c_block := (c_block c)(i := fill_block m metadata)\<rparr>)
           else c);
     c2 = (if ms_type m \<noteq> PREFETCH
           then on_stats (\<lambda>s. s\<lparr>total_miss_latency_cycles := total_miss_latency_cycles s
              + (c_current_time c1 - (ms_time_enqueued m + c_clock_period c1)) sdiv c_clock_period c1\<rparr>) c1 else c1);
     c3 = on_stats (\<lambda>s. s\<lparr>mshr_returns := ec_increment (ms_type m, ms_cpu m) (mshr_returns s)\<rparr>) c2
   in deliver (ms_to_return m) \<lparr>rs_address = ms_address m, rs_v_address = ms_v_address m,
        rs_data = fst (m_value (ms_data_promise m)), rs_pf_metadata = metadata, rs_deps = ms_deps m\<rparr> c3)"

definition evicting_address :: "mshr_type \<Rightarrow> nat \<Rightarrow> 'm CACHE \<Rightarrow> address" where
  "evicting_address m way c = (let b = c_block c (set_first c (ms_address m) + way)
     in if way \<noteq> c_NUM_WAY c \<and> cb_valid b then module_address c (cb_address b) (cb_v_address b) else 0)"

definition handle_fill :: "'m cache_hooks \<Rightarrow> mshr_type \<Rightarrow> 'm CACHE \<Rightarrow> (bool \<times> 'm CACHE) option" where
  "handle_fill h m c = do {
     let c = c\<lparr>c_cpu := ms_cpu m\<rparr>;
     let si = get_set_index c (ms_address m);
     (way, c) \<leftarrow> choose_way h m c;
     (case write_back m way c of
        (False, c) \<Rightarrow> Some (False, c)
      | (True, c) \<Rightarrow> do {
          let evicting = evicting_address m way c;
          let addr = module_address c (ms_address m) (ms_v_address m);
          let (metadata_thru, c) = h_prefetcher_cache_fill h addr si way (ms_type m = PREFETCH) evicting
                                     (snd (m_value (ms_data_promise m))) c;
          s \<leftarrow> h_replacement_cache_fill h (ms_cpu m) si way addr (ms_ip m) evicting (ms_type m) (c_modules c);
          Some (True, finish_fill m way metadata_thru (c\<lparr>c_modules := s\<rparr>)) }) }"

section \<open>Tag checks\<close>

definition useful_prefetch :: "tag_lookup_type \<Rightarrow> 'm CACHE \<Rightarrow> bool" where
  "useful_prefetch pkt c = (case find_block c (tl_address pkt) of None \<Rightarrow> False
     | Some i \<Rightarrow> cb_prefetch (c_block c i) \<and> \<not> tl_prefetch_from_this pkt)"

definition finish_hit :: "tag_lookup_type \<Rightarrow> nat \<Rightarrow> bool \<Rightarrow> 32 word \<Rightarrow> 'm CACHE \<Rightarrow> 'm CACHE" where
  "finish_hit pkt i useful metadata c = (let
     c = on_stats (\<lambda>s. s\<lparr>st_hits := ec_increment (tl_type pkt, tl_cpu pkt) (st_hits s)\<rparr>) c;
     c = deliver (tl_to_return pkt) \<lparr>rs_address = tl_address pkt, rs_v_address = tl_v_address pkt,
           rs_data = cb_data (c_block c i), rs_pf_metadata = metadata, rs_deps = tl_deps pkt\<rparr> c;
     blk = (c_block c i)\<lparr>cb_dirty := cb_dirty (c_block c i) \<or> tl_type pkt = WRITE\<rparr>;
     blk = (if useful then blk\<lparr>cb_prefetch := False\<rparr> else blk);
     c = (if useful then on_stats (\<lambda>s. s\<lparr>pf_useful := pf_useful s + 1\<rparr>) c else c)
   in c\<lparr>c_block := (c_block c)(i := blk)\<rparr>)"

definition try_hit :: "'m cache_hooks \<Rightarrow> tag_lookup_type \<Rightarrow> 'm CACHE \<Rightarrow> (bool \<times> 'm CACHE) option" where
  "try_hit h pkt c = do {
     let c = c\<lparr>c_cpu := tl_cpu pkt\<rparr>;
     let way = find_block c (tl_address pkt);
     let hit = (way \<noteq> None);
     let useful = useful_prefetch pkt c;
     let addr = module_address c (tl_address pkt) (tl_v_address pkt);
     let (metadata_thru, c) = (if should_activate_prefetcher c pkt
        then h_prefetcher_cache_operate h addr (tl_ip pkt) hit useful (tl_type pkt) (tl_pf_metadata pkt) c
        else (tl_pf_metadata pkt, c));
     let way_idx = (case way of None \<Rightarrow> c_NUM_WAY c | Some i \<Rightarrow> i - set_first c (tl_address pkt));
     s \<leftarrow> h_update_replacement_state h (tl_cpu pkt) (get_set_index c (tl_address pkt)) way_idx addr (tl_ip pkt) 0
           (tl_type pkt) hit (c_modules c);
     let c = c\<lparr>c_modules := s\<rparr>;
     Some (hit, (case way of None \<Rightarrow> c | Some i \<Rightarrow> finish_hit pkt i useful metadata_thru c)) }"

text \<open>The miss: the MSHR to allocate and the request to the lower level.\<close>

definition forward_packet :: "tag_lookup_type \<Rightarrow> request" where
  "forward_packet pkt = default_request\<lparr>rq_asid := tl_asid pkt, rq_type := (if tl_type pkt = WRITE then RFO else tl_type pkt),
     rq_pf_metadata := tl_pf_metadata pkt, rq_cpu := tl_cpu pkt, rq_address := tl_address pkt,
     rq_v_address := tl_v_address pkt, rq_data := tl_data pkt, rq_instr_id := tl_instr_id pkt, rq_ip := tl_ip pkt,
     rq_deps := tl_deps pkt, rq_response_requested := (\<not> tl_prefetch_from_this pkt \<or> \<not> tl_skip_fill pkt)\<rparr>"

definition mshr_and_forward_packet :: "tag_lookup_type \<Rightarrow> 'm CACHE \<Rightarrow> mshr_type \<times> request" where
  "mshr_and_forward_packet pkt c = (mshr_of_tag pkt (c_current_time c), forward_packet pkt)"

definition find_mshr :: "address \<Rightarrow> 'm CACHE \<Rightarrow> nat option" where
  "find_mshr a c = find_if (\<lambda>i. matches_address c a (ms_address (c_MSHR c ! i))) 0 (length (c_MSHR c))"

definition count_miss :: "tag_lookup_type \<Rightarrow> 'm CACHE \<Rightarrow> 'm CACHE" where
  "count_miss pkt = on_stats (\<lambda>s. s\<lparr>st_misses := ec_increment (tl_type pkt, tl_cpu pkt) (st_misses s)\<rparr>)"

definition handle_miss :: "tag_lookup_type \<Rightarrow> 'm CACHE \<Rightarrow> bool \<times> 'm CACHE" where
  "handle_miss pkt c = (let to_allocate = mshr_of_tag pkt (c_current_time c);
     c = c\<lparr>c_cpu := tl_cpu pkt\<rparr>;
     mshr_pkt = mshr_and_forward_packet pkt c;
     mshr_full = (length (c_MSHR c) = c_MSHR_SIZE c)
   in case find_mshr (tl_address pkt) c of
        Some i \<Rightarrow> (let m = c_MSHR c ! i;
            c = (if ms_type m = PREFETCH \<and> tl_type pkt \<noteq> PREFETCH \<and> ms_prefetch_from_this m
                 then on_stats (\<lambda>s. s\<lparr>pf_useful := pf_useful s + 1\<rparr>) c else c);
            c = on_stats (\<lambda>s. s\<lparr>mshr_merges := ec_increment (ms_type to_allocate, ms_cpu to_allocate) (mshr_merges s)\<rparr>) c;
            c = c\<lparr>c_MSHR := (c_MSHR c)[i := mshr_merge m to_allocate]\<rparr>
          in (True, count_miss pkt c))
      | None \<Rightarrow>
          if mshr_full then (False, c)
          else (let send_to_rq = (c_prefetch_as_load c \<or> tl_type pkt \<noteq> PREFETCH);
                  (success, ll) = (if send_to_rq then add_rq (snd mshr_pkt) (c_lower_level c) else add_pq (snd mshr_pkt) (c_lower_level c));
                  c = c\<lparr>c_lower_level := ll\<rparr>
                in if \<not> success then (False, c)
                   else (let c = (if rq_response_requested (snd mshr_pkt) then c\<lparr>c_MSHR := c_MSHR c @ [fst mshr_pkt]\<rparr> else c)
                         in (True, count_miss pkt c))))"

definition handle_write :: "tag_lookup_type \<Rightarrow> 'm CACHE \<Rightarrow> bool \<times> 'm CACHE" where
  "handle_write pkt c = (let to_allocate = mshr_of_tag pkt (c_current_time c);
     m = to_allocate\<lparr>ms_data_promise := ready_at (c_current_time c + unless_warmup c (c_FILL_LATENCY c)) (ms_data_promise to_allocate)\<rparr>
   in (True, count_miss pkt (c\<lparr>c_inflight_writes := c_inflight_writes c @ [m]\<rparr>)))"

definition do_handle_miss :: "tag_lookup_type \<Rightarrow> 'm CACHE \<Rightarrow> bool \<times> 'm CACHE" where
  "do_handle_miss pkt c = (if tl_type pkt = WRITE \<and> \<not> c_match_offset_bits c then handle_write pkt c else handle_miss pkt c)"

text \<open>The start of a tag check: of an entry of the cache itself, or of a request of an upper level.\<close>

definition tag_check_time :: "'m CACHE \<Rightarrow> time" where
  "tag_check_time c = c_current_time c + unless_warmup c (c_HIT_LATENCY c)"

definition initiate_own :: "'m CACHE \<Rightarrow> tag_lookup_type \<Rightarrow> tag_lookup_type" where
  "initiate_own c entry = entry\<lparr>tl_event_cycle := tag_check_time c\<rparr>"

definition initiate_upper :: "'m CACHE \<Rightarrow> nat \<Rightarrow> request \<Rightarrow> tag_lookup_type" where
  "initiate_upper c ul entry = (tag_of_request entry False False)\<lparr>tl_event_cycle := tag_check_time c,
     tl_to_return := (if rq_response_requested entry then [ul] else [])\<rparr>"

definition prefetch_line :: "address \<Rightarrow> bool \<Rightarrow> 32 word \<Rightarrow> 'm CACHE \<Rightarrow> bool \<times> 'm CACHE" where
  "prefetch_line pf_addr fill_this_level prefetch_metadata c = (let c = on_stats (\<lambda>s. s\<lparr>pf_requested := pf_requested s + 1\<rparr>) c
   in if length (c_internal_PQ c) \<ge> c_PQ_SIZE c then (False, c)
      else (let pf_packet = default_request\<lparr>rq_type := PREFETCH, rq_pf_metadata := prefetch_metadata, rq_cpu := c_cpu c,
              rq_address := pf_addr, rq_v_address := (if c_virtual_prefetch c then pf_addr else 0),
              rq_is_translated := \<not> c_virtual_prefetch c\<rparr>;
              c = c\<lparr>c_internal_PQ := c_internal_PQ c @ [tag_of_request pf_packet True (\<not> fill_this_level)]\<rparr>
            in (True, on_stats (\<lambda>s. s\<lparr>pf_issued := pf_issued s + 1\<rparr>) c)))"

section \<open>Returns and translations\<close>

definition finish_packet :: "response \<Rightarrow> 'm CACHE \<Rightarrow> 'm CACHE option" where
  "finish_packet packet c = (
     case (find_mshr (rs_address packet) c,
           find_if (\<lambda>i. has_unknown_readiness (ms_data_promise (c_MSHR c ! i))) 0 (length (c_MSHR c))) of
       (Some i, Some j) \<Rightarrow>
         (let t = c_current_time c + unless_warmup c (c_FILL_LATENCY c);
            q = (c_MSHR c)[i := (c_MSHR c ! i)\<lparr>ms_data_promise := waitable_at (rs_data packet, rs_pf_metadata packet) t\<rparr>]
          in Some (c\<lparr>c_MSHR := q[i := q ! j, j := q ! i]\<rparr>))
     | _ \<Rightarrow> None)"

definition matches_vpage :: "'m CACHE \<Rightarrow> response \<Rightarrow> tag_lookup_type \<Rightarrow> bool" where
  "matches_vpage c packet e = (slice_upper (c_log2_page c) (tl_v_address e) = slice_upper (c_log2_page c) (rs_v_address packet)
     \<and> \<not> tl_is_translated e)"

definition mark_translated :: "'m CACHE \<Rightarrow> response \<Rightarrow> tag_lookup_type \<Rightarrow> tag_lookup_type" where
  "mark_translated c packet e = e\<lparr>tl_address := aligned (c_log2_page c) (rs_data packet) OR take_bit (c_log2_page c) (tl_v_address e),
     tl_is_translated := True\<rparr>"

definition finish_translation :: "response \<Rightarrow> 'm CACHE \<Rightarrow> 'm CACHE" where
  "finish_translation packet c = (let
     waiting = dropWhile tl_is_translated (c_translation_stash c);
     stash = takeWhile tl_is_translated (c_translation_stash c)
       @ map (mark_translated c packet) (filter (matches_vpage c packet) waiting)
       @ filter (\<lambda>e. \<not> matches_vpage c packet e) waiting
   in c\<lparr>c_translation_stash := stash,
        c_inflight_tag_check := map (\<lambda>e. if matches_vpage c packet e then mark_translated c packet e else e) (c_inflight_tag_check c)\<rparr>)"

definition translation_packet :: "tag_lookup_type \<Rightarrow> request" where
  "translation_packet q = default_request\<lparr>rq_asid := tl_asid q, rq_type := LOAD, rq_cpu := tl_cpu q, rq_address := tl_address q,
     rq_v_address := tl_v_address q, rq_data := tl_data q, rq_instr_id := tl_instr_id q, rq_ip := tl_ip q,
     rq_deps := tl_deps q, rq_is_translated := True\<rparr>"

definition issue_translation :: "tag_lookup_type \<Rightarrow> 'm CACHE \<Rightarrow> (tag_lookup_type \<times> 'm CACHE) option" where
  "issue_translation q c = (if \<not> tl_translate_issued q \<and> \<not> tl_is_translated q
     then (case c_lower_translate c of None \<Rightarrow> None
           | Some lt \<Rightarrow> (let (ok, lt') = add_rq (translation_packet q) lt
                        in Some (q\<lparr>tl_translate_issued := ok\<rparr>, c\<lparr>c_lower_translate := Some lt'\<rparr>)))
     else Some (q, c))"

section \<open>One cycle\<close>

definition check_upper_collisions :: "'m CACHE \<Rightarrow> 'm CACHE" where
  "check_upper_collisions c = c\<lparr>c_channels := fold (\<lambda>i ch. ch(i := check_collision (ch i))) (c_upper_levels c) (c_channels c)\<rparr>"

definition finish_returns :: "'m CACHE \<Rightarrow> (int \<times> 'm CACHE) option" where
  "finish_returns c = do {
     c' \<leftarrow> fold_option finish_packet (returned (c_lower_level c)) c;
     Some (int (length (returned (c_lower_level c))), c'\<lparr>c_lower_level := (c_lower_level c')\<lparr>returned := []\<rparr>\<rparr>) }"

definition finish_translations :: "'m CACHE \<Rightarrow> int \<times> 'm CACHE" where
  "finish_translations c = (case c_lower_translate c of None \<Rightarrow> (0, c)
     | Some lt \<Rightarrow> (int (length (returned lt)), (fold finish_translation (returned lt) c)\<lparr>c_lower_translate := Some (lt\<lparr>returned := []\<rparr>)\<rparr>))"

text \<open>The fills of one queue: the ready entries in front, while they succeed and the bandwidth lasts.\<close>

definition fill_ready :: "'m cache_hooks \<Rightarrow> mshr_type list \<Rightarrow> bandwidth \<Rightarrow> 'm CACHE \<Rightarrow> (nat \<times> bandwidth \<times> 'm CACHE) option" where
  "fill_ready h q bw c = do {
     (ready, _) \<leftarrow> get_span_p q bw (\<lambda>x. is_ready_at (ms_data_promise x) (c_current_time c));
     (complete, _, c) \<leftarrow> while_ok (handle_fill h) ready c;
     bw \<leftarrow> bw_consume (int (length complete)) bw;
     Some (length complete, bw, c) }"

definition perform_fills :: "'m cache_hooks \<Rightarrow> 'm CACHE \<Rightarrow> (bandwidth \<times> 'm CACHE) option" where
  "perform_fills h c = do {
     (n, bw, c) \<leftarrow> fill_ready h (c_MSHR c) (new_bandwidth (c_MAX_FILL c)) c;
     let c = c\<lparr>c_MSHR := drop n (c_MSHR c)\<rparr>;
     (k, bw, c) \<leftarrow> fill_ready h (c_inflight_writes c) bw c;
     Some (bw, c\<lparr>c_inflight_writes := drop k (c_inflight_writes c)\<rparr>) }"

definition tag_bandwidth :: "'m CACHE \<Rightarrow> int" where
  "tag_bandwidth c = min (max (c_MAX_TAG c * (c_HIT_LATENCY c sdiv c_clock_period c) - int (length (c_inflight_tag_check c))) 0) (c_MAX_TAG c)"

definition rotate_upper :: "'m CACHE \<Rightarrow> 'm CACHE" where
  "rotate_upper c = (if length (c_upper_levels c) > 1 then c\<lparr>c_upper_levels := tl (c_upper_levels c) @ [hd (c_upper_levels c)]\<rparr> else c)"

text \<open>The tag checks of the requests at the front of one queue; the queue is written back by its caller.\<close>

definition start_checks :: "'b list \<Rightarrow> bandwidth \<Rightarrow> ('b \<Rightarrow> bool) \<Rightarrow> ('b \<Rightarrow> tag_lookup_type) \<Rightarrow> bandwidth \<times> 'm CACHE
    \<Rightarrow> ('b list \<times> bandwidth \<times> 'm CACHE) option" where
  "start_checks q limit test initiate s = (case s of (bw, c) \<Rightarrow> do {
     (q', inflight, n) \<leftarrow> transform_while_n q (c_inflight_tag_check c) limit test initiate;
     bw \<leftarrow> bw_consume n bw;
     Some (q', bw, c\<lparr>c_inflight_tag_check := inflight\<rparr>) })"

definition can_translate_request :: "bool \<Rightarrow> request \<Rightarrow> bool" where
  "can_translate_request avail e = (avail \<or> rq_is_translated e)"

text \<open>The write, read and prefetch queue of one upper level, in this order.\<close>

definition start_upper :: "bool \<Rightarrow> int \<Rightarrow> nat \<Rightarrow> bandwidth \<times> 'm CACHE \<Rightarrow> (bandwidth \<times> 'm CACHE) option" where
  "start_upper avail per_upper ul s = do {
     let limit = (\<lambda>s. new_bandwidth (min per_upper (amount_remaining (fst s))));
     (q, bw, c) \<leftarrow> start_checks (WQ (c_channels (snd s) ul)) (limit s) (can_translate_request avail) (initiate_upper (snd s) ul) s;
     let s = (bw, c\<lparr>c_channels := (c_channels c)(ul := (c_channels c ul)\<lparr>WQ := q\<rparr>)\<rparr>);
     (q, bw, c) \<leftarrow> start_checks (RQ (c_channels (snd s) ul)) (limit s) (can_translate_request avail) (initiate_upper (snd s) ul) s;
     let s = (bw, c\<lparr>c_channels := (c_channels c)(ul := (c_channels c ul)\<lparr>RQ := q\<rparr>)\<rparr>);
     (q, bw, c) \<leftarrow> start_checks (PQ (c_channels (snd s) ul)) (limit s) (can_translate_request avail) (initiate_upper (snd s) ul) s;
     Some (bw, c\<lparr>c_channels := (c_channels c)(ul := (c_channels c ul)\<lparr>PQ := q\<rparr>)\<rparr>) }"

definition initiate_tag_checks :: "'m CACHE \<Rightarrow> (bandwidth \<times> 'm CACHE) option" where
  "initiate_tag_checks c = do {
     let bw = new_bandwidth (tag_bandwidth c);
     let avail = (length (c_translation_stash c) < c_MSHR_SIZE c);
     (q, bw, c) \<leftarrow> start_checks (c_translation_stash c) bw tl_is_translated (initiate_own c) (bw, c);
     let c = rotate_upper (c\<lparr>c_translation_stash := q\<rparr>);
     let per_upper = (if c_upper_levels c = [] then 0 else max (amount_remaining bw div int (length (c_upper_levels c))) 1);
     (bw, c) \<leftarrow> fold_option (start_upper avail per_upper) (c_upper_levels c) (bw, c);
     (q, bw, c) \<leftarrow> start_checks (c_internal_PQ c) bw (\<lambda>e. avail \<or> tl_is_translated e) (initiate_own c) (bw, c);
     Some (bw, c\<lparr>c_internal_PQ := q\<rparr>) }"

definition issue_translations :: "'m CACHE \<Rightarrow> 'm CACHE option" where
  "issue_translations c = do {
     (q, c) \<leftarrow> map_option_state issue_translation (c_inflight_tag_check c) c;
     let c = c\<lparr>c_inflight_tag_check := q\<rparr>;
     (q, c) \<leftarrow> map_option_state issue_translation (c_translation_stash c) c;
     Some (c\<lparr>c_translation_stash := q\<rparr>) }"

definition tag_ready :: "'m CACHE \<Rightarrow> tag_lookup_type \<Rightarrow> bool" where
  "tag_ready c e = (tl_event_cycle e \<le> c_current_time c)"

definition stash_untranslated :: "'m CACHE \<Rightarrow> int \<times> 'm CACHE" where
  "stash_untranslated c = (let
     (kept, stash) = extract_if (\<lambda>e. tag_ready c e \<and> \<not> tl_is_translated e) (c_inflight_tag_check c) (c_translation_stash c)
   in (int (length (c_inflight_tag_check c) - length kept), c\<lparr>c_inflight_tag_check := kept, c_translation_stash := stash\<rparr>))"

definition perform_tag_checks :: "'m cache_hooks \<Rightarrow> 'm CACHE \<Rightarrow> (bandwidth \<times> 'm CACHE) option" where
  "perform_tag_checks h c = do {
     let bw = new_bandwidth (c_MAX_TAG c);
     (ready, rest) \<leftarrow> get_span_p (c_inflight_tag_check c) bw (\<lambda>e. tag_ready c e \<and> tl_is_translated e);
     (hits, misses, c) \<leftarrow> partition_state (try_hit h) ready c;
     (handled, failed, c) \<leftarrow> partition_state (\<lambda>pkt c. Some (do_handle_miss pkt c)) misses c;
     bw \<leftarrow> bw_consume (int (length hits + length handled)) bw;
     Some (bw, c\<lparr>c_inflight_tag_check := failed @ rest\<rparr>) }"

definition cache_operate :: "'m cache_hooks \<Rightarrow> 'm CACHE \<Rightarrow> (int \<times> 'm CACHE) option" where
  "cache_operate h c = do {
     let c = check_upper_collisions c;
     (n1, c) \<leftarrow> finish_returns c;
     let (n2, c) = finish_translations c;
     (fill_bw, c) \<leftarrow> perform_fills h c;
     (initiate_bw, c) \<leftarrow> initiate_tag_checks c;
     c \<leftarrow> issue_translations c;
     let (n3, c) = stash_untranslated c;
     (check_bw, c) \<leftarrow> perform_tag_checks h c;
     let c = h_prefetcher_cycle_operate h c;
     Some (n1 + n2 + n3 + amount_consumed fill_bw + amount_consumed initiate_bw + amount_consumed check_bw, c) }"

text \<open>\<open>operable::_operate\<close> (\<open>src/operable.cc\<close>): the clock advances, then the cycle runs.\<close>

definition cache_tick :: "'m cache_hooks \<Rightarrow> 'm CACHE \<Rightarrow> (int \<times> 'm CACHE) option" where
  "cache_tick h c = cache_operate h (c\<lparr>c_current_time := c_current_time c + c_clock_period c\<rparr>)"

section \<open>Phases and occupancies\<close>

definition cache_begin_phase :: "'m CACHE \<Rightarrow> 'm CACHE" where
  "cache_begin_phase c = c\<lparr>c_roi_stats := zero_cache_stats, c_sim_stats := zero_cache_stats,
     c_channels := fold (\<lambda>i ch. ch(i := (ch i)\<lparr>sim_stats := zero_queue_stats, roi_stats := zero_queue_stats\<rparr>))
       (c_upper_levels c) (c_channels c)\<rparr>"

definition cache_end_phase :: "'m CACHE \<Rightarrow> 'm CACHE" where
  "cache_end_phase c = c\<lparr>c_roi_stats := c_sim_stats c,
     c_channels := fold (\<lambda>i ch. ch(i := (ch i)\<lparr>roi_stats := sim_stats (ch i)\<rparr>)) (c_upper_levels c) (c_channels c)\<rparr>"

definition get_mshr_occupancy :: "'m CACHE \<Rightarrow> nat" where
  "get_mshr_occupancy c = length (c_MSHR c)"

definition get_rq_occupancy :: "'m CACHE \<Rightarrow> nat list" where
  "get_rq_occupancy c = map (\<lambda>i. rq_occupancy (c_channels c i)) (c_upper_levels c)"

definition get_wq_occupancy :: "'m CACHE \<Rightarrow> nat list" where
  "get_wq_occupancy c = map (\<lambda>i. wq_occupancy (c_channels c i)) (c_upper_levels c)"

definition get_pq_occupancy :: "'m CACHE \<Rightarrow> nat list" where
  "get_pq_occupancy c = map (\<lambda>i. pq_occupancy (c_channels c i)) (c_upper_levels c) @ [length (c_internal_PQ c)]"

definition get_rq_size :: "'m CACHE \<Rightarrow> nat list" where
  "get_rq_size c = map (\<lambda>i. RQ_SIZE (c_channels c i)) (c_upper_levels c)"

definition get_wq_size :: "'m CACHE \<Rightarrow> nat list" where
  "get_wq_size c = map (\<lambda>i. WQ_SIZE (c_channels c i)) (c_upper_levels c)"

definition get_pq_size :: "'m CACHE \<Rightarrow> nat list" where
  "get_pq_size c = map (\<lambda>i. PQ_SIZE (c_channels c i)) (c_upper_levels c) @ [c_PQ_SIZE c]"

end
