(* ===== verification/Cache_Modules.thy ===== *)
theory Cache_Modules
  imports Cache Replacement Lru_Table
begin

text \<open>
  The modules of a cache: the dispatch to its prefetchers (\<open>prefetcher_module_model\<close>, \<open>inc/cache.h\<close>), the
  prefetchers \<open>no\<close>, \<open>next_line\<close>, \<open>ip_stride\<close> and \<open>va_ampm_lite\<close>, and the hooks of a cache with a list of
  prefetchers and one replacement policy.  The state of the modules is a pair, of the prefetchers and of
  the policy.
\<close>

section \<open>The interface of a prefetcher\<close>

text \<open>A prefetcher acts on the cache only through \<open>prefetch_line\<close>: its requests, its statistics and the
  state of the modules.\<close>

definition hook_frame :: "'m CACHE \<Rightarrow> 'm CACHE \<Rightarrow> bool" where
  "hook_frame c c' = (\<exists>pq st m. c' = c\<lparr>c_internal_PQ := pq, c_sim_stats := st, c_modules := m\<rparr>)"

lemma hook_frame_refl [intro, simp]: "hook_frame c c"
  unfolding hook_frame_def by (rule exI[of _ "c_internal_PQ c"], rule exI[of _ "c_sim_stats c"], rule exI[of _ "c_modules c"]) simp

lemma hook_frame_trans [trans]: "hook_frame a b \<Longrightarrow> hook_frame b c \<Longrightarrow> hook_frame a c"
  unfolding hook_frame_def by (elim exE, hypsubst, simp) blast

lemma prefetch_line_frame: "hook_frame c (snd (prefetch_line a b md c))"
  unfolding hook_frame_def
  by (rule exI[of _ "c_internal_PQ (snd (prefetch_line a b md c))"], rule exI[of _ "c_sim_stats (snd (prefetch_line a b md c))"],
      rule exI[of _ "c_modules c"]) (simp add: prefetch_line_def on_stats_def Let_def)

lemma hook_frame_modules: "hook_frame c c' \<Longrightarrow> hook_frame c (c'\<lparr>c_modules := m\<rparr>)"
  unfolding hook_frame_def by (elim exE, hypsubst, simp) blast

record 'm prefetcher_module =
  pm_cache_operate :: "address \<Rightarrow> address \<Rightarrow> bool \<Rightarrow> bool \<Rightarrow> access_type \<Rightarrow> 32 word \<Rightarrow> 'm CACHE \<Rightarrow> 32 word \<times> 'm CACHE"
  pm_cache_fill :: "address \<Rightarrow> nat \<Rightarrow> nat \<Rightarrow> bool \<Rightarrow> address \<Rightarrow> 32 word \<Rightarrow> 'm CACHE \<Rightarrow> 32 word \<times> 'm CACHE"
  pm_cycle_operate :: "'m CACHE \<Rightarrow> 'm CACHE"

locale prefetcher =
  fixes p :: "'m prefetcher_module"
  assumes operate_frame: "hook_frame c (snd (pm_cache_operate p a ip hit useful type md c))"
    and fill_frame: "hook_frame c (snd (pm_cache_fill p a si way pf ev md c))"
    and cycle_frame: "hook_frame c (pm_cycle_operate p c)"

section \<open>Dispatch\<close>

text \<open>The results of the prefetchers are combined by exclusive or.\<close>

primrec impl_prefetcher_cache_operate :: "'m prefetcher_module list \<Rightarrow> address \<Rightarrow> address \<Rightarrow> bool \<Rightarrow> bool \<Rightarrow> access_type \<Rightarrow> 32 word
    \<Rightarrow> 'm CACHE \<Rightarrow> 32 word \<times> 'm CACHE" where
  "impl_prefetcher_cache_operate [] a ip hit useful type md c = (0, c)"
| "impl_prefetcher_cache_operate (p # ps) a ip hit useful type md c = (let
     (x, c) = pm_cache_operate p a ip hit useful type md c;
     (y, c) = impl_prefetcher_cache_operate ps a ip hit useful type md c in (x XOR y, c))"

primrec impl_prefetcher_cache_fill :: "'m prefetcher_module list \<Rightarrow> address \<Rightarrow> nat \<Rightarrow> nat \<Rightarrow> bool \<Rightarrow> address \<Rightarrow> 32 word
    \<Rightarrow> 'm CACHE \<Rightarrow> 32 word \<times> 'm CACHE" where
  "impl_prefetcher_cache_fill [] a si way pf ev md c = (0, c)"
| "impl_prefetcher_cache_fill (p # ps) a si way pf ev md c = (let
     (x, c) = pm_cache_fill p a si way pf ev md c;
     (y, c) = impl_prefetcher_cache_fill ps a si way pf ev md c in (x XOR y, c))"

definition impl_prefetcher_cycle_operate :: "'m prefetcher_module list \<Rightarrow> 'm CACHE \<Rightarrow> 'm CACHE" where
  "impl_prefetcher_cycle_operate ps = fold pm_cycle_operate ps"

section \<open>No prefetcher and next line\<close>

definition no :: "'m prefetcher_module" where
  "no = \<lparr>pm_cache_operate = (\<lambda>a ip hit useful type md c. (md, c)),
     pm_cache_fill = (\<lambda>a si way pf ev md c. (md, c)), pm_cycle_operate = (\<lambda>c. c)\<rparr>"

interpretation no_module: prefetcher no
  by unfold_locales (simp_all add: no_def)

text \<open>The block number of an address, and the address of a block number moved by some blocks.\<close>

definition block_number :: "'m CACHE \<Rightarrow> address \<Rightarrow> address" where
  "block_number c a = drop_bit (c_log2_block c) a"

definition block_plus :: "'m CACHE \<Rightarrow> address \<Rightarrow> int \<Rightarrow> address" where
  "block_plus c b k = take_bit (64 - c_log2_block c) (b + word_of_int k)"

definition block_address :: "'m CACHE \<Rightarrow> address \<Rightarrow> address" where
  "block_address c b = push_bit (c_log2_block c) b"

definition next_line_operate :: "address \<Rightarrow> address \<Rightarrow> bool \<Rightarrow> bool \<Rightarrow> access_type \<Rightarrow> 32 word \<Rightarrow> 'm CACHE \<Rightarrow> 32 word \<times> 'm CACHE" where
  "next_line_operate a ip hit useful type md c =
     (md, snd (prefetch_line (block_address c (block_plus c (block_number c a) 1)) True md c))"

definition next_line :: "'m prefetcher_module" where
  "next_line = \<lparr>pm_cache_operate = next_line_operate, pm_cache_fill = (\<lambda>a si way pf ev md c. (md, c)), pm_cycle_operate = (\<lambda>c. c)\<rparr>"

interpretation next_line_module: prefetcher next_line
  by unfold_locales (simp_all add: next_line_def next_line_operate_def prefetch_line_frame)

section \<open>IP stride\<close>

record tracker_entry =
  tr_ip :: address
  tr_last_cl_addr :: address
  tr_last_stride :: int

record lookahead_entry =
  la_address :: address
  la_stride :: int
  la_degree :: nat

record ip_stride =
  active_lookahead :: "lookahead_entry option"
  is_table :: "tracker_entry lru_table"

definition TRACKER_SETS :: nat where "TRACKER_SETS = 256"
definition TRACKER_WAYS :: nat where "TRACKER_WAYS = 4"
definition IS_PREFETCH_DEGREE :: nat where "IS_PREFETCH_DEGREE = 3"

definition tracker_index :: "tracker_entry \<Rightarrow> nat" where
  "tracker_index e = unat (drop_bit 2 (tr_ip e))"

definition tracker_tag :: "tracker_entry \<Rightarrow> address" where
  "tracker_tag e = drop_bit 2 (tr_ip e)"

definition ip_stride_init :: ip_stride where
  "ip_stride_init = \<lparr>active_lookahead = None,
     is_table = projr (lru_new TRACKER_SETS TRACKER_WAYS \<lparr>tr_ip = 0, tr_last_cl_addr = 0, tr_last_stride = 0\<rparr>)\<rparr>"

text \<open>The offset between two block numbers is representable, for they have fewer than 64 bits.\<close>

definition ip_stride_train :: "address \<Rightarrow> address \<Rightarrow> address \<Rightarrow> ip_stride \<Rightarrow> ip_stride" where
  "ip_stride_train a cl_addr ip s = (let
     (found, t) = check_hit tracker_index tracker_tag \<lparr>tr_ip = ip, tr_last_cl_addr = cl_addr, tr_last_stride = 0\<rparr> (is_table s);
     stride = (case found of None \<Rightarrow> 0 | Some f \<Rightarrow> int (unat cl_addr) - int (unat (tr_last_cl_addr f)));
     look = (case found of None \<Rightarrow> active_lookahead s
       | Some f \<Rightarrow> if stride \<noteq> 0 \<and> stride = tr_last_stride f
                  then Some \<lparr>la_address = a, la_stride = stride, la_degree = IS_PREFETCH_DEGREE\<rparr> else active_lookahead s)
   in s\<lparr>active_lookahead := look,
        is_table := fill tracker_index tracker_tag \<lparr>tr_ip = ip, tr_last_cl_addr = cl_addr, tr_last_stride = stride\<rparr> t\<rparr>)"

definition ip_stride_operate :: "address \<Rightarrow> address \<Rightarrow> bool \<Rightarrow> bool \<Rightarrow> access_type \<Rightarrow> 32 word \<Rightarrow> (ip_stride \<times> 'r) CACHE
    \<Rightarrow> 32 word \<times> (ip_stride \<times> 'r) CACHE" where
  "ip_stride_operate a ip hit useful type md c = (let cl_addr = block_number c a
   in (md, c\<lparr>c_modules := (ip_stride_train (block_address c cl_addr) cl_addr ip (fst (c_modules c)), snd (c_modules c))\<rparr>))"

text \<open>\<open>get_mshr_occupancy_ratio() < 0.5\<close>\<close>

definition light_load :: "'m CACHE \<Rightarrow> bool" where
  "light_load c = (2 * get_mshr_occupancy c < c_MSHR_SIZE c)"

definition ip_stride_cycle :: "(ip_stride \<times> 'r) CACHE \<Rightarrow> (ip_stride \<times> 'r) CACHE" where
  "ip_stride_cycle c = (case active_lookahead (fst (c_modules c)) of
     None \<Rightarrow> c
   | Some l \<Rightarrow> (let
       set_look = (\<lambda>x c. c\<lparr>c_modules := ((fst (c_modules c))\<lparr>active_lookahead := x\<rparr>, snd (c_modules c))\<rparr>);
       pf_address = block_address c (block_plus c (block_number c (la_address l)) (la_stride l))
     in if c_virtual_prefetch c \<or> slice_upper (c_log2_page c) pf_address = slice_upper (c_log2_page c) (la_address l)
        then (let (success, c) = prefetch_line pf_address (light_load c) 0 c;
                  l' = (if success then l\<lparr>la_address := pf_address, la_degree := la_degree l - 1\<rparr> else l)
              in if la_degree l' = 0 then set_look None c else set_look (Some l') c)
        else set_look None c))"

definition ip_stride_module :: "(ip_stride \<times> 'r) prefetcher_module" where
  "ip_stride_module = \<lparr>pm_cache_operate = ip_stride_operate, pm_cache_fill = (\<lambda>a si way pf ev md c. (md, c)),
     pm_cycle_operate = ip_stride_cycle\<rparr>"

interpretation ip_stride: prefetcher "ip_stride_module :: (ip_stride \<times> 'r) prefetcher_module"
proof
  fix c :: "(ip_stride \<times> 'r) CACHE" and a ip hit useful type md si way pf ev
  show "hook_frame c (snd (pm_cache_operate ip_stride_module a ip hit useful type md c))"
    by (simp add: ip_stride_module_def ip_stride_operate_def Let_def hook_frame_modules)
  show "hook_frame c (snd (pm_cache_fill ip_stride_module a si way pf ev md c))"
    by (simp add: ip_stride_module_def)
  show "hook_frame c (pm_cycle_operate ip_stride_module c)"
    by (auto simp: ip_stride_module_def ip_stride_cycle_def Let_def hook_frame_modules split: option.split prod.split
        dest!: arg_cong[of "prefetch_line _ _ _ _" _ snd] intro!: hook_frame_modules[OF hook_frame_trans[OF prefetch_line_frame]])
qed

section \<open>VA-AMPM lite\<close>

text \<open>A region is a page, with the maps of its accessed and of its prefetched blocks.\<close>

record region_type =
  rg_vpn :: address
  rg_access_map :: "bool list"
  rg_prefetch_map :: "bool list"

definition REGION_SETS :: nat where "REGION_SETS = 1"
definition REGION_WAYS :: nat where "REGION_WAYS = 128"
definition MAX_DISTANCE :: nat where "MAX_DISTANCE = 256"
definition VA_PREFETCH_DEGREE :: nat where "VA_PREFETCH_DEGREE = 2"

definition new_region :: "'m CACHE \<Rightarrow> address \<Rightarrow> region_type" where
  "new_region c vpn = (let n = 2 ^ c_log2_page c div 2 ^ c_log2_block c
     in \<lparr>rg_vpn = vpn, rg_access_map = replicate n False, rg_prefetch_map = replicate n False\<rparr>)"

type_synonym regions = "region_type lru_table"

definition region_index :: "region_type \<Rightarrow> nat" where "region_index r = unat (rg_vpn r)"

definition va_check :: "region_type \<Rightarrow> regions \<Rightarrow> region_type option \<times> regions" where
  "va_check = check_hit region_index rg_vpn"

definition va_fill :: "region_type \<Rightarrow> regions \<Rightarrow> regions" where
  "va_fill = fill region_index rg_vpn"

text \<open>The page number and the block in the page of a block number.\<close>

definition page_and_offset :: "'m CACHE \<Rightarrow> address \<Rightarrow> address \<times> nat" where
  "page_and_offset c b = (drop_bit (c_log2_page c - c_log2_block c) b, unat (take_bit (c_log2_page c - c_log2_block c) b))"

definition check_cl_access :: "'m CACHE \<Rightarrow> address \<Rightarrow> regions \<Rightarrow> bool \<times> regions" where
  "check_cl_access c b t = (let (vpn, off) = page_and_offset c b; (r, t) = va_check (new_region c vpn) t
     in ((case r of None \<Rightarrow> False | Some r \<Rightarrow> rg_access_map r ! off), t))"

definition check_cl_prefetch :: "'m CACHE \<Rightarrow> address \<Rightarrow> regions \<Rightarrow> bool \<times> regions" where
  "check_cl_prefetch c b t = (let (vpn, off) = page_and_offset c b; (r, t) = va_check (new_region c vpn) t
     in ((case r of None \<Rightarrow> False | Some r \<Rightarrow> rg_prefetch_map r ! off), t))"

text \<open>The condition, whose conjuncts are evaluated from left to right and touch the table.\<close>

definition va_pattern :: "'m CACHE \<Rightarrow> address \<Rightarrow> address \<Rightarrow> address \<Rightarrow> regions \<Rightarrow> bool \<times> regions" where
  "va_pattern c pos neg neg2 t = (let (a, t) = check_cl_access c neg t
     in if \<not> a then (False, t) else (let (b, t) = check_cl_access c neg2 t
     in if \<not> b then (False, t) else (let (x, t) = check_cl_access c pos t
     in if x then (False, t) else (let (y, t) = check_cl_prefetch c pos t in (\<not> y, t)))))"

definition mark_prefetch :: "'m CACHE \<Rightarrow> address \<Rightarrow> regions \<Rightarrow> regions" where
  "mark_prefetch c pos t = (let (vpn, off) = page_and_offset c pos; (found, t) = va_check (new_region c vpn) t;
     r = (case found of None \<Rightarrow> new_region c vpn | Some r \<Rightarrow> r)
   in va_fill (r\<lparr>rg_prefetch_map := (rg_prefetch_map r)[off := True]\<rparr>) t)"

definition va_step :: "address \<Rightarrow> 32 word \<Rightarrow> int \<Rightarrow> nat \<Rightarrow> nat \<times> regions \<times> 'm CACHE \<Rightarrow> nat \<times> regions \<times> 'm CACHE" where
  "va_step b md dir i s = (case s of (issued, t, c) \<Rightarrow> (let
     pos = block_plus c b (dir * int i); neg = block_plus c b (- (dir * int i)); neg2 = block_plus c b (- (dir * 2 * int i));
     (found, t) = va_pattern c pos neg neg2 t
   in if found \<and> b \<noteq> pos
      then (let (success, c) = prefetch_line (block_address c pos) (light_load c) md c
            in if success then (issued + 1, mark_prefetch c pos t, c) else (issued, t, c))
      else (issued, t, c)))"

function va_loop :: "address \<Rightarrow> 32 word \<Rightarrow> int \<Rightarrow> nat \<Rightarrow> nat \<times> regions \<times> 'm CACHE \<Rightarrow> nat \<times> regions \<times> 'm CACHE" where
  "va_loop b md dir i s = (if i \<le> MAX_DISTANCE \<and> fst s < VA_PREFETCH_DEGREE
     then va_loop b md dir (i + 1) (va_step b md dir i s) else s)"
  by pat_completeness auto

termination
  by (relation "measure (\<lambda>(b, md, dir, i, s). Suc MAX_DISTANCE - i)") auto

declare va_loop.simps [simp del]

definition va_ampm_operate :: "address \<Rightarrow> address \<Rightarrow> bool \<Rightarrow> bool \<Rightarrow> access_type \<Rightarrow> 32 word \<Rightarrow> (regions \<times> 'r) CACHE
    \<Rightarrow> 32 word \<times> (regions \<times> 'r) CACHE" where
  "va_ampm_operate a ip hit useful type md c = (let
     put = (\<lambda>t c. c\<lparr>c_modules := (t, snd (c_modules c))\<rparr>);
     b = block_number c a; (vpn, off) = page_and_offset c b;
     (demand, t) = va_check (new_region c vpn) (fst (c_modules c))
   in case demand of
        None \<Rightarrow> (md, put (va_fill (new_region c vpn) t) c)
      | Some r \<Rightarrow> (let
          t = va_fill (r\<lparr>rg_access_map := (rg_access_map r)[off := True]\<rparr>) t;
          (_, t, c) = va_loop b md 1 1 (0, t, c);
          (_, t, c) = va_loop b md (- 1) 1 (0, t, c)
        in (md, put t c)))"

definition va_ampm_lite :: "(regions \<times> 'r) prefetcher_module" where
  "va_ampm_lite = \<lparr>pm_cache_operate = va_ampm_operate, pm_cache_fill = (\<lambda>a si way pf ev md c. (md, c)), pm_cycle_operate = (\<lambda>c. c)\<rparr>"

lemma va_step_frame: "hook_frame c0 (snd (snd s)) \<Longrightarrow> hook_frame c0 (snd (snd (va_step b md dir i s)))"
proof -
  assume c0: "hook_frame c0 (snd (snd s))"
  obtain n t c where s: "s = (n, t, c)" by (cases s)
  obtain f t' where p: "va_pattern c (block_plus c b (dir * int i)) (block_plus c b (- (dir * int i)))
      (block_plus c b (- (dir * 2 * int i))) t = (f, t')" by fastforce
  obtain ok c' where q: "prefetch_line (block_address c (block_plus c b (dir * int i))) (light_load c) md c = (ok, c')" by fastforce
  have "hook_frame c c'" using prefetch_line_frame[of c "block_address c (block_plus c b (dir * int i))" "light_load c" md] by (simp add: q)
  then have "hook_frame c0 c'" using c0 hook_frame_trans by (simp add: s) blast
  then show ?thesis using c0 by (simp add: va_step_def s p q Let_def)
qed

lemma va_loop_frame: "hook_frame c0 (snd (snd s)) \<Longrightarrow> hook_frame c0 (snd (snd (va_loop b md dir i s)))"
proof (induction b md dir i s rule: va_loop.induct)
  case (1 b md dir i s)
  then show ?case by (subst va_loop.simps) (auto simp: va_step_frame)
qed

interpretation va_ampm: prefetcher "va_ampm_lite :: (regions \<times> 'r) prefetcher_module"
proof
  fix c :: "(regions \<times> 'r) CACHE" and a ip hit useful type md si way pf ev
  obtain vpn off where po: "page_and_offset c (block_number c a) = (vpn, off)" by fastforce
  obtain d t where ch: "va_check (new_region c vpn) (fst (c_modules c)) = (d, t)" by fastforce
  show "hook_frame c (snd (pm_cache_operate va_ampm_lite a ip hit useful type md c))"
  proof (cases d)
    case None
    then show ?thesis by (simp add: va_ampm_lite_def va_ampm_operate_def po ch Let_def hook_frame_modules)
  next
    case (Some r)
    define t0 where "t0 = va_fill (r\<lparr>rg_access_map := (rg_access_map r)[off := True]\<rparr>) t"
    obtain n1 t1 c1 where 1: "va_loop (block_number c a) md 1 1 (0, t0, c) = (n1, t1, c1)" by (metis prod_cases3)
    obtain n2 t2 c2 where 2: "va_loop (block_number c a) md (- 1) 1 (0, t1, c1) = (n2, t2, c2)" by (metis prod_cases3)
    have "hook_frame c c1" using va_loop_frame[of c "(0, t0, c)"] by (metis 1 hook_frame_refl snd_conv)
    then have "hook_frame c c2" using va_loop_frame[of c "(0, t1, c1)"] by (metis 2 snd_conv)
    then show ?thesis using Some 1 2
      by (simp add: va_ampm_lite_def va_ampm_operate_def po ch Let_def t0_def[symmetric] hook_frame_modules)
  qed
qed (simp_all add: va_ampm_lite_def)

section \<open>The hooks of a cache\<close>

text \<open>A cache with prefetchers \<open>ps\<close> and one replacement policy: its victim function, its fill hook if it
  has one, and its update.\<close>

definition make_hooks :: "('p \<times> 'r) prefetcher_module list \<Rightarrow> (nat \<Rightarrow> 'r \<Rightarrow> (nat \<times> 'r) option) \<Rightarrow> 'r cache_fill option \<Rightarrow> 'r update_state
    \<Rightarrow> ('p \<times> 'r) cache_hooks" where
  "make_hooks ps victim fl update = \<lparr>
     h_prefetcher_cache_operate = impl_prefetcher_cache_operate ps,
     h_prefetcher_cache_fill = impl_prefetcher_cache_fill ps,
     h_prefetcher_cycle_operate = impl_prefetcher_cycle_operate ps,
     h_find_victim = (\<lambda>cpu instr si blocks ip a ty (p, r). map_option (\<lambda>(w, r). (int w, (p, r))) (victim si r)),
     h_update_replacement_state = (\<lambda>cpu si way a ip v ty hit (p, r).
       map_option (Pair p) (impl_update_replacement_state fl update (unat cpu) si way a ip v ty hit r)),
     h_replacement_cache_fill = (\<lambda>cpu si way a ip v ty (p, r).
       map_option (Pair p) (impl_replacement_cache_fill fl update (unat cpu) si way a ip v ty r))\<rparr>"

locale cache_modules =
  fixes h :: "'m cache_hooks"
  assumes hook_operate_frame: "hook_frame c (snd (h_prefetcher_cache_operate h a ip hit useful type md c))"
    and hook_fill_frame: "hook_frame c (snd (h_prefetcher_cache_fill h a si way pf ev md c))"
    and hook_cycle_frame: "hook_frame c (h_prefetcher_cycle_operate h c)"

lemma impl_operate_frame:
  "\<forall>p\<in>set ps. prefetcher p \<Longrightarrow> hook_frame c (snd (impl_prefetcher_cache_operate ps a ip hit useful type md c))"
proof (induction ps arbitrary: c)
  case (Cons p ps)
  then have "prefetcher p" by simp
  from prefetcher.operate_frame[OF this] have "hook_frame c (snd (pm_cache_operate p a ip hit useful type md c))" .
  also have "hook_frame (snd (pm_cache_operate p a ip hit useful type md c))
    (snd (impl_prefetcher_cache_operate ps a ip hit useful type md (snd (pm_cache_operate p a ip hit useful type md c))))"
    using Cons by simp
  finally show ?case by (simp add: Let_def case_prod_unfold)
qed simp

lemma impl_fill_frame:
  "\<forall>p\<in>set ps. prefetcher p \<Longrightarrow> hook_frame c (snd (impl_prefetcher_cache_fill ps a si way pf ev md c))"
proof (induction ps arbitrary: c)
  case (Cons p ps)
  then have "prefetcher p" by simp
  from prefetcher.fill_frame[OF this] have "hook_frame c (snd (pm_cache_fill p a si way pf ev md c))" .
  also have "hook_frame (snd (pm_cache_fill p a si way pf ev md c))
    (snd (impl_prefetcher_cache_fill ps a si way pf ev md (snd (pm_cache_fill p a si way pf ev md c))))"
    using Cons by simp
  finally show ?case by (simp add: Let_def case_prod_unfold)
qed simp

lemma impl_cycle_frame: "\<forall>p\<in>set ps. prefetcher p \<Longrightarrow> hook_frame c (impl_prefetcher_cycle_operate ps c)"
proof (induction ps arbitrary: c)
  case (Cons p ps)
  then have "prefetcher p" by simp
  from prefetcher.cycle_frame[OF this] have "hook_frame c (pm_cycle_operate p c)" .
  also have "hook_frame (pm_cycle_operate p c) (impl_prefetcher_cycle_operate ps (pm_cycle_operate p c))" using Cons by simp
  finally show ?case by (simp add: impl_prefetcher_cycle_operate_def)
qed (simp add: impl_prefetcher_cycle_operate_def)

lemma make_hooks_frames: "\<forall>p\<in>set ps. prefetcher p \<Longrightarrow> cache_modules (make_hooks ps victim fl update)"
  by unfold_locales (simp_all add: make_hooks_def impl_operate_frame impl_fill_frame impl_cycle_frame)

text \<open>The caches of the default configuration: LRU, and an LRU cache with the next-line prefetcher.\<close>

definition lru_hooks :: "('p \<times> lru) prefetcher_module list \<Rightarrow> ('p \<times> lru) cache_hooks" where
  "lru_hooks ps = make_hooks ps (\<lambda>si s. Some (lru_find_victim si s, s)) (Some lru_cache_fill) lru_update_state"

definition srrip_hooks :: "('p \<times> srrip) prefetcher_module list \<Rightarrow> ('p \<times> srrip) cache_hooks" where
  "srrip_hooks ps = make_hooks ps srrip_find_victim None srrip_update_state"

interpretation lru_cache: cache_modules "lru_hooks [no]"
  unfolding lru_hooks_def by (rule make_hooks_frames) (simp add: no_module.prefetcher_axioms)

interpretation lru_next_line_cache: cache_modules "lru_hooks [next_line]"
  unfolding lru_hooks_def by (rule make_hooks_frames) (simp add: next_line_module.prefetcher_axioms)

interpretation lru_ip_stride_cache: cache_modules "lru_hooks [ip_stride_module]"
  unfolding lru_hooks_def by (rule make_hooks_frames) (simp add: ip_stride.prefetcher_axioms)

interpretation lru_va_ampm_cache: cache_modules "lru_hooks [va_ampm_lite]"
  unfolding lru_hooks_def by (rule make_hooks_frames) (simp add: va_ampm.prefetcher_axioms)

interpretation srrip_cache: cache_modules "srrip_hooks [no]"
  unfolding srrip_hooks_def by (rule make_hooks_frames) (simp add: no_module.prefetcher_axioms)

end
