(* ===== verification/Cache_Correctness.thy ===== *)
theory Cache_Correctness
  imports Cache_Modules Replacement_Correctness "HOL-Library.Multiset"
begin

text \<open>
  Properties of the cache: what its modules may do (locale \<open>cache_modules\<close>, interpreted on caches with the
  four replacement policies and no prefetcher), the invariant of the MSHRs over a cycle, the effect of a
  fill, and the merging of misses.
\<close>

section \<open>What the steps of a cycle leave alone\<close>

text \<open>The MSHRs, their number, the block size and the stored blocks.\<close>

definition mshrs_same :: "'m CACHE \<Rightarrow> 'm CACHE \<Rightarrow> bool" where
  "mshrs_same c c' = (c_MSHR c' = c_MSHR c \<and> c_MSHR_SIZE c' = c_MSHR_SIZE c \<and> c_OFFSET_BITS c' = c_OFFSET_BITS c)"

lemma mshrs_same_refl [simp]: "mshrs_same c c"
  by (simp add: mshrs_same_def)

lemma mshrs_same_trans [trans]: "mshrs_same a b \<Longrightarrow> mshrs_same b c \<Longrightarrow> mshrs_same a c"
  by (simp add: mshrs_same_def)

lemma hook_frame_mshrs: "hook_frame c c' \<Longrightarrow> mshrs_same c c'"
  by (auto simp: hook_frame_def mshrs_same_def)

lemma choose_way_frame: "choose_way h m c = Some (way, c') \<Longrightarrow> \<exists>s. c' = c\<lparr>c_modules := s\<rparr>"
  by (auto simp: choose_way_def Let_def bind_eq_Some_conv split: option.splits if_splits
      intro: exI[of _ "c_modules c"])

lemma write_back_frame: "write_back m way c = (b, c') \<Longrightarrow> \<exists>ll. c' = c\<lparr>c_lower_level := ll\<rparr>"
  by (auto simp: write_back_def Let_def split: prod.splits if_splits intro: exI[of _ "c_lower_level c"])

lemma finish_fill_mshrs: "mshrs_same c (finish_fill m way md c)"
  by (simp add: finish_fill_def mshrs_same_def on_stats_def deliver_def Let_def)

lemma finish_hit_mshrs: "mshrs_same c (finish_hit pkt i u md c)"
  by (simp add: finish_hit_def mshrs_same_def on_stats_def deliver_def Let_def)

text \<open>A successful fill, taken apart.\<close>

lemma handle_fill_True:
  assumes "handle_fill h m c = Some (True, c')"
  obtains way c1 c2 md c3 s where "choose_way h m (c\<lparr>c_cpu := ms_cpu m\<rparr>) = Some (way, c1)" "write_back m way c1 = (True, c2)"
    "h_prefetcher_cache_fill h (module_address c2 (ms_address m) (ms_v_address m)) (get_set_index (c\<lparr>c_cpu := ms_cpu m\<rparr>) (ms_address m)) way
       (ms_type m = PREFETCH) (evicting_address m way c2) (snd (m_value (ms_data_promise m))) c2 = (md, c3)"
    "c' = finish_fill m way md (c3\<lparr>c_modules := s\<rparr>)"
proof -
  let ?c = "c\<lparr>c_cpu := ms_cpu m\<rparr>"
  obtain way c1 where cw: "choose_way h m ?c = Some (way, c1)"
    using assms by (auto simp: handle_fill_def Let_def bind_eq_Some_conv)
  obtain ok c2 where wb: "write_back m way c1 = (ok, c2)" by fastforce
  obtain md c3 where pf: "h_prefetcher_cache_fill h (module_address c2 (ms_address m) (ms_v_address m)) (get_set_index ?c (ms_address m)) way
       (ms_type m = PREFETCH) (evicting_address m way c2) (snd (m_value (ms_data_promise m))) c2 = (md, c3)" by fastforce
  have ok: "ok" using assms cw wb by (cases ok) (auto simp: handle_fill_def Let_def)
  obtain s where "c' = finish_fill m way md (c3\<lparr>c_modules := s\<rparr>)"
    using assms cw wb pf ok by (auto simp: handle_fill_def Let_def bind_eq_Some_conv)
  then show thesis using that[OF cw] wb pf ok by simp
qed

context cache_modules
begin

lemma handle_fill_mshrs:
  assumes "handle_fill h m c = Some (b, c')"
  shows "mshrs_same c c'"
proof -
  obtain way c1 where cw: "choose_way h m (c\<lparr>c_cpu := ms_cpu m\<rparr>) = Some (way, c1)"
    using assms by (auto simp: handle_fill_def Let_def bind_eq_Some_conv)
  obtain ok c2 where wb: "write_back m way c1 = (ok, c2)" by fastforce
  have m2: "mshrs_same c c2" using choose_way_frame[OF cw] write_back_frame[OF wb] by (auto simp: mshrs_same_def)
  show ?thesis
  proof (cases ok)
    case False
    then show ?thesis using assms cw wb m2 by (auto simp: handle_fill_def Let_def)
  next
    case True
    then have "b" using assms cw wb by (auto simp: handle_fill_def Let_def bind_eq_Some_conv split: prod.splits)
    then obtain way' c1' c2' md c3 s where f: "choose_way h m (c\<lparr>c_cpu := ms_cpu m\<rparr>) = Some (way', c1')" "write_back m way' c1' = (True, c2')"
      "h_prefetcher_cache_fill h (module_address c2' (ms_address m) (ms_v_address m)) (get_set_index (c\<lparr>c_cpu := ms_cpu m\<rparr>) (ms_address m)) way'
       (ms_type m = PREFETCH) (evicting_address m way' c2') (snd (m_value (ms_data_promise m))) c2' = (md, c3)"
      "c' = finish_fill m way' md (c3\<lparr>c_modules := s\<rparr>)"
      using assms by (auto elim: handle_fill_True)
    have "c2' = c2" using f(1,2) cw wb by simp
    then have "hook_frame c2 c3" using hook_fill_frame f(3) by (metis snd_conv)
    then have "mshrs_same c2 (c3\<lparr>c_modules := s\<rparr>)" by (auto simp: hook_frame_def mshrs_same_def)
    then show ?thesis using m2 finish_fill_mshrs f(4) mshrs_same_trans by metis
  qed
qed

lemma try_hit_mshrs:
  assumes "try_hit h pkt c = Some (b, c')"
  shows "mshrs_same c c'"
proof -
  let ?c = "c\<lparr>c_cpu := tl_cpu pkt\<rparr>"
  obtain md c1 where p: "(if should_activate_prefetcher ?c pkt
        then h_prefetcher_cache_operate h (module_address ?c (tl_address pkt) (tl_v_address pkt)) (tl_ip pkt)
          (find_block ?c (tl_address pkt) \<noteq> None) (useful_prefetch pkt ?c) (tl_type pkt) (tl_pf_metadata pkt) ?c
        else (tl_pf_metadata pkt, ?c)) = (md, c1)" by fastforce
  obtain s where c': "c' = (case find_block ?c (tl_address pkt) of None \<Rightarrow> c1\<lparr>c_modules := s\<rparr>
       | Some i \<Rightarrow> finish_hit pkt i (useful_prefetch pkt ?c) md (c1\<lparr>c_modules := s\<rparr>))"
    using assms unfolding try_hit_def Let_def p by (auto simp: bind_eq_Some_conv)
  have "hook_frame ?c c1" using p hook_operate_frame by (metis hook_frame_refl snd_conv)
  then have "mshrs_same c (c1\<lparr>c_modules := s\<rparr>)" by (auto simp: hook_frame_def mshrs_same_def)
  then show ?thesis using c' by (auto split: option.splits intro: mshrs_same_trans[OF _ finish_hit_mshrs])
qed

lemma fill_ready_mshrs:
  assumes "fill_ready h q bw c = Some (n, bw', c')"
  shows "mshrs_same c c'"
proof -
  obtain ready done_now rest where "while_ok (handle_fill h) ready c = Some (done_now, rest, c')"
    using assms by (auto simp: fill_ready_def bind_eq_Some_conv)
  then show ?thesis
    by (rule while_ok_invariant) (auto dest: handle_fill_mshrs intro: mshrs_same_trans)
qed

end

section \<open>The MSHRs over a cycle\<close>

definition mshr_block :: "'m CACHE \<Rightarrow> mshr_type \<Rightarrow> address" where
  "mshr_block c m = slice_upper (c_OFFSET_BITS c) (ms_address m)"

definition mshr_ok :: "'m CACHE \<Rightarrow> bool" where
  "mshr_ok c = (length (c_MSHR c) \<le> c_MSHR_SIZE c \<and> distinct (map (mshr_block c) (c_MSHR c)))"

lemma mshr_ok_same: "mshrs_same c c' \<Longrightarrow> mshr_ok c \<Longrightarrow> mshr_ok c'"
  by (simp add: mshrs_same_def mshr_ok_def mshr_block_def[abs_def])

lemma mshr_ok_drop: "mshr_ok c \<Longrightarrow> mshr_ok (c\<lparr>c_MSHR := drop n (c_MSHR c)\<rparr>)"
  by (auto simp: mshr_ok_def mshr_block_def[abs_def] drop_map[symmetric] distinct_drop)

lemma find_mshr_Some:
  assumes "find_mshr a c = Some i"
  shows "i < length (c_MSHR c)" and "mshr_block c (c_MSHR c ! i) = slice_upper (c_OFFSET_BITS c) a"
  using assms by (auto simp: find_mshr_def matches_address_def mshr_block_def dest: find_if_SomeD)

lemma find_mshr_None: "find_mshr a c = None \<longleftrightarrow> slice_upper (c_OFFSET_BITS c) a \<notin> set (map (mshr_block c) (c_MSHR c))"
  unfolding find_mshr_def find_if_None matches_address_def by (simp add: mshr_block_def) (metis (no_types, lifting) image_iff in_set_conv_nth nth_mem)

lemma finish_packet_ok:
  assumes "finish_packet r c = Some c'" and "mshr_ok c"
  shows "mshr_ok c'"
proof -
  obtain i j where i: "find_mshr (rs_address r) c = Some i"
    and j: "find_if (\<lambda>i. has_unknown_readiness (ms_data_promise (c_MSHR c ! i))) 0 (length (c_MSHR c)) = Some j"
    using assms(1) by (auto simp: finish_packet_def split: option.splits)
  have l: "i < length (c_MSHR c)" "j < length (c_MSHR c)" using find_mshr_Some(1)[OF i] find_if_SomeD(2)[OF j] by simp_all
  define t where "t = c_current_time c + unless_warmup c (c_FILL_LATENCY c)"
  define q where "q = (c_MSHR c)[i := (c_MSHR c ! i)\<lparr>ms_data_promise := waitable_at (rs_data r, rs_pf_metadata r) t\<rparr>]"
  have c': "c' = c\<lparr>c_MSHR := q[i := q ! j, j := q ! i]\<rparr>"
    using assms(1) i j by (simp add: finish_packet_def q_def t_def Let_def)
  have q: "map (mshr_block c) q = map (mshr_block c) (c_MSHR c)" "length q = length (c_MSHR c)"
    using l(1) by (simp_all add: q_def map_update_same mshr_block_def)
  have "mset (q[i := q ! j, j := q ! i]) = mset q" using l q(2) by (intro mset_swap) simp_all
  then have "mset (map (mshr_block c) (q[i := q ! j, j := q ! i])) = mset (map (mshr_block c) (c_MSHR c))"
    by (metis mset_map q(1))
  then have "distinct (map (mshr_block c) (q[i := q ! j, j := q ! i]))"
    using assms(2) mset_eq_imp_distinct_iff unfolding mshr_ok_def by blast
  then show ?thesis using assms(2) q(2) by (simp add: mshr_ok_def c' mshr_block_def[abs_def])
qed

lemma mshr_merge_block:
  assumes "slice_upper n (ms_address a) = slice_upper n (ms_address b)"
  shows "slice_upper n (ms_address (mshr_merge a b)) = slice_upper n (ms_address a)"
  using assms by (simp add: mshr_merge_def Let_def)

lemma handle_miss_ok:
  assumes ok: "mshr_ok c"
  shows "mshr_ok (snd (handle_miss pkt c))"
proof -
  let ?c = "c\<lparr>c_cpu := tl_cpu pkt\<rparr>"
  show ?thesis
  proof (cases "find_mshr (tl_address pkt) ?c")
    case (Some i)
    have i: "i < length (c_MSHR c)" "mshr_block c (c_MSHR c ! i) = slice_upper (c_OFFSET_BITS c) (tl_address pkt)"
      using find_mshr_Some[OF Some] by (simp_all add: mshr_block_def)
    define m where "m = mshr_merge (c_MSHR c ! i) (mshr_of_tag pkt (c_current_time c))"
    have "mshr_block c m = mshr_block c (c_MSHR c ! i)"
      using i(2) by (simp add: m_def mshr_block_def mshr_merge_block mshr_of_tag_def)
    then have "map (mshr_block c) ((c_MSHR c)[i := m]) = map (mshr_block c) (c_MSHR c)"
      using i(1) by (simp add: map_update_same)
    then show ?thesis
      using ok Some by (simp add: handle_miss_def Let_def mshr_ok_def count_miss_def on_stats_def m_def mshr_block_def[abs_def])
  next
    case None
    have n: "slice_upper (c_OFFSET_BITS c) (tl_address pkt) \<notin> set (map (mshr_block c) (c_MSHR c))"
      using None[unfolded find_mshr_None] by (simp add: mshr_block_def[abs_def])
    show ?thesis
    proof (cases "length (c_MSHR c) = c_MSHR_SIZE c")
      case True
      then show ?thesis using ok None by (simp add: handle_miss_def Let_def mshr_ok_def mshr_block_def[abs_def])
    next
      case False
      obtain b ll where "(if c_prefetch_as_load c \<or> tl_type pkt \<noteq> PREFETCH
          then add_rq (forward_packet pkt) (c_lower_level c) else add_pq (forward_packet pkt) (c_lower_level c)) = (b, ll)" by fastforce
      then show ?thesis using ok None False n
        by (auto simp: handle_miss_def mshr_and_forward_packet_def Let_def mshr_ok_def count_miss_def on_stats_def
            mshr_of_tag_def mshr_block_def[abs_def])
    qed
  qed
qed

lemma do_handle_miss_ok: "mshr_ok c \<Longrightarrow> mshr_ok (snd (do_handle_miss pkt c))"
  using handle_miss_ok[of c pkt]
  by (simp add: do_handle_miss_def handle_write_def count_miss_def on_stats_def Let_def mshr_ok_def mshr_block_def[abs_def])

lemma finish_returns_ok: "finish_returns c = Some (n, c') \<Longrightarrow> mshr_ok c \<Longrightarrow> mshr_ok c'"
proof -
  assume a: "finish_returns c = Some (n, c')" and ok: "mshr_ok c"
  obtain c1 where f: "fold_option finish_packet (returned (c_lower_level c)) c = Some c1"
    and c': "c' = c1\<lparr>c_lower_level := (c_lower_level c1)\<lparr>returned := []\<rparr>\<rparr>"
    using a by (auto simp: finish_returns_def bind_eq_Some_conv)
  have "mshr_ok c1" using f ok by (rule fold_option_invariant) (rule finish_packet_ok)
  then show "mshr_ok c'" by (simp add: c' mshr_ok_def mshr_block_def[abs_def])
qed

lemma finish_translations_mshrs: "mshrs_same c (snd (finish_translations c))"
proof -
  have "mshrs_same c (fold finish_translation rs c)" for rs and c :: "'a CACHE"
  proof (induction rs arbitrary: c)
    case (Cons r rs)
    have "mshrs_same c (finish_translation r c)" by (simp add: finish_translation_def mshrs_same_def Let_def)
    then show ?case using Cons mshrs_same_trans by fastforce
  qed simp
  then show ?thesis by (auto simp: finish_translations_def mshrs_same_def split: option.split)
qed

lemma start_checks_frame: "start_checks q l t i (bw, c) = Some (q', bw', c') \<Longrightarrow> \<exists>f. c' = c\<lparr>c_inflight_tag_check := f\<rparr>"
  by (auto simp: start_checks_def bind_eq_Some_conv)

lemma start_upper_mshrs: "start_upper a p ul (bw, c) = Some (bw', c') \<Longrightarrow> mshrs_same c c'"
  by (auto simp: start_upper_def bind_eq_Some_conv Let_def mshrs_same_def dest!: start_checks_frame)

lemma initiate_tag_checks_mshrs: "initiate_tag_checks c = Some (bw, c') \<Longrightarrow> mshrs_same c c'"
proof -
  assume a: "initiate_tag_checks c = Some (bw, c')"
  then obtain q bw1 c1 avail per bw3 c3 f4 q4 where 1: "c1 = c\<lparr>c_inflight_tag_check := f4\<rparr>"
    and 3: "fold_option (start_upper avail per) (c_upper_levels (rotate_upper (c1\<lparr>c_translation_stash := q\<rparr>)))
      (bw1, rotate_upper (c1\<lparr>c_translation_stash := q\<rparr>)) = Some (bw3, c3)"
    and 4: "mshrs_same c3 c'"
    by (fastforce simp: initiate_tag_checks_def bind_eq_Some_conv Let_def mshrs_same_def dest!: start_checks_frame)
  have r: "mshrs_same c (rotate_upper (c1\<lparr>c_translation_stash := q\<rparr>))" by (simp add: 1 rotate_upper_def mshrs_same_def)
  have "mshrs_same c (snd (bw3, c3))"
    by (rule fold_option_invariant[OF 3, where P = "\<lambda>s. mshrs_same c (snd s)"])
      (auto simp: r dest!: start_upper_mshrs intro: mshrs_same_trans)
  then show "mshrs_same c c'" using 4 mshrs_same_trans by fastforce
qed

lemma issue_translations_mshrs: "issue_translations c = Some c' \<Longrightarrow> mshrs_same c c'"
proof -
  assume "issue_translations c = Some c'"
  then obtain q1 c1 q2 c2 where 1: "map_option_state issue_translation (c_inflight_tag_check c) c = Some (q1, c1)"
    and 2: "map_option_state issue_translation (c_translation_stash (c1\<lparr>c_inflight_tag_check := q1\<rparr>)) (c1\<lparr>c_inflight_tag_check := q1\<rparr>)
      = Some (q2, c2)" and c': "c' = c2\<lparr>c_translation_stash := q2\<rparr>"
    by (auto simp: issue_translations_def bind_eq_Some_conv Let_def)
  have step: "issue_translation e d = Some (e', d') \<Longrightarrow> mshrs_same c0 d \<Longrightarrow> mshrs_same c0 d'" for e e' d d' and c0 :: "'a CACHE"
    by (auto simp: issue_translation_def mshrs_same_def split: if_splits option.splits prod.splits)
  have "mshrs_same c c1" by (rule map_option_state_invariant[OF 1, where P = "mshrs_same c"]) (auto dest: step)
  then have "mshrs_same c (c1\<lparr>c_inflight_tag_check := q1\<rparr>)" by (simp add: mshrs_same_def)
  then have "mshrs_same c c2" by (rule map_option_state_invariant[OF 2, where P = "mshrs_same c"]) (auto dest: step)
  then show "mshrs_same c c'" by (simp add: c' mshrs_same_def)
qed

lemma stash_mshrs: "mshrs_same c (snd (stash_untranslated c))"
  by (simp add: stash_untranslated_def mshrs_same_def split: prod.split)

context cache_modules
begin

lemma perform_fills_ok: "perform_fills h c = Some (bw, c') \<Longrightarrow> mshr_ok c \<Longrightarrow> mshr_ok c'"
proof -
  assume a: "perform_fills h c = Some (bw, c')" and ok: "mshr_ok c"
  obtain n bw1 c1 k c2 where 1: "fill_ready h (c_MSHR c) (new_bandwidth (c_MAX_FILL c)) c = Some (n, bw1, c1)"
    and 2: "fill_ready h (c_inflight_writes c1) bw1 (c1\<lparr>c_MSHR := drop n (c_MSHR c1)\<rparr>) = Some (k, bw, c2)"
    and c': "c' = c2\<lparr>c_inflight_writes := drop k (c_inflight_writes c2)\<rparr>"
    using a by (auto simp: perform_fills_def bind_eq_Some_conv Let_def)
  have "mshr_ok c1" using fill_ready_mshrs[OF 1] ok by (rule mshr_ok_same)
  then have "mshr_ok (c1\<lparr>c_MSHR := drop n (c_MSHR c1)\<rparr>)" by (rule mshr_ok_drop)
  then have "mshr_ok c2" by (rule mshr_ok_same[OF fill_ready_mshrs[OF 2]])
  then show "mshr_ok c'" by (simp add: c' mshr_ok_def mshr_block_def[abs_def])
qed

lemma perform_tag_checks_ok: "perform_tag_checks h c = Some (bw, c') \<Longrightarrow> mshr_ok c \<Longrightarrow> mshr_ok c'"
proof -
  assume a: "perform_tag_checks h c = Some (bw, c')" and ok: "mshr_ok c"
  obtain ready hits misses c1 handled failed c2 f where 1: "partition_state (try_hit h) ready c = Some (hits, misses, c1)"
    and 2: "partition_state (\<lambda>pkt c. Some (do_handle_miss pkt c)) misses c1 = Some (handled, failed, c2)"
    and c': "c' = c2\<lparr>c_inflight_tag_check := f\<rparr>"
    using a by (auto simp: perform_tag_checks_def bind_eq_Some_conv Let_def)
  have "mshr_ok c1" using 1 ok by (rule partition_state_invariant) (rule mshr_ok_same[OF try_hit_mshrs])
  then have "mshr_ok c2" by (rule partition_state_invariant[OF 2]) (metis do_handle_miss_ok option.inject snd_conv)
  then show "mshr_ok c'" by (simp add: c' mshr_ok_def mshr_block_def[abs_def])
qed

lemma cache_operate_ok:
  assumes a: "cache_operate h c = Some (n, c')" and ok: "mshr_ok c"
  shows "mshr_ok c'"
proof -
  obtain n1 c1 bw1 c3 bw2 c4 c5 bw3 c7 where
    1: "finish_returns (check_upper_collisions c) = Some (n1, c1)" and
    2: "perform_fills h (snd (finish_translations c1)) = Some (bw1, c3)" and
    3: "initiate_tag_checks c3 = Some (bw2, c4)" and
    4: "issue_translations c4 = Some c5" and
    5: "perform_tag_checks h (snd (stash_untranslated c5)) = Some (bw3, c7)" and
    c': "c' = h_prefetcher_cycle_operate h c7"
    using a by (auto simp: cache_operate_def bind_eq_Some_conv Let_def case_prod_unfold)
  have "mshr_ok (check_upper_collisions c)" using ok by (simp add: check_upper_collisions_def mshr_ok_def mshr_block_def[abs_def])
  then have "mshr_ok c1" by (rule finish_returns_ok[OF 1])
  then have "mshr_ok (snd (finish_translations c1))" by (rule mshr_ok_same[OF finish_translations_mshrs])
  then have "mshr_ok c3" by (rule perform_fills_ok[OF 2])
  then have "mshr_ok c4" by (rule mshr_ok_same[OF initiate_tag_checks_mshrs[OF 3]])
  then have "mshr_ok c5" by (rule mshr_ok_same[OF issue_translations_mshrs[OF 4]])
  then have "mshr_ok (snd (stash_untranslated c5))" by (rule mshr_ok_same[OF stash_mshrs])
  then have "mshr_ok c7" by (rule perform_tag_checks_ok[OF 5])
  then show ?thesis unfolding c' by (rule mshr_ok_same[OF hook_frame_mshrs[OF hook_cycle_frame]])
qed

end

section \<open>Runs\<close>

text \<open>What happens to a cache: its own cycles, and the steps of its neighbours on the queues between them.\<close>

datatype cache_event = Tick | Upper nat channel_op | Lower channel_op | Translate channel_op

fun cache_step :: "'m cache_hooks \<Rightarrow> cache_event \<Rightarrow> 'm CACHE \<Rightarrow> 'm CACHE option" where
  "cache_step h Tick c = map_option snd (cache_tick h c)"
| "cache_step h (Upper i x) c = Some (c\<lparr>c_channels := (c_channels c)(i := channel_step x (c_channels c i))\<rparr>)"
| "cache_step h (Lower x) c = Some (c\<lparr>c_lower_level := channel_step x (c_lower_level c)\<rparr>)"
| "cache_step h (Translate x) c = Some (c\<lparr>c_lower_translate := map_option (channel_step x) (c_lower_translate c)\<rparr>)"

definition cache_run :: "'m cache_hooks \<Rightarrow> cache_event list \<Rightarrow> 'm CACHE \<Rightarrow> 'm CACHE option" where
  "cache_run h = fold_option (cache_step h)"

context cache_modules
begin

lemma cache_step_ok:
  assumes ok: "mshr_ok c" and step: "cache_step h e c = Some c'"
  shows "mshr_ok c'"
proof (cases e)
  case Tick
  then obtain n where "cache_operate h (c\<lparr>c_current_time := c_current_time c + c_clock_period c\<rparr>) = Some (n, c')"
    using step by (auto simp: cache_tick_def)
  then show ?thesis
    by (rule cache_operate_ok) (use ok in \<open>simp add: mshr_ok_def mshr_block_def[abs_def]\<close>)
qed (use step ok in \<open>auto simp: mshr_ok_def mshr_block_def[abs_def]\<close>)

lemma cache_run_ok: "cache_run h es c = Some c' \<Longrightarrow> mshr_ok c \<Longrightarrow> mshr_ok c'"
  unfolding cache_run_def by (erule fold_option_invariant) (auto intro: cache_step_ok)

end

section \<open>Properties\<close>

text \<open>A small cache: two sets of two ways, blocks of 64 bytes, two MSHRs, LRU and no prefetcher.\<close>

definition small_cache :: "bool \<Rightarrow> (unit \<times> lru) CACHE" where
  "small_cache match_offset = \<lparr>c_clock_period = 1, c_current_time = 0, c_warmup = False, c_log2_page = 12, c_log2_block = 6,
     c_channels = (\<lambda>_. new_channel 4 4 4 6 match_offset), c_upper_levels = [0], c_lower_level = new_channel 4 4 4 6 False,
     c_lower_translate = None, c_cpu = 0, c_NUM_SET = 2, c_NUM_WAY = 2, c_MSHR_SIZE = 2, c_PQ_SIZE = 2, c_HIT_LATENCY = 1,
     c_FILL_LATENCY = 1, c_OFFSET_BITS = 6, c_block = (\<lambda>_. empty_block), c_MAX_TAG = 2, c_MAX_FILL = 2,
     c_prefetch_as_load = False, c_match_offset_bits = match_offset, c_virtual_prefetch = False, c_pref_activate_mask = [LOAD, PREFETCH],
     c_sim_stats = zero_cache_stats, c_roi_stats = zero_cache_stats, c_MSHR = [], c_inflight_writes = [], c_internal_PQ = [],
     c_inflight_tag_check = [], c_translation_stash = [], c_modules = ((), lru_init 2 2)\<rparr>"

lemma mshrs_bounded_and_unique_parts:
  assumes "cache_modules h" and "cache_run h es c = Some c'" and "c_MSHR c = []"
  shows "length (c_MSHR c') \<le> c_MSHR_SIZE c'"
    and "distinct (map (\<lambda>m. slice_upper (c_OFFSET_BITS c') (ms_address m)) (c_MSHR c'))"
proof -
  have "mshr_ok c" using assms(3) by (simp add: mshr_ok_def)
  then have "mshr_ok c'" by (rule cache_modules.cache_run_ok[OF assms(1,2)])
  then show "length (c_MSHR c') \<le> c_MSHR_SIZE c'"
    and "distinct (map (\<lambda>m. slice_upper (c_OFFSET_BITS c') (ms_address m)) (c_MSHR c'))"
    by (simp_all add: mshr_ok_def mshr_block_def[abs_def])
qed

text \<open>C32. The MSHRs stay within their number and hold each block once: starting without misses, whatever
  the cycles of the cache and the steps of its neighbours on the queues, and whatever its modules do
  within their interface, there are never more than \<open>MSHR_SIZE\<close> entries and no two for one block.\<close>

theorem mshrs_bounded_and_unique:
  assumes "cache_modules h" and "cache_run h es c = Some c'" and "c_MSHR c = []"
  shows "length (c_MSHR c') \<le> c_MSHR_SIZE c'
    \<and> distinct (map (\<lambda>m. slice_upper (c_OFFSET_BITS c') (ms_address m)) (c_MSHR c'))"
  using mshrs_bounded_and_unique_parts[OF assms] by blast

text \<open>Two loads of one block whose tags are about to be checked.\<close>

definition sample_tags :: "tag_lookup_type list" where
  "sample_tags = map (\<lambda>r. (tag_of_request r False False)\<lparr>tl_event_cycle := 0\<rparr>) [sample_request 0x1008 1, sample_request 0x1010 2]"

lemma mshrs_bounded_and_unique_witness:
  "\<exists>c'. cache_run (lru_hooks [no]) [Tick] (small_cache True\<lparr>c_inflight_tag_check := sample_tags\<rparr>) = Some c'
    \<and> map ms_deps (c_MSHR c') = [[1, 2]] \<and> length (c_MSHR c') \<le> c_MSHR_SIZE c'"
proof -
  let ?c = "small_cache True\<lparr>c_inflight_tag_check := sample_tags\<rparr>"
  have "map_option (\<lambda>c. map ms_deps (c_MSHR c)) (cache_run (lru_hooks [no]) [Tick] ?c) = Some [[1, 2]]"
    by code_simp
  then obtain c' where run: "cache_run (lru_hooks [no]) [Tick] ?c = Some c'" and deps: "map ms_deps (c_MSHR c') = [[1, 2]]"
    by auto
  have "length (c_MSHR c') \<le> c_MSHR_SIZE c'"
    using mshrs_bounded_and_unique[OF lru_cache.cache_modules_axioms run] by (simp add: small_cache_def)
  with run deps show ?thesis by (intro exI[of _ c'] conjI)
qed

end
