(* ===== verification/Cache_Fills.thy ===== *)
theory Cache_Fills
  imports Cache_Correctness
begin

text \<open>
  Properties of single fills and misses: a completed fill installs its block and answers the waiting upper
  levels; a handled miss loses no waiting instruction; and what merging does to a pending store.
\<close>

section \<open>Misses\<close>

lemma mshr_merge_waiters [simp]:
  "set (ms_deps (mshr_merge a b)) = set (ms_deps a) \<union> set (ms_deps b)"
  "set (ms_to_return (mshr_merge a b)) = set (ms_to_return a) \<union> set (ms_to_return b)"
  by (simp_all add: mshr_merge_def Let_def)

lemma mshr_merge_type: "ms_type (mshr_merge a b) = (if ms_type b = PREFETCH then ms_type a else ms_type b)"
  by (simp add: mshr_merge_def Let_def)

lemma mshr_of_tag_fields [simp]:
  "ms_address (mshr_of_tag pkt t) = tl_address pkt" "ms_type (mshr_of_tag pkt t) = tl_type pkt"
  "ms_deps (mshr_of_tag pkt t) = tl_deps pkt" "ms_to_return (mshr_of_tag pkt t) = tl_to_return pkt"
  by (simp_all add: mshr_of_tag_def)

text \<open>An entry serves a miss when it holds its block and everyone who waits for it.\<close>

definition serves :: "nat \<Rightarrow> mshr_type \<Rightarrow> address \<Rightarrow> nat list \<Rightarrow> nat list \<Rightarrow> bool" where
  "serves n m a deps ids = (slice_upper n (ms_address m) = slice_upper n a \<and> set deps \<subseteq> set (ms_deps m)
     \<and> set ids \<subseteq> set (ms_to_return m))"

lemma serves_self: "serves n m (ms_address m) (ms_deps m) (ms_to_return m)"
  by (simp add: serves_def)

lemma serves_merge:
  assumes "slice_upper n (ms_address m) = slice_upper n (ms_address x)"
  shows "serves n (mshr_merge m x) (ms_address m) (ms_deps m) (ms_to_return m)"
    and "serves n (mshr_merge m x) (ms_address x) (ms_deps x) (ms_to_return x)"
  using assms mshr_merge_block[OF assms] by (simp_all add: serves_def)

lemma handle_miss_merge:
  assumes "find_mshr (tl_address pkt) (c\<lparr>c_cpu := tl_cpu pkt\<rparr>) = Some i"
  shows "fst (handle_miss pkt c)"
    and "c_MSHR (snd (handle_miss pkt c)) = (c_MSHR c)[i := mshr_merge (c_MSHR c ! i) (mshr_of_tag pkt (c_current_time c))]"
  using assms by (simp_all add: handle_miss_def Let_def count_miss_def on_stats_def)

lemma handle_miss_alloc:
  assumes "find_mshr (tl_address pkt) (c\<lparr>c_cpu := tl_cpu pkt\<rparr>) = None"
  shows "fst (handle_miss pkt c) \<Longrightarrow> c_MSHR (snd (handle_miss pkt c)) =
      c_MSHR c @ (if tl_prefetch_from_this pkt \<and> tl_skip_fill pkt then [] else [mshr_of_tag pkt (c_current_time c)])"
    and "\<not> fst (handle_miss pkt c) \<Longrightarrow> c_MSHR (snd (handle_miss pkt c)) = c_MSHR c"
proof -
  let ?ll = "if c_prefetch_as_load c \<or> tl_type pkt \<noteq> PREFETCH then add_rq (forward_packet pkt) (c_lower_level c)
    else add_pq (forward_packet pkt) (c_lower_level c)"
  have response: "rq_response_requested (forward_packet pkt) = (\<not> (tl_prefetch_from_this pkt \<and> tl_skip_fill pkt))"
    by (auto simp: forward_packet_def)
  obtain ok ll where ll: "?ll = (ok, ll)" by fastforce
  show "fst (handle_miss pkt c) \<Longrightarrow> c_MSHR (snd (handle_miss pkt c)) =
      c_MSHR c @ (if tl_prefetch_from_this pkt \<and> tl_skip_fill pkt then [] else [mshr_of_tag pkt (c_current_time c)])"
    and "\<not> fst (handle_miss pkt c) \<Longrightarrow> c_MSHR (snd (handle_miss pkt c)) = c_MSHR c"
    using ll unfolding handle_miss_def Let_def assms option.case mshr_and_forward_packet_def fst_conv snd_conv
    by (auto simp: response case_prod_unfold count_miss_def on_stats_def split: if_splits)
qed

lemma handled_miss_forgets_nobody_parts:
  fixes c :: "'m CACHE" and pkt :: tag_lookup_type
  defines "r \<equiv> handle_miss pkt c"
  shows "fst r \<Longrightarrow> \<not> (tl_prefetch_from_this pkt \<and> tl_skip_fill pkt) \<Longrightarrow>
      \<exists>m\<in>set (c_MSHR (snd r)). serves (c_OFFSET_BITS c) m (tl_address pkt) (tl_deps pkt) (tl_to_return pkt)"
    and "\<not> fst r \<Longrightarrow> c_MSHR (snd r) = c_MSHR c"
    and "m0 \<in> set (c_MSHR c) \<Longrightarrow>
      \<exists>m\<in>set (c_MSHR (snd r)). serves (c_OFFSET_BITS c) m (ms_address m0) (ms_deps m0) (ms_to_return m0)"
proof -
  let ?x = "mshr_of_tag pkt (c_current_time c)" and ?n = "c_OFFSET_BITS c"
  consider (merge) i where "find_mshr (tl_address pkt) (c\<lparr>c_cpu := tl_cpu pkt\<rparr>) = Some i"
    | (alloc) "find_mshr (tl_address pkt) (c\<lparr>c_cpu := tl_cpu pkt\<rparr>) = None" by fastforce
  note cases = this
  show "fst r \<Longrightarrow> \<not> (tl_prefetch_from_this pkt \<and> tl_skip_fill pkt) \<Longrightarrow>
      \<exists>m\<in>set (c_MSHR (snd r)). serves ?n m (tl_address pkt) (tl_deps pkt) (tl_to_return pkt)"
  proof (cases rule: cases)
    case (merge i)
    have "i < length (c_MSHR c)" and "slice_upper ?n (ms_address (c_MSHR c ! i)) = slice_upper ?n (ms_address ?x)"
      using find_mshr_Some[OF merge] by (simp_all add: mshr_block_def)
    from serves_merge(2)[OF this(2)] this(1) show ?thesis
      by (auto simp: r_def handle_miss_merge(2)[OF merge] intro!: bexI set_update_memI)
  next
    case alloc
    moreover assume "fst r" "\<not> (tl_prefetch_from_this pkt \<and> tl_skip_fill pkt)"
    ultimately have "?x \<in> set (c_MSHR (snd r))" by (auto simp: r_def handle_miss_alloc(1))
    then show ?thesis using serves_self[of ?n ?x] by auto
  qed
  show "\<not> fst r \<Longrightarrow> c_MSHR (snd r) = c_MSHR c"
    by (cases rule: cases) (auto simp: r_def handle_miss_merge(1) handle_miss_alloc(2))
  assume m0: "m0 \<in> set (c_MSHR c)"
  show "\<exists>m\<in>set (c_MSHR (snd r)). serves ?n m (ms_address m0) (ms_deps m0) (ms_to_return m0)"
  proof (cases rule: cases)
    case (merge i)
    have i: "i < length (c_MSHR c)" "slice_upper ?n (ms_address (c_MSHR c ! i)) = slice_upper ?n (ms_address ?x)"
      using find_mshr_Some[OF merge] by (simp_all add: mshr_block_def)
    obtain j where j: "j < length (c_MSHR c)" "m0 = c_MSHR c ! j" using m0 by (auto simp: in_set_conv_nth)
    show ?thesis
    proof (cases "j = i")
      case True
      then show ?thesis using serves_merge(1)[OF i(2)] i(1) j(2)
        by (auto simp: r_def handle_miss_merge(2)[OF merge] intro: bexI set_update_memI)
    next
      case False
      then have "m0 \<in> set (c_MSHR (snd r))"
        using j i(1) by (auto simp: r_def handle_miss_merge(2)[OF merge] in_set_conv_nth intro!: exI[of _ j])
      then show ?thesis using serves_self by blast
    qed
  next
    case alloc
    then have "m0 \<in> set (c_MSHR (snd r))"
      using m0 handle_miss_alloc[OF alloc] unfolding r_def by (cases "fst (handle_miss pkt c)") auto
    then show ?thesis using serves_self by blast
  qed
qed

text \<open>C33. A handled miss forgets nobody: a miss that is accepted has an MSHR of its block that holds all its
  instructions and the channels to answer (unless it is a prefetch that fills only lower levels), a miss
  that is refused changes no MSHR, and in both cases every earlier MSHR is still served by one.\<close>

theorem handled_miss_forgets_nobody:
  "(fst (handle_miss pkt c) \<and> \<not> (tl_prefetch_from_this pkt \<and> tl_skip_fill pkt) \<longrightarrow>
      (\<exists>m\<in>set (c_MSHR (snd (handle_miss pkt c))). serves (c_OFFSET_BITS c) m (tl_address pkt) (tl_deps pkt) (tl_to_return pkt)))
    \<and> (\<not> fst (handle_miss pkt c) \<longrightarrow> c_MSHR (snd (handle_miss pkt c)) = c_MSHR c)
    \<and> (\<forall>m0\<in>set (c_MSHR c). \<exists>m\<in>set (c_MSHR (snd (handle_miss pkt c))).
      serves (c_OFFSET_BITS c) m (ms_address m0) (ms_deps m0) (ms_to_return m0))"
  using handled_miss_forgets_nobody_parts[where c = c and pkt = pkt] by blast

lemma handled_miss_forgets_nobody_witness:
  "\<exists>m\<in>set (c_MSHR (snd (handle_miss (hd sample_tags) (small_cache True)))). serves 6 m 0x1008 [1] []"
proof -
  have "fst (handle_miss (hd sample_tags) (small_cache True))" by code_simp
  moreover have "\<not> (tl_prefetch_from_this (hd sample_tags) \<and> tl_skip_fill (hd sample_tags))" by code_simp
  ultimately have "\<exists>m\<in>set (c_MSHR (snd (handle_miss (hd sample_tags) (small_cache True)))).
      serves (c_OFFSET_BITS (small_cache True)) m (tl_address (hd sample_tags)) (tl_deps (hd sample_tags)) (tl_to_return (hd sample_tags))"
    using handled_miss_forgets_nobody[of "hd sample_tags" "small_cache True"] by blast
  then show ?thesis by (simp add: small_cache_def sample_tags_def sample_request_def tag_of_request_def default_request_def)
qed

section \<open>A store that waits\<close>

text \<open>C35. Whether a fill leaves the block dirty is decided by the last miss that is not a prefetch: the
  MSHR of a store that merges a load of its block fills a clean block, so the stored data is never written back.\<close>

theorem merged_load_cleans_store:
  assumes "find_mshr (tl_address pkt) (c\<lparr>c_cpu := tl_cpu pkt\<rparr>) = Some i"
  shows "cb_dirty (fill_block (c_MSHR (snd (handle_miss pkt c)) ! i) md) =
    (tl_type pkt = WRITE \<or> tl_type pkt = PREFETCH \<and> ms_type (c_MSHR c ! i) = WRITE)"
  using find_mshr_Some(1)[OF assms]
  by (auto simp: handle_miss_merge(2)[OF assms] fill_block_def mshr_merge_type)

definition storing_cache :: "(unit \<times> lru) CACHE" where
  "storing_cache = (small_cache True)\<lparr>c_MSHR := [mshr_of_tag ((hd sample_tags)\<lparr>tl_type := WRITE\<rparr>) 0]\<rparr>"

lemma merged_load_cleans_store_witness:
  "\<not> cb_dirty (fill_block (c_MSHR (snd (handle_miss (sample_tags ! 1) storing_cache)) ! 0) 0)"
proof -
  have "find_mshr (tl_address (sample_tags ! 1)) (storing_cache\<lparr>c_cpu := tl_cpu (sample_tags ! 1)\<rparr>) = Some 0" by code_simp
  from merged_load_cleans_store[OF this, of 0] show ?thesis
    by (simp add: sample_tags_def sample_request_def tag_of_request_def default_request_def)
qed

section \<open>Fills\<close>

lemma deliver_channels:
  "c_channels (deliver ids r c) i = (c_channels c i)\<lparr>returned := returned (c_channels c i) @ replicate (count_list ids i) r\<rparr>"
proof -
  have "fold (\<lambda>i ch. ch(i := (ch i)\<lparr>returned := returned (ch i) @ [r]\<rparr>)) ids ch i
      = (ch i)\<lparr>returned := returned (ch i) @ replicate (count_list ids i) r\<rparr>" for ch
    by (induction ids arbitrary: ch) (auto simp: replicate_append_same[symmetric])
  then show ?thesis by (simp add: deliver_def)
qed

lemma deliver_more [simp]:
  "c_block (deliver ids r c) = c_block c" "c_lower_level (deliver ids r c) = c_lower_level c"
  "c_NUM_SET (deliver ids r c) = c_NUM_SET c" "c_NUM_WAY (deliver ids r c) = c_NUM_WAY c" "c_OFFSET_BITS (deliver ids r c) = c_OFFSET_BITS c"
  by (simp_all add: deliver_def)

text \<open>The shape of a cache, on which its sets and block addresses depend.\<close>

definition same_shape :: "'m CACHE \<Rightarrow> 'm CACHE \<Rightarrow> bool" where
  "same_shape c c' = (c_NUM_SET c' = c_NUM_SET c \<and> c_NUM_WAY c' = c_NUM_WAY c \<and> c_OFFSET_BITS c' = c_OFFSET_BITS c)"

lemma same_shape_set_first: "same_shape c c' \<Longrightarrow> set_first c' = set_first c"
  by (simp add: same_shape_def set_first_def get_set_index_def fun_eq_iff)

lemma same_shape_matches: "same_shape c c' \<Longrightarrow> matches_address c' = matches_address c"
  by (simp add: same_shape_def matches_address_def fun_eq_iff)

definition fill_response :: "mshr_type \<Rightarrow> 32 word \<Rightarrow> response" where
  "fill_response m md = \<lparr>rs_address = ms_address m, rs_v_address = ms_v_address m,
     rs_data = fst (m_value (ms_data_promise m)), rs_pf_metadata = md, rs_deps = ms_deps m\<rparr>"

lemma finish_fill_effect:
  "c_block (finish_fill m way md c) = (if way = c_NUM_WAY c then c_block c
     else (c_block c)(set_first c (ms_address m) + way := fill_block m md))"
  "c_lower_level (finish_fill m way md c) = c_lower_level c"
  "returned (c_channels (finish_fill m way md c) i)
     = returned (c_channels c i) @ replicate (count_list (ms_to_return m) i) (fill_response m md)"
  "same_shape c (finish_fill m way md c)"
  by (simp_all add: finish_fill_def on_stats_def Let_def deliver_channels fill_response_def same_shape_def)

lemma choose_way_bound:
  assumes "choose_way h m c = Some (way, c')"
  shows "way \<le> c_NUM_WAY c" and "way = c_NUM_WAY c \<Longrightarrow> ms_type m \<noteq> WRITE"
    and "way < c_NUM_WAY c \<Longrightarrow> cb_valid (c_block c (set_first c (ms_address m) + way)) \<Longrightarrow>
      \<forall>i. set_first c (ms_address m) \<le> i \<and> i < set_first c (ms_address m) + c_NUM_WAY c \<longrightarrow> cb_valid (c_block c i)"
proof -
  let ?b = "set_first c (ms_address m)" and ?q = "\<lambda>i. \<not> cb_valid (c_block c i)"
  have "way \<le> c_NUM_WAY c \<and> (way = c_NUM_WAY c \<longrightarrow> ms_type m \<noteq> WRITE) \<and> (way < c_NUM_WAY c \<longrightarrow> cb_valid (c_block c (?b + way))
      \<longrightarrow> (\<forall>i. ?b \<le> i \<and> i < ?b + c_NUM_WAY c \<longrightarrow> cb_valid (c_block c i)))"
  proof (cases "find_if ?q ?b (?b + c_NUM_WAY c)")
    case None
    moreover from None have "\<forall>i. ?b \<le> i \<and> i < ?b + c_NUM_WAY c \<longrightarrow> cb_valid (c_block c i)" by (auto simp: find_if_None)
    ultimately show ?thesis using assms by (auto simp: choose_way_def Let_def bind_eq_Some_conv split: if_splits)
  next
    case (Some i)
    then show ?thesis using assms find_if_SomeD[OF Some] by (auto simp: choose_way_def Let_def)
  qed
  then show "way \<le> c_NUM_WAY c" and "way = c_NUM_WAY c \<Longrightarrow> ms_type m \<noteq> WRITE"
    and "way < c_NUM_WAY c \<Longrightarrow> cb_valid (c_block c (?b + way)) \<Longrightarrow> \<forall>i. ?b \<le> i \<and> i < ?b + c_NUM_WAY c \<longrightarrow> cb_valid (c_block c i)"
    by blast+
qed

lemma write_back_effect:
  assumes "write_back m way c = (True, c')"
  shows "WQ (c_lower_level c') = WQ (c_lower_level c) @ (let b = c_block c (set_first c (ms_address m) + way)
    in if way \<noteq> c_NUM_WAY c \<and> cb_valid b \<and> cb_dirty b then [writeback_packet m b] else [])"
  using assms by (auto simp: write_back_def Let_def add_defs writeback_packet_def default_request_def split: if_splits option.splits prod.splits)

context cache_modules
begin

lemma handle_fill_effect:
  assumes "handle_fill h m c = Some (True, c')"
  obtains way md where "way \<le> c_NUM_WAY c" and "way = c_NUM_WAY c \<Longrightarrow> ms_type m \<noteq> WRITE"
    and "c_block c' = (if way = c_NUM_WAY c then c_block c else (c_block c)(set_first c (ms_address m) + way := fill_block m md))"
    and "WQ (c_lower_level c') = WQ (c_lower_level c) @ (let b = c_block c (set_first c (ms_address m) + way)
      in if way \<noteq> c_NUM_WAY c \<and> cb_valid b \<and> cb_dirty b then [writeback_packet m b] else [])"
    and "\<And>i. returned (c_channels c' i) = returned (c_channels c i) @ replicate (count_list (ms_to_return m) i) (fill_response m md)"
    and "same_shape c c'"
proof -
  let ?c = "c\<lparr>c_cpu := ms_cpu m\<rparr>"
  obtain way c1 c2 md c3 s where cw: "choose_way h m ?c = Some (way, c1)" and wb: "write_back m way c1 = (True, c2)"
    and pf: "h_prefetcher_cache_fill h (module_address c2 (ms_address m) (ms_v_address m)) (get_set_index ?c (ms_address m)) way
       (ms_type m = PREFETCH) (evicting_address m way c2) (snd (m_value (ms_data_promise m))) c2 = (md, c3)"
    and c': "c' = finish_fill m way md (c3\<lparr>c_modules := s\<rparr>)" using handle_fill_True[OF assms] by blast
  obtain s1 where c1: "c1 = ?c\<lparr>c_modules := s1\<rparr>" using choose_way_frame[OF cw] by blast
  obtain ll where c2: "c2 = c1\<lparr>c_lower_level := ll\<rparr>" using write_back_frame[OF wb] by blast
  obtain pq st s3 where c3: "c3 = c2\<lparr>c_internal_PQ := pq, c_sim_stats := st, c_modules := s3\<rparr>"
    using hook_fill_frame pf unfolding hook_frame_def by (metis snd_conv)
  show thesis
  proof (rule that)
    show "way \<le> c_NUM_WAY c" "way = c_NUM_WAY c \<Longrightarrow> ms_type m \<noteq> WRITE" using choose_way_bound(1,2)[OF cw] by simp_all
    show "c_block c' = (if way = c_NUM_WAY c then c_block c else (c_block c)(set_first c (ms_address m) + way := fill_block m md))"
      by (simp add: c' finish_fill_effect c3 c2 c1 set_first_def get_set_index_def)
    show "WQ (c_lower_level c') = WQ (c_lower_level c) @ (let b = c_block c (set_first c (ms_address m) + way)
        in if way \<noteq> c_NUM_WAY c \<and> cb_valid b \<and> cb_dirty b then [writeback_packet m b] else [])"
      using write_back_effect[OF wb] by (simp add: c' finish_fill_effect c3 c1 set_first_def get_set_index_def)
    show "returned (c_channels c' i) = returned (c_channels c i) @ replicate (count_list (ms_to_return m) i) (fill_response m md)" for i
      by (simp add: c' finish_fill_effect c3 c2 c1)
    have "same_shape (c3\<lparr>c_modules := s\<rparr>) c'" by (simp add: c' finish_fill_effect(4))
    then show "same_shape c c'" by (simp add: same_shape_def c3 c2 c1)
  qed
qed

end

text \<open>C34. What a completed fill does, with any modules: it replaces at most the block of one way of the
  set and never bypasses the cache for a write; a valid dirty block it replaces is handed to the lower level as
  a writeback, and nothing else is; every waiting upper level gets one answer per occurrence, with the data
  that came back and the waiting instructions.\<close>

theorem completed_fill:
  assumes "cache_modules h" and "handle_fill h m c = Some (True, c')"
  shows "\<exists>way md. way \<le> c_NUM_WAY c \<and> (way = c_NUM_WAY c \<longrightarrow> ms_type m \<noteq> WRITE)
    \<and> c_block c' = (if way = c_NUM_WAY c then c_block c else (c_block c)(set_first c (ms_address m) + way := fill_block m md))
    \<and> WQ (c_lower_level c') = WQ (c_lower_level c) @ (let b = c_block c (set_first c (ms_address m) + way)
        in if way \<noteq> c_NUM_WAY c \<and> cb_valid b \<and> cb_dirty b then [writeback_packet m b] else [])
    \<and> (\<forall>i. returned (c_channels c' i) = returned (c_channels c i) @ replicate (count_list (ms_to_return m) i) (fill_response m md))"
  by (rule cache_modules.handle_fill_effect[OF assms]) blast

definition fill_sample :: mshr_type where
  "fill_sample = (mshr_of_tag (hd sample_tags) 0)\<lparr>ms_data_promise := waitable_at (7, 0) 0, ms_to_return := [0]\<rparr>"

lemma small_fill: "\<exists>c'. handle_fill (lru_hooks [no]) fill_sample (small_cache True) = Some (True, c')"
proof -
  have "map_option fst (handle_fill (lru_hooks [no]) fill_sample (small_cache True)) = Some True" by code_simp
  then show ?thesis by auto
qed

lemma completed_fill_witness:
  "\<exists>c'. handle_fill (lru_hooks [no]) fill_sample (small_cache True) = Some (True, c')
    \<and> (\<exists>md. returned (c_channels c' 0) = [fill_response fill_sample md])"
proof -
  obtain c' where c': "handle_fill (lru_hooks [no]) fill_sample (small_cache True) = Some (True, c')" using small_fill by blast
  obtain md where "\<forall>i. returned (c_channels c' i) = returned (c_channels (small_cache True) i)
      @ replicate (count_list (ms_to_return fill_sample) i) (fill_response fill_sample md)"
    using completed_fill[OF lru_cache.cache_modules_axioms c'] by blast
  then have "returned (c_channels c' 0) = [fill_response fill_sample md]"
    by (simp add: small_cache_def new_channel_def fill_sample_def)
  with c' show ?thesis by (intro exI conjI)
qed

lemma matches_same_set: "matches_address c a b \<Longrightarrow> set_first c b = set_first c a"
  by (simp add: matches_address_def slice_upper_def set_first_def get_set_index_def)

lemma matches_trans: "matches_address c a b \<Longrightarrow> matches_address c b x = matches_address c a x"
  by (simp add: matches_address_def)

text \<open>After a completed fill that is not bypassed, a block the cache did not hold is found at every
  address inside it, in a way of its set, with the data that came back.\<close>

theorem filled_block_is_found:
  assumes "cache_modules h" and "handle_fill h m c = Some (True, c')" and "c_block c' \<noteq> c_block c"
    and "find_block c (ms_address m) = None" and "matches_address c (ms_address m) a"
  shows "\<exists>i md. find_block c' a = Some i \<and> i < set_first c a + c_NUM_WAY c \<and> c_block c' i = fill_block m md"
proof -
  let ?b = "set_first c (ms_address m)"
  obtain way md where way: "way \<le> c_NUM_WAY c"
    and blocks: "c_block c' = (if way = c_NUM_WAY c then c_block c else (c_block c)(?b + way := fill_block m md))"
    and shape: "same_shape c c'"
    using cache_modules.handle_fill_effect[OF assms(1,2)] by metis
  have lt: "way < c_NUM_WAY c" using way blocks assms(3) by (cases "way = c_NUM_WAY c") auto
  have none: "\<not> (cb_valid (c_block c i) \<and> matches_address c (ms_address m) (cb_address (c_block c i)))"
    if "?b \<le> i" "i < ?b + c_NUM_WAY c" for i
    using assms(4) that by (auto simp: find_block_def find_if_None)
  have "find_if (\<lambda>i. cb_valid (c_block c' i) \<and> matches_address c (ms_address m) (cb_address (c_block c' i)))
      ?b (?b + c_NUM_WAY c) = Some (?b + way)"
    unfolding find_if_Some_iff using lt none by (auto simp: blocks fill_block_def matches_address_def)
  then have "find_block c' a = Some (?b + way)"
    using same_shape_set_first[OF shape] same_shape_matches[OF shape] shape matches_same_set[OF assms(5)]
    by (simp add: find_block_def same_shape_def matches_trans[OF assms(5)])
  then show ?thesis using lt blocks matches_same_set[OF assms(5)] by auto
qed

lemma filled_block_is_found_witness:
  "\<exists>c' i md. handle_fill (lru_hooks [no]) fill_sample (small_cache True) = Some (True, c')
    \<and> find_block c' 0x1020 = Some i \<and> c_block c' i = fill_block fill_sample md"
proof -
  have "map_option (\<lambda>(b, c). b \<and> cb_valid (c_block c 0)) (handle_fill (lru_hooks [no]) fill_sample (small_cache True)) = Some True"
    by code_simp
  then obtain c' where c': "handle_fill (lru_hooks [no]) fill_sample (small_cache True) = Some (True, c')"
    and valid: "cb_valid (c_block c' 0)" by auto
  have "c_block c' \<noteq> c_block (small_cache True)" using valid by (auto simp: small_cache_def empty_block_def)
  moreover have "find_block (small_cache True) (ms_address fill_sample) = None" by code_simp
  moreover have "matches_address (small_cache True) (ms_address fill_sample) 0x1020" by code_simp
  ultimately obtain i md where "find_block c' 0x1020 = Some i" "c_block c' i = fill_block fill_sample md"
    using filled_block_is_found[OF lru_cache.cache_modules_axioms c'] by blast
  with c' show ?thesis by (intro exI conjI)
qed

end
