(* ===== verification/Core.thy ===== *)
theory Core
  imports Instruction Register_Allocator Channel Bandwidth Waitable Event_Counter Lru_Table "HOL-Library.Monad_Syntax"
begin

text \<open>
  The out-of-order core, \<open>src/ooo_cpu.cc\<close> and the class of \<open>inc/ooo_cpu.h\<close>: fetch with branch prediction,
  the decoded instruction buffer, decode, dispatch, renaming, execution, the load and store queues, and
  in-order retirement.  The branch predictor, the branch target buffer and the instruction prefetcher are
  modules: their hooks are the record \<open>core_hooks\<close>, their state is the field \<open>o_modules\<close>.  A load queue slot
  is an option; the references of a store to the slots that wait for it are slot numbers.  A failed
  assertion, a throw and an access outside an array are \<open>None\<close>.
\<close>

section \<open>State\<close>

text \<open>An instruction in the pipeline: the constructed instruction with its scheduling state.\<close>

record core_instr = ooo_model_instr +
  instr_id :: nat
  ready_time :: time
  branch_prediction :: bool
  branch_mispredicted :: bool
  in_asid :: "8 word \<times> 8 word"
  branch_target :: address
  dib_checked :: bool
  fetch_issued :: bool
  fetch_completed :: bool
  decoded :: bool
  scheduled :: bool
  executed :: bool
  completed :: bool
  completed_mem_ops :: nat

definition core_instr_of :: "8 word \<Rightarrow> nat \<Rightarrow> address \<Rightarrow> ooo_model_instr \<Rightarrow> core_instr" where
  "core_instr_of cpu i target x = ooo_model_instr.extend x (core_instr.fields i 0 False False (cpu, cpu) target
     False False False False False False False 0)"

text \<open>The greatest \<open>uint64_t\<close> is the identifier of no instruction: \<open>producer_id\<close> is \<open>None\<close> for it.\<close>

record LSQ_ENTRY =
  ls_instr_id :: nat
  ls_virtual_address :: address
  ls_ip :: address
  ls_ready_time :: time
  ls_asid :: "8 word \<times> 8 word"
  ls_fetch_issued :: bool
  producer_id :: "nat option"
  lq_depend_on_me :: "nat list"

definition new_lsq_entry :: "address \<Rightarrow> nat \<Rightarrow> address \<Rightarrow> 8 word \<times> 8 word \<Rightarrow> LSQ_ENTRY" where
  "new_lsq_entry a i ip asid = \<lparr>ls_instr_id = i, ls_virtual_address = a, ls_ip = ip, ls_ready_time = time_sentinel, ls_asid = asid,
     ls_fetch_issued = False, producer_id = None, lq_depend_on_me = []\<rparr>"

record cpu_stats =
  begin_instrs :: nat
  begin_cycles :: int
  end_instrs :: nat
  end_cycles :: int
  total_rob_occupancy_at_branch_mispredict :: nat
  total_branch_types :: "branch_type event_counter"
  branch_type_misses :: "branch_type event_counter"

definition zero_cpu_stats :: cpu_stats where
  "zero_cpu_stats = \<lparr>begin_instrs = 0, begin_cycles = 0, end_instrs = 0, end_cycles = 0,
     total_rob_occupancy_at_branch_mispredict = 0, total_branch_types = ec_empty, branch_type_misses = ec_empty\<rparr>"

type_synonym load_queue = "LSQ_ENTRY option list"

record 'm O3_CPU =
  o_clock_period :: time
  o_current_time :: time
  o_warmup :: bool
  o_log2_block :: nat
  o_cpu :: nat
  begin_phase_time :: time
  begin_phase_instr :: nat
  finish_phase_time :: time
  finish_phase_instr :: nat
  last_heartbeat_time :: time
  last_heartbeat_instr :: nat
  num_retired :: nat
  show_heartbeat :: bool
  o_roi_stats :: cpu_stats
  o_sim_stats :: cpu_stats
  DIB :: "address lru_table"
  dib_shamt :: nat
  IFETCH_BUFFER :: "core_instr list"
  DISPATCH_BUFFER :: "core_instr list"
  DECODE_BUFFER :: "core_instr list"
  ROB :: "core_instr list"
  DIB_HIT_BUFFER :: "core_instr list"
  LQ :: load_queue
  SQ :: "LSQ_ENTRY list"
  IFETCH_BUFFER_SIZE :: nat
  DISPATCH_BUFFER_SIZE :: nat
  DECODE_BUFFER_SIZE :: nat
  REGISTER_FILE_SIZE :: nat
  ROB_SIZE :: nat
  SQ_SIZE :: nat
  DIB_HIT_BUFFER_SIZE :: nat
  FETCH_WIDTH :: int
  DECODE_WIDTH :: int
  DISPATCH_WIDTH :: int
  SCHEDULER_SIZE :: int
  EXEC_WIDTH :: int
  DIB_INORDER_WIDTH :: int
  LQ_WIDTH :: int
  SQ_WIDTH :: int
  RETIRE_WIDTH :: int
  BRANCH_MISPREDICT_PENALTY :: time
  DISPATCH_LATENCY :: time
  DECODE_LATENCY :: time
  SCHEDULING_LATENCY :: time
  EXEC_LATENCY :: time
  DIB_HIT_LATENCY :: time
  L1I_BANDWIDTH :: int
  L1D_BANDWIDTH :: int
  reg_allocator :: RegisterAllocator
  fetch_resume_time :: time
  IN_QUEUE_SIZE :: int
  input_queue :: "core_instr list"
  L1I_bus :: CacheBus
  L1D_bus :: CacheBus
  o_modules :: 'm

record 'm core_hooks =
  hk_btb_prediction :: "address \<Rightarrow> branch_type \<Rightarrow> 'm \<Rightarrow> (address \<times> bool) \<times> 'm"
  hk_predict_branch :: "address \<Rightarrow> address \<Rightarrow> bool \<Rightarrow> branch_type \<Rightarrow> 'm \<Rightarrow> bool \<times> 'm"
  hk_prefetcher_branch_operate :: "address \<Rightarrow> branch_type \<Rightarrow> address \<Rightarrow> 'm \<Rightarrow> 'm"
  hk_update_btb :: "address \<Rightarrow> address \<Rightarrow> bool \<Rightarrow> branch_type \<Rightarrow> 'm \<Rightarrow> 'm"
  hk_last_branch_result :: "address \<Rightarrow> address \<Rightarrow> bool \<Rightarrow> branch_type \<Rightarrow> 'm \<Rightarrow> 'm"

text \<open>A latency that does not apply during warmup, and a block number.\<close>

definition warm_latency :: "'m O3_CPU \<Rightarrow> time \<Rightarrow> time" where
  "warm_latency c d = (if o_warmup c then 0 else d)"

definition core_block :: "'m O3_CPU \<Rightarrow> address \<Rightarrow> address" where
  "core_block c a = drop_bit (o_log2_block c) a"

definition on_cpu_stats :: "(cpu_stats \<Rightarrow> cpu_stats) \<Rightarrow> 'm O3_CPU \<Rightarrow> 'm O3_CPU" where
  "on_cpu_stats f c = c\<lparr>o_sim_stats := f (o_sim_stats c)\<rparr>"

section \<open>Fetch\<close>

definition mispredicts :: "core_instr \<Rightarrow> address \<Rightarrow> bool" where
  "mispredicts i predicted_target = (predicted_target \<noteq> branch_target i
     \<or> ((branch i = BRANCH_CONDITIONAL \<or> branch i = BRANCH_OTHER) \<and> branch_taken i \<noteq> branch_prediction i))"

definition do_predict_branch :: "'m core_hooks \<Rightarrow> core_instr \<Rightarrow> 'm O3_CPU \<Rightarrow> bool \<times> core_instr \<times> 'm O3_CPU" where
  "do_predict_branch h i c = (let
     c = on_cpu_stats (\<lambda>s. s\<lparr>total_branch_types := ec_increment (branch i) (total_branch_types s)\<rparr>) c;
     ((predicted_target, always_taken), m) = hk_btb_prediction h (instr_ip i) (branch i) (o_modules c);
     (predicted, m) = hk_predict_branch h (instr_ip i) predicted_target always_taken (branch i) m;
     i = i\<lparr>branch_prediction := predicted \<or> always_taken\<rparr>;
     predicted_target = (if branch_prediction i then predicted_target else 0)
   in if is_branch i
      then (let
          m = hk_prefetcher_branch_operate h (instr_ip i) (branch i) predicted_target m;
          (stop_fetch, i, c) = (if mispredicts i predicted_target
            then (let c = on_cpu_stats (\<lambda>s. s\<lparr>total_rob_occupancy_at_branch_mispredict :=
                       total_rob_occupancy_at_branch_mispredict s + length (ROB c),
                       branch_type_misses := ec_increment (branch i) (branch_type_misses s)\<rparr>) c
                  in if o_warmup c then (False, i, c)
                     else (True, i\<lparr>branch_mispredicted := True\<rparr>, c\<lparr>fetch_resume_time := time_sentinel\<rparr>))
            else (branch_taken i, i, c));
          m = hk_update_btb h (instr_ip i) (branch_target i) (branch_taken i) (branch i) m;
          m = hk_last_branch_result h (instr_ip i) (branch_target i) (branch_taken i) (branch i) m
        in (stop_fetch, i, c\<lparr>o_modules := m\<rparr>))
      else (False, i, c\<lparr>o_modules := m\<rparr>))"

definition do_init_instruction :: "'m core_hooks \<Rightarrow> core_instr \<Rightarrow> 'm O3_CPU \<Rightarrow> bool \<times> core_instr \<times> 'm O3_CPU" where
  "do_init_instruction h i c = (let
     i = (if o_warmup c then i\<lparr>source_registers := [], destination_registers := []\<rparr> else i)
   in do_predict_branch h (do_stack_pointer_folding i) c)"

fun init_loop :: "'m core_hooks \<Rightarrow> core_instr list \<Rightarrow> bandwidth \<Rightarrow> 'm O3_CPU \<Rightarrow> 'm O3_CPU option" where
  "init_loop h [] bw c = Some c"
| "init_loop h (i # q) bw c = (if o_current_time c \<ge> fetch_resume_time c \<and> has_remaining bw
     then do {
       bw \<leftarrow> bw_consume_one bw;
       let (stop_fetch, i, c) = do_init_instruction h i c;
       let c = c\<lparr>IFETCH_BUFFER := IFETCH_BUFFER c @ [i\<lparr>ready_time := o_current_time c\<rparr>], input_queue := q\<rparr>;
       if stop_fetch then Some c else init_loop h q bw c }
     else Some c)"

definition initialize_instruction :: "'m core_hooks \<Rightarrow> 'm O3_CPU \<Rightarrow> 'm O3_CPU option" where
  "initialize_instruction h c = init_loop h (input_queue c)
     (new_bandwidth (min (FETCH_WIDTH c) (int (IFETCH_BUFFER_SIZE c) - int (length (IFETCH_BUFFER c))))) c"

text \<open>The decoded instruction buffer is a table of addresses, indexed and tagged by their upper bits.\<close>

definition dib_index :: "nat \<Rightarrow> address \<Rightarrow> nat" where
  "dib_index n a = unat (drop_bit n a)"

definition dib_tag :: "nat \<Rightarrow> address \<Rightarrow> address" where
  "dib_tag n a = drop_bit n a"

definition do_check_dib :: "core_instr \<Rightarrow> 'm O3_CPU \<Rightarrow> core_instr \<times> 'm O3_CPU" where
  "do_check_dib i c = (let (dib_result, t) = check_hit (dib_index (dib_shamt c)) (dib_tag (dib_shamt c)) (instr_ip i) (DIB c);
     i = (if dib_result \<noteq> None then i\<lparr>fetch_completed := True, decoded := True, ready_time := o_current_time c\<rparr> else i)
   in (i\<lparr>dib_checked := True\<rparr>, c\<lparr>DIB := t\<rparr>))"

definition check_dib :: "'m O3_CPU \<Rightarrow> (int \<times> 'm O3_CPU) option" where
  "check_dib c = do {
     (window, rest) \<leftarrow> get_span (dropWhile dib_checked (IFETCH_BUFFER c)) (new_bandwidth (FETCH_WIDTH c));
     (window', c') \<leftarrow> map_option_state (\<lambda>i c. Some (do_check_dib i c)) window c;
     Some (int (length window), c'\<lparr>IFETCH_BUFFER := takeWhile dib_checked (IFETCH_BUFFER c) @ window' @ rest\<rparr>) }"

text \<open>\<open>std::adjacent_find\<close>: the run of instructions in the block of the first one, and the rest.\<close>

fun block_run :: "('a \<Rightarrow> 'b) \<Rightarrow> 'a list \<Rightarrow> 'a list \<times> 'a list" where
  "block_run f [] = ([], [])"
| "block_run f [x] = ([x], [])"
| "block_run f (x # y # ys) = (if f x \<noteq> f y then ([x], y # ys)
     else (let (run, rest) = block_run f (y # ys) in (x # run, rest)))"

definition do_fetch_instruction :: "core_instr list \<Rightarrow> CacheBus \<Rightarrow> bool \<times> CacheBus" where
  "do_fetch_instruction run bus = issue_read (default_request\<lparr>rq_v_address := instr_ip (hd run), rq_instr_id := instr_id (hd run),
     rq_ip := instr_ip (hd run), rq_deps := map instr_id run\<rparr>) bus"

definition fetch_ready :: "core_instr \<Rightarrow> bool" where
  "fetch_ready i = (dib_checked i \<and> \<not> fetch_issued i)"

lemma block_run_shorter: "xs \<noteq> [] \<Longrightarrow> length (snd (block_run f xs)) < length xs"
  by (induction f xs rule: block_run.induct) (auto simp: Let_def case_prod_unfold)

text \<open>The loop over the chunks, with the progress made so far.\<close>

function fetch_loop :: "(address \<Rightarrow> address) \<Rightarrow> core_instr list \<Rightarrow> bandwidth \<Rightarrow> CacheBus \<Rightarrow> (core_instr list \<times> int \<times> CacheBus) option" where
  "fetch_loop blk xs bw bus = (let pre = takeWhile (\<lambda>i. \<not> fetch_ready i) xs; rest = dropWhile (\<lambda>i. \<not> fetch_ready i) xs
     in if \<not> has_remaining bw \<or> rest = [] then Some (xs, 0, bus)
        else (let (run, rest') = block_run (blk \<circ> instr_ip) rest; (success, bus) = do_fetch_instruction run bus;
                  run = (if success then map (\<lambda>i. i\<lparr>fetch_issued := True\<rparr>) run else run)
              in do {
                bw \<leftarrow> bw_consume_one bw;
                (ys, progress, bus) \<leftarrow> fetch_loop blk rest' bw bus;
                Some (pre @ run @ ys, (if success then 1 else 0) + progress, bus) }))"
  by pat_completeness auto

termination
proof (relation "measure (\<lambda>(blk, xs, bw, bus). length xs)", goal_cases)
  case (2 blk xs bw bus x y)
  then have "length (snd (block_run (blk \<circ> instr_ip) (dropWhile (\<lambda>i. \<not> fetch_ready i) xs))) < length (dropWhile (\<lambda>i. \<not> fetch_ready i) xs)"
    by (intro block_run_shorter) simp
  also have "\<dots> \<le> length xs" by (rule length_dropWhile_le)
  finally show ?case using 2 by (auto simp: snd_def split: prod.splits)
qed simp

declare fetch_loop.simps [simp del]

definition fetch_instruction :: "'m O3_CPU \<Rightarrow> (int \<times> 'm O3_CPU) option" where
  "fetch_instruction c = do {
     (xs, progress, bus) \<leftarrow> fetch_loop (core_block c) (IFETCH_BUFFER c) (new_bandwidth (L1I_BANDWIDTH c)) (L1I_bus c);
     Some (progress, c\<lparr>IFETCH_BUFFER := xs, L1I_bus := bus\<rparr>) }"

section \<open>Decode\<close>

text \<open>Instructions found in the decoded instruction buffer bypass the decoder; \<open>std::stable_partition\<close> keeps the
  order on both sides.\<close>

definition promote_to_decode :: "'m O3_CPU \<Rightarrow> (int \<times> 'm O3_CPU) option" where
  "promote_to_decode c = do {
     let bw = new_bandwidth (min (FETCH_WIDTH c) (min (int (DIB_HIT_BUFFER_SIZE c) - int (length (DIB_HIT_BUFFER c)))
                (int (DECODE_BUFFER_SIZE c) - int (length (DECODE_BUFFER c)))));
     (window, rest) \<leftarrow> get_span_p (takeWhile fetch_completed (IFETCH_BUFFER c)) bw (\<lambda>i. fetch_completed i \<and> ready_time i \<le> o_current_time c);
     Some (int (length window), c\<lparr>
       DIB_HIT_BUFFER := DIB_HIT_BUFFER c @ map (\<lambda>i. i\<lparr>ready_time := o_current_time c + DIB_HIT_LATENCY c\<rparr>) (filter decoded window),
       DECODE_BUFFER := DECODE_BUFFER c
         @ map (\<lambda>i. i\<lparr>ready_time := o_current_time c + warm_latency c (DECODE_LATENCY c)\<rparr>) (filter (\<lambda>i. \<not> decoded i) window),
       IFETCH_BUFFER := rest @ dropWhile fetch_completed (IFETCH_BUFFER c)\<rparr>) }"

text \<open>The three loops that choose how many instructions of the two buffers move on: of both in program
  order, then of the one when the other is empty or younger.  The first budget is shared, the second is
  the decoder's.\<close>

definition older :: "core_instr \<Rightarrow> core_instr \<Rightarrow> core_instr" where
  "older x y = (if instr_id y < instr_id x then y else x)"

fun choose_both :: "time \<Rightarrow> core_instr list \<Rightarrow> core_instr list \<Rightarrow> nat \<times> nat \<times> bandwidth \<times> bandwidth \<Rightarrow> (nat \<times> nat \<times> bandwidth \<times> bandwidth) option" where
  "choose_both now (x # xs) (y # ys) (n, k, inorder, dec) =
     (if has_remaining inorder \<and> has_remaining dec \<and> ready_time (older x y) \<le> now
      then if instr_id x < instr_id y
           then do { inorder \<leftarrow> bw_consume_one inorder; choose_both now xs (y # ys) (n + 1, k, inorder, dec) }
           else do { inorder \<leftarrow> bw_consume_one inorder; dec \<leftarrow> bw_consume_one dec; choose_both now (x # xs) ys (n, k + 1, inorder, dec) }
      else Some (n, k, inorder, dec))"
| "choose_both now xs ys s = Some s"

fun choose_dib :: "time \<Rightarrow> core_instr list \<Rightarrow> core_instr list \<Rightarrow> nat \<times> bandwidth \<Rightarrow> (nat \<times> bandwidth) option" where
  "choose_dib now [] ys s = Some s"
| "choose_dib now (x # xs) ys (n, inorder) =
     (if has_remaining inorder \<and> ready_time x \<le> now \<and> (ys = [] \<or> instr_id x < instr_id (hd ys))
      then do { inorder \<leftarrow> bw_consume_one inorder; choose_dib now xs ys (n + 1, inorder) }
      else Some (n, inorder))"

fun choose_decode :: "time \<Rightarrow> core_instr list \<Rightarrow> core_instr list \<Rightarrow> nat \<times> bandwidth \<times> bandwidth \<Rightarrow> (nat \<times> bandwidth \<times> bandwidth) option" where
  "choose_decode now xs [] s = Some s"
| "choose_decode now xs (y # ys) (k, inorder, dec) =
     (if has_remaining inorder \<and> has_remaining dec \<and> ready_time y \<le> now \<and> (xs = [] \<or> instr_id y < instr_id (hd xs))
      then do { inorder \<leftarrow> bw_consume_one inorder; dec \<leftarrow> bw_consume_one dec; choose_decode now xs ys (k + 1, inorder, dec) }
      else Some (k, inorder, dec))"

definition choose_dispatch :: "'m O3_CPU \<Rightarrow> (nat \<times> nat) option" where
  "choose_dispatch c = do {
     let now = o_current_time c;
     let xs = DIB_HIT_BUFFER c;
     let ys = DECODE_BUFFER c;
     (n, k, inorder, dec) \<leftarrow> choose_both now xs ys (0, 0, new_bandwidth (min (DIB_INORDER_WIDTH c)
         (int (DISPATCH_BUFFER_SIZE c) - int (length (DISPATCH_BUFFER c)))), new_bandwidth (DECODE_WIDTH c));
     (n, inorder) \<leftarrow> choose_dib now (drop n xs) (drop k ys) (n, inorder);
     (k, inorder, dec) \<leftarrow> choose_decode now (drop n xs) (drop k ys) (k, inorder, dec);
     Some (n, k) }"

definition do_dib_update :: "core_instr \<Rightarrow> 'm O3_CPU \<Rightarrow> 'm O3_CPU" where
  "do_dib_update i c = c\<lparr>DIB := fill (dib_index (dib_shamt c)) (dib_tag (dib_shamt c)) (instr_ip i) (DIB c)\<rparr>"

text \<open>Mispredicted branches whose target is known at decode resume fetching there.\<close>

definition resolved_at_decode :: "core_instr \<Rightarrow> bool" where
  "resolved_at_decode i = (branch i = BRANCH_DIRECT_JUMP \<or> branch i = BRANCH_DIRECT_CALL
     \<or> ((branch i = BRANCH_CONDITIONAL \<or> branch i = BRANCH_OTHER) \<and> branch_taken i = branch_prediction i))"

definition do_decode :: "core_instr \<Rightarrow> 'm O3_CPU \<Rightarrow> core_instr \<times> 'm O3_CPU" where
  "do_decode i c = (let c = do_dib_update i c;
     (i, c) = (if branch_mispredicted i \<and> resolved_at_decode i
       then (i\<lparr>branch_mispredicted := False\<rparr>, c\<lparr>fetch_resume_time := o_current_time c + BRANCH_MISPREDICT_PENALTY c\<rparr>)
       else (i, c))
   in (i\<lparr>ready_time := o_current_time c + warm_latency c (DISPATCH_LATENCY c)\<rparr>, c))"

definition do_dib_hit :: "'m O3_CPU \<Rightarrow> core_instr \<Rightarrow> core_instr" where
  "do_dib_hit c i = i\<lparr>ready_time := o_current_time c + warm_latency c (DISPATCH_LATENCY c)\<rparr>"

text \<open>\<open>std::merge\<close> in program order: the second range comes first only when it is strictly older.\<close>

fun merge_order :: "core_instr list \<Rightarrow> core_instr list \<Rightarrow> core_instr list" where
  "merge_order [] ys = ys"
| "merge_order (x # xs) [] = x # xs"
| "merge_order (x # xs) (y # ys) = (if instr_id y < instr_id x then y # merge_order (x # xs) ys else x # merge_order xs (y # ys))"

definition decode_instruction :: "'m O3_CPU \<Rightarrow> (int \<times> 'm O3_CPU) option" where
  "decode_instruction c = do {
     (n, k) \<leftarrow> choose_dispatch c;
     (ys, c) \<leftarrow> map_option_state (\<lambda>i c. Some (do_decode i c)) (take k (DECODE_BUFFER c)) c;
     let xs = map (do_dib_hit c) (take n (DIB_HIT_BUFFER c));
     Some (int n + int k, c\<lparr>DISPATCH_BUFFER := DISPATCH_BUFFER c @ merge_order xs ys,
       DECODE_BUFFER := drop k (DECODE_BUFFER c), DIB_HIT_BUFFER := drop n (DIB_HIT_BUFFER c)\<rparr>) }"

section \<open>Dispatch\<close>

text \<open>\<open>LSQ_ENTRY::finish\<close>: one memory operation of the instruction is done.  In the reorder buffer the
  instruction is found by binary search, at the first one that is not older.\<close>

definition finish_instr :: "LSQ_ENTRY \<Rightarrow> core_instr \<Rightarrow> core_instr option" where
  "finish_instr e i = (if instr_id i \<noteq> ls_instr_id e \<or> completed_mem_ops i + 1 > num_mem_ops i then None
     else Some (i\<lparr>completed_mem_ops := completed_mem_ops i + 1\<rparr>))"

definition lsq_finish :: "LSQ_ENTRY \<Rightarrow> core_instr list \<Rightarrow> core_instr list option" where
  "lsq_finish e rob = (let older = takeWhile (\<lambda>i. instr_id i < ls_instr_id e) rob
     in case dropWhile (\<lambda>i. instr_id i < ls_instr_id e) rob of
          [] \<Rightarrow> None
        | i # younger \<Rightarrow> map_option (\<lambda>i. older @ i # younger) (finish_instr e i))"

text \<open>The search for the youngest earlier store to the address; the comparison is the lambda of the code.\<close>

definition store_before :: "address \<Rightarrow> LSQ_ENTRY list \<Rightarrow> nat \<Rightarrow> nat \<Rightarrow> bool" where
  "store_before smem sq l r = (ls_virtual_address (sq ! l) \<noteq> smem
     \<or> (ls_virtual_address (sq ! r) = smem \<and> ls_instr_id (sq ! l) < ls_instr_id (sq ! r)))"

definition find_store :: "address \<Rightarrow> LSQ_ENTRY list \<Rightarrow> nat option" where
  "find_store smem sq = (let j = max_element (store_before smem sq) 0 (length sq)
     in if j \<noteq> length sq \<and> ls_virtual_address (sq ! j) = smem then Some j else None)"

definition schedule_load :: "address \<Rightarrow> core_instr \<times> load_queue \<times> LSQ_ENTRY list \<Rightarrow> (core_instr \<times> load_queue \<times> LSQ_ENTRY list) option" where
  "schedule_load smem s = (case s of (i, lq, sq) \<Rightarrow>
     (case find_if (\<lambda>k. lq ! k = None) 0 (length lq) of
        None \<Rightarrow> None
      | Some k \<Rightarrow> (let e = new_lsq_entry smem (instr_id i) (instr_ip i) (in_asid i)
          in case find_store smem sq of
               None \<Rightarrow> Some (i, lq[k := Some e], sq)
             | Some j \<Rightarrow>
                 if ls_fetch_issued (sq ! j) then map_option (\<lambda>i. (i, lq[k := None], sq)) (finish_instr e i)
                 else if ls_instr_id (sq ! j) < instr_id i
                 then Some (i, lq[k := Some (e\<lparr>producer_id := Some (ls_instr_id (sq ! j))\<rparr>)],
                        sq[j := (sq ! j)\<lparr>lq_depend_on_me := lq_depend_on_me (sq ! j) @ [k]\<rparr>])
                 else None)))"

definition do_memory_scheduling :: "core_instr \<Rightarrow> load_queue \<Rightarrow> LSQ_ENTRY list \<Rightarrow> (core_instr \<times> load_queue \<times> LSQ_ENTRY list) option" where
  "do_memory_scheduling i lq sq = do {
     (i, lq, sq) \<leftarrow> fold_option schedule_load (source_memory i) (i, lq, sq);
     Some (i, lq, sq @ map (\<lambda>dmem. new_lsq_entry dmem (instr_id i) (instr_ip i) (in_asid i)) (destination_memory i)) }"

definition can_dispatch :: "core_instr \<Rightarrow> 'm O3_CPU \<Rightarrow> bool" where
  "can_dispatch i c = (ready_time i \<le> o_current_time c \<and> length (ROB c) \<noteq> ROB_SIZE c
     \<and> length (filter (\<lambda>e. e = None) (LQ c)) \<ge> length (source_memory i)
     \<and> length (destination_memory i) + length (SQ c) \<le> SQ_SIZE c)"

fun dispatch_loop :: "core_instr list \<Rightarrow> bandwidth \<Rightarrow> 'm O3_CPU \<Rightarrow> (bandwidth \<times> 'm O3_CPU) option" where
  "dispatch_loop [] bw c = Some (bw, c)"
| "dispatch_loop (i # q) bw c = (if has_remaining bw \<and> can_dispatch i c
     then do {
       (i, lq, sq) \<leftarrow> do_memory_scheduling i (LQ c) (SQ c);
       bw \<leftarrow> bw_consume_one bw;
       dispatch_loop q bw (c\<lparr>DISPATCH_BUFFER := q, LQ := lq, SQ := sq,
         ROB := ROB c @ [i\<lparr>ready_time := o_current_time c + warm_latency c (SCHEDULING_LATENCY c)\<rparr>]\<rparr>) }
     else Some (bw, c))"

definition dispatch_instruction :: "'m O3_CPU \<Rightarrow> (int \<times> 'm O3_CPU) option" where
  "dispatch_instruction c = do {
     (bw, c) \<leftarrow> dispatch_loop (DISPATCH_BUFFER c) (new_bandwidth (DISPATCH_WIDTH c)) c;
     Some (amount_consumed bw, c) }"

section \<open>Scheduling and execution\<close>

definition do_scheduling :: "core_instr \<Rightarrow> RegisterAllocator \<Rightarrow> (core_instr \<times> RegisterAllocator) option" where
  "do_scheduling i r = do {
     (src, r) \<leftarrow> map_option_state rename_src_register (source_registers i) r;
     (dst, r) \<leftarrow> map_option_state (\<lambda>reg. rename_dest_register reg (instr_id i)) (destination_registers i) r;
     Some (i\<lparr>source_registers := src, destination_registers := dst, scheduled := True\<rparr>, r) }"

primrec unallocated :: "int list \<Rightarrow> RegisterAllocator \<Rightarrow> nat option" where
  "unallocated [] r = Some 0"
| "unallocated (reg # regs) r = do { a \<leftarrow> isAllocated reg r; n \<leftarrow> unallocated regs r; Some ((if a then 0 else 1) + n) }"

text \<open>The test for free registers looks at every instruction on the way, also at those that are scheduled
  already and whose sources are physical registers by now.\<close>

fun schedule_loop :: "time \<Rightarrow> core_instr list \<Rightarrow> bandwidth \<Rightarrow> RegisterAllocator \<Rightarrow> (core_instr list \<times> int \<times> RegisterAllocator) option" where
  "schedule_loop now [] bw r = Some ([], 0, r)"
| "schedule_loop now (i # rob) bw r = (if \<not> has_remaining bw then Some (i # rob, 0, r)
     else do {
       sources_to_allocate \<leftarrow> unallocated (source_registers i) r;
       if count_free_registers r < sources_to_allocate + length (destination_registers i) then Some (i # rob, 0, r)
       else do {
         (i, n, r) \<leftarrow> (if \<not> scheduled i \<and> ready_time i \<le> now
            then map_option (\<lambda>(i, r). (i, 1, r)) (do_scheduling i r) else Some (i, 0, r));
         bw \<leftarrow> (if \<not> executed i then bw_consume_one bw else Some bw);
         (rob, m, r) \<leftarrow> schedule_loop now rob bw r;
         Some (i # rob, n + m, r) } })"

definition schedule_instruction :: "'m O3_CPU \<Rightarrow> (int \<times> 'm O3_CPU) option" where
  "schedule_instruction c = do {
     (rob, progress, r) \<leftarrow> schedule_loop (o_current_time c) (ROB c) (new_bandwidth (SCHEDULER_SIZE c)) (reg_allocator c);
     Some (progress, c\<lparr>ROB := rob, reg_allocator := r\<rparr>) }"

primrec all_valid :: "int list \<Rightarrow> RegisterAllocator \<Rightarrow> bool option" where
  "all_valid [] r = Some True"
| "all_valid (reg # regs) r = do { v \<leftarrow> isValid reg r; if v then all_valid regs r else Some False }"

definition mark_load :: "nat \<Rightarrow> time \<Rightarrow> LSQ_ENTRY option \<Rightarrow> LSQ_ENTRY option" where
  "mark_load i t e = map_option (\<lambda>e. if ls_instr_id e = i then e\<lparr>ls_ready_time := t\<rparr> else e) e"

definition mark_store :: "nat \<Rightarrow> time \<Rightarrow> LSQ_ENTRY \<Rightarrow> LSQ_ENTRY" where
  "mark_store i t e = (if ls_instr_id e = i then e\<lparr>ls_ready_time := t\<rparr> else e)"

definition do_execution :: "core_instr \<Rightarrow> 'm O3_CPU \<Rightarrow> core_instr \<times> 'm O3_CPU" where
  "do_execution i c = (let t = o_current_time c + warm_latency c (EXEC_LATENCY c)
   in (i\<lparr>executed := True, ready_time := t\<rparr>,
       c\<lparr>LQ := map (mark_load (instr_id i) t) (LQ c), SQ := map (mark_store (instr_id i) t) (SQ c)\<rparr>))"

fun execute_loop :: "core_instr list \<Rightarrow> bandwidth \<Rightarrow> 'm O3_CPU \<Rightarrow> (core_instr list \<times> bandwidth \<times> 'm O3_CPU) option" where
  "execute_loop [] bw c = Some ([], bw, c)"
| "execute_loop (i # rob) bw c = (if \<not> has_remaining bw then Some (i # rob, bw, c)
     else do {
       ready \<leftarrow> (if scheduled i \<and> \<not> executed i \<and> ready_time i \<le> o_current_time c
          then all_valid (source_registers i) (reg_allocator c) else Some False);
       (i, bw, c) \<leftarrow> (if ready then (let (i, c) = do_execution i c in map_option (\<lambda>bw. (i, bw, c)) (bw_consume_one bw))
          else Some (i, bw, c));
       (rob, bw, c) \<leftarrow> execute_loop rob bw c;
       Some (i # rob, bw, c) })"

definition execute_instruction :: "'m O3_CPU \<Rightarrow> (int \<times> 'm O3_CPU) option" where
  "execute_instruction c = do {
     (rob, bw, c) \<leftarrow> execute_loop (ROB c) (new_bandwidth (EXEC_WIDTH c)) c;
     Some (amount_consumed bw, c\<lparr>ROB := rob\<rparr>) }"

definition do_complete_execution :: "core_instr \<Rightarrow> 'm O3_CPU \<Rightarrow> (core_instr \<times> 'm O3_CPU) option" where
  "do_complete_execution i c = do {
     r \<leftarrow> fold_option complete_dest_register (destination_registers i) (reg_allocator c);
     let c = c\<lparr>reg_allocator := r\<rparr>;
     Some (i\<lparr>completed := True\<rparr>, if branch_mispredicted i
       then c\<lparr>fetch_resume_time := o_current_time c + BRANCH_MISPREDICT_PENALTY c\<rparr> else c) }"

definition can_complete :: "time \<Rightarrow> core_instr \<Rightarrow> bool" where
  "can_complete now i = (executed i \<and> \<not> completed i \<and> ready_time i \<le> now \<and> completed_mem_ops i = num_mem_ops i)"

fun complete_loop :: "core_instr list \<Rightarrow> bandwidth \<Rightarrow> 'm O3_CPU \<Rightarrow> (core_instr list \<times> bandwidth \<times> 'm O3_CPU) option" where
  "complete_loop [] bw c = Some ([], bw, c)"
| "complete_loop (i # rob) bw c = (if \<not> has_remaining bw then Some (i # rob, bw, c)
     else do {
       (i, bw, c) \<leftarrow> (if can_complete (o_current_time c) i
          then do { (i, c) \<leftarrow> do_complete_execution i c; bw \<leftarrow> bw_consume_one bw; Some (i, bw, c) }
          else Some (i, bw, c));
       (rob, bw, c) \<leftarrow> complete_loop rob bw c;
       Some (i # rob, bw, c) })"

definition complete_inflight_instruction :: "'m O3_CPU \<Rightarrow> (int \<times> 'm O3_CPU) option" where
  "complete_inflight_instruction c = do {
     (rob, bw, c) \<leftarrow> complete_loop (ROB c) (new_bandwidth (EXEC_WIDTH c)) c;
     Some (amount_consumed bw, c\<lparr>ROB := rob\<rparr>) }"

section \<open>The load and store queues\<close>

text \<open>A finished store releases the loads that wait for it; the asserted slot is still allocated and waits
  for this store.\<close>

definition release_load :: "nat \<Rightarrow> nat \<Rightarrow> core_instr list \<times> load_queue \<Rightarrow> (core_instr list \<times> load_queue) option" where
  "release_load i k s = (case s of (rob, lq) \<Rightarrow>
     (case lq ! k of
        None \<Rightarrow> None
      | Some e \<Rightarrow> if producer_id e \<noteq> Some i then None
                 else map_option (\<lambda>rob. (rob, lq[k := None])) (lsq_finish e rob)))"

definition do_finish_store :: "LSQ_ENTRY \<Rightarrow> core_instr list \<times> load_queue \<Rightarrow> (core_instr list \<times> load_queue) option" where
  "do_finish_store e s = do {
     rob \<leftarrow> lsq_finish e (fst s);
     fold_option (release_load (ls_instr_id e)) (lq_depend_on_me e) (rob, snd s) }"

definition lsq_packet :: "LSQ_ENTRY \<Rightarrow> request" where
  "lsq_packet e = default_request\<lparr>rq_v_address := ls_virtual_address e, rq_instr_id := ls_instr_id e, rq_ip := ls_ip e\<rparr>"

definition do_complete_store :: "LSQ_ENTRY \<Rightarrow> CacheBus \<Rightarrow> bool \<times> CacheBus" where
  "do_complete_store e = issue_write (lsq_packet e)"

definition execute_load :: "LSQ_ENTRY \<Rightarrow> CacheBus \<Rightarrow> bool \<times> CacheBus" where
  "execute_load e = issue_read (lsq_packet e)"

text \<open>A store completes when it is older than all of the reorder buffer; with an empty buffer every
  identifier is below the greatest one.\<close>

definition is_finished :: "core_instr list \<Rightarrow> LSQ_ENTRY \<Rightarrow> bool" where
  "is_finished rob e = (case rob of [] \<Rightarrow> True | i # _ \<Rightarrow> ls_instr_id e < instr_id i)"

definition do_complete :: "time \<Rightarrow> core_instr list \<Rightarrow> LSQ_ENTRY \<Rightarrow> CacheBus \<Rightarrow> (bool \<times> CacheBus) option" where
  "do_complete now rob e bus = Some (if is_finished rob e \<and> ls_ready_time e \<le> now then do_complete_store e bus else (False, bus))"

definition can_load :: "time \<Rightarrow> LSQ_ENTRY \<Rightarrow> bool" where
  "can_load now e = (producer_id e = None \<and> \<not> ls_fetch_issued e \<and> ls_ready_time e < now)"

fun load_loop :: "time \<Rightarrow> load_queue \<Rightarrow> bandwidth \<Rightarrow> CacheBus \<Rightarrow> (load_queue \<times> bandwidth \<times> CacheBus) option" where
  "load_loop now [] bw bus = Some ([], bw, bus)"
| "load_loop now (None # lq) bw bus = map_option (\<lambda>(lq, s). (None # lq, s)) (load_loop now lq bw bus)"
| "load_loop now (Some e # lq) bw bus = do {
     (e, bw, bus) \<leftarrow> (if has_remaining bw \<and> can_load now e
       then (case execute_load e bus of
               (False, bus) \<Rightarrow> Some (e, bw, bus)
             | (True, bus) \<Rightarrow> do { bw \<leftarrow> bw_consume_one bw; Some (e\<lparr>ls_fetch_issued := True\<rparr>, bw, bus) })
       else Some (e, bw, bus));
     (lq, s) \<leftarrow> load_loop now lq bw bus;
     Some (Some e # lq, s) }"

text \<open>The stores that were executed stand in front of the queue, so the partition point is the first store
  that was not.\<close>

definition issue_stores :: "bandwidth \<Rightarrow> 'm O3_CPU \<Rightarrow> (bandwidth \<times> 'm O3_CPU) option" where
  "issue_stores bw c = do {
     let issued = takeWhile ls_fetch_issued (SQ c);
     (fetch, rest) \<leftarrow> get_span_p (dropWhile ls_fetch_issued (SQ c)) bw (\<lambda>e. \<not> ls_fetch_issued e \<and> ls_ready_time e \<le> o_current_time c);
     bw \<leftarrow> bw_consume (int (length fetch)) bw;
     (rob, lq) \<leftarrow> fold_option do_finish_store fetch (ROB c, LQ c);
     Some (bw, c\<lparr>ROB := rob, LQ := lq,
       SQ := issued @ map (\<lambda>e. e\<lparr>ls_fetch_issued := True, ls_ready_time := o_current_time c\<rparr>) fetch @ rest\<rparr>) }"

definition complete_stores :: "bandwidth \<Rightarrow> 'm O3_CPU \<Rightarrow> (bandwidth \<times> 'm O3_CPU) option" where
  "complete_stores bw c = do {
     (span, rest) \<leftarrow> get_span (SQ c) bw;
     (complete, kept, bus) \<leftarrow> while_ok (do_complete (o_current_time c) (ROB c)) span (L1D_bus c);
     bw \<leftarrow> bw_consume (int (length complete)) bw;
     Some (bw, c\<lparr>SQ := kept @ rest, L1D_bus := bus\<rparr>) }"

definition operate_lsq :: "'m O3_CPU \<Rightarrow> (int \<times> 'm O3_CPU) option" where
  "operate_lsq c = do {
     (store_bw, c) \<leftarrow> issue_stores (new_bandwidth (SQ_WIDTH c)) c;
     (store_bw, c) \<leftarrow> complete_stores store_bw c;
     (lq, load_bw, bus) \<leftarrow> load_loop (o_current_time c) (LQ c) (new_bandwidth (LQ_WIDTH c)) (L1D_bus c);
     Some (amount_consumed store_bw + amount_consumed load_bw, c\<lparr>LQ := lq, L1D_bus := bus\<rparr>) }"

section \<open>Memory returns\<close>

text \<open>The instructions one fetch response completes, while the fetch budget lasts.\<close>

definition completes_fetch :: "(address \<Rightarrow> address) \<Rightarrow> response \<Rightarrow> core_instr \<Rightarrow> bool" where
  "completes_fetch blk r i = (blk (instr_ip i) = blk (rs_v_address r) \<and> fetch_issued i)"

fun serve_fetch :: "(address \<Rightarrow> address) \<Rightarrow> response \<Rightarrow> nat list \<Rightarrow> bandwidth \<Rightarrow> core_instr list
    \<Rightarrow> (nat list \<times> bandwidth \<times> int \<times> core_instr list) option" where
  "serve_fetch blk r [] bw xs = Some ([], bw, 0, xs)"
| "serve_fetch blk r (d # ds) bw xs = (if \<not> has_remaining bw then Some (d # ds, bw, 0, xs)
     else (case find_if (\<lambda>j. instr_id (xs ! j) = d) 0 (length xs) of
             Some j \<Rightarrow> if completes_fetch blk r (xs ! j)
               then do {
                 bw \<leftarrow> bw_consume_one bw;
                 (ds, bw, n, xs) \<leftarrow> serve_fetch blk r ds bw (xs[j := (xs ! j)\<lparr>fetch_completed := True\<rparr>]);
                 Some (ds, bw, n + 1, xs) }
               else serve_fetch blk r ds bw xs
           | None \<Rightarrow> serve_fetch blk r ds bw xs))"

text \<open>A response that still has instructions to serve stays, and then no fetch budget is left.\<close>

fun return_fetches :: "(address \<Rightarrow> address) \<Rightarrow> response list \<Rightarrow> bandwidth \<Rightarrow> bandwidth \<Rightarrow> core_instr list
    \<Rightarrow> (response list \<times> int \<times> core_instr list) option" where
  "return_fetches blk [] fetch_bw l1i_bw xs = Some ([], 0, xs)"
| "return_fetches blk (r # rs) fetch_bw l1i_bw xs = (if \<not> (has_remaining fetch_bw \<and> has_remaining l1i_bw) then Some (r # rs, 0, xs)
     else do {
       (ds, fetch_bw, n, xs) \<leftarrow> serve_fetch blk r (rs_deps r) fetch_bw xs;
       if ds \<noteq> [] then Some (r\<lparr>rs_deps := ds\<rparr> # rs, n, xs)
       else do {
         l1i_bw \<leftarrow> bw_consume_one l1i_bw;
         (rs, m, xs) \<leftarrow> return_fetches blk rs fetch_bw l1i_bw xs;
         Some (rs, n + 1 + m, xs) } })"

text \<open>A data response finishes every load of its block that was sent.\<close>

definition return_load :: "(address \<Rightarrow> address) \<Rightarrow> response \<Rightarrow> LSQ_ENTRY option \<Rightarrow> core_instr list \<times> int
    \<Rightarrow> (LSQ_ENTRY option \<times> core_instr list \<times> int) option" where
  "return_load blk r slot s = (case slot of
     None \<Rightarrow> Some (None, s)
   | Some e \<Rightarrow> if ls_fetch_issued e \<and> blk (ls_virtual_address e) = blk (rs_v_address r)
       then map_option (\<lambda>rob. (None, rob, snd s + 1)) (lsq_finish e (fst s)) else Some (Some e, s))"

definition return_data :: "(address \<Rightarrow> address) \<Rightarrow> response \<Rightarrow> load_queue \<times> core_instr list \<times> int
    \<Rightarrow> (load_queue \<times> core_instr list \<times> int) option" where
  "return_data blk r s = map_option (\<lambda>(lq, rob, n). (lq, rob, n + 1)) (map_option_state (return_load blk r) (fst s) (snd s))"

definition set_returned :: "response list \<Rightarrow> CacheBus \<Rightarrow> CacheBus" where
  "set_returned rs bus = bus\<lparr>bus_lower_level := (bus_lower_level bus)\<lparr>returned := rs\<rparr>\<rparr>"

definition handle_memory_return :: "'m O3_CPU \<Rightarrow> (int \<times> 'm O3_CPU) option" where
  "handle_memory_return c = do {
     (rs, n, xs) \<leftarrow> return_fetches (core_block c) (returned (bus_lower_level (L1I_bus c)))
         (new_bandwidth (FETCH_WIDTH c)) (new_bandwidth (L1I_BANDWIDTH c)) (IFETCH_BUFFER c);
     let ds = returned (bus_lower_level (L1D_bus c));
     let k = nat (L1D_BANDWIDTH c);
     (lq, rob, m) \<leftarrow> fold_option (return_data (core_block c)) (take k ds) (LQ c, ROB c, 0);
     Some (n + m, c\<lparr>IFETCH_BUFFER := xs, L1I_bus := set_returned rs (L1I_bus c), LQ := lq, ROB := rob,
       L1D_bus := set_returned (drop k ds) (L1D_bus c)\<rparr>) }"

section \<open>Retirement\<close>

definition retire_rob :: "'m O3_CPU \<Rightarrow> (int \<times> 'm O3_CPU) option" where
  "retire_rob c = do {
     (retired, rest) \<leftarrow> get_span_p (ROB c) (new_bandwidth (RETIRE_WIDTH c)) completed;
     r \<leftarrow> fold_option (\<lambda>i. fold_option retire_dest_register (destination_registers i)) retired (reg_allocator c);
     Some (int (length retired), c\<lparr>reg_allocator := r, num_retired := num_retired c + length retired, ROB := rest\<rparr>) }"

section \<open>One cycle, and the phases\<close>

definition STAT_PRINTING_PERIOD :: nat where "STAT_PRINTING_PERIOD = 10000000"

text \<open>The heartbeat, without the line it prints.\<close>

definition heartbeat :: "'m O3_CPU \<Rightarrow> 'm O3_CPU" where
  "heartbeat c = (if show_heartbeat c \<and> num_retired c \<ge> last_heartbeat_instr c + STAT_PRINTING_PERIOD
     then c\<lparr>last_heartbeat_instr := num_retired c, last_heartbeat_time := o_current_time c\<rparr> else c)"

definition core_operate :: "'m core_hooks \<Rightarrow> 'm O3_CPU \<Rightarrow> (int \<times> 'm O3_CPU) option" where
  "core_operate h c = do {
     (p1, c) \<leftarrow> retire_rob c;
     (p2, c) \<leftarrow> complete_inflight_instruction c;
     (p3, c) \<leftarrow> execute_instruction c;
     (p4, c) \<leftarrow> schedule_instruction c;
     (p5, c) \<leftarrow> handle_memory_return c;
     (p6, c) \<leftarrow> operate_lsq c;
     (p7, c) \<leftarrow> dispatch_instruction c;
     (p8, c) \<leftarrow> decode_instruction c;
     (p9, c) \<leftarrow> promote_to_decode c;
     (p10, c) \<leftarrow> fetch_instruction c;
     (p11, c) \<leftarrow> check_dib c;
     c \<leftarrow> initialize_instruction h c;
     Some (p1 + p2 + p3 + p4 + p5 + p6 + p7 + p8 + p9 + p10 + p11, heartbeat c) }"

definition core_tick :: "'m core_hooks \<Rightarrow> 'm O3_CPU \<Rightarrow> (int \<times> 'm O3_CPU) option" where
  "core_tick h c = core_operate h (c\<lparr>o_current_time := o_current_time c + o_clock_period c\<rparr>)"

definition core_begin_phase :: "'m O3_CPU \<Rightarrow> 'm O3_CPU" where
  "core_begin_phase c = c\<lparr>begin_phase_instr := num_retired c, begin_phase_time := o_current_time c,
     o_sim_stats := zero_cpu_stats\<lparr>begin_instrs := num_retired c, begin_cycles := o_current_time c div o_clock_period c\<rparr>\<rparr>"

definition core_end_phase :: "nat \<Rightarrow> 'm O3_CPU \<Rightarrow> 'm O3_CPU" where
  "core_end_phase finished_cpu c = (let
     c = on_cpu_stats (\<lambda>s. s\<lparr>end_instrs := num_retired c, end_cycles := o_current_time c div o_clock_period c\<rparr>) c
   in if finished_cpu = o_cpu c
      then c\<lparr>finish_phase_instr := num_retired c, finish_phase_time := o_current_time c, o_roi_stats := o_sim_stats c\<rparr> else c)"

end
