(* ===== verification/Core_Order.thy ===== *)
theory Core_Order
  imports Core
begin

text \<open>
  Instructions move through the core in program order: whatever the modules, the caches and the buffer
  sizes are, a cycle retires instructions from the front of the program and keeps the others, each once,
  in order.  The order across the two parallel buffers of the decoder is that of their merge.
\<close>

section \<open>The instructions in flight\<close>

abbreviation ids :: "core_instr list \<Rightarrow> nat list" where
  "ids \<equiv> map instr_id"

definition in_flight :: "'m O3_CPU \<Rightarrow> nat list" where
  "in_flight c = ids (ROB c) @ ids (DISPATCH_BUFFER c) @ ids (merge_order (DIB_HIT_BUFFER c) (DECODE_BUFFER c))
     @ ids (IFETCH_BUFFER c) @ ids (input_queue c)"

text \<open>All that \<open>in_flight\<close> depends on, and the count of retired instructions.\<close>

definition pipeline :: "'m O3_CPU \<Rightarrow> nat list \<times> nat list \<times> nat list \<times> nat list \<times> nat list \<times> nat list \<times> nat" where
  "pipeline c = (ids (ROB c), ids (DISPATCH_BUFFER c), ids (DIB_HIT_BUFFER c), ids (DECODE_BUFFER c), ids (IFETCH_BUFFER c),
     ids (input_queue c), num_retired c)"

section \<open>Merging in program order\<close>

lemma set_merge_order [simp]: "set (merge_order xs ys) = set xs \<union> set ys"
  by (induction xs ys rule: merge_order.induct) auto

lemma merge_order_Nil2 [simp]: "merge_order xs [] = xs"
  by (cases xs) simp_all

lemma merge_order_ids: "ids xs = ids xs' \<Longrightarrow> ids ys = ids ys' \<Longrightarrow> ids (merge_order xs ys) = ids (merge_order xs' ys')"
proof (induction xs ys arbitrary: xs' ys' rule: merge_order.induct)
  case (3 x xs y ys)
  from 3(3,4) obtain x' us y' vs where s: "xs' = x' # us" "ys' = y' # vs" "instr_id x' = instr_id x" "instr_id y' = instr_id y"
    "ids xs = ids us" "ids ys = ids vs"
    by (auto simp: Cons_eq_map_conv)
  show ?case using 3(1)[of xs' vs] 3(2)[of us ys'] 3(3,4) s by simp
qed auto

lemma pipeline_in_flight: "pipeline c' = pipeline c \<Longrightarrow> in_flight c' = in_flight c"
  by (auto simp: pipeline_def in_flight_def intro: merge_order_ids)

lemma merge_order_sorted:
  assumes "sorted_wrt (<) (ids xs)" and "sorted_wrt (<) (ids ys)" and "set (ids xs) \<inter> set (ids ys) = {}"
  shows "sorted_wrt (<) (ids (merge_order xs ys))"
  using assms
proof (induction xs ys rule: merge_order.induct)
  case (3 x xs y ys)
  then have "instr_id x \<noteq> instr_id y" by auto
  with 3 show ?case by (auto simp: image_iff)
qed auto

lemma merge_order_sortedD:
  assumes "sorted_wrt (<) (ids (merge_order xs ys))"
  shows "sorted_wrt (<) (ids xs)" and "sorted_wrt (<) (ids ys)" and "set (ids xs) \<inter> set (ids ys) = {}"
  using assms
proof (induction xs ys rule: merge_order.induct)
  case (3 x xs y ys)
  {
    case 1
    with 3 show ?case by (auto split: if_splits)
  next
    case 2
    with 3 show ?case by (auto split: if_splits)
  next
    case 3
    with "3.IH" show ?case by (auto split: if_splits simp: image_iff)
  }
qed auto

text \<open>Splitting both ranges so that all of the front is older than all of the back splits the merge.\<close>

lemma merge_order_split:
  assumes "sorted_wrt (<) (ids (merge_order xs ys))"
    and "\<forall>x\<in>set (take n xs). \<forall>y\<in>set (drop k ys). instr_id x < instr_id y"
    and "\<forall>y\<in>set (take k ys). \<forall>x\<in>set (drop n xs). instr_id y < instr_id x"
  shows "ids (merge_order xs ys) = ids (merge_order (take n xs) (take k ys)) @ ids (merge_order (drop n xs) (drop k ys))"
proof (rule strict_sorted_equal)
  note s = merge_order_sortedD[OF assms(1)]
  have t: "sorted_wrt (<) (ids (take n xs))" "sorted_wrt (<) (ids (drop n xs))" "sorted_wrt (<) (ids (take k ys))" "sorted_wrt (<) (ids (drop k ys))"
    using s(1,2) sorted_wrt_take sorted_wrt_drop by (metis take_map, metis drop_map, metis take_map, metis drop_map)
  have x: "\<forall>x\<in>set (take n xs). \<forall>y\<in>set (drop n xs). instr_id x < instr_id y"
    using s(1) append_take_drop_id[of n xs] sorted_wrt_append[of "(<)" "ids (take n xs)" "ids (drop n xs)"]
    by (metis image_eqI list.set_map map_append)
  have y: "\<forall>x\<in>set (take k ys). \<forall>y\<in>set (drop k ys). instr_id x < instr_id y"
    using s(2) append_take_drop_id[of k ys] sorted_wrt_append[of "(<)" "ids (take k ys)" "ids (drop k ys)"]
    by (metis image_eqI list.set_map map_append)
  have d: "set (ids (take n xs)) \<inter> set (ids (take k ys)) = {}" "set (ids (drop n xs)) \<inter> set (ids (drop k ys)) = {}"
    using s(3) by (auto dest!: in_set_takeD in_set_dropD)
  show "sorted_wrt (<) (ids (merge_order (take n xs) (take k ys)) @ ids (merge_order (drop n xs) (drop k ys)))"
    using x y assms(2,3) merge_order_sorted[OF t(1,3) d(1)] merge_order_sorted[OF t(2,4) d(2)]
    by (auto simp: sorted_wrt_append)
  show "set (ids (merge_order xs ys)) = set (ids (merge_order (take n xs) (take k ys)) @ ids (merge_order (drop n xs) (drop k ys)))"
  proof -
    have "set xs = set (take n xs) \<union> set (drop n xs)" "set ys = set (take k ys) \<union> set (drop k ys)"
      by (simp_all flip: set_append)
    then show ?thesis by auto
  qed
qed (rule assms(1))

section \<open>The choice of the decoder\<close>

text \<open>What the loops keep: the chosen instructions are older than those left in the other buffer.\<close>

definition fair_split :: "core_instr list \<Rightarrow> core_instr list \<Rightarrow> nat \<Rightarrow> nat \<Rightarrow> bool" where
  "fair_split xs ys n k = ((\<forall>x\<in>set (take n xs). \<forall>y\<in>set (drop k ys). instr_id x < instr_id y)
     \<and> (\<forall>y\<in>set (take k ys). \<forall>x\<in>set (drop n xs). instr_id y < instr_id x))"

lemma take_Suc_drop: "drop n xs = x # r \<Longrightarrow> take (Suc n) xs = take n xs @ [x]"
  by (metis Cons_nth_drop_Suc drop_all linorder_not_less list.distinct(1) list.inject take_Suc_conv_app_nth)

lemma drop_Suc_tl: "drop n xs = x # r \<Longrightarrow> drop (Suc n) xs = r"
  by (metis drop_Suc list.sel(3) tl_drop)

lemma sorted_head_less:
  "sorted_wrt (<) (ids xs) \<Longrightarrow> drop n xs = x # r \<Longrightarrow> \<forall>y\<in>set r. instr_id x < instr_id y"
  using sorted_wrt_drop[of "(<)" "ids xs" n] by (simp add: drop_map)

lemma fair_split_dib:
  assumes "sorted_wrt (<) (ids ys)" and "fair_split xs ys n k" and "drop n xs = x # r" and "drop k ys = [] \<or> instr_id x < instr_id (hd (drop k ys))"
  shows "fair_split xs ys (Suc n) k"
proof -
  have "instr_id x < instr_id y" if "y \<in> set (drop k ys)" for y
    using assms(4) that sorted_head_less[OF assms(1), of k] by (cases "drop k ys") auto
  then show ?thesis using assms(2,3) by (auto simp: fair_split_def take_Suc_drop drop_Suc_tl)
qed

lemma fair_split_decode:
  assumes "sorted_wrt (<) (ids xs)" and "fair_split xs ys n k" and "drop k ys = y # r" and "drop n xs = [] \<or> instr_id y < instr_id (hd (drop n xs))"
  shows "fair_split xs ys n (Suc k)"
proof -
  have "instr_id y < instr_id x" if "x \<in> set (drop n xs)" for x
    using assms(4) that sorted_head_less[OF assms(1), of n] by (cases "drop n xs") auto
  then show ?thesis using assms(2,3) by (auto simp: fair_split_def take_Suc_drop drop_Suc_tl)
qed

text \<open>The state of the loops against the buffers they run over.\<close>

definition split_at :: "core_instr list \<Rightarrow> core_instr list \<Rightarrow> core_instr list \<Rightarrow> core_instr list \<Rightarrow> nat \<Rightarrow> nat \<Rightarrow> bool" where
  "split_at xs ys us vs n k = (us = drop n xs \<and> vs = drop k ys \<and> fair_split xs ys n k)"

lemma split_at_dib:
  "sorted_wrt (<) (ids ys) \<Longrightarrow> split_at xs ys (x # us) vs n k \<Longrightarrow> vs = [] \<or> instr_id x < instr_id (hd vs) \<Longrightarrow> split_at xs ys us vs (n + 1) k"
  using fair_split_dib[of ys xs n k x us] drop_Suc_tl[of n xs x us] by (auto simp: split_at_def)

lemma split_at_decode:
  "sorted_wrt (<) (ids xs) \<Longrightarrow> split_at xs ys us (y # vs) n k \<Longrightarrow> us = [] \<or> instr_id y < instr_id (hd us) \<Longrightarrow> split_at xs ys us vs n (k + 1)"
  using fair_split_decode[of xs ys n k y vs] drop_Suc_tl[of k ys y vs] by (auto simp: split_at_def)

lemma choose_both_fair:
  assumes "sorted_wrt (<) (ids xs)" and "sorted_wrt (<) (ids ys)" and "set (ids xs) \<inter> set (ids ys) = {}"
  shows "choose_both now us vs (n, k, ib, db) = Some (n', k', ib', db') \<Longrightarrow> split_at xs ys us vs n k \<Longrightarrow> fair_split xs ys n' k'"
proof (induction us arbitrary: vs n k ib db)
  case Nil
  then show ?case by (auto simp: split_at_def)
next
  case (Cons x us)
  note outer = Cons.IH
  from Cons.prems show ?case
  proof (induction vs arbitrary: k ib db)
    case Nil
    then show ?case by (auto simp: split_at_def)
  next
    case (Cons y vs)
    have "x \<in> set xs" "y \<in> set ys" using Cons.prems(2) unfolding split_at_def by (metis in_set_dropD list.set_intros(1))+
    then have "instr_id x \<noteq> instr_id y" using assms(3) by auto
    then show ?case
      using Cons.prems(1) outer[OF _ split_at_dib[OF assms(2) Cons.prems(2)]] Cons.IH[OF _ split_at_decode[OF assms(1) Cons.prems(2)]] Cons.prems(2)
      by (auto simp: bind_eq_Some_conv split_at_def split: if_splits)
  qed
qed

lemma choose_dib_fair:
  assumes "sorted_wrt (<) (ids ys)"
  shows "choose_dib now us vs (n, ib) = Some (n', ib') \<Longrightarrow> split_at xs ys us vs n k \<Longrightarrow> fair_split xs ys n' k"
proof (induction us arbitrary: n ib)
  case (Cons x us)
  then show ?case
    using Cons.IH[OF _ split_at_dib[OF assms Cons.prems(2)]] by (auto simp: bind_eq_Some_conv split_at_def split: if_splits)
qed (auto simp: split_at_def)

lemma choose_decode_fair:
  assumes "sorted_wrt (<) (ids xs)"
  shows "choose_decode now us vs (k, ib, db) = Some (k', ib', db') \<Longrightarrow> split_at xs ys us vs n k \<Longrightarrow> fair_split xs ys n k'"
proof (induction vs arbitrary: k ib db)
  case (Cons y vs)
  then show ?case
    using Cons.IH[OF _ split_at_decode[OF assms Cons.prems(2)]] by (auto simp: bind_eq_Some_conv split_at_def split: if_splits)
qed (auto simp: split_at_def)

lemma choose_dispatch_fair:
  assumes "choose_dispatch c = Some (n, k)" and "sorted_wrt (<) (ids (merge_order (DIB_HIT_BUFFER c) (DECODE_BUFFER c)))"
  shows "fair_split (DIB_HIT_BUFFER c) (DECODE_BUFFER c) n k"
proof -
  let ?xs = "DIB_HIT_BUFFER c" and ?ys = "DECODE_BUFFER c"
  note s = merge_order_sortedD[OF assms(2)]
  obtain n1 k1 ib db ib2 ib3 db3 where
    1: "choose_both (o_current_time c) ?xs ?ys (0, 0, new_bandwidth (min (DIB_INORDER_WIDTH c)
         (int (DISPATCH_BUFFER_SIZE c) - int (length (DISPATCH_BUFFER c)))), new_bandwidth (DECODE_WIDTH c)) = Some (n1, k1, ib, db)" and
    2: "choose_dib (o_current_time c) (drop n1 ?xs) (drop k1 ?ys) (n1, ib) = Some (n, ib2)" and
    3: "choose_decode (o_current_time c) (drop n ?xs) (drop k1 ?ys) (k1, ib2, db) = Some (k, ib3, db3)"
    using assms(1) by (auto simp: choose_dispatch_def bind_eq_Some_conv Let_def)
  have "fair_split ?xs ?ys n1 k1" by (rule choose_both_fair[OF s 1]) (simp add: split_at_def fair_split_def)
  then have "fair_split ?xs ?ys n k1" by (intro choose_dib_fair[OF s(2) 2]) (simp add: split_at_def)
  then show ?thesis by (intro choose_decode_fair[OF s(1) 3]) (simp add: split_at_def)
qed

section \<open>The steps of a cycle\<close>

lemma map_option_state_ids:
  assumes "map_option_state f xs s = Some (ys, t)" and "\<And>x s y s'. f x s = Some (y, s') \<Longrightarrow> instr_id y = instr_id x"
  shows "ids ys = ids xs"
  using assms(1)
proof (induction xs arbitrary: s ys)
  case (Cons x xs)
  then show ?case using assms(2) by (auto simp: bind_eq_Some_conv)
qed simp

lemma decode_keeps_order:
  assumes "decode_instruction c = Some (p, c')" and "sorted_wrt (<) (in_flight c)"
  shows "in_flight c' = in_flight c" and "num_retired c' = num_retired c"
proof -
  obtain n k ys c1 where 1: "choose_dispatch c = Some (n, k)"
    and 2: "map_option_state (\<lambda>i c. Some (do_decode i c)) (take k (DECODE_BUFFER c)) c = Some (ys, c1)"
    and c': "c' = c1\<lparr>DISPATCH_BUFFER := DISPATCH_BUFFER c1 @ merge_order (map (do_dib_hit c1) (take n (DIB_HIT_BUFFER c1))) ys,
       DECODE_BUFFER := drop k (DECODE_BUFFER c1), DIB_HIT_BUFFER := drop n (DIB_HIT_BUFFER c1)\<rparr>"
    using assms(1) by (auto simp: decode_instruction_def bind_eq_Some_conv Let_def)
  have decode: "instr_id (fst (do_decode i s)) = instr_id i" "pipeline (snd (do_decode i s)) = pipeline s
      \<and> ROB (snd (do_decode i s)) = ROB s \<and> DIB_HIT_BUFFER (snd (do_decode i s)) = DIB_HIT_BUFFER s \<and> DECODE_BUFFER (snd (do_decode i s)) = DECODE_BUFFER s
      \<and> DISPATCH_BUFFER (snd (do_decode i s)) = DISPATCH_BUFFER s \<and> IFETCH_BUFFER (snd (do_decode i s)) = IFETCH_BUFFER s
      \<and> input_queue (snd (do_decode i s)) = input_queue s" for i and s :: "'a O3_CPU"
    by (auto simp: do_decode_def do_dib_update_def Let_def pipeline_def)
  have ys: "ids ys = ids (take k (DECODE_BUFFER c))" by (rule map_option_state_ids[OF 2]) (metis decode(1) fst_conv option.inject)
  let ?P = "\<lambda>s :: 'a O3_CPU. num_retired s = num_retired c \<and> ROB s = ROB c \<and> DIB_HIT_BUFFER s = DIB_HIT_BUFFER c \<and> DECODE_BUFFER s = DECODE_BUFFER c
      \<and> DISPATCH_BUFFER s = DISPATCH_BUFFER c \<and> IFETCH_BUFFER s = IFETCH_BUFFER c \<and> input_queue s = input_queue c"
  have "?P c1"
    by (rule map_option_state_invariant[OF 2]) (use decode in \<open>auto simp: pipeline_def\<close>, (metis snd_conv)+)
  then have q: "num_retired c1 = num_retired c" "ROB c1 = ROB c" "DIB_HIT_BUFFER c1 = DIB_HIT_BUFFER c" "DECODE_BUFFER c1 = DECODE_BUFFER c"
    "DISPATCH_BUFFER c1 = DISPATCH_BUFFER c" "IFETCH_BUFFER c1 = IFETCH_BUFFER c" "input_queue c1 = input_queue c" by simp_all
  have m: "sorted_wrt (<) (ids (merge_order (DIB_HIT_BUFFER c) (DECODE_BUFFER c)))"
    using assms(2) by (simp add: in_flight_def sorted_wrt_append)
  have "ids (merge_order (map (do_dib_hit c1) (take n (DIB_HIT_BUFFER c))) ys) = ids (merge_order (take n (DIB_HIT_BUFFER c)) (take k (DECODE_BUFFER c)))"
    by (rule merge_order_ids) (simp_all add: ys do_dib_hit_def)
  then show "in_flight c' = in_flight c"
    using merge_order_split[OF m, of n k] choose_dispatch_fair[OF 1 m] by (simp add: c' q in_flight_def fair_split_def)
  show "num_retired c' = num_retired c" by (simp add: c' q)
qed

text \<open>The buffers other than the reorder buffer, the count of retired instructions and the modules.\<close>

definition front_end :: "'m O3_CPU \<Rightarrow> core_instr list \<times> core_instr list \<times> core_instr list \<times> core_instr list \<times> core_instr list \<times> nat \<times> 'm" where
  "front_end c = (DISPATCH_BUFFER c, DIB_HIT_BUFFER c, DECODE_BUFFER c, IFETCH_BUFFER c, input_queue c, num_retired c, o_modules c)"

lemma front_end_in_flight:
  "front_end c' = front_end c \<Longrightarrow> ids (ROB c') = ids (ROB c) \<Longrightarrow> in_flight c' = in_flight c \<and> num_retired c' = num_retired c"
  by (simp add: front_end_def in_flight_def)

lemma lsq_finish_ids: "lsq_finish e rob = Some rob' \<Longrightarrow> ids rob' = ids rob"
proof -
  assume a: "lsq_finish e rob = Some rob'"
  then obtain i younger i' where d: "dropWhile (\<lambda>i. instr_id i < ls_instr_id e) rob = i # younger" and "finish_instr e i = Some i'"
    and r: "rob' = takeWhile (\<lambda>i. instr_id i < ls_instr_id e) rob @ i' # younger"
    by (auto simp: lsq_finish_def Let_def split: list.splits)
  then have "instr_id i' = instr_id i" by (auto simp: finish_instr_def split: if_splits)
  then have "ids rob' = ids (takeWhile (\<lambda>i. instr_id i < ls_instr_id e) rob @ dropWhile (\<lambda>i. instr_id i < ls_instr_id e) rob)"
    by (simp add: r d del: takeWhile_dropWhile_id)
  then show ?thesis by simp
qed

lemma do_complete_execution_ids:
  "do_complete_execution i c = Some (i', d) \<Longrightarrow> instr_id i' = instr_id i \<and> front_end d = front_end c"
  by (cases "branch_mispredicted i") (auto simp: do_complete_execution_def bind_eq_Some_conv front_end_def)

lemma complete_loop_ids:
  "complete_loop rob bw c = Some (rob', bw', c') \<Longrightarrow> ids rob' = ids rob \<and> front_end c' = front_end c"
proof (induction rob arbitrary: bw c rob')
  case (Cons i rob)
  show ?case
  proof (cases "has_remaining bw")
    case True
    then obtain i1 bw1 d rob1 where
      1: "(if can_complete (o_current_time c) i
          then do { (i, c) \<leftarrow> do_complete_execution i c; bw \<leftarrow> bw_consume_one bw; Some (i, bw, c) }
          else Some (i, bw, c)) = Some (i1, bw1, d)"
      and 2: "complete_loop rob bw1 d = Some (rob1, bw', c')" and rob': "rob' = i1 # rob1"
      using Cons.prems by (auto simp: bind_eq_Some_conv)
    from 1 have "instr_id i1 = instr_id i \<and> front_end d = front_end c"
      by (auto simp: bind_eq_Some_conv dest: do_complete_execution_ids split: if_splits)
    then show ?thesis using Cons.IH[OF 2] by (simp add: rob')
  next
    case False
    then show ?thesis using Cons.prems by auto
  qed
qed simp

lemma execute_loop_ids:
  "execute_loop rob bw c = Some (rob', bw', c') \<Longrightarrow> ids rob' = ids rob \<and> front_end c' = front_end c"
proof (induction rob arbitrary: bw c rob')
  case (Cons i rob)
  have exec: "do_execution i c = (i', d) \<Longrightarrow> instr_id i' = instr_id i \<and> front_end d = front_end c" for i' d
    by (auto simp: do_execution_def Let_def front_end_def)
  show ?case using Cons.prems Cons.IH exec by (auto simp: bind_eq_Some_conv split: if_splits prod.splits)
qed simp

lemma schedule_loop_ids: "schedule_loop now rob bw r = Some (rob', n, r') \<Longrightarrow> ids rob' = ids rob"
proof (induction rob arbitrary: bw r rob' n)
  case (Cons i rob)
  have sched: "instr_id i' = instr_id i" if "do_scheduling i r = Some (i', q)" for i' q
    using that by (auto simp: do_scheduling_def bind_eq_Some_conv)
  show ?case
  proof (cases "has_remaining bw \<and> (\<exists>k. unallocated (source_registers i) r = Some k \<and> k + length (destination_registers i) \<le> count_free_registers r)")
    case True
    then obtain i1 r1 bw1 rob1 m and n1 :: int where
      1: "(if \<not> scheduled i \<and> ready_time i \<le> now then map_option (\<lambda>(i, r). (i, 1, r)) (do_scheduling i r) else Some (i, 0, r)) = Some (i1, n1, r1)"
      and "(if \<not> executed i1 then bw_consume_one bw else Some bw) = Some bw1"
      and 2: "schedule_loop now rob bw1 r1 = Some (rob1, m, r')" and rob': "rob' = i1 # rob1"
      using Cons.prems by (auto simp: bind_eq_Some_conv)
    from 1 sched have "instr_id i1 = instr_id i" by (auto split: if_splits)
    then show ?thesis using Cons.IH[OF 2] by (simp add: rob')
  next
    case False
    then show ?thesis using Cons.prems by (auto simp: bind_eq_Some_conv split: if_splits)
  qed
qed simp

lemma serve_fetch_ids: "serve_fetch blk r ds bw xs = Some (ds', bw', n, xs') \<Longrightarrow> ids xs' = ids xs"
proof (induction ds arbitrary: bw xs n)
  case (Cons d ds)
  show ?case
    using Cons.prems Cons.IH by (auto simp: bind_eq_Some_conv map_update split: if_splits option.splits dest: find_if_SomeD(2)) (metis list_update_id length_map map_update nth_map)+
qed simp

lemma return_fetches_ids: "return_fetches blk rs fb lb xs = Some (rs', n, xs') \<Longrightarrow> ids xs' = ids xs"
proof (induction rs arbitrary: fb lb xs rs' n)
  case (Cons r rs)
  then show ?case by (auto simp: bind_eq_Some_conv split: if_splits dest!: serve_fetch_ids)
qed simp

lemma return_data_ids:
  assumes "fold_option (return_data blk) ds (lq, rob, n) = Some (lq', rob', n')"
  shows "ids rob' = ids rob"
proof -
  have slot: "return_load blk r x s = Some (y, s') \<Longrightarrow> ids (fst s') = ids (fst s)" for r x s y s'
    by (auto simp: return_load_def split: option.splits if_splits dest: lsq_finish_ids)
  have "ids (fst (snd s')) = ids rob" if ret: "return_data blk r s = Some s'" and rob: "ids (fst (snd s)) = ids rob" for r s s'
  proof -
    obtain lq1 rob1 k where "map_option_state (return_load blk r) (fst s) (snd s) = Some (lq1, rob1, k)" and s': "s' = (lq1, rob1, k + 1)"
      using ret by (auto simp: return_data_def)
    then have "ids (fst (rob1, k)) = ids rob"
      by (elim map_option_state_invariant[where P = "\<lambda>t. ids (fst t) = ids rob"]) (use rob slot in auto)
    then show ?thesis by (simp add: s')
  qed
  then have "ids (fst (snd (lq', rob', n'))) = ids rob"
    by (intro fold_option_invariant[OF assms, where P = "\<lambda>s. ids (fst (snd s)) = ids rob"]) auto
  then show ?thesis by simp
qed

lemma release_load_ids: "release_load i k s = Some s' \<Longrightarrow> ids (fst s') = ids (fst s)"
  by (auto simp: release_load_def split: prod.splits option.splits if_splits dest: lsq_finish_ids)

lemma do_finish_store_ids: "do_finish_store e s = Some s' \<Longrightarrow> ids (fst s') = ids (fst s)"
proof -
  assume "do_finish_store e s = Some s'"
  then obtain rob where "lsq_finish e (fst s) = Some rob" and f: "fold_option (release_load (ls_instr_id e)) (lq_depend_on_me e) (rob, snd s) = Some s'"
    by (auto simp: do_finish_store_def bind_eq_Some_conv)
  then have "ids (fst (rob, snd s)) = ids (fst s)" by (simp add: lsq_finish_ids)
  then show ?thesis by (rule fold_option_invariant[OF f]) (auto dest: release_load_ids)
qed

text \<open>A step that keeps the front end and the identifiers of the reorder buffer.\<close>

definition keeps_order :: "'m O3_CPU \<Rightarrow> 'm O3_CPU \<Rightarrow> bool" where
  "keeps_order c c' = (in_flight c' = in_flight c \<and> num_retired c' = num_retired c)"

lemma keeps_order_trans [trans]: "keeps_order a b \<Longrightarrow> keeps_order b c \<Longrightarrow> keeps_order a c"
  by (simp add: keeps_order_def)

lemma complete_keeps_order: "complete_inflight_instruction c = Some (n, c') \<Longrightarrow> keeps_order c c'"
  unfolding keeps_order_def
  by (rule front_end_in_flight) (auto simp: complete_inflight_instruction_def bind_eq_Some_conv front_end_def dest!: complete_loop_ids)

lemma execute_keeps_order: "execute_instruction c = Some (n, c') \<Longrightarrow> keeps_order c c'"
  unfolding keeps_order_def
  by (rule front_end_in_flight) (auto simp: execute_instruction_def bind_eq_Some_conv front_end_def dest!: execute_loop_ids)

lemma schedule_keeps_order: "schedule_instruction c = Some (n, c') \<Longrightarrow> keeps_order c c'"
  unfolding keeps_order_def
  by (rule front_end_in_flight) (auto simp: schedule_instruction_def bind_eq_Some_conv front_end_def dest!: schedule_loop_ids)

lemma return_keeps_order: "handle_memory_return c = Some (n, c') \<Longrightarrow> keeps_order c c'"
  by (auto simp: handle_memory_return_def bind_eq_Some_conv Let_def keeps_order_def in_flight_def
      dest!: return_fetches_ids return_data_ids)

lemma lsq_keeps_order: "operate_lsq c = Some (n, c') \<Longrightarrow> keeps_order c c'"
proof -
  assume "operate_lsq c = Some (n, c')"
  then obtain bw1 c1 bw2 c2 lq bus where 1: "issue_stores (new_bandwidth (SQ_WIDTH c)) c = Some (bw1, c1)"
    and 2: "complete_stores bw1 c1 = Some (bw2, c2)" and c': "c' = c2\<lparr>LQ := lq, L1D_bus := bus\<rparr>"
    by (auto simp: operate_lsq_def bind_eq_Some_conv)
  obtain fetch rob lq1 sq where f: "fold_option do_finish_store fetch (ROB c, LQ c) = Some (rob, lq1)"
    and c1: "c1 = c\<lparr>ROB := rob, LQ := lq1, SQ := sq\<rparr>"
    using 1 by (auto simp: issue_stores_def bind_eq_Some_conv Let_def)
  have "ids (fst (rob, lq1)) = ids (ROB c)" by (rule fold_option_invariant[OF f]) (auto dest: do_finish_store_ids)
  moreover obtain sq2 bus2 where "c2 = c1\<lparr>SQ := sq2, L1D_bus := bus2\<rparr>" using 2 by (auto simp: complete_stores_def bind_eq_Some_conv)
  ultimately show ?thesis by (simp add: keeps_order_def in_flight_def c' c1)
qed

lemma schedule_load_id: "schedule_load a (i, s) = Some (i', s') \<Longrightarrow> instr_id i' = instr_id i"
  by (auto simp: schedule_load_def Let_def finish_instr_def split: prod.splits option.splits if_splits)

lemma do_memory_scheduling_id: "do_memory_scheduling i lq sq = Some (i', s') \<Longrightarrow> instr_id i' = instr_id i"
proof -
  assume "do_memory_scheduling i lq sq = Some (i', s')"
  then obtain lq1 sq1 where "fold_option schedule_load (source_memory i) (i, lq, sq) = Some (i', lq1, sq1)"
    by (auto simp: do_memory_scheduling_def bind_eq_Some_conv)
  then have "instr_id (fst (i', lq1, sq1)) = instr_id i"
    by (elim fold_option_invariant[where P = "\<lambda>s. instr_id (fst s) = instr_id i"]) (auto dest: schedule_load_id)
  then show ?thesis by simp
qed

lemma dispatch_loop_order:
  "dispatch_loop q bw c = Some (bw', c') \<Longrightarrow> DISPATCH_BUFFER c = q \<Longrightarrow> keeps_order c c'"
proof (induction q arbitrary: bw c)
  case (Cons i q)
  show ?case
  proof (cases "has_remaining bw \<and> can_dispatch i c")
    case True
    then obtain i1 lq sq bw1 where 1: "do_memory_scheduling i (LQ c) (SQ c) = Some (i1, lq, sq)"
      and 2: "dispatch_loop q bw1 (c\<lparr>DISPATCH_BUFFER := q, LQ := lq, SQ := sq,
         ROB := ROB c @ [i1\<lparr>ready_time := o_current_time c + warm_latency c (SCHEDULING_LATENCY c)\<rparr>]\<rparr>) = Some (bw', c')"
      using Cons.prems by (auto simp: bind_eq_Some_conv)
    have "keeps_order c (c\<lparr>DISPATCH_BUFFER := q, LQ := lq, SQ := sq,
         ROB := ROB c @ [i1\<lparr>ready_time := o_current_time c + warm_latency c (SCHEDULING_LATENCY c)\<rparr>]\<rparr>)"
      using do_memory_scheduling_id[OF 1] Cons.prems(2) by (simp add: keeps_order_def in_flight_def)
    also have "keeps_order \<dots> c'" by (rule Cons.IH[OF 2]) simp
    finally show ?thesis .
  next
    case False
    then show ?thesis using Cons.prems by (auto simp: keeps_order_def)
  qed
qed (simp add: keeps_order_def)

lemma dispatch_keeps_order: "dispatch_instruction c = Some (n, c') \<Longrightarrow> keeps_order c c'"
  by (auto simp: dispatch_instruction_def bind_eq_Some_conv dest: dispatch_loop_order)

lemma ids_filter_sorted: "sorted_wrt (<) (ids xs) \<Longrightarrow> sorted_wrt (<) (ids (filter P xs))"
  by (simp add: sorted_wrt_map sorted_wrt_filter)

lemma merge_order_append:
  assumes "sorted_wrt (<) (ids (merge_order xs ys) @ ids ws)"
    and us: "ids us = ids (filter P ws)" and vs: "ids vs = ids (filter (\<lambda>w. \<not> P w) ws)"
  shows "ids (merge_order (xs @ us) (ys @ vs)) = ids (merge_order xs ys) @ ids ws"
proof (rule strict_sorted_equal)
  have m: "sorted_wrt (<) (ids (merge_order xs ys))" and w: "sorted_wrt (<) (ids ws)"
    and mw: "\<forall>z\<in>set xs \<union> set ys. \<forall>w\<in>set ws. instr_id z < instr_id w"
    using assms(1) by (auto simp: sorted_wrt_append)
  note s = merge_order_sortedD[OF m]
  have inj: "inj_on instr_id (set ws)" using w by (simp add: strict_sorted_iff distinct_map)
  have sets: "set (ids us) \<subseteq> set (ids ws)" "set (ids vs) \<subseteq> set (ids ws)" "set (ids us) \<union> set (ids vs) = set (ids ws)"
    unfolding us vs by auto
  have disj: "set (ids us) \<inter> set (ids vs) = {}" unfolding us vs using inj by (auto dest: inj_onD)
  have less: "\<forall>z\<in>set (ids xs) \<union> set (ids ys). \<forall>w\<in>set (ids us) \<union> set (ids vs). z < w" using mw sets by auto
  have "sorted_wrt (<) (ids (xs @ us))" "sorted_wrt (<) (ids (ys @ vs))"
    using s(1,2) less ids_filter_sorted[OF w] us vs by (auto simp: sorted_wrt_append)
  moreover have "set (ids (xs @ us)) \<inter> set (ids (ys @ vs)) = {}"
  proof -
    have "set (ids xs) \<inter> set (ids vs) = {}" "set (ids us) \<inter> set (ids ys) = {}" using less by fastforce+
    then show ?thesis using s(3) disj by auto
  qed
  ultimately show "sorted_wrt (<) (ids (merge_order (xs @ us) (ys @ vs)))" by (rule merge_order_sorted)
  show "set (ids (merge_order (xs @ us) (ys @ vs))) = set (ids (merge_order xs ys) @ ids ws)"
    using sets(3) by auto
qed (rule assms(1))

lemma promote_keeps_order:
  assumes "promote_to_decode c = Some (n, c')" and "sorted_wrt (<) (in_flight c)"
  shows "keeps_order c c'"
proof -
  obtain window rest bw where w: "get_span_p (takeWhile fetch_completed (IFETCH_BUFFER c)) bw
      (\<lambda>i. fetch_completed i \<and> ready_time i \<le> o_current_time c) = Some (window, rest)"
    and c': "c' = c\<lparr>DIB_HIT_BUFFER := DIB_HIT_BUFFER c @ map (\<lambda>i. i\<lparr>ready_time := o_current_time c + DIB_HIT_LATENCY c\<rparr>) (filter decoded window),
       DECODE_BUFFER := DECODE_BUFFER c
         @ map (\<lambda>i. i\<lparr>ready_time := o_current_time c + warm_latency c (DECODE_LATENCY c)\<rparr>) (filter (\<lambda>i. \<not> decoded i) window),
       IFETCH_BUFFER := rest @ dropWhile fetch_completed (IFETCH_BUFFER c)\<rparr>"
    using assms(1) by (auto simp: promote_to_decode_def bind_eq_Some_conv Let_def)
  have f: "window @ rest @ dropWhile fetch_completed (IFETCH_BUFFER c) = IFETCH_BUFFER c"
    using get_span_p_bounds(1)[OF w] by (metis append_assoc takeWhile_dropWhile_id)
  then have i: "ids (IFETCH_BUFFER c) = ids window @ ids (rest @ dropWhile fetch_completed (IFETCH_BUFFER c))" by (metis map_append)
  have "sorted_wrt (<) (ids (merge_order (DIB_HIT_BUFFER c) (DECODE_BUFFER c)) @ ids window)"
    using assms(2) unfolding in_flight_def i by (simp add: sorted_wrt_append)
  then have "ids (merge_order (DIB_HIT_BUFFER c') (DECODE_BUFFER c')) = ids (merge_order (DIB_HIT_BUFFER c) (DECODE_BUFFER c)) @ ids window"
    unfolding c' by (simp add: merge_order_append[where P = decoded])
  then show ?thesis using i by (simp add: keeps_order_def in_flight_def c')
qed

lemma block_run_append: "block_run f xs = (run, rest) \<Longrightarrow> run @ rest = xs"
  by (induction f xs arbitrary: run rest rule: block_run.induct) (auto split: if_splits prod.splits simp: Let_def)

lemma fetch_loop_ids: "fetch_loop blk xs bw bus = Some (ys, p, bus') \<Longrightarrow> ids ys = ids xs"
proof (induction blk xs bw bus arbitrary: ys p bus' rule: fetch_loop.induct)
  case (1 blk xs bw bus)
  let ?pre = "takeWhile (\<lambda>i. \<not> fetch_ready i) xs" and ?rest = "dropWhile (\<lambda>i. \<not> fetch_ready i) xs"
  obtain run rest' where b: "block_run (blk \<circ> instr_ip) ?rest = (run, rest')" by fastforce
  obtain success bus1 where f: "do_fetch_instruction run bus = (success, bus1)" by fastforce
  have xs: "xs = ?pre @ run @ rest'" using block_run_append[OF b] by simp
  note step = 1(2)[unfolded fetch_loop.simps[of blk xs bw bus]]
  show ?case
  proof (cases "\<not> has_remaining bw \<or> ?rest = []")
    case True
    then show ?thesis using step by (auto simp: Let_def)
  next
    case False
    then obtain bw1 zs q where bw1: "bw_consume_one bw = Some bw1" and z: "fetch_loop blk rest' bw1 bus1 = Some (zs, q, bus')"
      and ys: "ys = ?pre @ (if success then map (\<lambda>i. i\<lparr>fetch_issued := True\<rparr>) run else run) @ zs"
      using step by (auto simp: Let_def b f bind_eq_Some_conv simp del: dropWhile_eq_Nil_conv)
    have "ids zs = ids rest'" by (rule 1(1)[OF refl refl False b[symmetric] refl f[symmetric] refl refl bw1 z])
    then have "ids ys = ids ?pre @ ids run @ ids rest'" by (simp add: ys)
    also have "\<dots> = ids (?pre @ run @ rest')" by simp
    finally show ?thesis using xs by simp
  qed
qed

lemma fetch_keeps_order: "fetch_instruction c = Some (n, c') \<Longrightarrow> keeps_order c c'"
  by (auto simp: fetch_instruction_def bind_eq_Some_conv keeps_order_def in_flight_def dest!: fetch_loop_ids)

lemma check_dib_keeps_order: "check_dib c = Some (n, c') \<Longrightarrow> keeps_order c c'"
proof -
  assume "check_dib c = Some (n, c')"
  then obtain window rest window' c1 where w: "get_span (dropWhile dib_checked (IFETCH_BUFFER c)) (new_bandwidth (FETCH_WIDTH c)) = Some (window, rest)"
    and m: "map_option_state (\<lambda>i c. Some (do_check_dib i c)) window c = Some (window', c1)"
    and c': "c' = c1\<lparr>IFETCH_BUFFER := takeWhile dib_checked (IFETCH_BUFFER c) @ window' @ rest\<rparr>"
    by (auto simp: check_dib_def bind_eq_Some_conv)
  have d: "instr_id (fst (do_check_dib i s)) = instr_id i \<and> (\<exists>t. snd (do_check_dib i s) = s\<lparr>DIB := t\<rparr>)" for i and s :: "'a O3_CPU"
    by (auto simp: do_check_dib_def Let_def split: prod.splits)
  have "ids window' = ids window" by (rule map_option_state_ids[OF m]) (metis d fst_conv option.inject)
  moreover have "\<exists>t. c1 = c\<lparr>DIB := t\<rparr>"
  proof (rule map_option_state_invariant[OF m])
    show "\<exists>t. c = c\<lparr>DIB := t\<rparr>" by (rule exI[of _ "DIB c"]) simp
    show "\<exists>t. s' = c\<lparr>DIB := t\<rparr>" if "\<exists>t. s = c\<lparr>DIB := t\<rparr>" "Some (do_check_dib i s) = Some (y, s')" for i s y s'
      using that d[of i s] by auto
  qed
  moreover have "window @ rest = dropWhile dib_checked (IFETCH_BUFFER c)"
    using w by (auto simp: get_span_def Let_def split: if_splits)
  then have "ids (takeWhile dib_checked (IFETCH_BUFFER c)) @ ids window @ ids rest = ids (IFETCH_BUFFER c)"
    by (metis map_append takeWhile_dropWhile_id)
  ultimately show ?thesis by (auto simp: keeps_order_def in_flight_def c')
qed

lemma do_init_instruction_frame:
  assumes "do_init_instruction h i c = (stop, i', c')"
  shows "instr_id i' = instr_id i \<and> front_end (c'\<lparr>o_modules := o_modules c\<rparr>) = front_end c \<and> ROB c' = ROB c"
proof -
  have fold: "instr_id (do_stack_pointer_folding i) = instr_id i" for i :: core_instr
    by (simp add: do_stack_pointer_folding_def Let_def)
  have pred: "instr_id i' = instr_id i \<and> front_end (c'\<lparr>o_modules := o_modules c\<rparr>) = front_end c \<and> ROB c' = ROB c"
    if "do_predict_branch h i c = (stop, i', c')" for i
    using that by (auto simp: do_predict_branch_def Let_def on_cpu_stats_def front_end_def split: prod.splits if_splits)
  show ?thesis using assms pred[of "do_stack_pointer_folding (if o_warmup c then i\<lparr>source_registers := [], destination_registers := []\<rparr> else i)"]
    by (simp add: do_init_instruction_def fold Let_def split: if_splits)
qed

lemma init_loop_order: "init_loop h q bw c = Some c' \<Longrightarrow> input_queue c = q \<Longrightarrow> keeps_order c c'"
proof (induction q arbitrary: bw c)
  case (Cons i q)
  show ?case
  proof (cases "o_current_time c \<ge> fetch_resume_time c \<and> has_remaining bw")
    case True
    obtain stop i1 c1 where 1: "do_init_instruction h i c = (stop, i1, c1)" by (metis prod_cases3)
    define c2 where "c2 = c1\<lparr>IFETCH_BUFFER := IFETCH_BUFFER c1 @ [i1\<lparr>ready_time := o_current_time c1\<rparr>], input_queue := q\<rparr>"
    have "keeps_order c c2" using do_init_instruction_frame[OF 1] Cons.prems(2) by (simp add: c2_def keeps_order_def in_flight_def front_end_def)
    moreover obtain bw1 where bw1: "bw_consume_one bw = Some bw1" using Cons.prems(1) True by (auto simp: bind_eq_Some_conv)
    then have "(if stop then Some c2 else init_loop h q bw1 c2) = Some c'"
      using Cons.prems(1) True by (cases stop) (simp_all add: 1 c2_def Let_def)
    moreover have "input_queue c2 = q" by (simp add: c2_def)
    ultimately show ?thesis using Cons.IH[of bw1 c2] keeps_order_trans by (auto split: if_splits)
  next
    case False
    then show ?thesis using Cons.prems by (auto simp: keeps_order_def)
  qed
qed (simp add: keeps_order_def)

lemma retire_order:
  assumes "retire_rob c = Some (n, c')"
  obtains k where "num_retired c' = num_retired c + k" and "in_flight c' = drop k (in_flight c)" and "k \<le> length (in_flight c)"
proof -
  obtain retired rest r where s: "get_span_p (ROB c) (new_bandwidth (RETIRE_WIDTH c)) completed = Some (retired, rest)"
    and c': "c' = c\<lparr>reg_allocator := r, num_retired := num_retired c + length retired, ROB := rest\<rparr>"
    using assms by (auto simp: retire_rob_def bind_eq_Some_conv)
  have "retired @ rest = ROB c" by (rule get_span_p_bounds(1)[OF s])
  then have "ids (ROB c) = ids retired @ ids rest" by (metis map_append)
  then show thesis by (intro that[of "length retired"]) (simp_all add: c' in_flight_def)
qed

section \<open>Cycles and runs\<close>

lemma core_operate_order:
  assumes "core_operate h c = Some (n, c')" and "sorted_wrt (<) (in_flight c)"
  obtains k where "num_retired c' = num_retired c + k" and "in_flight c' = drop k (in_flight c)" and "k \<le> length (in_flight c)"
proof -
  obtain p1 p2 p3 p4 p5 p6 p7 p8 p9 p10 p11 c1 c2 c3 c4 c5 c6 c7 c8 c9 c10 c11 c12 where
    1: "retire_rob c = Some (p1, c1)" and 2: "complete_inflight_instruction c1 = Some (p2, c2)" and 3: "execute_instruction c2 = Some (p3, c3)"
    and 4: "schedule_instruction c3 = Some (p4, c4)" and 5: "handle_memory_return c4 = Some (p5, c5)" and 6: "operate_lsq c5 = Some (p6, c6)"
    and 7: "dispatch_instruction c6 = Some (p7, c7)" and 8: "decode_instruction c7 = Some (p8, c8)" and 9: "promote_to_decode c8 = Some (p9, c9)"
    and 10: "fetch_instruction c9 = Some (p10, c10)" and 11: "check_dib c10 = Some (p11, c11)" and 12: "initialize_instruction h c11 = Some c12"
    and c': "c' = heartbeat c12"
    using assms(1) by (auto simp: core_operate_def bind_eq_Some_conv)
  obtain k where k: "num_retired c1 = num_retired c + k" "in_flight c1 = drop k (in_flight c)" "k \<le> length (in_flight c)" by (rule retire_order[OF 1])
  have s1: "sorted_wrt (<) (in_flight c1)" unfolding k(2) by (rule sorted_wrt_drop[OF assms(2)])
  note complete_keeps_order[OF 2]
  also note execute_keeps_order[OF 3]
  also note schedule_keeps_order[OF 4]
  also note return_keeps_order[OF 5]
  also note lsq_keeps_order[OF 6]
  also note dispatch_keeps_order[OF 7]
  finally have 17: "keeps_order c1 c7" .
  then have "sorted_wrt (<) (in_flight c7)" using s1 by (simp add: keeps_order_def)
  then have 78: "keeps_order c7 c8" using decode_keeps_order[OF 8] by (simp add: keeps_order_def)
  with 17 s1 have "sorted_wrt (<) (in_flight c8)" by (simp add: keeps_order_def)
  note 17
  also note 78
  also note promote_keeps_order[OF 9 \<open>sorted_wrt (<) (in_flight c8)\<close>]
  also note fetch_keeps_order[OF 10]
  also note check_dib_keeps_order[OF 11]
  also note init_loop_order[OF 12[unfolded initialize_instruction_def] refl]
  also have "keeps_order c12 c'" by (auto simp: c' heartbeat_def keeps_order_def in_flight_def)
  finally show thesis using k that by (simp add: keeps_order_def)
qed

text \<open>What happens to a core: its own cycles, new instructions of the trace, and anything at all that the
  caches do to the two channels.\<close>

datatype core_event = Core_Tick | Feed "core_instr list" | L1I_Channel channel | L1D_Channel channel

fun core_step :: "'m core_hooks \<Rightarrow> core_event \<Rightarrow> 'm O3_CPU \<Rightarrow> 'm O3_CPU option" where
  "core_step h Core_Tick c = map_option snd (core_tick h c)"
| "core_step h (Feed is) c = Some (c\<lparr>input_queue := input_queue c @ is\<rparr>)"
| "core_step h (L1I_Channel ch) c = Some (c\<lparr>L1I_bus := (L1I_bus c)\<lparr>bus_lower_level := ch\<rparr>\<rparr>)"
| "core_step h (L1D_Channel ch) c = Some (c\<lparr>L1D_bus := (L1D_bus c)\<lparr>bus_lower_level := ch\<rparr>\<rparr>)"

definition core_run :: "'m core_hooks \<Rightarrow> core_event list \<Rightarrow> 'm O3_CPU \<Rightarrow> 'm O3_CPU option" where
  "core_run h = fold_option (core_step h)"

primrec fed :: "core_event list \<Rightarrow> nat list" where
  "fed [] = []"
| "fed (e # es) = (case e of Feed is \<Rightarrow> ids is @ fed es | _ \<Rightarrow> fed es)"

lemma core_run_order:
  assumes "core_run h es c = Some c'" and "sorted_wrt (<) (in_flight c @ fed es)"
  shows "\<exists>k \<le> length (in_flight c @ fed es). num_retired c' = num_retired c + k \<and> in_flight c' = drop k (in_flight c @ fed es)"
  using assms unfolding core_run_def
proof (induction es arbitrary: c)
  case (Cons e es)
  obtain c1 where step: "core_step h e c = Some c1" and run: "fold_option (core_step h) es c1 = Some c'"
    using Cons.prems(1) by (auto simp: bind_eq_Some_conv)
  have "\<exists>k \<le> length (in_flight c). num_retired c1 = num_retired c + k \<and> in_flight c1 @ fed es = drop k (in_flight c @ fed (e # es))"
  proof (cases e)
    case Core_Tick
    then obtain n where "core_operate h (c\<lparr>o_current_time := o_current_time c + o_clock_period c\<rparr>) = Some (n, c1)"
      using step by (auto simp: core_tick_def)
    moreover have same: "in_flight (c\<lparr>o_current_time := o_current_time c + o_clock_period c\<rparr>) = in_flight c"
      by (simp add: in_flight_def)
    moreover have "sorted_wrt (<) (in_flight c)" using Cons.prems(2) unfolding sorted_wrt_append by blast
    ultimately obtain k where "num_retired c1 = num_retired c + k" "in_flight c1 = drop k (in_flight c)" "k \<le> length (in_flight c)"
      by (elim core_operate_order) (simp_all add: same)
    then show ?thesis using Core_Tick by (intro exI[of _ k]) simp
  qed (use step in \<open>auto simp: in_flight_def\<close>)
  then obtain k where k: "k \<le> length (in_flight c)" "num_retired c1 = num_retired c + k" "in_flight c1 @ fed es = drop k (in_flight c @ fed (e # es))"
    by blast
  then have "sorted_wrt (<) (in_flight c1 @ fed es)" using Cons.prems(2) by (simp only: sorted_wrt_drop)
  from Cons.IH[OF run this] obtain m where m: "m \<le> length (in_flight c1 @ fed es)" "num_retired c' = num_retired c1 + m"
    "in_flight c' = drop m (in_flight c1 @ fed es)" by blast
  then have "in_flight c' = drop (k + m) (in_flight c @ fed (e # es))" by (simp only: k(3) drop_drop add.commute)
  moreover have "k + m \<le> length (in_flight c @ fed (e # es))" using m(1) k(1) arg_cong[OF k(3), of length] by auto
  ultimately show ?case using k(2) m(2) by (intro exI[of _ "k + m"]) simp
qed (auto intro: exI[of _ 0])

section \<open>Property\<close>

text \<open>C1. The core retires the program in order, each instruction once: when an empty core is fed
  instructions with increasing identifiers, then after any run, with any branch predictors, any cache
  behaviour and any buffer sizes, the instructions in flight are exactly those that were fed and not
  yet retired, in program order, and the retired ones are the first \<open>num_retired\<close>.\<close>

theorem retires_program_in_order:
  assumes "core_run h es c = Some c'" and "in_flight c = []" and "num_retired c = 0" and "sorted_wrt (<) (fed es)"
  shows "in_flight c' = drop (num_retired c') (fed es) \<and> num_retired c' \<le> length (fed es)"
  using core_run_order[OF assms(1)] assms(2-4) by auto

end
