(* ===== verification/Core_Modules.thy ===== *)
theory Core_Modules
  imports Core_Order Branch_Predictor Btb
begin

text \<open>
  The modules of a core: the dispatch of the core to its branch predictors and branch target buffers
  (\<open>inc/ooo_cpu.h\<close>), and the protocol the predictors see.  The value of \<open>rand()\<close> a predictor may draw in an update
  comes from a sequence in the module state.
\<close>

section \<open>Dispatch\<close>

record 'm branch_module =
  bm_predict :: "address \<Rightarrow> 'm \<Rightarrow> bool \<times> 'm"
  bm_update :: "address \<Rightarrow> address \<Rightarrow> bool \<Rightarrow> branch_type \<Rightarrow> 'm \<Rightarrow> 'm"

record 'm btb_module =
  tm_prediction :: "address \<Rightarrow> branch_type \<Rightarrow> 'm \<Rightarrow> (address \<times> bool) \<times> 'm"
  tm_update :: "address \<Rightarrow> address \<Rightarrow> bool \<Rightarrow> branch_type \<Rightarrow> 'm \<Rightarrow> 'm"

text \<open>All modules are asked in order and the last answer counts.\<close>

fun impl_predict_branch :: "'m branch_module list \<Rightarrow> address \<Rightarrow> address \<Rightarrow> bool \<Rightarrow> branch_type \<Rightarrow> 'm \<Rightarrow> bool \<times> 'm" where
  "impl_predict_branch [] ip tgt always ty m = (False, m)"
| "impl_predict_branch [b] ip tgt always ty m = bm_predict b ip m"
| "impl_predict_branch (b # bs) ip tgt always ty m = impl_predict_branch bs ip tgt always ty (snd (bm_predict b ip m))"

definition impl_last_branch_result :: "'m branch_module list \<Rightarrow> address \<Rightarrow> address \<Rightarrow> bool \<Rightarrow> branch_type \<Rightarrow> 'm \<Rightarrow> 'm" where
  "impl_last_branch_result bs ip tgt taken ty = fold (\<lambda>b. bm_update b ip tgt taken ty) bs"

fun impl_btb_prediction :: "'m btb_module list \<Rightarrow> address \<Rightarrow> branch_type \<Rightarrow> 'm \<Rightarrow> (address \<times> bool) \<times> 'm" where
  "impl_btb_prediction [] ip ty m = ((0, False), m)"
| "impl_btb_prediction [t] ip ty m = tm_prediction t ip ty m"
| "impl_btb_prediction (t # ts) ip ty m = impl_btb_prediction ts ip ty (snd (tm_prediction t ip ty m))"

definition impl_update_btb :: "'m btb_module list \<Rightarrow> address \<Rightarrow> address \<Rightarrow> bool \<Rightarrow> branch_type \<Rightarrow> 'm \<Rightarrow> 'm" where
  "impl_update_btb ts ip tgt taken ty = fold (\<lambda>t. tm_update t ip tgt taken ty) ts"

text \<open>No prefetcher of the library implements \<open>prefetcher_branch_operate\<close>, so the call has no effect.\<close>

definition make_core_hooks :: "'m branch_module list \<Rightarrow> 'm btb_module list \<Rightarrow> 'm core_hooks" where
  "make_core_hooks bs ts = \<lparr>hk_btb_prediction = impl_btb_prediction ts, hk_predict_branch = impl_predict_branch bs,
     hk_prefetcher_branch_operate = (\<lambda>ip ty tgt m. m), hk_update_btb = impl_update_btb ts,
     hk_last_branch_result = impl_last_branch_result bs\<rparr>"

section \<open>One predictor and the basic branch target buffer\<close>

record 's modules =
  mod_branch :: 's
  mod_btb :: basic_btb
  mod_rand :: "nat \<Rightarrow> 32 word"
  mod_draws :: nat

definition branch_module_of :: "'s predict_fun \<Rightarrow> 's update_fun \<Rightarrow> 's modules branch_module" where
  "branch_module_of predict update = \<lparr>
     bm_predict = (\<lambda>ip m. (let (d, s) = predict ip (mod_branch m) in (d, m\<lparr>mod_branch := s\<rparr>))),
     bm_update = (\<lambda>ip tgt taken ty m. m\<lparr>mod_branch := update (mod_rand m (mod_draws m)) ip tgt taken ty (mod_branch m),
       mod_draws := mod_draws m + 1\<rparr>)\<rparr>"

definition basic_btb_module :: "'s modules btb_module" where
  "basic_btb_module = \<lparr>
     tm_prediction = (\<lambda>ip ty m. (let (r, s) = btb_prediction ip (mod_btb m) in (r, m\<lparr>mod_btb := s\<rparr>))),
     tm_update = (\<lambda>ip tgt taken ty m. m\<lparr>mod_btb := update_btb ip tgt taken ty (mod_btb m)\<rparr>)\<rparr>"

definition core_hooks_of :: "'s predict_fun \<Rightarrow> 's update_fun \<Rightarrow> 's modules core_hooks" where
  "core_hooks_of predict update = make_core_hooks [branch_module_of predict update] [basic_btb_module]"

section \<open>What the predictor sees\<close>

definition event_of :: "32 word \<Rightarrow> core_instr \<Rightarrow> branch_event" where
  "event_of r i = \<lparr>ev_ip = instr_ip i, ev_branch = is_branch i, ev_target = branch_target i, ev_taken = branch_taken i,
     ev_type = branch i, ev_rand = r\<rparr>"

text \<open>The events of a sequence of instructions; only branches draw a random number.\<close>

fun events_of :: "(nat \<Rightarrow> 32 word) \<Rightarrow> nat \<Rightarrow> core_instr list \<Rightarrow> branch_event list" where
  "events_of r n [] = []"
| "events_of r n (i # is) = event_of (r n) i # events_of r (if is_branch i then n + 1 else n) is"

lemma do_init_instruction_predictor:
  assumes "do_init_instruction (core_hooks_of predict update) i c = (stop, i', c')"
  shows "mod_branch (o_modules c') = bp_step predict update (event_of (mod_rand (o_modules c) (mod_draws (o_modules c))) i) (mod_branch (o_modules c))"
    and "mod_rand (o_modules c') = mod_rand (o_modules c)"
    and "mod_draws (o_modules c') = (if is_branch i then mod_draws (o_modules c) + 1 else mod_draws (o_modules c))"
proof -
  have fields: "instr_ip (do_stack_pointer_folding i) = instr_ip i" "is_branch (do_stack_pointer_folding i) = is_branch i"
    "branch_target (do_stack_pointer_folding i) = branch_target i" "branch_taken (do_stack_pointer_folding i) = branch_taken i"
    "branch (do_stack_pointer_folding i) = branch i" for i :: core_instr
    by (simp_all add: do_stack_pointer_folding_def Let_def)
  have "mod_branch (o_modules c') = bp_step predict update (event_of (mod_rand (o_modules c) (mod_draws (o_modules c))) i) (mod_branch (o_modules c))
      \<and> mod_rand (o_modules c') = mod_rand (o_modules c)
      \<and> mod_draws (o_modules c') = (if is_branch i then mod_draws (o_modules c) + 1 else mod_draws (o_modules c))"
    if "do_predict_branch (core_hooks_of predict update) i c = (stop, i', c')" for i
    using that by (auto simp: do_predict_branch_def core_hooks_of_def make_core_hooks_def branch_module_of_def basic_btb_module_def
        impl_last_branch_result_def impl_update_btb_def bp_step_def event_of_def Let_def on_cpu_stats_def split: prod.splits if_splits)
  from this[of "do_stack_pointer_folding (if o_warmup c then i\<lparr>source_registers := [], destination_registers := []\<rparr> else i)"] assms
  have "mod_branch (o_modules c') = bp_step predict update (event_of (mod_rand (o_modules c) (mod_draws (o_modules c))) i) (mod_branch (o_modules c))
      \<and> mod_rand (o_modules c') = mod_rand (o_modules c)
      \<and> mod_draws (o_modules c') = (if is_branch i then mod_draws (o_modules c) + 1 else mod_draws (o_modules c))"
    by (simp add: do_init_instruction_def fields event_of_def Let_def split: if_splits)
  then show "mod_branch (o_modules c') = bp_step predict update (event_of (mod_rand (o_modules c) (mod_draws (o_modules c))) i) (mod_branch (o_modules c))"
    and "mod_rand (o_modules c') = mod_rand (o_modules c)"
    and "mod_draws (o_modules c') = (if is_branch i then mod_draws (o_modules c) + 1 else mod_draws (o_modules c))" by blast+
qed

text \<open>The stages before \<open>initialize_instruction\<close> touch neither the modules nor the queue of new instructions.\<close>

definition intake :: "'m O3_CPU \<Rightarrow> core_instr list \<times> 'm" where
  "intake c = (input_queue c, o_modules c)"

lemma front_end_intake: "front_end c' = front_end c \<Longrightarrow> intake c' = intake c"
  by (simp add: front_end_def intake_def)

lemma dispatch_loop_intake: "dispatch_loop q bw c = Some (bw', c') \<Longrightarrow> intake c' = intake c"
proof (induction q arbitrary: bw c)
  case (Cons i q)
  show ?case
  proof (cases "has_remaining bw \<and> can_dispatch i c")
    case True
    then obtain i1 lq sq bw1 where "dispatch_loop q bw1 (c\<lparr>DISPATCH_BUFFER := q, LQ := lq, SQ := sq,
         ROB := ROB c @ [i1\<lparr>ready_time := o_current_time c + warm_latency c (SCHEDULING_LATENCY c)\<rparr>]\<rparr>) = Some (bw', c')"
      using Cons.prems by (auto simp: bind_eq_Some_conv)
    from Cons.IH[OF this] show ?thesis by (simp add: intake_def)
  next
    case False
    then show ?thesis using Cons.prems by auto
  qed
qed simp

lemma decode_intake: "decode_instruction c = Some (n, c') \<Longrightarrow> intake c' = intake c"
proof -
  assume "decode_instruction c = Some (n, c')"
  then obtain k ys c1 where m: "map_option_state (\<lambda>i c. Some (do_decode i c)) (take k (DECODE_BUFFER c)) c = Some (ys, c1)"
    and c': "intake c' = intake c1"
    by (auto simp: decode_instruction_def bind_eq_Some_conv Let_def intake_def)
  have "intake (snd (do_decode i d)) = intake d" for i and d :: "'a O3_CPU"
    by (auto simp: do_decode_def do_dib_update_def intake_def Let_def)
  then have "intake c1 = intake c" by (intro map_option_state_invariant[OF m, where P = "\<lambda>d. intake d = intake c"]) (auto, metis snd_conv)
  then show ?thesis by (simp add: c')
qed

lemma check_dib_intake: "check_dib c = Some (n, c') \<Longrightarrow> intake c' = intake c"
proof -
  assume "check_dib c = Some (n, c')"
  then obtain window ys c1 where m: "map_option_state (\<lambda>i c. Some (do_check_dib i c)) window c = Some (ys, c1)"
    and c': "intake c' = intake c1"
    by (auto simp: check_dib_def bind_eq_Some_conv Let_def intake_def)
  have "intake (snd (do_check_dib i d)) = intake d" for i and d :: "'a O3_CPU"
    by (auto simp: do_check_dib_def intake_def Let_def split: prod.splits)
  then have "intake c1 = intake c" by (intro map_option_state_invariant[OF m, where P = "\<lambda>d. intake d = intake c"]) (auto, metis snd_conv)
  then show ?thesis by (simp add: c')
qed

lemma lsq_intake: "operate_lsq c = Some (n, c') \<Longrightarrow> intake c' = intake c"
  by (auto simp: operate_lsq_def issue_stores_def complete_stores_def bind_eq_Some_conv Let_def intake_def)

text \<open>A cycle takes a prefix of the queue through the predictor.\<close>

definition drives :: "'s predict_fun \<Rightarrow> 's update_fun \<Rightarrow> core_instr list \<Rightarrow> 's modules \<Rightarrow> 's modules \<Rightarrow> bool" where
  "drives predict update xs m m' = (mod_branch m' = bp_run predict update (events_of (mod_rand m) (mod_draws m) xs) (mod_branch m)
     \<and> mod_rand m' = mod_rand m \<and> mod_draws m' = mod_draws m + length (filter is_branch xs))"

lemma drives_Nil [simp]: "drives predict update [] m m"
  by (simp add: drives_def)

lemma drives_Cons:
  assumes "mod_branch m1 = bp_step predict update (event_of (mod_rand m (mod_draws m)) i) (mod_branch m)"
    and "mod_rand m1 = mod_rand m" and "mod_draws m1 = (if is_branch i then mod_draws m + 1 else mod_draws m)"
    and "drives predict update xs m1 m2"
  shows "drives predict update (i # xs) m m2"
  using assms by (simp add: drives_def)

lemma events_of_append: "events_of r n (xs @ ys) = events_of r n xs @ events_of r (n + length (filter is_branch xs)) ys"
  by (induction xs arbitrary: n) simp_all

lemma drives_append: "drives predict update xs m m1 \<Longrightarrow> drives predict update ys m1 m2 \<Longrightarrow> drives predict update (xs @ ys) m m2"
  by (simp add: drives_def events_of_append bp_run_append)

lemma init_loop_drives:
  "init_loop (core_hooks_of predict update) q bw c = Some c' \<Longrightarrow> input_queue c = q \<Longrightarrow>
    \<exists>xs. q = xs @ input_queue c' \<and> drives predict update xs (o_modules c) (o_modules c')"
proof (induction q arbitrary: bw c)
  case (Cons i q)
  show ?case
  proof (cases "o_current_time c \<ge> fetch_resume_time c \<and> has_remaining bw")
    case True
    obtain stop i1 c1 where 1: "do_init_instruction (core_hooks_of predict update) i c = (stop, i1, c1)" by (metis prod_cases3)
    define c2 where "c2 = c1\<lparr>IFETCH_BUFFER := IFETCH_BUFFER c1 @ [i1\<lparr>ready_time := o_current_time c1\<rparr>], input_queue := q\<rparr>"
    have c2: "input_queue c2 = q" "o_modules c2 = o_modules c1" by (simp_all add: c2_def)
    obtain bw1 where bw1: "bw_consume_one bw = Some bw1" using Cons.prems(1) True by (auto simp: bind_eq_Some_conv)
    then have "(if stop then Some c2 else init_loop (core_hooks_of predict update) q bw1 c2) = Some c'"
      using Cons.prems(1) True by (cases stop) (simp_all add: 1 c2_def Let_def)
    then have "\<exists>xs. q = xs @ input_queue c' \<and> drives predict update xs (o_modules c2) (o_modules c')"
      using Cons.IH[of bw1 c2] c2 by (auto split: if_splits)
    then obtain xs where "q = xs @ input_queue c'" "drives predict update xs (o_modules c1) (o_modules c')" by (auto simp: c2)
    then show ?thesis using drives_Cons[OF do_init_instruction_predictor[OF 1]] by (intro exI[of _ "i # xs"]) simp
  next
    case False
    then show ?thesis using Cons.prems by (intro exI[of _ "[]"]) auto
  qed
qed simp

lemma early_stages_intake:
  "retire_rob c = Some (n, c') \<Longrightarrow> intake c' = intake c"
  "complete_inflight_instruction c = Some (n, c') \<Longrightarrow> intake c' = intake c"
  "execute_instruction c = Some (n, c') \<Longrightarrow> intake c' = intake c"
  "schedule_instruction c = Some (n, c') \<Longrightarrow> intake c' = intake c"
  "handle_memory_return c = Some (n, c') \<Longrightarrow> intake c' = intake c"
  "promote_to_decode c = Some (n, c') \<Longrightarrow> intake c' = intake c"
  "fetch_instruction c = Some (n, c') \<Longrightarrow> intake c' = intake c"
  "dispatch_instruction c = Some (n, c') \<Longrightarrow> intake c' = intake c"
proof -
  show "complete_inflight_instruction c = Some (n, c') \<Longrightarrow> intake c' = intake c"
    by (rule front_end_intake) (auto simp: complete_inflight_instruction_def bind_eq_Some_conv front_end_def dest!: complete_loop_ids)
  show "execute_instruction c = Some (n, c') \<Longrightarrow> intake c' = intake c"
    by (rule front_end_intake) (auto simp: execute_instruction_def bind_eq_Some_conv front_end_def dest!: execute_loop_ids)
  show "dispatch_instruction c = Some (n, c') \<Longrightarrow> intake c' = intake c"
    by (auto simp: dispatch_instruction_def bind_eq_Some_conv dest: dispatch_loop_intake)
qed (auto simp: retire_rob_def schedule_instruction_def handle_memory_return_def promote_to_decode_def fetch_instruction_def
    bind_eq_Some_conv Let_def intake_def)

lemma core_operate_drives:
  assumes "core_operate (core_hooks_of predict update) c = Some (n, c')"
  shows "\<exists>xs. input_queue c = xs @ input_queue c' \<and> drives predict update xs (o_modules c) (o_modules c')"
proof -
  obtain p1 p2 p3 p4 p5 p6 p7 p8 p9 p10 p11 c1 c2 c3 c4 c5 c6 c7 c8 c9 c10 c11 c12 where
    stages: "retire_rob c = Some (p1, c1)" "complete_inflight_instruction c1 = Some (p2, c2)" "execute_instruction c2 = Some (p3, c3)"
    "schedule_instruction c3 = Some (p4, c4)" "handle_memory_return c4 = Some (p5, c5)" "operate_lsq c5 = Some (p6, c6)"
    "dispatch_instruction c6 = Some (p7, c7)" "decode_instruction c7 = Some (p8, c8)" "promote_to_decode c8 = Some (p9, c9)"
    "fetch_instruction c9 = Some (p10, c10)" "check_dib c10 = Some (p11, c11)"
    and 12: "initialize_instruction (core_hooks_of predict update) c11 = Some c12" and c': "c' = heartbeat c12"
    using assms by (auto simp: core_operate_def bind_eq_Some_conv)
  have "intake c11 = intake c"
    using early_stages_intake(1)[OF stages(1)] early_stages_intake(2)[OF stages(2)] early_stages_intake(3)[OF stages(3)]
      early_stages_intake(4)[OF stages(4)] early_stages_intake(5)[OF stages(5)] lsq_intake[OF stages(6)] early_stages_intake(8)[OF stages(7)]
      decode_intake[OF stages(8)] early_stages_intake(6)[OF stages(9)] early_stages_intake(7)[OF stages(10)] check_dib_intake[OF stages(11)]
    by simp
  moreover have "\<exists>xs. input_queue c11 = xs @ input_queue c12 \<and> drives predict update xs (o_modules c11) (o_modules c12)"
    by (rule init_loop_drives[OF 12[unfolded initialize_instruction_def] refl])
  moreover have "intake c' = intake c12" by (simp add: c' heartbeat_def intake_def)
  ultimately show ?thesis by (simp add: intake_def)
qed

primrec fed_instrs :: "core_event list \<Rightarrow> core_instr list" where
  "fed_instrs [] = []"
| "fed_instrs (e # es) = (case e of Feed is \<Rightarrow> is @ fed_instrs es | _ \<Rightarrow> fed_instrs es)"

lemma core_run_drives:
  "core_run (core_hooks_of predict update) es c = Some c' \<Longrightarrow>
    \<exists>xs. input_queue c @ fed_instrs es = xs @ input_queue c' \<and> drives predict update xs (o_modules c) (o_modules c')"
  unfolding core_run_def
proof (induction es arbitrary: c)
  case (Cons e es)
  let ?h = "core_hooks_of predict update"
  obtain c1 where step: "core_step ?h e c = Some c1" and run: "fold_option (core_step ?h) es c1 = Some c'"
    using Cons.prems by (auto simp: bind_eq_Some_conv)
  obtain ys where ys: "input_queue c1 @ fed_instrs es = ys @ input_queue c'" "drives predict update ys (o_modules c1) (o_modules c')"
    using Cons.IH[OF run] by blast
  show ?case
  proof (cases e)
    case Core_Tick
    then obtain n where "core_operate ?h (c\<lparr>o_current_time := o_current_time c + o_clock_period c\<rparr>) = Some (n, c1)"
      using step by (auto simp: core_tick_def)
    from core_operate_drives[OF this] obtain xs where "input_queue c = xs @ input_queue c1" "drives predict update xs (o_modules c) (o_modules c1)"
      by auto
    then show ?thesis using Core_Tick ys drives_append by (intro exI[of _ "xs @ ys"]) auto
  qed (use step ys in auto)
qed (auto intro: exI[of _ "[]"])

section \<open>Property\<close>

text \<open>C2. The core keeps the protocol of the predictor modules: along any run, with any caches and buffer
  sizes, the branch predictor has seen exactly the first instructions of the program, each once and in
  order, with a prediction for each and, for a branch, the update with its outcome right after; the
  instructions it has not seen are those still queued.\<close>

theorem predictor_sees_program:
  assumes "core_run (core_hooks_of predict update) es c = Some c'" and "input_queue c = []"
  shows "\<exists>seen. fed_instrs es = seen @ input_queue c' \<and> mod_branch (o_modules c') =
    bp_run predict update (events_of (mod_rand (o_modules c)) (mod_draws (o_modules c)) seen) (mod_branch (o_modules c))"
  using core_run_drives[OF assms(1)] assms(2) by (auto simp: drives_def)

section \<open>A sample core\<close>

text \<open>A predictor that records the calls it gets: the address of every prediction and the target of every update.\<close>

definition recording_hooks :: "address list modules core_hooks" where
  "recording_hooks = core_hooks_of (\<lambda>ip s. (False, s @ [ip])) (\<lambda>r ip tgt taken ty s. s @ [tgt])"

definition small_table :: "'e \<Rightarrow> 'e lru_table" where
  "small_table dflt = \<lparr>NUM_SET = 2, NUM_WAY = 2, access_count = 0, block = (\<lambda>_. \<lparr>last_used = 0, data = dflt\<rparr>)\<rparr>"

definition sample_core :: "address list modules O3_CPU" where
  "sample_core = \<lparr>o_clock_period = 1, o_current_time = 0, o_warmup = False, o_log2_block = 6, o_cpu = 0, begin_phase_time = 0,
     begin_phase_instr = 0, finish_phase_time = 0, finish_phase_instr = 0, last_heartbeat_time = 0, last_heartbeat_instr = 0,
     num_retired = 0, show_heartbeat = False, o_roi_stats = zero_cpu_stats, o_sim_stats = zero_cpu_stats,
     DIB = small_table 0, dib_shamt = 4, IFETCH_BUFFER = [], DISPATCH_BUFFER = [], DECODE_BUFFER = [], ROB = [],
     DIB_HIT_BUFFER = [], LQ = [None, None], SQ = [], IFETCH_BUFFER_SIZE = 4, DISPATCH_BUFFER_SIZE = 4, DECODE_BUFFER_SIZE = 4,
     REGISTER_FILE_SIZE = 4, ROB_SIZE = 4, SQ_SIZE = 2, DIB_HIT_BUFFER_SIZE = 4, FETCH_WIDTH = 2, DECODE_WIDTH = 2, DISPATCH_WIDTH = 2,
     SCHEDULER_SIZE = 4, EXEC_WIDTH = 2, DIB_INORDER_WIDTH = 2, LQ_WIDTH = 1, SQ_WIDTH = 1, RETIRE_WIDTH = 2,
     BRANCH_MISPREDICT_PENALTY = 1, DISPATCH_LATENCY = 1, DECODE_LATENCY = 1, SCHEDULING_LATENCY = 0, EXEC_LATENCY = 0, DIB_HIT_LATENCY = 1,
     L1I_BANDWIDTH = 1, L1D_BANDWIDTH = 1, reg_allocator = \<lparr>frontend_RAT = [], backend_RAT = [], free_registers = [], physical_register_file = []\<rparr>, fetch_resume_time = 0, IN_QUEUE_SIZE = 4,
     input_queue = [], L1I_bus = \<lparr>bus_lower_level = new_channel 4 4 4 6 False, bus_cpu = 0\<rparr>,
     L1D_bus = \<lparr>bus_lower_level = new_channel 4 4 4 6 True, bus_cpu = 0\<rparr>,
     o_modules = \<lparr>mod_branch = [], mod_btb =
       \<lparr>btb_ras = return_stack_init, btb_indirect = indirect_predictor_init, btb_direct = small_table btb_entry_default\<rparr>, mod_rand = (\<lambda>_. 0), mod_draws = 0\<rparr>\<rparr>"

definition plain_instr :: "nat \<Rightarrow> address \<Rightarrow> core_instr" where
  "plain_instr i ip = core_instr_of 0 i 0 \<lparr>instr_ip = ip, is_branch = False, branch_taken = False, branch = NOT_BRANCH,
     destination_registers = [], source_registers = [], destination_memory = [], source_memory = []\<rparr>"

text \<open>Two instructions on a core from reset to retirement; the fetch returns after three cycles.\<close>

definition sample_program :: "core_instr list" where
  "sample_program = [plain_instr 1 0x10, plain_instr 2 0x14]"

definition sample_fetch_return :: channel where
  "sample_fetch_return = (new_channel 4 4 4 6 False)
     \<lparr>returned := [\<lparr>rs_address = 0, rs_v_address = 0, rs_data = 0, rs_pf_metadata = 0, rs_deps = [1, 2]\<rparr>]\<rparr>"

definition sample_events :: "core_event list" where
  "sample_events = Feed sample_program # replicate 3 Core_Tick @ L1I_Channel sample_fetch_return # replicate 7 Core_Tick"

lemma sample_run: "map_option (\<lambda>c. (num_retired c, input_queue c = [], mod_branch (o_modules c)))
    (core_run recording_hooks sample_events sample_core) = Some (2, True, [0x10, 0x14])"
  by code_simp

lemma retires_program_in_order_witness:
  "\<exists>c. core_run recording_hooks sample_events sample_core = Some c \<and> num_retired c = 2 \<and> in_flight c = []"
proof -
  obtain c where c: "core_run recording_hooks sample_events sample_core = Some c" "num_retired c = 2" using sample_run by auto
  have "in_flight sample_core = []" "num_retired sample_core = 0" "fed sample_events = [1, 2]" by code_simp+
  with retires_program_in_order[OF c(1)] show ?thesis using c by simp
qed

lemma predictor_sees_program_witness:
  "\<exists>c. core_run recording_hooks sample_events sample_core = Some c \<and> mod_branch (o_modules c) =
    bp_run (\<lambda>ip s. (False, s @ [ip])) (\<lambda>r ip tgt taken ty s. s @ [tgt]) (events_of (\<lambda>_. 0) 0 sample_program) []"
proof -
  obtain c where c: "core_run recording_hooks sample_events sample_core = Some c" and q: "input_queue c = []" using sample_run by auto
  have s: "input_queue sample_core = []" "o_modules sample_core = o_modules sample_core\<lparr>mod_branch := [], mod_rand := \<lambda>_. 0, mod_draws := 0\<rparr>"
    by (simp_all add: sample_core_def)
  have f: "fed_instrs sample_events = sample_program" by (simp add: sample_events_def numeral_3_eq_3 eval_nat_numeral)
  from predictor_sees_program[OF c[unfolded recording_hooks_def] s(1)] show ?thesis
    using c q by (simp add: f sample_core_def)
qed

end
