(* ===== verification/Vmem.thy ===== *)
theory Vmem
  imports Addresses Waitable "HOL-Library.Multiset" "HOL-Library.Monad_Syntax"
begin

text \<open>
  Virtual memory, \<open>src/vmem.cc\<close> and \<open>inc/vmem.h\<close>: physical pages are handed out on first use, to
  the pages of the program (\<open>va_to_pa\<close>) and to the pages of the page table (\<open>get_pte_pa\<close>).  A page number
  is the value of its slice.  \<open>std::shuffle\<close> is a field: what is used of it is that it permutes.
  A failed assertion and a throw are \<open>None\<close>; the warnings printed are left out.
\<close>

section \<open>State\<close>

record VirtualMemory =
  vm_log2_page :: nat
  vm_dram_size :: int
  vm_shuffle :: "address list \<Rightarrow> address list"
  minor_fault_penalty :: time
  pt_levels :: nat
  pte_page_size :: nat
  ppage_free_list :: "address list"
  active_pte_page :: address
  next_pte_page :: address_slice
  vpage_to_ppage_map :: "32 word \<times> address \<Rightarrow> address option"
  page_table :: "32 word \<times> nat \<times> address \<Rightarrow> address option"

text \<open>A size in page table entries, of 8 bytes.\<close>

definition pte_bytes :: nat where "pte_bytes = 8"

definition page_number_slice :: "VirtualMemory \<Rightarrow> address \<Rightarrow> address_slice" where
  "page_number_slice v p = \<lparr>sl_extent = page_number_extent (vm_log2_page v), sl_value = p\<rparr>"

section \<open>Free pages\<close>

definition initial_ppages :: "VirtualMemory \<Rightarrow> address list" where
  "initial_ppages v = (let base = drop_bit (vm_log2_page v) (word_of_int (max (2 ^ vm_log2_page v div 2 ^ 20) 1 * 2 ^ 20) :: address)
     in map (\<lambda>i. take_bit (64 - vm_log2_page v) (base + word_of_nat i))
          [0..<nat ((vm_dram_size v - 2 ^ 20) div 2 ^ vm_log2_page v)])"

definition populate_pages :: "VirtualMemory \<Rightarrow> VirtualMemory option" where
  "populate_pages v = (if vm_dram_size v \<le> 2 ^ 20 \<or> initial_ppages v = [] then None
     else Some (v\<lparr>ppage_free_list := initial_ppages v\<rparr>))"

definition shuffle_pages :: "VirtualMemory \<Rightarrow> VirtualMemory" where
  "shuffle_pages v = v\<lparr>ppage_free_list := vm_shuffle v (ppage_free_list v)\<rparr>"

definition available_ppages :: "VirtualMemory \<Rightarrow> nat" where
  "available_ppages v = length (ppage_free_list v)"

definition ppage_front :: "VirtualMemory \<Rightarrow> address option" where
  "ppage_front v = (case ppage_free_list v of [] \<Rightarrow> None | p # _ \<Rightarrow> Some p)"

definition ppage_pop :: "VirtualMemory \<Rightarrow> VirtualMemory option" where
  "ppage_pop v = (let v = v\<lparr>ppage_free_list := tl (ppage_free_list v)\<rparr>
     in if available_ppages v = 0 then map_option shuffle_pages (populate_pages v) else Some v)"

section \<open>The geometry of the page table\<close>

text \<open>The computation is in \<open>size_t\<close>: level 0 wraps around to the bits below the page.\<close>

definition vm_extent :: "VirtualMemory \<Rightarrow> nat \<Rightarrow> extent option" where
  "vm_extent v level = dynamic_extent_size
     (nat ((int (vm_log2_page v) + int (lg2 (pte_page_size v)) * (int level - 1)) mod 2 ^ 64)) (lg2 (pte_page_size v))"

definition vm_shamt :: "VirtualMemory \<Rightarrow> nat \<Rightarrow> nat option" where
  "vm_shamt v level = map_option ex_lower (vm_extent v level)"

definition get_offset :: "VirtualMemory \<Rightarrow> address \<Rightarrow> nat \<Rightarrow> address option" where
  "get_offset v vaddr level = do {
     e \<leftarrow> vm_extent v level;
     s \<leftarrow> slice_of_slice e (full_slice vaddr);
     Some (sl_value s) }"

definition get_page_offset :: "VirtualMemory \<Rightarrow> address \<Rightarrow> nat \<Rightarrow> address option" where
  "get_page_offset v vpage level = Option.bind (to_address (page_number_slice v vpage)) (\<lambda>a. get_offset v a level)"

section \<open>Translation\<close>

definition va_to_pa :: "32 word \<Rightarrow> address \<Rightarrow> VirtualMemory \<Rightarrow> ((address \<times> time) \<times> VirtualMemory) option" where
  "va_to_pa cpu vpage v = do {
     front \<leftarrow> ppage_front v;
     (case vpage_to_ppage_map v (cpu, vpage) of
        Some p \<Rightarrow> Some ((p, 0), v)
      | None \<Rightarrow> do {
          v' \<leftarrow> ppage_pop (v\<lparr>vpage_to_ppage_map := (vpage_to_ppage_map v)((cpu, vpage) \<mapsto> front)\<rparr>);
          Some ((front, minor_fault_penalty v), v') }) }"

text \<open>A new page for table pages, when the last one is used up.\<close>

definition next_pte_offset :: "VirtualMemory \<Rightarrow> address option" where
  "next_pte_offset v = map_option sl_value (slice_of_slice (page_offset_extent (vm_log2_page v)) (next_pte_page v))"

definition renew_pte_page :: "VirtualMemory \<Rightarrow> VirtualMemory option" where
  "renew_pte_page v = do {
     next \<leftarrow> next_pte_offset v;
     (if next = 0
      then do { front \<leftarrow> ppage_front v; ppage_pop (v\<lparr>active_pte_page := front\<rparr>) }
      else Some v) }"

text \<open>The entry of the table: the bits of the page number from the level up select it.\<close>

definition pte_key :: "VirtualMemory \<Rightarrow> 32 word \<Rightarrow> address \<Rightarrow> nat \<Rightarrow> (32 word \<times> nat \<times> address) option" where
  "pte_key v cpu vpage level = do {
     low \<leftarrow> vm_shamt v level;
     e \<leftarrow> dynamic_extent address_bits low;
     s \<leftarrow> slice_of_slice e (page_number_slice v vpage);
     Some (cpu, level, sl_value s) }"

definition fresh_table_page :: "VirtualMemory \<Rightarrow> address option" where
  "fresh_table_page v = do {
     s \<leftarrow> splice_two (page_number_slice v (active_pte_page v)) (next_pte_page v);
     to_address s }"

definition pte_address :: "VirtualMemory \<Rightarrow> address \<Rightarrow> address \<Rightarrow> address option" where
  "pte_address v base offset = do {
     e \<leftarrow> dynamic_extent_size (lg2 pte_bytes) (lg2 (pte_page_size v));
     low \<leftarrow> slice_of_value e offset;
     s \<leftarrow> splice_two (full_slice base) low;
     to_address s }"

text \<open>\<open>try_emplace\<close>, and the step to the next table page when the entry is new.\<close>

definition add_pte :: "32 word \<times> nat \<times> address \<Rightarrow> address \<Rightarrow> VirtualMemory \<Rightarrow> VirtualMemory" where
  "add_pte key fresh v = (if page_table v key = None
     then v\<lparr>page_table := (page_table v)(key \<mapsto> fresh), next_pte_page := slice_incr (next_pte_page v)\<rparr> else v)"

definition get_pte_pa :: "32 word \<Rightarrow> address \<Rightarrow> nat \<Rightarrow> VirtualMemory \<Rightarrow> ((address \<times> time) \<times> VirtualMemory) option" where
  "get_pte_pa cpu vpage level v = do {
     v \<leftarrow> renew_pte_page v;
     key \<leftarrow> pte_key v cpu vpage level;
     fresh \<leftarrow> fresh_table_page v;
     let v' = add_pte key fresh v;
     base \<leftarrow> page_table v' key;
     offset \<leftarrow> get_page_offset v' vpage level;
     paddr \<leftarrow> pte_address v' base offset;
     Some ((paddr, if page_table v key = None then minor_fault_penalty v else 0), v') }"

definition new_VirtualMemory :: "nat \<Rightarrow> nat \<Rightarrow> nat \<Rightarrow> time \<Rightarrow> int \<Rightarrow> (address list \<Rightarrow> address list) \<Rightarrow> VirtualMemory option" where
  "new_VirtualMemory log2_page page_table_page_size page_table_levels penalty dram_size shuffle =
     (let ptes = page_table_page_size div pte_bytes
      in if pte_bytes * ptes \<le> 2 ^ 10 \<or> \<not> is_power_of_2 ptes then None
      else do {
        e \<leftarrow> dynamic_extent log2_page (lg2 (pte_bytes * ptes));
        s \<leftarrow> slice_of_value e 0;
        v \<leftarrow> populate_pages \<lparr>vm_log2_page = log2_page, vm_dram_size = dram_size, vm_shuffle = shuffle,
               minor_fault_penalty = penalty, pt_levels = page_table_levels, pte_page_size = ptes,
               ppage_free_list = [], active_pte_page = 0, next_pte_page = s, vpage_to_ppage_map = (\<lambda>_. None),
               page_table = (\<lambda>_. None)\<rparr>;
        Some (shuffle_pages v) })"

end
