(* ===== verification/Vmem_Correctness.thy ===== *)
theory Vmem_Correctness
  imports Vmem
begin

text \<open>
  What virtual memory promises: a translation never changes once made, and as long as physical memory is
  not exhausted no physical page serves two purposes.
\<close>

section \<open>Operations\<close>

datatype vmem_op = Translate "32 word" address | Walk "32 word" address nat

fun vmem_step :: "vmem_op \<Rightarrow> VirtualMemory \<Rightarrow> VirtualMemory option" where
  "vmem_step (Translate cpu vpage) v = map_option snd (va_to_pa cpu vpage v)"
| "vmem_step (Walk cpu vpage level) v = map_option snd (get_pte_pa cpu vpage level v)"

abbreviation vmem_run :: "vmem_op list \<Rightarrow> VirtualMemory \<Rightarrow> VirtualMemory option" where
  "vmem_run \<equiv> fold_option vmem_step"

section \<open>Tables only grow\<close>

text \<open>A memory of translations: operations on it keep the translations it has.\<close>

locale translation_memory =
  fixes lookup :: "'s \<Rightarrow> 'k \<Rightarrow> 'p option"
    and step :: "'e \<Rightarrow> 's \<Rightarrow> 's option"
  assumes step_keeps: "step e s = Some s' \<Longrightarrow> lookup s \<subseteq>\<^sub>m lookup s'"
begin

lemma run_keeps: "fold_option step es s = Some s' \<Longrightarrow> lookup s \<subseteq>\<^sub>m lookup s'"
proof (induction es arbitrary: s)
  case (Cons e es)
  then obtain s1 where "step e s = Some s1" "fold_option step es s1 = Some s'" by (auto simp: bind_eq_Some_conv)
  then show ?case using step_keeps Cons.IH map_le_trans by blast
qed simp

lemma run_lookup: "fold_option step es s = Some s' \<Longrightarrow> lookup s k = Some p \<Longrightarrow> lookup s' k = Some p"
  using run_keeps by (auto simp: map_le_def dom_def)

end

lemma ppage_pop_frame:
  assumes "ppage_pop v = Some v'"
  shows "\<exists>l. v' = v\<lparr>ppage_free_list := l\<rparr>"
  using assms by (auto simp: ppage_pop_def populate_pages_def shuffle_pages_def Let_def split: if_splits)

lemma ppage_pop_more:
  assumes "1 < available_ppages v"
  shows "ppage_pop v = Some (v\<lparr>ppage_free_list := tl (ppage_free_list v)\<rparr>)"
  using assms by (cases "ppage_free_list v") (auto simp: ppage_pop_def available_ppages_def Let_def)

lemma renew_frame:
  assumes "renew_pte_page v = Some v'"
  shows "\<exists>a l. v' = v\<lparr>active_pte_page := a, ppage_free_list := l\<rparr>"
proof -
  obtain next_page where next_page: "next_pte_offset v = Some next_page" using assms by (auto simp: renew_pte_page_def bind_eq_Some_conv)
  show ?thesis
  proof (cases "next_page = 0")
    case True
    then obtain front where "ppage_pop (v\<lparr>active_pte_page := front\<rparr>) = Some v'"
      using assms next_page by (auto simp: renew_pte_page_def bind_eq_Some_conv)
    from ppage_pop_frame[OF this] show ?thesis by auto
  next
    case False
    then have "v' = v\<lparr>active_pte_page := active_pte_page v, ppage_free_list := ppage_free_list v\<rparr>"
      using assms next_page by (simp add: renew_pte_page_def)
    then show ?thesis by blast
  qed
qed

lemma va_to_pa_cases:
  assumes "va_to_pa cpu vpage v = Some ((p, d), v')"
  obtains "vpage_to_ppage_map v (cpu, vpage) = Some p" "d = 0" "v' = v"
  | "vpage_to_ppage_map v (cpu, vpage) = None" "ppage_front v = Some p" "d = minor_fault_penalty v"
    "ppage_pop (v\<lparr>vpage_to_ppage_map := (vpage_to_ppage_map v)((cpu, vpage) \<mapsto> p)\<rparr>) = Some v'"
proof (cases "vpage_to_ppage_map v (cpu, vpage)")
  case None
  then show thesis using assms that(2) by (simp add: va_to_pa_def bind_eq_Some_conv)
next
  case (Some q)
  then have "p = q \<and> d = 0 \<and> v' = v" using assms by (auto simp: va_to_pa_def bind_eq_Some_conv)
  with Some show thesis by (intro that(1)) simp_all
qed

lemma get_pte_pa_cases:
  assumes "get_pte_pa cpu vpage level v = Some ((p, d), v')"
  obtains v1 key fresh base offset where "renew_pte_page v = Some v1" "pte_key v1 cpu vpage level = Some key" "fresh_table_page v1 = Some fresh"
    "v' = add_pte key fresh v1" "d = (if page_table v1 key = None then minor_fault_penalty v1 else 0)"
    "page_table v' key = Some base" "get_page_offset v' vpage level = Some offset" "pte_address v' base offset = Some p"
  using assms by (auto simp: get_pte_pa_def bind_eq_Some_conv Let_def)

lemma va_to_pa_map: "va_to_pa cpu vpage v = Some ((p, d), v') \<Longrightarrow>
    vpage_to_ppage_map v' = (vpage_to_ppage_map v)((cpu, vpage) \<mapsto> p) \<and> page_table v' = page_table v"
  by (erule va_to_pa_cases) (auto dest!: ppage_pop_frame)

lemma get_pte_pa_map: "get_pte_pa cpu vpage level v = Some ((p, d), v') \<Longrightarrow>
    vpage_to_ppage_map v' = vpage_to_ppage_map v \<and> page_table v \<subseteq>\<^sub>m page_table v'"
  by (erule get_pte_pa_cases) (auto dest!: renew_frame simp: map_le_def add_pte_def)

lemma vmem_step_keeps:
  assumes "vmem_step e v = Some v'"
  shows "vpage_to_ppage_map v \<subseteq>\<^sub>m vpage_to_ppage_map v'" and "page_table v \<subseteq>\<^sub>m page_table v'"
proof -
  have va: "vpage_to_ppage_map v \<subseteq>\<^sub>m vpage_to_ppage_map v'" if "va_to_pa cpu vpage v = Some ((p, d), v')" for cpu vpage p d
    using that by (cases rule: va_to_pa_cases) (auto dest!: ppage_pop_frame simp: map_le_def)
  show "vpage_to_ppage_map v \<subseteq>\<^sub>m vpage_to_ppage_map v'" "page_table v \<subseteq>\<^sub>m page_table v'"
    using assms va by (cases e; auto dest: get_pte_pa_map va_to_pa_map)+
qed

interpretation pages: translation_memory vpage_to_ppage_map vmem_step
  by unfold_locales (rule vmem_step_keeps)

interpretation tables: translation_memory page_table vmem_step
  by unfold_locales (rule vmem_step_keeps)

section \<open>Fresh table pages\<close>

text \<open>The geometry of the slice that counts the table pages in a physical page.\<close>

definition pte_low :: "VirtualMemory \<Rightarrow> nat" where
  "pte_low v = ex_lower (sl_extent (next_pte_page v))"

definition pte_next :: "VirtualMemory \<Rightarrow> address" where
  "pte_next v = sl_value (next_pte_page v)"

definition vm_shape :: "VirtualMemory \<Rightarrow> bool" where
  "vm_shape v = (vm_log2_page v \<le> 64 \<and> pte_low v \<le> vm_log2_page v \<and> ex_upper (sl_extent (next_pte_page v)) = vm_log2_page v
     \<and> take_bit (vm_log2_page v - pte_low v) (pte_next v) = pte_next v)"

lemma and_bitmask_to: "(a :: address) AND bitmask_to n = take_bit n a"
  by (intro bit_eqI) (auto simp: bit_and_iff bit_bitmask_to bit_take_bit_iff)

lemma bit_above: "take_bit m (a :: address) = a \<Longrightarrow> m \<le> i \<Longrightarrow> \<not> bit a i"
  by (metis bit_take_bit_iff linorder_not_less)

lemma fresh_table_page_eq:
  assumes "vm_shape v"
  shows "fresh_table_page v = Some (push_bit (vm_log2_page v) (active_pte_page v) OR push_bit (pte_low v) (pte_next v))"
proof -
  let ?n = "vm_log2_page v" and ?l = "pte_low v" and ?a = "active_pte_page v" and ?x = "pte_next v"
  have g: "?n \<le> 64" "?l \<le> ?n" "take_bit (?n - ?l) ?x = ?x" and e: "sl_extent (next_pte_page v) = \<lparr>ex_upper = ?n, ex_lower = ?l\<rparr>"
    using assms by (auto simp: vm_shape_def pte_low_def)
  let ?m = "splice_bits (push_bit (?n - ?l) ?a) ?x (?n - ?l) 0"
  have "translate ?a \<lparr>ex_upper = 64, ex_lower = ?n\<rparr> \<lparr>ex_upper = 64, ex_lower = ?l\<rparr> = push_bit (?n - ?l) ?a"
    using g by (cases "?n = ?l") (simp_all add: translate_def)
  then have s: "splice_two (page_number_slice v ?a) (next_pte_page v)
      = slice_of_value \<lparr>ex_upper = 64, ex_lower = ?l\<rparr> ?m"
    using g by (simp add: splice_two_def page_number_slice_def page_number_extent_def e extent_union_def translate_def
        extent_shift_down_def address_bits_def pte_next_def[symmetric] Let_def)
  have "push_bit ?l (?m AND bitmask_to (64 - ?l)) AND bitmask 64 0 = push_bit ?n ?a OR push_bit ?l ?x"
    using g by (intro bit_eqI) (auto simp: splice_bits_def bit_or_iff bit_and_iff bit_not_iff bit_bitmask bit_bitmask_to bit_push_bit_iff
        bit_above[OF g(3)] dest: bit_imp_le_length)
  then show ?thesis
    using g by (simp add: fresh_table_page_def s slice_of_value_def extent_size_def to_address_def slice_of_slice_def full_extent_def
        address_bits_def)
qed

lemma next_pte_offset_eq:
  assumes "vm_shape v"
  shows "next_pte_offset v = Some (push_bit (pte_low v) (pte_next v))"
proof -
  have g: "vm_log2_page v \<le> 64" "pte_low v \<le> vm_log2_page v" "take_bit (vm_log2_page v - pte_low v) (pte_next v) = pte_next v"
    using assms by (auto simp: vm_shape_def)
  have "push_bit (pte_low v) (pte_next v) AND bitmask (vm_log2_page v) 0 = push_bit (pte_low v) (pte_next v)"
    using g by (intro bit_eqI) (auto simp: bit_and_iff bit_bitmask bit_push_bit_iff bit_above[OF g(3)])
  then show ?thesis using g by (simp add: next_pte_offset_def slice_of_slice_def page_offset_extent_def address_bits_def
      pte_low_def[symmetric] pte_next_def[symmetric])
qed

lemma pte_offset_0_iff:
  assumes "vm_shape v"
  shows "push_bit (pte_low v) (pte_next v) = 0 \<longleftrightarrow> pte_next v = 0"
proof -
  have g: "vm_log2_page v \<le> 64" "pte_low v \<le> vm_log2_page v" "take_bit (vm_log2_page v - pte_low v) (pte_next v) = pte_next v"
    using assms by (auto simp: vm_shape_def)
  have "drop_bit (pte_low v) (push_bit (pte_low v) (pte_next v)) = pte_next v"
    using g by (intro bit_eqI) (auto simp: bit_drop_bit_eq bit_push_bit_iff bit_above[OF g(3)], rule ccontr, simp add: bit_above[OF g(3)])
  then show ?thesis by (metis drop_bit_of_0 push_bit_of_0)
qed

lemma fresh_parts:
  fixes a x :: address
  assumes "n \<le> 64" and "l \<le> n" and "take_bit (64 - n) a = a" and "take_bit (n - l) x = x"
  shows "drop_bit n (push_bit n a OR push_bit l x) = a" and "drop_bit l (take_bit n (push_bit n a OR push_bit l x)) = x"
proof -
  show "drop_bit n (push_bit n a OR push_bit l x) = a"
    using assms by (intro bit_eqI) (auto simp: bit_drop_bit_eq bit_or_iff bit_push_bit_iff bit_above[OF assms(3)] bit_above[OF assms(4)],
      rule ccontr, simp add: bit_above[OF assms(3)])
  show "drop_bit l (take_bit n (push_bit n a OR push_bit l x)) = x"
    using assms by (intro bit_eqI) (auto simp: bit_drop_bit_eq bit_or_iff bit_push_bit_iff bit_take_bit_iff bit_above[OF assms(4)])
qed

section \<open>No page serves two purposes\<close>

abbreviation frame_of :: "VirtualMemory \<Rightarrow> address \<Rightarrow> address" where
  "frame_of v b \<equiv> drop_bit (vm_log2_page v) b"

text \<open>The page in which the next table page is allocated.\<close>

definition active_ok :: "VirtualMemory \<Rightarrow> bool" where
  "active_ok v = (take_bit (64 - vm_log2_page v) (active_pte_page v) = active_pte_page v
     \<and> active_pte_page v \<notin> set (ppage_free_list v) \<union> ran (vpage_to_ppage_map v)
     \<and> (\<forall>b\<in>ran (page_table v). frame_of v b = active_pte_page v \<longrightarrow> drop_bit (pte_low v) (take_bit (vm_log2_page v) b) < pte_next v))"

definition vm_ok :: "VirtualMemory \<Rightarrow> bool" where
  "vm_ok v = (vm_shape v \<and> distinct (ppage_free_list v) \<and> (\<forall>p\<in>set (ppage_free_list v). take_bit (64 - vm_log2_page v) p = p)
     \<and> set (ppage_free_list v) \<inter> ran (vpage_to_ppage_map v) = {} \<and> inj_on (vpage_to_ppage_map v) (dom (vpage_to_ppage_map v))
     \<and> (\<forall>b\<in>ran (page_table v). frame_of v b \<notin> set (ppage_free_list v) \<union> ran (vpage_to_ppage_map v))
     \<and> inj_on (page_table v) (dom (page_table v)) \<and> (pte_next v \<noteq> 0 \<longrightarrow> active_ok v))"

lemma inj_map_upd: "inj_on m (dom m) \<Longrightarrow> b \<notin> ran m \<Longrightarrow> m k = None \<Longrightarrow> inj_on (m(k \<mapsto> b)) (dom (m(k \<mapsto> b)))"
  by (auto simp: inj_on_def ran_def)

lemma va_to_pa_ok:
  assumes "vm_ok v" and "1 < available_ppages v" and "va_to_pa cpu vpage v = Some ((p, d), v')"
  shows "vm_ok v'" and "available_ppages v \<le> available_ppages v' + 1"
proof -
  have "vm_ok v' \<and> available_ppages v \<le> available_ppages v' + 1"
    using assms(3)
  proof (cases rule: va_to_pa_cases)
    case 2
    then obtain ps where ps: "ppage_free_list v = p # ps" by (auto simp: ppage_front_def split: list.splits)
    have v': "v' = v\<lparr>vpage_to_ppage_map := (vpage_to_ppage_map v)((cpu, vpage) \<mapsto> p), ppage_free_list := ps\<rparr>"
      using 2(4) assms(2) by (simp add: ppage_pop_more available_ppages_def ps)
    have r: "ran ((vpage_to_ppage_map v)((cpu, vpage) \<mapsto> p)) = insert p (ran (vpage_to_ppage_map v))"
      using 2(1) by (rule ran_map_upd)
    have "p \<notin> ran (vpage_to_ppage_map v)" using assms(1) by (auto simp: vm_ok_def ps)
    then have "inj_on (vpage_to_ppage_map v') (dom (vpage_to_ppage_map v'))"
      using assms(1) 2(1) by (simp add: v' vm_ok_def inj_map_upd del: dom_fun_upd)
    then show ?thesis using assms(1) unfolding vm_ok_def
      by (auto simp: v' vm_shape_def active_ok_def pte_low_def pte_next_def r ps available_ppages_def simp del: dom_fun_upd)
  qed (use assms(1) in auto)
  then show "vm_ok v'" and "available_ppages v \<le> available_ppages v' + 1" by simp_all
qed

lemma renew_ok:
  assumes "vm_ok v" and "1 < available_ppages v" and "renew_pte_page v = Some v'"
  shows "vm_ok v'" and "active_ok v'" and "available_ppages v \<le> available_ppages v' + 1"
proof -
  have shape: "vm_shape v" using assms(1) by (simp add: vm_ok_def)
  have "vm_ok v' \<and> active_ok v' \<and> available_ppages v \<le> available_ppages v' + 1"
  proof (cases "pte_next v = 0")
    case True
    obtain p ps where ps: "ppage_free_list v = p # ps" using assms(2) by (cases "ppage_free_list v") (auto simp: available_ppages_def)
    have v': "v' = v\<lparr>active_pte_page := p, ppage_free_list := ps\<rparr>"
      using assms(2,3) True by (simp add: renew_pte_page_def next_pte_offset_eq[OF shape] pte_offset_0_iff[OF shape]
          ppage_front_def ps ppage_pop_more available_ppages_def)
    have "vm_ok v'" "active_ok v'"
      using assms(1) True unfolding vm_ok_def active_ok_def by (auto simp: v' vm_shape_def pte_low_def pte_next_def ps)
    then show ?thesis by (simp add: v' available_ppages_def ps)
  next
    case False
    then have "v' = v" using assms(3) by (simp add: renew_pte_page_def next_pte_offset_eq[OF shape] pte_offset_0_iff[OF shape])
    then show ?thesis using assms(1) False by (simp add: vm_ok_def)
  qed
  then show "vm_ok v'" and "active_ok v'" and "available_ppages v \<le> available_ppages v' + 1" by simp_all
qed

lemma take_bit_succ:
  fixes x :: address
  assumes "take_bit m x = x" and "take_bit m (x + 1) \<noteq> 0"
  shows "take_bit m (x + 1) = x + 1 \<and> x < take_bit m (x + 1)"
proof -
  have "x + 1 \<noteq> 0" using assms(2) by auto
  then have s: "unat (x + 1) = Suc (unat x)" using unatSuc[of x] by (simp add: add.commute)
  have t: "unat (take_bit m y) = take_bit m (unat y)" for y :: address by (rule unsigned_take_bit_eq)
  have "unat x = take_bit m (unat x)" using t[of x] assms(1) by simp
  then have "unat x < 2 ^ m" using take_bit_nat_less_exp[of m "unat x"] by simp
  moreover have "unat (take_bit m (x + 1)) \<noteq> 0" using assms(2) by (simp add: unat_eq_0)
  then have "take_bit m (Suc (unat x)) \<noteq> 0" by (simp only: t s) simp
  then have "Suc (unat x) \<noteq> 2 ^ m" by (intro notI) (simp add: take_bit_eq_mod)
  ultimately have "unat (take_bit m (x + 1)) = unat (x + 1)" by (simp add: t s take_bit_nat_eq_self)
  then have "take_bit m (x + 1) = x + 1" by (simp only: word_unat_eq_iff)
  moreover have "x < x + 1" using s by (simp add: word_less_nat_alt)
  ultimately show ?thesis by simp
qed

lemma next_slice:
  fixes t
  assumes "vm_shape v"
  defines "v' \<equiv> v\<lparr>page_table := t, next_pte_page := slice_incr (next_pte_page v)\<rparr>"
  shows "vm_shape v'" and "pte_low v' = pte_low v" and "pte_next v' \<noteq> 0 \<Longrightarrow> pte_next v' = pte_next v + 1 \<and> pte_next v < pte_next v'"
proof -
  have g: "pte_low v \<le> vm_log2_page v" "take_bit (vm_log2_page v - pte_low v) (pte_next v) = pte_next v"
    "ex_upper (sl_extent (next_pte_page v)) = vm_log2_page v"
    using assms(1) by (auto simp: vm_shape_def)
  have x: "pte_next v' = take_bit (vm_log2_page v - pte_low v) (pte_next v + 1)"
    using g by (simp add: v'_def pte_next_def pte_low_def slice_incr_def slice_add_def and_bitmask_to extent_size_def)
  show "pte_low v' = pte_low v" by (simp add: v'_def pte_low_def slice_incr_def slice_add_def)
  then show "vm_shape v'" using assms(1) x by (simp add: vm_shape_def v'_def slice_incr_def slice_add_def)
  show "pte_next v' = pte_next v + 1 \<and> pte_next v < pte_next v'" if "pte_next v' \<noteq> 0"
    using take_bit_succ[OF g(2)] that unfolding x by blast
qed

lemma add_pte_ok:
  assumes "vm_ok v" and "active_ok v" and "fresh_table_page v = Some fresh"
  shows "vm_ok (add_pte key fresh v)"
proof (cases "page_table v key")
  case None
  have shape: "vm_shape v" using assms(1) by (simp add: vm_ok_def)
  have g: "vm_log2_page v \<le> 64" "pte_low v \<le> vm_log2_page v" "take_bit (64 - vm_log2_page v) (active_pte_page v) = active_pte_page v"
    "take_bit (vm_log2_page v - pte_low v) (pte_next v) = pte_next v"
    using assms(2) shape by (auto simp: vm_shape_def active_ok_def)
  have fresh: "frame_of v fresh = active_pte_page v" "drop_bit (pte_low v) (take_bit (vm_log2_page v) fresh) = pte_next v"
    using assms(3) fresh_parts[OF g] by (auto simp: fresh_table_page_eq[OF shape])
  have new: "fresh \<notin> ran (page_table v)" using assms(2) fresh by (auto simp: active_ok_def)
  have r: "ran ((page_table v)(key \<mapsto> fresh)) = insert fresh (ran (page_table v))" using None by (rule ran_map_upd)
  define v' where "v' = v\<lparr>page_table := (page_table v)(key \<mapsto> fresh), next_pte_page := slice_incr (next_pte_page v)\<rparr>"
  note n = next_slice[OF shape, of "(page_table v)(key \<mapsto> fresh)", folded v'_def]
  have "inj_on (page_table v') (dom (page_table v'))" using assms(1) new None by (simp add: v'_def vm_ok_def inj_map_upd del: dom_fun_upd)
  moreover have "active_ok v'" if "pte_next v' \<noteq> 0"
    using assms(2) n(2) n(3)[OF that] fresh unfolding active_ok_def by (auto simp: v'_def r)
  moreover have "frame_of v' b \<notin> set (ppage_free_list v') \<union> ran (vpage_to_ppage_map v')" if "b \<in> ran (page_table v')" for b
    using that assms(1,2) fresh unfolding active_ok_def vm_ok_def by (auto simp: v'_def r)
  ultimately have "vm_ok v'" using assms(1) n(1) unfolding vm_ok_def by (auto simp: v'_def)
  then show ?thesis using None by (simp add: add_pte_def v'_def)
qed (use assms(1) in \<open>simp add: add_pte_def\<close>)

lemma get_pte_pa_ok:
  assumes "vm_ok v" and "1 < available_ppages v" and "get_pte_pa cpu vpage level v = Some ((p, d), v')"
  shows "vm_ok v'" and "available_ppages v \<le> available_ppages v' + 1"
proof -
  from assms(3) obtain v1 key fresh where 1: "renew_pte_page v = Some v1" and f: "fresh_table_page v1 = Some fresh" and v': "v' = add_pte key fresh v1"
    by (elim get_pte_pa_cases)
  show "vm_ok v'" unfolding v' by (rule add_pte_ok[OF renew_ok(1,2)[OF assms(1,2) 1] f])
  show "available_ppages v \<le> available_ppages v' + 1"
    using renew_ok(3)[OF assms(1,2) 1] by (simp add: v' add_pte_def available_ppages_def)
qed

lemma vmem_run_ok: "vmem_run es v = Some v' \<Longrightarrow> vm_ok v \<Longrightarrow> length es < available_ppages v \<Longrightarrow> vm_ok v'"
proof (induction es arbitrary: v)
  case (Cons e es)
  then obtain v1 where step: "vmem_step e v = Some v1" and run: "vmem_run es v1 = Some v'" by (auto simp: bind_eq_Some_conv)
  have "vm_ok v1 \<and> available_ppages v \<le> available_ppages v1 + 1"
    using step Cons.prems(2,3) by (cases e) (auto dest: va_to_pa_ok get_pte_pa_ok)
  then show ?case using Cons.IH[OF run] Cons.prems(3) by simp
qed simp

section \<open>Construction\<close>

lemma take_bit_add_inject:
  fixes base :: address
  assumes "take_bit m (base + word_of_nat i) = take_bit m (base + word_of_nat j)" and "m \<le> 64" and "i < 2 ^ m" and "j < 2 ^ m"
  shows "i = j"
proof -
  have u: "uint (take_bit m (base + word_of_nat k)) = (uint base + int k) mod 2 ^ m" for k
  proof -
    have "(2 :: int) ^ m dvd 2 ^ 64" using assms(2) by (rule le_imp_power_dvd)
    moreover have "base + word_of_nat k = word_of_int (uint base + int k)" by simp
    then have "uint (base + word_of_nat k) = (uint base + int k) mod 2 ^ 64" by (simp only: uint_word_of_int) simp
    moreover have "uint (take_bit m (base + word_of_nat k)) = uint (base + word_of_nat k) mod 2 ^ m"
      by (metis unsigned_take_bit_eq take_bit_eq_mod)
    ultimately show ?thesis by (simp only: mod_mod_cancel)
  qed
  have "(uint base + int i) mod 2 ^ m = (uint base + int j) mod 2 ^ m" using arg_cong[OF assms(1), of uint] by (simp only: u)
  then have "(uint base + int i - uint base) mod 2 ^ m = (uint base + int j - uint base) mod 2 ^ m" by (intro mod_diff_cong) simp_all
  then have "int i mod 2 ^ m = int j mod 2 ^ m" by simp
  moreover have "int i < 2 ^ m" "int j < 2 ^ m" using assms(3,4) by (metis of_nat_less_iff of_nat_numeral of_nat_power)+
  ultimately show ?thesis by (simp add: mod_pos_pos_trivial)
qed

lemma initial_ppages_ok:
  assumes "vm_dram_size v < 2 ^ 63" and "vm_log2_page v \<le> 64"
  shows "distinct (initial_ppages v)" and "p \<in> set (initial_ppages v) \<Longrightarrow> take_bit (64 - vm_log2_page v) p = p"
proof -
  let ?n = "vm_log2_page v"
  have count: "nat ((vm_dram_size v - 2 ^ 20) div 2 ^ ?n) \<le> 2 ^ (64 - ?n)"
  proof -
    have "(vm_dram_size v - 2 ^ 20) div 2 ^ ?n \<le> (2 ^ 64) div 2 ^ ?n" by (rule zdiv_mono1) (use assms(1) in simp_all)
    also have "(2 ^ 64 :: int) div 2 ^ ?n = 2 ^ (64 - ?n)" using assms(2) by (simp add: power_diff)
    finally show ?thesis by (simp add: nat_le_iff)
  qed
  show "distinct (initial_ppages v)"
    unfolding initial_ppages_def Let_def distinct_map
  proof (intro conjI inj_onI distinct_upt)
    fix i j
    assume ij: "i \<in> set [0..<nat ((vm_dram_size v - 2 ^ 20) div 2 ^ ?n)]" "j \<in> set [0..<nat ((vm_dram_size v - 2 ^ 20) div 2 ^ ?n)]"
      and eq: "take_bit (64 - ?n) (drop_bit ?n (word_of_int (max (2 ^ ?n div 2 ^ 20) 1 * 2 ^ 20)) + word_of_nat i :: address)
        = take_bit (64 - ?n) (drop_bit ?n (word_of_int (max (2 ^ ?n div 2 ^ 20) 1 * 2 ^ 20)) + word_of_nat j)"
    show "i = j" by (rule take_bit_add_inject[OF eq]) (use ij count in \<open>simp_all only: set_upt atLeastLessThan_iff\<close>, linarith+)
  qed
  show "p \<in> set (initial_ppages v) \<Longrightarrow> take_bit (64 - vm_log2_page v) p = p" by (auto simp: initial_ppages_def Let_def)
qed

lemma new_vm_ok:
  assumes "new_VirtualMemory log2_page sz levels penalty dram shuffle = Some v" and "dram < 2 ^ 63" and "log2_page \<le> 64"
    and "\<And>ps. mset (shuffle ps) = mset ps"
  shows "vm_ok v" and "available_ppages v = nat ((dram - 2 ^ 20) div 2 ^ log2_page)"
proof -
  obtain e s v0 v1 where e: "dynamic_extent log2_page (lg2 (pte_bytes * (sz div pte_bytes))) = Some e" and s: "slice_of_value e 0 = Some s"
    and v0: "v0 = \<lparr>vm_log2_page = log2_page, vm_dram_size = dram, vm_shuffle = shuffle,
               minor_fault_penalty = penalty, pt_levels = levels, pte_page_size = sz div pte_bytes,
               ppage_free_list = [], active_pte_page = 0, next_pte_page = s, vpage_to_ppage_map = (\<lambda>_. None),
               page_table = (\<lambda>_. None)\<rparr>" and v1: "populate_pages v0 = Some v1" and v: "v = shuffle_pages v1"
    using assms(1) by (auto simp: new_VirtualMemory_def Let_def bind_eq_Some_conv split: if_splits)
  have free: "ppage_free_list v = shuffle (initial_ppages v0)" and same: "v = v0\<lparr>ppage_free_list := shuffle (initial_ppages v0)\<rparr>"
    using v1 by (auto simp: v shuffle_pages_def populate_pages_def v0 split: if_splits)
  have m: "mset (ppage_free_list v) = mset (initial_ppages v0)" by (simp add: free assms(4))
  note i = initial_ppages_ok[of v0]
  have "distinct (ppage_free_list v)" "set (ppage_free_list v) = set (initial_ppages v0)"
    using mset_eq_imp_distinct_iff[OF m] mset_eq_setD[OF m] i assms(2,3) by (simp_all add: v0)
  moreover have "vm_shape v" "pte_next v = 0"
    using e s assms(3) by (auto simp: vm_shape_def same v0 pte_low_def pte_next_def slice_of_value_def dynamic_extent_def split: if_splits)
  ultimately show "vm_ok v" using i(2) assms(2,3) by (auto simp: vm_ok_def same v0)
  have "length (ppage_free_list v) = length (initial_ppages v0)" by (rule mset_eq_length[OF m])
  then show "available_ppages v = nat ((dram - 2 ^ 20) div 2 ^ log2_page)"
    by (simp add: available_ppages_def initial_ppages_def Let_def v0)
qed

section \<open>Properties\<close>

text \<open>The configuration does not change, so an entry keeps its key and its place in the table page.\<close>

definition geometry :: "VirtualMemory \<Rightarrow> nat \<times> nat \<times> extent" where
  "geometry v = (vm_log2_page v, pte_page_size v, sl_extent (next_pte_page v))"

lemma vmem_step_geometry: "vmem_step e v = Some v' \<Longrightarrow> geometry v' = geometry v"
  by (cases e) (auto elim!: va_to_pa_cases get_pte_pa_cases dest!: ppage_pop_frame renew_frame
      simp: geometry_def add_pte_def slice_incr_def slice_add_def)

lemma vmem_run_geometry: "vmem_run es v = Some v' \<Longrightarrow> geometry v' = geometry v"
  by (rule fold_option_invariant[where P = "\<lambda>w. geometry w = geometry v"]) (auto dest: vmem_step_geometry)

lemma pte_key_cong: "geometry v' = geometry v \<Longrightarrow> pte_key v' cpu a l = pte_key v cpu a l"
  by (simp add: geometry_def pte_key_def vm_shamt_def vm_extent_def page_number_slice_def)

lemma pte_place_cong: "geometry v' = geometry v \<Longrightarrow> get_page_offset v' a l = get_page_offset v a l \<and> pte_address v' b f = pte_address v b f"
  by (simp add: geometry_def get_page_offset_def get_offset_def vm_extent_def page_number_slice_def pte_address_def)

lemma get_pte_pa_entry:
  assumes "get_pte_pa cpu a l v = Some ((p, d), v')"
  obtains key base f where "pte_key v cpu a l = Some key" "page_table v' key = Some base" "get_page_offset v a l = Some f"
    "pte_address v base f = Some p" "page_table v key = None \<or> d = 0 \<and> page_table v key = Some base"
proof -
  from assms obtain v1 key fresh base f where 1: "renew_pte_page v = Some v1" "pte_key v1 cpu a l = Some key" "v' = add_pte key fresh v1"
    "d = (if page_table v1 key = None then minor_fault_penalty v1 else 0)" "page_table v' key = Some base" "get_page_offset v' a l = Some f"
    "pte_address v' base f = Some p"
    by (elim get_pte_pa_cases)
  have same: "page_table v1 = page_table v" "geometry v1 = geometry v" "geometry v' = geometry v"
    using renew_frame[OF 1(1)] 1(3) by (auto simp: geometry_def add_pte_def slice_incr_def slice_add_def)
  show thesis
    by (rule that[of key base f])
      (use 1 same pte_key_cong[OF same(2)] pte_place_cong[OF same(3)] in \<open>auto simp: add_pte_def split: if_splits\<close>)
qed

text \<open>C13. Translation is stable: once a page has been translated, or an entry of the page table located,
  every later lookup of it, after any sequence of operations, gives the same physical address and pays no fault.\<close>

theorem translation_stable:
  assumes "vmem_run es v1 = Some v2"
  shows "(va_to_pa cpu a v = Some ((p, d), v1) \<and> va_to_pa cpu a v2 = Some ((p', d'), v3) \<longrightarrow> p' = p \<and> d' = 0 \<and> v3 = v2)
    \<and> (get_pte_pa cpu a l v = Some ((p, d), v1) \<and> get_pte_pa cpu a l v2 = Some ((p', d'), v3) \<longrightarrow> p' = p \<and> d' = 0)"
proof (rule conjI; rule impI; elim conjE)
  assume 1: "va_to_pa cpu a v = Some ((p, d), v1)" and 2: "va_to_pa cpu a v2 = Some ((p', d'), v3)"
  have "vpage_to_ppage_map v2 (cpu, a) = Some p" by (rule pages.run_lookup[OF assms]) (simp add: va_to_pa_map[OF 1])
  then show "p' = p \<and> d' = 0 \<and> v3 = v2" by (cases rule: va_to_pa_cases[OF 2]) auto
next
  assume 1: "get_pte_pa cpu a l v = Some ((p, d), v1)" and 2: "get_pte_pa cpu a l v2 = Some ((p', d'), v3)"
  obtain key base f where a: "pte_key v cpu a l = Some key" "page_table v1 key = Some base" "get_page_offset v a l = Some f" "pte_address v base f = Some p"
    by (rule get_pte_pa_entry[OF 1])
  obtain key' base' f' where b: "pte_key v2 cpu a l = Some key'" "get_page_offset v2 a l = Some f'" "pte_address v2 base' f' = Some p'"
    "page_table v2 key' = None \<or> d' = 0 \<and> page_table v2 key' = Some base'"
    by (rule get_pte_pa_entry[OF 2])
  have "geometry v1 = geometry v" using vmem_step_geometry[of "Walk cpu a l" v v1] 1 by simp
  then have g: "geometry v2 = geometry v" using vmem_run_geometry[OF assms] by simp
  have "page_table v2 key = Some base" by (rule tables.run_lookup[OF assms a(2)])
  then show "p' = p \<and> d' = 0" using a b pte_key_cong[OF g] pte_place_cong[OF g] by auto
qed

text \<open>C14. No physical page serves two purposes while memory lasts: after fewer operations than there are
  pages, different virtual pages have different physical pages, different entries have different table pages,
  and no table page lies in a page of the program.\<close>

theorem frames_disjoint:
  assumes "new_VirtualMemory log2_page sz levels penalty dram shuffle = Some v0" and "dram < 2 ^ 63" and "log2_page \<le> 64"
    and "\<And>ps. mset (shuffle ps) = mset ps"
    and "vmem_run es v0 = Some v" and "int (length es) < (dram - 2 ^ 20) div 2 ^ log2_page"
  shows "inj_on (vpage_to_ppage_map v) (dom (vpage_to_ppage_map v)) \<and> inj_on (page_table v) (dom (page_table v))
    \<and> (\<forall>b\<in>ran (page_table v). drop_bit (vm_log2_page v) b \<notin> ran (vpage_to_ppage_map v))"
proof -
  have "vm_ok v" by (rule vmem_run_ok[OF assms(5) new_vm_ok(1)[OF assms(1-4)]]) (use new_vm_ok(2)[OF assms(1-4)] assms(6) in simp)
  then show ?thesis by (simp add: vm_ok_def)
qed

text \<open>When a table page fills a whole page, as in the default configuration, every lookup of an entry
  consumes a physical page, also of an entry that exists: any \<open>k\<close> lookups, be they of one entry, leave \<open>k\<close>
  free pages fewer.\<close>

theorem table_lookups_consume_memory:
  assumes "vm_ok v" and "pte_low v = vm_log2_page v"
    and "vmem_run (map (\<lambda>(cpu, a, l). Walk cpu a l) ws) v = Some v'" and "length ws < available_ppages v"
  shows "available_ppages v' + length ws = available_ppages v"
  using assms
proof (induction ws arbitrary: v)
  case (Cons w ws)
  obtain cpu a l where w: "w = (cpu, a, l)" by (cases w)
  obtain p d v1 where g: "get_pte_pa cpu a l v = Some ((p, d), v1)" and run: "vmem_run (map (\<lambda>(cpu, a, l). Walk cpu a l) ws) v1 = Some v'"
    using Cons.prems(3) by (auto simp: w bind_eq_Some_conv)
  obtain u key fresh where u: "renew_pte_page v = Some u" and v1: "v1 = add_pte key fresh u" using g by (elim get_pte_pa_cases)
  have shape: "vm_shape v" using Cons.prems(1) by (simp add: vm_ok_def)
  then have "pte_next v = 0" using Cons.prems(2) by (simp add: vm_shape_def)
  then have "available_ppages u + 1 = available_ppages v"
    using u Cons.prems(4) by (auto simp: renew_pte_page_def next_pte_offset_eq[OF shape] ppage_pop_more available_ppages_def bind_eq_Some_conv)
  then have "available_ppages v1 + 1 = available_ppages v" by (simp add: v1 add_pte_def available_ppages_def)
  moreover have "vm_ok v1" by (rule get_pte_pa_ok(1)[OF Cons.prems(1) _ g]) (use Cons.prems(4) in simp)
  moreover have "pte_low v1 = vm_log2_page v1"
    using vmem_step_geometry[of "Walk cpu a l" v v1] g Cons.prems(2) by (simp add: geometry_def pte_low_def)
  ultimately show ?case using Cons.IH[OF _ _ run] Cons.prems(4) by simp
qed simp

section \<open>A sample memory\<close>

text \<open>Eight pages of 4 KiB, table pages of the same size as in the default configuration.\<close>

definition sample_vmem :: VirtualMemory where
  "sample_vmem = \<lparr>vm_log2_page = 12, vm_dram_size = 2 ^ 20 + 8 * 4096, vm_shuffle = rev, minor_fault_penalty = 200, pt_levels = 5,
     pte_page_size = 512, ppage_free_list = [0x107, 0x106, 0x105, 0x104, 0x103, 0x102, 0x101, 0x100], active_pte_page = 0,
     next_pte_page = \<lparr>sl_extent = \<lparr>ex_upper = 12, ex_lower = 12\<rparr>, sl_value = 0\<rparr>,
     vpage_to_ppage_map = (\<lambda>_. None), page_table = (\<lambda>_. None)\<rparr>"

lemma sample_vmem_new: "new_VirtualMemory 12 4096 5 200 (2 ^ 20 + 8 * 4096) rev = Some sample_vmem"
proof -
  have sizes: "4096 div pte_bytes = 512" "pte_bytes * 512 = 4096" "lg2 4096 = 12" "is_power_of_2 512"
    by (simp_all add: is_power_of_2_def lg2.simps pte_bytes_def)
  have slice: "slice_of_value \<lparr>ex_upper = 12, ex_lower = 12\<rparr> 0 = Some \<lparr>sl_extent = \<lparr>ex_upper = 12, ex_lower = 12\<rparr>, sl_value = 0\<rparr>"
    by code_simp
  have "initial_ppages (sample_vmem\<lparr>ppage_free_list := []\<rparr>) = rev (ppage_free_list sample_vmem)" by code_simp
  then have "populate_pages (sample_vmem\<lparr>ppage_free_list := []\<rparr>) = Some (sample_vmem\<lparr>ppage_free_list := rev (ppage_free_list sample_vmem)\<rparr>)"
    unfolding populate_pages_def by (simp add: sample_vmem_def)
  then show ?thesis
    by (simp add: new_VirtualMemory_def sizes dynamic_extent_def slice sample_vmem_def shuffle_pages_def)
qed

lemma sample_vmem_ok: "vm_ok sample_vmem"
  by (rule new_vm_ok(1)[OF sample_vmem_new]) simp_all

definition sample_vmem_ops :: "vmem_op list" where
  "sample_vmem_ops = [Walk 0 0x12345 2, Translate 0 0x12345, Translate 0 0x54321]"

lemma sample_vmem_run: "map_option (\<lambda>v. (available_ppages v, map (\<lambda>a. vpage_to_ppage_map v (0, a)) [0x12345, 0x54321]))
    (vmem_run sample_vmem_ops sample_vmem) = Some (5, [Some 0x106, Some 0x105])"
  by code_simp

lemma frames_disjoint_witness:
  "\<exists>v. vmem_run sample_vmem_ops sample_vmem = Some v \<and> inj_on (vpage_to_ppage_map v) (dom (vpage_to_ppage_map v))
    \<and> (0, 0x12345) \<in> dom (vpage_to_ppage_map v)"
proof -
  obtain v where v: "vmem_run sample_vmem_ops sample_vmem = Some v" and m: "vpage_to_ppage_map v (0, 0x12345) = Some 0x106"
    using sample_vmem_run by auto
  from frames_disjoint[OF sample_vmem_new _ _ _ v] m v show ?thesis by (auto simp: sample_vmem_ops_def)
qed

lemma translation_stable_witness:
  "\<exists>v. vmem_run sample_vmem_ops sample_vmem = Some v \<and> va_to_pa 0 0x12345 v = Some ((0x106, 0), v)"
proof -
  define es where "es = [Translate 0 0x54321]"
  have "map_option fst (Option.bind (vmem_step (Walk 0 0x12345 2) sample_vmem) (va_to_pa 0 0x12345)) = Some (0x106, 200)" by code_simp
  then obtain v0 v1 where v0: "vmem_step (Walk 0 0x12345 2) sample_vmem = Some v0" and v1: "va_to_pa 0 0x12345 v0 = Some ((0x106, 200), v1)"
    by (auto simp: bind_eq_Some_conv)
  obtain v where v: "vmem_run sample_vmem_ops sample_vmem = Some v" and free: "available_ppages v = 5" using sample_vmem_run by auto
  have run: "vmem_run es v1 = Some v" using v v0 v1 by (simp add: sample_vmem_ops_def es_def del: vmem_step.simps(2))
  have "va_to_pa 0 0x12345 v \<noteq> None"
    using free pages.run_lookup[OF run, of "(0, 0x12345)"] va_to_pa_map[OF v1]
    by (cases "ppage_free_list v") (auto simp: va_to_pa_def ppage_front_def available_ppages_def)
  then obtain p d v2 where v2: "va_to_pa 0 0x12345 v = Some ((p, d), v2)" by (cases "va_to_pa 0 0x12345 v") auto
  from translation_stable[OF run, of 0 "0x12345" v0 "0x106" 200 p d v2] v v1 v2 show ?thesis by auto
qed

lemma table_lookups_consume_memory_witness:
  "\<exists>v. vmem_run (map (\<lambda>(cpu, a, l). Walk cpu a l) (replicate 3 (0, 0x12345, 2))) sample_vmem = Some v \<and> available_ppages v = 5"
proof -
  have "map_option available_ppages (vmem_run (map (\<lambda>(cpu, a, l). Walk cpu a l) (replicate 3 (0, 0x12345, 2))) sample_vmem) \<noteq> None" by code_simp
  then obtain v where v: "vmem_run (map (\<lambda>(cpu, a, l). Walk cpu a l) (replicate 3 (0, 0x12345, 2))) sample_vmem = Some v"
    by (cases "vmem_run (map (\<lambda>(cpu, a, l). Walk cpu a l) (replicate 3 (0, 0x12345, 2))) sample_vmem") auto
  have "pte_low sample_vmem = vm_log2_page sample_vmem" "available_ppages sample_vmem = 8"
    by (simp_all add: sample_vmem_def pte_low_def available_ppages_def)
  with table_lookups_consume_memory[OF sample_vmem_ok _ v] v show ?thesis by simp
qed

end
