(* ===== verification/Ptw.thy ===== *)
theory Ptw
  imports Vmem Channel Bandwidth Lru_Table
begin

text \<open>
  The page table walker, \<open>src/ptw.cc\<close> and \<open>inc/ptw.h\<close>: walks start at the deepest table its caches
  (the PSCLs) know, read one table per level through the lower level of the memory hierarchy, and end with the
  physical page.  The upper levels are numbered, and \<open>pw_to_return\<close> lists their numbers.  The virtual memory,
  which walkers share, is a state of its own.  \<open>std::partition\<close> leaves the order of its result open: it is
  the field \<open>p_partition\<close>.  A throw is \<open>None\<close>.
\<close>

section \<open>State\<close>

record pscl_entry =
  ps_vaddr :: address
  ps_ptw_addr :: address
  ps_level :: nat

definition pscl_set :: "nat \<Rightarrow> pscl_entry \<Rightarrow> nat" where
  "pscl_set shamt e = unat (slice_upper shamt (ps_vaddr e))"

definition pscl_tag :: "nat \<Rightarrow> pscl_entry \<Rightarrow> address" where
  "pscl_tag shamt e = slice_upper shamt (ps_vaddr e)"

record ptw_mshr =
  pw_address :: address
  pw_v_address :: address
  pw_data :: "address waitable"
  pw_deps :: "nat list"
  pw_to_return :: "nat list"
  pw_pf_metadata :: "32 word"
  pw_cpu :: "32 word"
  pw_asid :: "8 word \<times> 8 word"
  pw_level :: nat

definition ptw_mshr_of :: "request \<Rightarrow> nat \<Rightarrow> ptw_mshr" where
  "ptw_mshr_of req level = \<lparr>pw_address = rq_address req, pw_v_address = rq_v_address req, pw_data = waitable_of 0,
     pw_deps = rq_deps req, pw_to_return = [], pw_pf_metadata = rq_pf_metadata req, pw_cpu = rq_cpu req,
     pw_asid = rq_asid req, pw_level = level\<rparr>"

record PageTableWalker =
  p_clock_period :: time
  p_current_time :: time
  p_warmup :: bool
  p_log2_block :: nat
  p_partition :: "(ptw_mshr \<Rightarrow> bool) \<Rightarrow> ptw_mshr list \<Rightarrow> ptw_mshr list \<times> ptw_mshr list"
  p_MSHR :: "ptw_mshr list"
  p_finished :: "ptw_mshr list"
  p_completed :: "ptw_mshr list"
  p_upper_levels :: "channel list"
  p_lower_level :: channel
  p_MSHR_SIZE :: nat
  p_MAX_READ :: int
  p_MAX_FILL :: int
  p_HIT_LATENCY :: time
  p_pscl :: "(nat \<times> pscl_entry lru_table) list"
  CR3_addr :: address

text \<open>The tables of the caches in descending order of their levels; dimensions of level 0 are unused.\<close>

definition new_pscls :: "VirtualMemory \<Rightarrow> (nat \<times> nat \<times> nat) list \<Rightarrow> (nat \<times> pscl_entry lru_table) list option" where
  "new_pscls vmem dims = map_option fst (map_option_state (\<lambda>(level, sets, ways) u. do {
       shamt \<leftarrow> vm_shamt vmem level;
       (case lru_new sets ways \<lparr>ps_vaddr = 0, ps_ptw_addr = 0, ps_level = 0\<rparr> of Inl _ \<Rightarrow> None | Inr t \<Rightarrow> Some ((shamt, t), u)) })
     (rev (sort (filter (\<lambda>(level, sets, ways). level \<noteq> 0) dims))) ())"

definition new_PageTableWalker :: "time \<Rightarrow> nat \<Rightarrow> ((ptw_mshr \<Rightarrow> bool) \<Rightarrow> ptw_mshr list \<Rightarrow> ptw_mshr list \<times> ptw_mshr list)
    \<Rightarrow> channel list \<Rightarrow> channel \<Rightarrow> nat \<Rightarrow> int \<Rightarrow> int \<Rightarrow> nat \<Rightarrow> 32 word \<Rightarrow> (nat \<times> nat \<times> nat) list \<Rightarrow> VirtualMemory
    \<Rightarrow> (PageTableWalker \<times> VirtualMemory) option" where
  "new_PageTableWalker period log2_block part uls ll mshr_size max_read max_fill latency cpu dims vmem = do {
     ((cr3, _), vmem) \<leftarrow> get_pte_pa cpu 0 (pt_levels vmem) vmem;
     pscl \<leftarrow> new_pscls vmem dims;
     Some (\<lparr>p_clock_period = period, p_current_time = 0, p_warmup = True, p_log2_block = log2_block, p_partition = part, p_MSHR = [],
       p_finished = [], p_completed = [], p_upper_levels = uls, p_lower_level = ll, p_MSHR_SIZE = mshr_size,
       p_MAX_READ = max_read, p_MAX_FILL = max_fill, p_HIT_LATENCY = period * int latency, p_pscl = pscl, CR3_addr = cr3\<rparr>, vmem) }"

section \<open>Steps of a walk\<close>

definition walk_packet :: "ptw_mshr \<Rightarrow> request" where
  "walk_packet source = default_request\<lparr>rq_address := pw_address source, rq_v_address := pw_v_address source,
     rq_pf_metadata := pw_pf_metadata source, rq_cpu := pw_cpu source, rq_asid := pw_asid source, rq_is_translated := True,
     rq_type := TRANSLATION\<rparr>"

definition step_translation :: "ptw_mshr \<Rightarrow> PageTableWalker \<Rightarrow> ptw_mshr option \<times> PageTableWalker" where
  "step_translation source p = (let (success, ll) = add_rq (walk_packet source) (p_lower_level p)
     in (if success then Some source else None, p\<lparr>p_lower_level := ll\<rparr>))"

text \<open>The start of a walk: the last cache that hits knows the deepest table.\<close>

fun check_pscls :: "pscl_entry \<Rightarrow> (nat \<times> pscl_entry lru_table) list \<Rightarrow> pscl_entry option list \<times> (nat \<times> pscl_entry lru_table) list" where
  "check_pscls e [] = ([], [])"
| "check_pscls e ((shamt, t) # ts) = (let (hit, t') = check_hit (pscl_set shamt) (pscl_tag shamt) e t; (hits, ts') = check_pscls e ts
     in (hit # hits, (shamt, t') # ts'))"

definition last_hit :: "pscl_entry \<Rightarrow> pscl_entry option list \<Rightarrow> pscl_entry" where
  "last_hit e hits = foldl (\<lambda>x y. case y of Some h \<Rightarrow> h | None \<Rightarrow> x) e hits"

definition walk_address :: "VirtualMemory \<Rightarrow> address \<Rightarrow> address \<Rightarrow> address option" where
  "walk_address vmem table offset = do {
     e \<leftarrow> dynamic_extent (vm_log2_page vmem) (lg2 pte_bytes);
     walk_offset \<leftarrow> slice_of_value e offset;
     page \<leftarrow> slice_of_slice (page_number_extent (vm_log2_page vmem)) (full_slice table);
     low \<leftarrow> slice_of_slice (page_offset_extent (vm_log2_page vmem)) walk_offset;
     s \<leftarrow> splice_two page low;
     to_address s }"

definition handle_read :: "VirtualMemory \<Rightarrow> nat \<Rightarrow> request \<Rightarrow> PageTableWalker \<Rightarrow> (ptw_mshr option \<times> PageTableWalker) option" where
  "handle_read vmem ul pkt p = do {
     let walk_init = \<lparr>ps_vaddr = rq_v_address pkt, ps_ptw_addr = CR3_addr p, ps_level = length (p_pscl p)\<rparr>;
     let (hits, pscl) = check_pscls walk_init (p_pscl p);
     let walk_init = last_hit walk_init hits;
     offset \<leftarrow> get_offset vmem (rq_address pkt) (ps_level walk_init);
     a \<leftarrow> walk_address vmem (ps_ptw_addr walk_init) offset;
     let fwd_mshr = (ptw_mshr_of pkt (ps_level walk_init))\<lparr>pw_address := a, pw_v_address := rq_address pkt,
       pw_to_return := (if rq_response_requested pkt then [ul] else [])\<rparr>;
     Some (step_translation fwd_mshr (p\<lparr>p_pscl := pscl\<rparr>)) }"

definition handle_fill_walk :: "ptw_mshr \<Rightarrow> PageTableWalker \<Rightarrow> (ptw_mshr option \<times> PageTableWalker) option" where
  "handle_fill_walk fill_mshr p =
     (if pw_level fill_mshr = 0 \<or> length (p_pscl p) < pw_level fill_mshr then None
      else (let pscl_idx = length (p_pscl p) - pw_level fill_mshr;
                (shamt, t) = p_pscl p ! pscl_idx;
                entry = \<lparr>ps_vaddr = pw_v_address fill_mshr, ps_ptw_addr = m_value (pw_data fill_mshr), ps_level = pw_level fill_mshr\<rparr>;
                p = p\<lparr>p_pscl := (p_pscl p)[pscl_idx := (shamt, fill (pscl_set shamt) (pscl_tag shamt) entry t)]\<rparr>
            in Some (step_translation (fill_mshr\<lparr>pw_address := m_value (pw_data fill_mshr), pw_level := pw_level fill_mshr - 1\<rparr>) p)))"

section \<open>Returns\<close>

definition page_of :: "VirtualMemory \<Rightarrow> address \<Rightarrow> address" where
  "page_of vmem a = drop_bit (vm_log2_page vmem) a"

definition page_address :: "VirtualMemory \<Rightarrow> address \<Rightarrow> address" where
  "page_address vmem p = push_bit (vm_log2_page vmem) p"

text \<open>\<open>finish_step\<close> and \<open>finish_last_step\<close>: the value read, from the virtual memory.\<close>

definition finish_step :: "PageTableWalker \<Rightarrow> ptw_mshr \<Rightarrow> VirtualMemory \<Rightarrow> (ptw_mshr \<times> VirtualMemory) option" where
  "finish_step p m vmem = (let ready = (\<lambda>penalty. p_current_time p + penalty + (if p_warmup p then 0 else p_HIT_LATENCY p))
     in if pw_level m = 0
        then map_option (\<lambda>((ppage, penalty), vmem'). (m\<lparr>pw_data := waitable_at (page_address vmem ppage) (ready penalty)\<rparr>, vmem'))
               (va_to_pa (pw_cpu m) (page_of vmem (pw_v_address m)) vmem)
        else map_option (\<lambda>((pte, penalty), vmem'). (m\<lparr>pw_data := waitable_at pte (ready penalty)\<rparr>, vmem'))
               (get_pte_pa (pw_cpu m) (page_of vmem (pw_v_address m)) (pw_level m) vmem))"

definition matches_block :: "PageTableWalker \<Rightarrow> response \<Rightarrow> ptw_mshr \<Rightarrow> bool" where
  "matches_block p packet m = (drop_bit (p_log2_block p) (pw_address m) = drop_bit (p_log2_block p) (rs_address packet))"

definition finish_walk_packet :: "response \<Rightarrow> PageTableWalker \<times> VirtualMemory \<Rightarrow> (PageTableWalker \<times> VirtualMemory) option" where
  "finish_walk_packet packet s = (case s of (p, vmem) \<Rightarrow> do {
     let (served, waiting) = p_partition p (matches_block p packet) (p_MSHR p);
     (served, vmem) \<leftarrow> map_option_state (finish_step p) served vmem;
     Some (p\<lparr>p_MSHR := waiting, p_completed := p_completed p @ filter (\<lambda>m. pw_level m = 0) served,
       p_finished := p_finished p @ filter (\<lambda>m. pw_level m \<noteq> 0) served\<rparr>, vmem) })"

section \<open>One cycle\<close>

definition walk_response :: "ptw_mshr \<Rightarrow> response" where
  "walk_response m = \<lparr>rs_address = pw_v_address m, rs_v_address = pw_v_address m, rs_data = m_value (pw_data m),
     rs_pf_metadata = pw_pf_metadata m, rs_deps = pw_deps m\<rparr>"

definition return_walk :: "ptw_mshr \<Rightarrow> channel list \<Rightarrow> channel list" where
  "return_walk m uls = fold (\<lambda>i uls. uls[i := (uls ! i)\<lparr>returned := returned (uls ! i) @ [walk_response m]\<rparr>]) (pw_to_return m) uls"

definition walk_ready :: "PageTableWalker \<Rightarrow> ptw_mshr \<Rightarrow> bool" where
  "walk_ready p m = is_ready_at (pw_data m) (p_current_time p)"

text \<open>A step of a walk, collected in \<open>next_steps\<close> when the lower level accepts it.\<close>

definition collect :: "('x \<Rightarrow> PageTableWalker \<Rightarrow> (ptw_mshr option \<times> PageTableWalker) option) \<Rightarrow> 'x
    \<Rightarrow> PageTableWalker \<times> ptw_mshr list \<Rightarrow> (bool \<times> PageTableWalker \<times> ptw_mshr list) option" where
  "collect f x s = (case s of (p, next_steps) \<Rightarrow>
     map_option (\<lambda>(result, p). (case result of Some m \<Rightarrow> (True, p, next_steps @ [m]) | None \<Rightarrow> (False, p, next_steps))) (f x p))"

definition complete_walks :: "bandwidth \<Rightarrow> PageTableWalker \<Rightarrow> (bandwidth \<times> PageTableWalker) option" where
  "complete_walks bw p = do {
     (complete, rest) \<leftarrow> get_span_p (p_completed p) bw (walk_ready p);
     bw \<leftarrow> bw_consume (int (length complete)) bw;
     Some (bw, p\<lparr>p_upper_levels := fold return_walk complete (p_upper_levels p), p_completed := rest\<rparr>) }"

definition advance_walks :: "bandwidth \<Rightarrow> PageTableWalker \<times> ptw_mshr list \<Rightarrow> (bandwidth \<times> PageTableWalker \<times> ptw_mshr list) option" where
  "advance_walks bw s = do {
     (ready, _) \<leftarrow> get_span_p (p_finished (fst s)) bw (walk_ready (fst s));
     (filled, _, p, next_steps) \<leftarrow> while_ok (collect handle_fill_walk) ready s;
     bw \<leftarrow> bw_consume (int (length filled)) bw;
     Some (bw, p\<lparr>p_finished := drop (length filled) (p_finished p)\<rparr>, next_steps) }"

definition start_walks :: "VirtualMemory \<Rightarrow> nat \<Rightarrow> bandwidth \<times> PageTableWalker \<times> ptw_mshr list
    \<Rightarrow> (bandwidth \<times> PageTableWalker \<times> ptw_mshr list) option" where
  "start_walks vmem i s = (case s of (bw, p, next_steps) \<Rightarrow> do {
     (window, _) \<leftarrow> get_span (RQ (p_upper_levels p ! i)) bw;
     (taken, _, p, next_steps) \<leftarrow> while_ok (collect (handle_read vmem i)) window (p, next_steps);
     bw \<leftarrow> bw_consume (int (length taken)) bw;
     let ul = p_upper_levels p ! i;
     Some (bw, p\<lparr>p_upper_levels := (p_upper_levels p)[i := ul\<lparr>RQ := drop (length taken) (RQ ul)\<rparr>]\<rparr>, next_steps) })"

definition ptw_operate :: "PageTableWalker \<times> VirtualMemory \<Rightarrow> (int \<times> PageTableWalker \<times> VirtualMemory) option" where
  "ptw_operate s = do {
     let responses = returned (p_lower_level (fst s));
     (p, vmem) \<leftarrow> fold_option finish_walk_packet responses s;
     let p = p\<lparr>p_lower_level := (p_lower_level p)\<lparr>returned := []\<rparr>\<rparr>;
     (fill_bw, p) \<leftarrow> complete_walks (new_bandwidth (p_MAX_FILL p)) p;
     (fill_bw, p, next_steps) \<leftarrow> advance_walks fill_bw (p, []);
     (tag_bw, p, next_steps) \<leftarrow> fold_option (start_walks vmem) [0..<length (p_upper_levels p)]
        (new_bandwidth (p_MAX_READ p), p, next_steps);
     Some (int (length responses) + amount_consumed fill_bw + amount_consumed tag_bw,
       p\<lparr>p_MSHR := p_MSHR p @ next_steps\<rparr>, vmem) }"

definition ptw_tick :: "PageTableWalker \<times> VirtualMemory \<Rightarrow> (int \<times> PageTableWalker \<times> VirtualMemory) option" where
  "ptw_tick s = ptw_operate (apfst (\<lambda>p. p\<lparr>p_current_time := p_current_time p + p_clock_period p\<rparr>) s)"

definition ptw_begin_phase :: "PageTableWalker \<Rightarrow> PageTableWalker" where
  "ptw_begin_phase p = p\<lparr>p_upper_levels := map (\<lambda>ul. ul\<lparr>roi_stats := zero_queue_stats, sim_stats := zero_queue_stats\<rparr>) (p_upper_levels p)\<rparr>"

end
