(* ===== verification/Ptw_Correctness.thy ===== *)
theory Ptw_Correctness
  imports Ptw Vmem_Correctness
begin

text \<open>
  What the page table walker promises: no request is lost or answered twice, every answer is the translation
  that the virtual memory holds, and a walk ends after one read per level.
\<close>

section \<open>Frames\<close>

text \<open>The steps of a walk change the walker only in its caches and in the queues to the lower level.\<close>

definition walk_frame :: "PageTableWalker \<Rightarrow> PageTableWalker \<Rightarrow> bool" where
  "walk_frame p p' = (\<exists>pscl ll. p' = p\<lparr>p_pscl := pscl, p_lower_level := ll\<rparr>)"

lemma walk_frame_refl [simp]: "walk_frame p p"
  unfolding walk_frame_def by (rule exI[of _ "p_pscl p"], rule exI[of _ "p_lower_level p"]) simp

lemma walk_frame_updates [simp]: "walk_frame p (p\<lparr>p_lower_level := ll\<rparr>)" "walk_frame p (p\<lparr>p_pscl := pscl\<rparr>)"
  unfolding walk_frame_def
  by (rule exI[of _ "p_pscl p"], rule exI[of _ ll], simp) (rule exI[of _ pscl], rule exI[of _ "p_lower_level p"], simp)

lemma walk_frame_trans: "walk_frame p q \<Longrightarrow> walk_frame q r \<Longrightarrow> walk_frame p r"
  unfolding walk_frame_def by (elim exE) (simp, blast)

lemma walk_frameD:
  assumes "walk_frame p p'"
  shows "p_MSHR p' = p_MSHR p" "p_finished p' = p_finished p" "p_completed p' = p_completed p" "p_upper_levels p' = p_upper_levels p"
    "p_partition p' = p_partition p" "p_log2_block p' = p_log2_block p" "p_current_time p' = p_current_time p" "p_MAX_READ p' = p_MAX_READ p"
    "p_MAX_FILL p' = p_MAX_FILL p"
  using assms by (auto simp: walk_frame_def)

text \<open>What identifies a walk to those who wait for it.\<close>

definition walk_id :: "ptw_mshr \<Rightarrow> address \<times> nat list \<times> nat list \<times> 32 word" where
  "walk_id m = (pw_v_address m, pw_deps m, pw_to_return m, pw_cpu m)"

definition read_id :: "nat \<Rightarrow> request \<Rightarrow> address \<times> nat list \<times> nat list \<times> 32 word" where
  "read_id i req = (rq_address req, rq_deps req, if rq_response_requested req then [i] else [], rq_cpu req)"

lemma step_translation_cases:
  assumes "step_translation m p = (r, p')"
  shows "walk_frame p p'" and "r = Some m \<or> r = None"
  using assms by (auto simp: step_translation_def split: prod.splits if_splits)

lemma handle_read_cases:
  assumes "handle_read vmem i req p = Some (r, p')"
  shows "walk_frame p p'" and "r = Some m \<Longrightarrow> walk_id m = read_id i req"
proof -
  obtain m0 pscl where s: "step_translation m0 (p\<lparr>p_pscl := pscl\<rparr>) = (r, p')" and id: "walk_id m0 = read_id i req"
    using assms by (auto simp: handle_read_def bind_eq_Some_conv Let_def walk_id_def read_id_def ptw_mshr_of_def split: prod.splits)
  show "walk_frame p p'" using step_translation_cases(1)[OF s] walk_frame_trans walk_frame_updates by blast
  show "walk_id m = read_id i req" if "r = Some m" using step_translation_cases(2)[OF s] that id by simp
qed

lemma handle_fill_walk_cases:
  assumes "handle_fill_walk m p = Some (r, p')"
  shows "walk_frame p p'" and "r = Some m' \<Longrightarrow> walk_id m' = walk_id m \<and> Suc (pw_level m') = pw_level m"
proof -
  obtain m0 pscl where s: "step_translation m0 (p\<lparr>p_pscl := pscl\<rparr>) = (r, p')" and id: "walk_id m0 = walk_id m" "Suc (pw_level m0) = pw_level m"
    using assms by (auto simp: handle_fill_walk_def Let_def walk_id_def split: prod.splits if_splits)
  show "walk_frame p p'" using step_translation_cases(1)[OF s] walk_frame_trans walk_frame_updates by blast
  show "walk_id m' = walk_id m \<and> Suc (pw_level m') = pw_level m" if "r = Some m'"
    using step_translation_cases(2)[OF s] that id by simp
qed

text \<open>The steps collected in a cycle, one for each element taken.\<close>

lemma collect_cases:
  "f x p = Some (None, p') \<Longrightarrow> collect f x (p, ns) = Some (False, p', ns)"
  "f x p = Some (Some m, p') \<Longrightarrow> collect f x (p, ns) = Some (True, p', ns @ [m])"
  "f x p = None \<Longrightarrow> collect f x (p, ns) = None"
  by (simp_all add: collect_def)

lemma collect_steps:
  assumes "while_ok (collect f) xs (p, ns) = Some (taken, rest, p', ns')"
    and "\<And>x p r p'. f x p = Some (r, p') \<Longrightarrow> walk_frame p p' \<and> (\<forall>m. r = Some m \<longrightarrow> R x m)"
  shows "walk_frame p p' \<and> (\<exists>ms. ns' = ns @ ms \<and> list_all2 R taken ms) \<and> taken @ rest = xs"
  using assms(1)
proof (induction xs arbitrary: p ns taken rest)
  case (Cons x xs)
  obtain r p1 where r: "f x p = Some (r, p1)" using Cons.prems by (cases "f x p") (auto simp: collect_cases)
  note step = assms(2)[OF r]
  show ?case
  proof (cases r)
    case None
    then show ?thesis using Cons.prems r step by (auto simp: collect_cases)
  next
    case (Some m)
    then obtain taken1 where w: "while_ok (collect f) xs (p1, ns @ [m]) = Some (taken1, rest, p', ns')" and t: "taken = x # taken1"
      using Cons.prems r by (auto simp: collect_cases)
    from Cons.IH[OF w] obtain ms where ms: "ns' = ns @ m # ms" "list_all2 R taken1 ms" "walk_frame p1 p'" "taken1 @ rest = xs" by auto
    then show ?thesis using step Some t walk_frame_trans by (auto intro!: exI[of _ "m # ms"])
  qed
qed auto

section \<open>Conservation\<close>

text \<open>The walks in progress, and what an upper level is owed: its responses, walks and requests.\<close>

definition walks :: "PageTableWalker \<Rightarrow> ptw_mshr list" where
  "walks p = p_MSHR p @ p_finished p @ p_completed p"

definition owed_walks :: "nat \<Rightarrow> (address \<times> nat list \<times> nat list \<times> 32 word) multiset \<Rightarrow> (address \<times> nat list) multiset" where
  "owed_walks i W = {# (a, d). (a, d, t, c) \<in># filter_mset (\<lambda>(a, d, t, c). i \<in> set t) W #}"

definition owed_channel :: "channel \<Rightarrow> (address \<times> nat list) multiset" where
  "owed_channel ch = mset (map (\<lambda>r. (rs_v_address r, rs_deps r)) (returned ch))
     + mset (map (\<lambda>q. (rq_address q, rq_deps q)) (filter rq_response_requested (RQ ch)))"

definition owed :: "nat \<Rightarrow> PageTableWalker \<Rightarrow> ptw_mshr list \<Rightarrow> (address \<times> nat list) multiset" where
  "owed i p steps = owed_channel (p_upper_levels p ! i) + owed_walks i (mset (map walk_id (walks p @ steps)))"

text \<open>The walks of a well-formed walker answer to existing upper levels, once each.\<close>

definition returns_ok :: "nat \<Rightarrow> address \<times> nat list \<times> nat list \<times> 32 word \<Rightarrow> bool" where
  "returns_ok n w = (case w of (a, d, t, c) \<Rightarrow> distinct t \<and> set t \<subseteq> {..<n})"

definition walks_ok :: "PageTableWalker \<Rightarrow> ptw_mshr list \<Rightarrow> bool" where
  "walks_ok p steps = (\<forall>m\<in>set (walks p @ steps). returns_ok (length (p_upper_levels p)) (walk_id m))"

lemma walks_ok_cong:
  assumes "mset (map walk_id (walks p' @ ns')) = mset (map walk_id (walks p @ ns))" and "length (p_upper_levels p') = length (p_upper_levels p)"
  shows "walks_ok p' ns' \<longleftrightarrow> walks_ok p ns"
proof -
  have alt: "walks_ok q ms \<longleftrightarrow> (\<forall>w\<in>set (map walk_id (walks q @ ms)). returns_ok (length (p_upper_levels q)) w)" for q ms
    by (auto simp: walks_ok_def)
  show ?thesis unfolding alt mset_eq_setD[OF assms(1)] assms(2) ..
qed

text \<open>\<open>std::partition\<close> permutes.\<close>

definition partitions :: "(('a \<Rightarrow> bool) \<Rightarrow> 'a list \<Rightarrow> 'a list \<times> 'a list) \<Rightarrow> bool" where
  "partitions part = (\<forall>f xs ys zs. part f xs = (ys, zs) \<longrightarrow> mset ys = filter_mset f (mset xs) \<and> mset zs = filter_mset (\<lambda>x. \<not> f x) (mset xs))"

lemma finish_step_id: "finish_step p m v = Some (m', v') \<Longrightarrow> walk_id m' = walk_id m \<and> pw_level m' = pw_level m"
  by (auto simp: finish_step_def Let_def walk_id_def split: if_splits)

lemma finish_steps_ids:
  "map_option_state (finish_step p) ms v = Some (ms', v') \<Longrightarrow> map walk_id ms' = map walk_id ms \<and> map pw_level ms' = map pw_level ms"
  by (induction ms arbitrary: v ms') (auto simp: bind_eq_Some_conv dest: finish_step_id)

lemma owed_walks_add [simp]: "owed_walks i (A + B) = owed_walks i A + owed_walks i B"
  by (simp add: owed_walks_def)

lemma owed_walks_insert: "owed_walks i (add_mset (a, d, t, c) W) = (if i \<in> set t then add_mset (a, d) (owed_walks i W) else owed_walks i W)"
  by (simp add: owed_walks_def)

lemma owed_walks_empty [simp]: "owed_walks i {#} = {#}"
  by (simp add: owed_walks_def)

text \<open>Returns of the lower level move walks between the queues.\<close>

lemma finish_walk_packet_walks:
  assumes "finish_walk_packet r (p, v) = Some (p', v')" and "partitions (p_partition p)"
  shows "mset (map walk_id (walks p')) = mset (map walk_id (walks p))" and "p_upper_levels p' = p_upper_levels p"
    and "p_partition p' = p_partition p"
proof -
  obtain served waiting served' where part: "p_partition p (matches_block p r) (p_MSHR p) = (served, waiting)"
    and s': "map_option_state (finish_step p) served v = Some (served', v')"
    and p': "p' = p\<lparr>p_MSHR := waiting, p_completed := p_completed p @ filter (\<lambda>m. pw_level m = 0) served',
       p_finished := p_finished p @ filter (\<lambda>m. pw_level m \<noteq> 0) served'\<rparr>"
    using assms(1) by (auto simp: finish_walk_packet_def bind_eq_Some_conv split: prod.splits)
  have "mset (p_MSHR p) = mset served + mset waiting" using part assms(2) by (auto simp: partitions_def)
  then have "image_mset walk_id (mset (p_MSHR p)) = image_mset walk_id (mset served') + image_mset walk_id (mset waiting)"
    using arg_cong[OF conjunct1[OF finish_steps_ids[OF s']], of mset] by simp
  moreover have "image_mset walk_id (mset served') = image_mset walk_id (filter_mset (\<lambda>m. pw_level m = 0) (mset served'))
      + image_mset walk_id (filter_mset (\<lambda>m. pw_level m \<noteq> 0) (mset served'))"
    by (metis image_mset_union multiset_partition)
  ultimately show "mset (map walk_id (walks p')) = mset (map walk_id (walks p))" by (simp add: walks_def p')
  show "p_upper_levels p' = p_upper_levels p" "p_partition p' = p_partition p" by (simp_all add: p')
qed

lemma finish_walk_packets:
  assumes "fold_option finish_walk_packet rs (p, v) = Some (p', v')" and "partitions (p_partition p)"
  shows "mset (map walk_id (walks p')) = mset (map walk_id (walks p)) \<and> p_upper_levels p' = p_upper_levels p \<and> p_partition p' = p_partition p"
proof -
  let ?P = "\<lambda>s. mset (map walk_id (walks (fst s))) = mset (map walk_id (walks p)) \<and> p_upper_levels (fst s) = p_upper_levels p
    \<and> p_partition (fst s) = p_partition p"
  have "?P (p', v')"
  proof (rule fold_option_invariant[OF assms(1)])
    fix r s s'
    assume "?P s" "finish_walk_packet r s = Some s'"
    then show "?P s'" using finish_walk_packet_walks[of r "fst s" "snd s" "fst s'" "snd s'"] assms(2) by simp
  qed simp
  then show ?thesis by simp
qed

text \<open>A completed walk is answered once to each level it returns to.\<close>

lemma return_walk_length: "length (return_walk m uls) = length uls"
proof -
  have "length (fold (\<lambda>i uls. uls[i := f i uls]) is uls) = length uls" for f :: "nat \<Rightarrow> channel list \<Rightarrow> channel" and "is"
    by (induction "is" arbitrary: uls) simp_all
  then show ?thesis by (simp add: return_walk_def)
qed

lemma return_walk_nth:
  assumes "i < length uls" and "distinct (pw_to_return m)"
  shows "return_walk m uls ! i = (if i \<in> set (pw_to_return m) then (uls ! i)\<lparr>returned := returned (uls ! i) @ [walk_response m]\<rparr> else uls ! i)"
proof -
  have "fold (\<lambda>i uls. uls[i := (uls ! i)\<lparr>returned := returned (uls ! i) @ [walk_response m]\<rparr>]) t uls ! i
      = (if i \<in> set t then (uls ! i)\<lparr>returned := returned (uls ! i) @ [walk_response m]\<rparr> else uls ! i)"
    if "distinct t" "i < length uls" for t
    using that
  proof (induction t arbitrary: uls)
    case (Cons a t)
    then show ?case by (cases "a = i") auto
  qed simp
  then show ?thesis using assms by (simp add: return_walk_def)
qed

lemma return_walks_owed:
  assumes "i < length uls" and "\<forall>m\<in>set ms. returns_ok (length uls) (walk_id m)"
  shows "owed_channel (fold return_walk ms uls ! i) = owed_channel (uls ! i) + owed_walks i (mset (map walk_id ms))"
    and "length (fold return_walk ms uls) = length uls"
proof -
  have "owed_channel (fold return_walk ms uls ! i) = owed_channel (uls ! i) + owed_walks i (mset (map walk_id ms))
      \<and> length (fold return_walk ms uls) = length uls"
    using assms
  proof (induction ms arbitrary: uls)
    case (Cons m ms)
    have d: "distinct (pw_to_return m)" using Cons.prems(2) by (simp add: returns_ok_def walk_id_def)
    have "owed_channel (return_walk m uls ! i) = owed_channel (uls ! i) + owed_walks i {#walk_id m#}"
      unfolding return_walk_nth[OF Cons.prems(1) d]
      by (auto simp: owed_channel_def walk_id_def owed_walks_insert walk_response_def)
    moreover have "owed_walks i (mset (map walk_id (m # ms))) = owed_walks i {#walk_id m#} + owed_walks i (mset (map walk_id ms))"
      by (metis add_mset_add_single list.simps(9) mset.simps(2) owed_walks_add union_commute)
    ultimately show ?case using Cons.IH[of "return_walk m uls"] Cons.prems by (simp add: return_walk_length)
  qed simp
  then show "owed_channel (fold return_walk ms uls ! i) = owed_channel (uls ! i) + owed_walks i (mset (map walk_id ms))"
    and "length (fold return_walk ms uls) = length uls" by simp_all
qed

lemma complete_walks_owed:
  assumes "complete_walks bw p = Some (bw', p')" and "walks_ok p []" and "i < length (p_upper_levels p)"
  shows "owed i p' [] = owed i p []" and "walks_ok p' []" and "length (p_upper_levels p') = length (p_upper_levels p)"
proof -
  obtain complete rest where sp: "get_span_p (p_completed p) bw (walk_ready p) = Some (complete, rest)"
    and p': "p' = p\<lparr>p_upper_levels := fold return_walk complete (p_upper_levels p), p_completed := rest\<rparr>"
    using assms(1) by (auto simp: complete_walks_def bind_eq_Some_conv)
  have c: "p_completed p = complete @ rest" using get_span_p_bounds(1)[OF sp] by simp
  then have "\<forall>m\<in>set complete. returns_ok (length (p_upper_levels p)) (walk_id m)"
    using assms(2) by (simp add: walks_ok_def walks_def)
  note r = return_walks_owed[OF assms(3) this]
  show "owed i p' [] = owed i p []" by (simp add: owed_def p' walks_def c r ac_simps)
  show "length (p_upper_levels p') = length (p_upper_levels p)" by (simp add: p' r)
  then show "walks_ok p' []" using assms(2) by (auto simp: walks_ok_def p' walks_def c)
qed

lemma list_all2_ids: "list_all2 (\<lambda>x m. walk_id m = f x) xs ms \<Longrightarrow> map walk_id ms = map f xs"
  by (induction rule: list_all2_induct) simp_all

lemma advance_walks_owed:
  assumes "advance_walks bw (p, ns) = Some (bw', p', ns')"
  shows "owed i p' ns' = owed i p ns" and "walks_ok p ns \<Longrightarrow> walks_ok p' ns'" and "p_upper_levels p' = p_upper_levels p"
proof -
  obtain ready rest1 filled rest p1 where sp: "get_span_p (p_finished p) bw (walk_ready p) = Some (ready, rest1)"
    and w: "while_ok (collect handle_fill_walk) ready (p, ns) = Some (filled, rest, p1, ns')"
    and p': "p' = p1\<lparr>p_finished := drop (length filled) (p_finished p1)\<rparr>"
    using assms by (auto simp: advance_walks_def bind_eq_Some_conv)
  have c: "walk_frame p p1 \<and> (\<exists>ms. ns' = ns @ ms \<and> list_all2 (\<lambda>m m'. walk_id m' = walk_id m) filled ms) \<and> filled @ rest = ready"
    by (rule collect_steps[OF w]) (auto dest: handle_fill_walk_cases)
  then obtain ms where ns': "ns' = ns @ ms" and ids: "map walk_id ms = map walk_id filled" by (auto dest: list_all2_ids)
  note f = walk_frameD[OF conjunct1[OF c]]
  have fin: "p_finished p = filled @ drop (length filled) (p_finished p)"
    using get_span_p_bounds(1)[OF sp] c by (metis append_assoc append_eq_conv_conj)
  have m: "mset (map walk_id (walks p' @ ns')) = mset (map walk_id (walks p @ ns))"
  proof -
    have "mset (map walk_id ms) = mset (map walk_id filled)" by (simp only: ids)
    moreover have "mset (map walk_id (p_finished p)) = mset (map walk_id filled) + mset (map walk_id (drop (length filled) (p_finished p)))"
      by (subst fin) simp
    ultimately show ?thesis by (simp add: walks_def p' f ns')
  qed
  show u: "p_upper_levels p' = p_upper_levels p" by (simp add: p' f)
  show "owed i p' ns' = owed i p ns" by (simp only: owed_def m u)
  show "walks_ok p ns \<Longrightarrow> walks_ok p' ns'" using walks_ok_cong[OF m] u by simp
qed

text \<open>A request taken from a queue becomes a walk that answers to the queue.\<close>

lemma reads_owed: "i \<noteq> j \<Longrightarrow> owed_walks i (mset (map (read_id j) qs)) = {#}"
  "owed_walks i (mset (map (read_id i) qs)) = mset (map (\<lambda>q. (rq_address q, rq_deps q)) (filter rq_response_requested qs))"
  by (induction qs) (auto simp: read_id_def owed_walks_insert)

lemma reads_ok: "i < n \<Longrightarrow> w \<in> set (map (read_id i) qs) \<Longrightarrow> returns_ok n w"
  by (auto simp: read_id_def returns_ok_def)

lemma get_span_append: "get_span xs bw = Some (window, rest) \<Longrightarrow> window @ rest = xs"
  by (auto simp: get_span_def Let_def split: if_splits)

lemma start_walks_owed:
  assumes "start_walks v j (bw, p, ns) = Some (bw', p', ns')" and "j < length (p_upper_levels p)"
  shows "owed i p' ns' = owed i p ns" and "walks_ok p ns \<Longrightarrow> walks_ok p' ns'" and "length (p_upper_levels p') = length (p_upper_levels p)"
proof -
  obtain window rest1 taken rest p1 where sp: "get_span (RQ (p_upper_levels p ! j)) bw = Some (window, rest1)"
    and w: "while_ok (collect (handle_read v j)) window (p, ns) = Some (taken, rest, p1, ns')"
    and p': "p' = p1\<lparr>p_upper_levels := (p_upper_levels p1)[j := (p_upper_levels p1 ! j)\<lparr>RQ := drop (length taken) (RQ (p_upper_levels p1 ! j))\<rparr>]\<rparr>"
    using assms by (auto simp: start_walks_def bind_eq_Some_conv Let_def)
  have c: "walk_frame p p1 \<and> (\<exists>ms. ns' = ns @ ms \<and> list_all2 (\<lambda>q m. walk_id m = read_id j q) taken ms) \<and> taken @ rest = window"
    by (rule collect_steps[OF w]) (auto dest: handle_read_cases)
  then obtain ms where ns': "ns' = ns @ ms" and ids: "map walk_id ms = map (read_id j) taken" by (auto dest: list_all2_ids)
  note f = walk_frameD[OF conjunct1[OF c]]
  obtain later where q: "RQ (p_upper_levels p ! j) = taken @ later" using get_span_append[OF sp] c by (metis append_assoc)
  have wk: "walks p' = walks p" by (simp add: walks_def p' f)
  have "mset (map walk_id (walks p' @ ns')) = mset (map walk_id (walks p @ ns)) + mset (map (read_id j) taken)"
    using arg_cong[OF ids, of mset] by (simp add: wk ns')
  then have o': "owed i p' ns' = owed_channel (p_upper_levels p' ! i) + (owed_walks i (mset (map walk_id (walks p @ ns)))
      + owed_walks i (mset (map (read_id j) taken)))" by (simp only: owed_def owed_walks_add)
  show "owed i p' ns' = owed i p ns"
  proof (cases "i = j")
    case True
    have oc: "owed_channel (p_upper_levels p ! j) = owed_channel (p_upper_levels p' ! j)
        + mset (map (\<lambda>q. (rq_address q, rq_deps q)) (filter rq_response_requested taken))"
      using assms(2) by (simp add: owed_channel_def p' f q)
    show ?thesis by (rule trans[OF o']) (simp only: True reads_owed(2) owed_def oc ac_simps)
  next
    case False
    then show ?thesis unfolding o' reads_owed(1)[OF False] by (simp add: owed_def p' f)
  qed
  show len: "length (p_upper_levels p') = length (p_upper_levels p)" by (simp add: p' f)
  have "set (map walk_id ms) = set (map (read_id j) taken)" by (simp only: ids)
  then have "\<forall>m\<in>set ms. returns_ok (length (p_upper_levels p)) (walk_id m)"
    using reads_ok[OF assms(2)] by (metis (no_types, lifting) image_eqI image_set)
  then show "walks_ok p ns \<Longrightarrow> walks_ok p' ns'" by (auto simp: walks_ok_def wk len ns')
qed

lemma ptw_operate_owed:
  assumes "ptw_operate (p, v) = Some (n, p', v')" and "partitions (p_partition p)" and "walks_ok p []" and "i < length (p_upper_levels p)"
  shows "owed i p' [] = owed i p []" and "walks_ok p' []" and "length (p_upper_levels p') = length (p_upper_levels p)"
proof -
  obtain p1 p2 p3 p4 bw2 bw3 bw4 ns3 ns4 where
    1: "fold_option finish_walk_packet (returned (p_lower_level p)) (p, v) = Some (p1, v')"
    and 2: "complete_walks (new_bandwidth (p_MAX_FILL p1)) (p1\<lparr>p_lower_level := (p_lower_level p1)\<lparr>returned := []\<rparr>\<rparr>) = Some (bw2, p2)"
    and 3: "advance_walks bw2 (p2, []) = Some (bw3, p3, ns3)"
    and 4: "fold_option (start_walks v') [0..<length (p_upper_levels p3)] (new_bandwidth (p_MAX_READ p3), p3, ns3) = Some (bw4, p4, ns4)"
    and p': "p' = p4\<lparr>p_MSHR := p_MSHR p4 @ ns4\<rparr>"
    using assms(1) by (auto simp: ptw_operate_def bind_eq_Some_conv Let_def split: prod.splits)
  let ?p1 = "p1\<lparr>p_lower_level := (p_lower_level p1)\<lparr>returned := []\<rparr>\<rparr>"
  note w1 = finish_walk_packets[OF 1 assms(2)]
  have m1: "mset (map walk_id (walks ?p1)) = mset (map walk_id (walks p))" using w1 by (simp add: walks_def)
  then have o1: "owed i ?p1 [] = owed i p []" using w1 by (simp add: owed_def)
  have ok1: "walks_ok ?p1 []" using walks_ok_cong[of ?p1 "[]" p "[]"] m1 w1 assms(3) by simp
  have l1: "i < length (p_upper_levels ?p1)" using assms(4) w1 by simp
  note w2 = complete_walks_owed[OF 2 ok1 l1]
  note w3 = advance_walks_owed[OF 3]
  let ?P = "\<lambda>(bw, q, ns). owed i q ns = owed i p3 ns3 \<and> walks_ok q ns \<and> length (p_upper_levels q) = length (p_upper_levels p3)"
  have "?P (bw4, p4, ns4)"
  proof (rule fold_option_invariant[OF 4])
    show "?P (new_bandwidth (p_MAX_READ p3), p3, ns3)" using w3(2)[OF w2(2)] by simp
    fix j s s'
    assume "j \<in> set [0..<length (p_upper_levels p3)]" "?P s" "start_walks v' j s = Some s'"
    then show "?P s'" by (cases s; cases s') (auto simp: start_walks_owed(1)[where i = i] dest: start_walks_owed(2,3))
  qed
  then have w4: "owed i p4 ns4 = owed i p3 ns3" "walks_ok p4 ns4" "length (p_upper_levels p4) = length (p_upper_levels p3)" by simp_all
  have m: "mset (map walk_id (walks p' @ [])) = mset (map walk_id (walks p4 @ ns4))" by (simp add: walks_def p')
  have "owed i p' [] = owed i p4 ns4" unfolding owed_def m by (simp add: p')
  then show "owed i p' [] = owed i p []" using w4(1) w3(1) w2(1) o1 by simp
  show "walks_ok p' []" using walks_ok_cong[OF m] w4(2) by (simp add: p')
  show "length (p_upper_levels p') = length (p_upper_levels p)" using w4(3) w3(3) w2(3) w1 by (simp add: p')
qed

section \<open>Translation\<close>

definition translated :: "VirtualMemory \<Rightarrow> 32 word \<Rightarrow> address \<Rightarrow> address \<Rightarrow> bool" where
  "translated v k a d = (\<exists>q. vpage_to_ppage_map v (k, page_of v a) = Some q \<and> d = page_address v q)"

definition vm_grows :: "VirtualMemory \<Rightarrow> VirtualMemory \<Rightarrow> bool" where
  "vm_grows v v' = (vpage_to_ppage_map v \<subseteq>\<^sub>m vpage_to_ppage_map v' \<and> vm_log2_page v' = vm_log2_page v)"

lemma translated_grows: "vm_grows v v' \<Longrightarrow> translated v k a d \<Longrightarrow> translated v' k a d"
  by (auto simp: vm_grows_def translated_def page_of_def page_address_def map_le_def dom_def)

lemma vm_grows_refl [simp]: "vm_grows v v"
  by (simp add: vm_grows_def)

lemma vm_grows_trans: "vm_grows u v \<Longrightarrow> vm_grows v w \<Longrightarrow> vm_grows u w"
  by (auto simp: vm_grows_def intro: map_le_trans)

lemma vmem_step_grows: "vmem_step e v = Some v' \<Longrightarrow> vm_grows v v'"
  using vmem_step_keeps(1) vmem_step_geometry by (auto simp: vm_grows_def geometry_def)

definition walks_translated :: "32 word \<Rightarrow> PageTableWalker \<times> VirtualMemory \<Rightarrow> bool" where
  "walks_translated k s = (case s of (p, v) \<Rightarrow>
     (\<forall>m\<in>set (walks p). pw_cpu m = k) \<and> (\<forall>m\<in>set (p_completed p). translated v k (pw_v_address m) (m_value (pw_data m)))
     \<and> (\<forall>ul\<in>set (p_upper_levels p). (\<forall>q\<in>set (RQ ul). rq_cpu q = k) \<and> (\<forall>r\<in>set (returned ul). translated v k (rs_v_address r) (rs_data r))))"

lemma finish_step_translated:
  assumes "finish_step p m v = Some (m', v')"
  shows "vm_grows v v'" and "pw_level m' = 0 \<Longrightarrow> translated v' (pw_cpu m') (pw_v_address m') (m_value (pw_data m'))"
proof -
  have "vm_grows v v' \<and> (pw_level m' = 0 \<longrightarrow> translated v' (pw_cpu m') (pw_v_address m') (m_value (pw_data m')))"
  proof (cases "pw_level m = 0")
    case True
    then obtain q d where va: "va_to_pa (pw_cpu m) (page_of v (pw_v_address m)) v = Some ((q, d), v')"
      and m': "m' = m\<lparr>pw_data := waitable_at (page_address v q) (p_current_time p + d + (if p_warmup p then 0 else p_HIT_LATENCY p))\<rparr>"
      using assms by (auto simp: finish_step_def Let_def)
    have g: "vm_grows v v'" using va by (intro vmem_step_grows[of "Translate (pw_cpu m) (page_of v (pw_v_address m))"]) simp
    then have "vm_log2_page v' = vm_log2_page v" by (simp add: vm_grows_def)
    then have "translated v' (pw_cpu m) (pw_v_address m) (page_address v q)"
      using va_to_pa_map[OF va] by (simp add: translated_def page_of_def page_address_def)
    then show ?thesis using g by (simp add: m' waitable_at_def)
  next
    case False
    then obtain q d where pte: "get_pte_pa (pw_cpu m) (page_of v (pw_v_address m)) (pw_level m) v = Some ((q, d), v')" and l: "pw_level m' = pw_level m"
      using assms by (auto simp: finish_step_def Let_def)
    have "vm_grows v v'" using pte by (intro vmem_step_grows[of "Walk (pw_cpu m) (page_of v (pw_v_address m)) (pw_level m)"]) simp
    then show ?thesis using False l by simp
  qed
  then show "vm_grows v v'" and "pw_level m' = 0 \<Longrightarrow> translated v' (pw_cpu m') (pw_v_address m') (m_value (pw_data m'))" by simp_all
qed

lemma finish_steps_translated:
  "map_option_state (finish_step p) ms v = Some (ms', v') \<Longrightarrow> vm_grows v v'
    \<and> (\<forall>m\<in>set ms'. pw_level m = 0 \<longrightarrow> translated v' (pw_cpu m) (pw_v_address m) (m_value (pw_data m)))"
proof (induction ms arbitrary: v ms')
  case (Cons m ms)
  obtain m1 v1 ms1 where 1: "finish_step p m v = Some (m1, v1)" and 2: "map_option_state (finish_step p) ms v1 = Some (ms1, v')" and ms': "ms' = m1 # ms1"
    using Cons.prems by (auto simp: bind_eq_Some_conv)
  note ih = Cons.IH[OF 2] and c = finish_step_translated[OF 1]
  then have a: "vm_grows v1 v'" by simp
  show ?case using ih vm_grows_trans[OF c(1) a] translated_grows[OF a] c(2) by (simp add: ms')
qed simp

lemma finish_walk_packet_translated:
  assumes "finish_walk_packet r (p, v) = Some (p', v')" and "partitions (p_partition p)" and "walks_translated k (p, v)"
  shows "walks_translated k (p', v') \<and> vm_grows v v'"
proof -
  obtain served waiting served' where part: "p_partition p (matches_block p r) (p_MSHR p) = (served, waiting)"
    and s': "map_option_state (finish_step p) served v = Some (served', v')"
    and p': "p' = p\<lparr>p_MSHR := waiting, p_completed := p_completed p @ filter (\<lambda>m. pw_level m = 0) served',
       p_finished := p_finished p @ filter (\<lambda>m. pw_level m \<noteq> 0) served'\<rparr>"
    using assms(1) by (auto simp: finish_walk_packet_def bind_eq_Some_conv split: prod.splits)
  note t = finish_steps_translated[OF s']
  have cpus: "\<forall>m\<in>set (walks p). pw_cpu m = k" using assms(3) by (simp add: walks_translated_def)
  have "set (map walk_id (walks p')) = set (map walk_id (walks p))"
    by (rule mset_eq_setD[OF finish_walk_packet_walks(1)[OF assms(1,2)]])
  then have cpus': "\<forall>m\<in>set (walks p'). pw_cpu m = k"
    using cpus by (metis (no_types, lifting) image_iff image_set snd_conv walk_id_def)
  have "set served' \<subseteq> set (walks p')" by (auto simp: walks_def p')
  then have c': "\<forall>m\<in>set served'. pw_cpu m = k" using cpus' by blast
  have "translated v' k (pw_v_address m) (m_value (pw_data m))" if "m \<in> set (p_completed p')" for m
  proof (cases "m \<in> set (p_completed p)")
    case True
    then show ?thesis using assms(3) translated_grows[OF conjunct1[OF t]] by (simp add: walks_translated_def)
  next
    case False
    then have "m \<in> set served'" "pw_level m = 0" using that by (simp_all add: p')
    then show ?thesis using t c' by metis
  qed
  then show ?thesis using t cpus' assms(3) translated_grows by (auto simp: walks_translated_def p')
qed

lemma finish_walk_packets_translated:
  assumes "fold_option finish_walk_packet rs (p, v) = Some (p', v')" and "partitions (p_partition p)" and "walks_translated k (p, v)"
  shows "walks_translated k (p', v') \<and> vm_grows v v'"
proof -
  let ?P = "\<lambda>s. walks_translated k s \<and> vm_grows v (snd s) \<and> p_partition (fst s) = p_partition p"
  have "?P (p', v')"
  proof (rule fold_option_invariant[OF assms(1)])
    fix r s s'
    assume "?P s" "finish_walk_packet r s = Some s'"
    then show "?P s'"
      using finish_walk_packet_translated[of r "fst s" "snd s" "fst s'" "snd s'" k] finish_walk_packet_walks(3)[of r "fst s" "snd s" "fst s'" "snd s'"]
        assms(2) vm_grows_trans by auto
  qed (use assms(3) in simp)
  then show ?thesis by simp
qed

lemma return_walks_all:
  assumes "\<forall>ul\<in>set uls. P ul" and "\<forall>m\<in>set ms. returns_ok (length uls) (walk_id m)"
    and "\<And>m ul. m \<in> set ms \<Longrightarrow> P ul \<Longrightarrow> P (ul\<lparr>returned := returned ul @ [walk_response m]\<rparr>)"
  shows "\<forall>ul\<in>set (fold return_walk ms uls). P ul"
  using assms
proof (induction ms arbitrary: uls)
  case (Cons m ms)
  have one: "\<forall>ul\<in>set (fold (\<lambda>i uls. uls[i := (uls ! i)\<lparr>returned := returned (uls ! i) @ [walk_response m]\<rparr>]) t uls). P ul"
    if "\<forall>ul\<in>set uls. P ul" "set t \<subseteq> {..<length uls}" for t
    using that
  proof (induction t arbitrary: uls)
    case (Cons i t)
    then have "P ((uls ! i)\<lparr>returned := returned (uls ! i) @ [walk_response m]\<rparr>)"
      using \<open>\<And>m' ul. m' \<in> set (m # ms) \<Longrightarrow> P ul \<Longrightarrow> P (ul\<lparr>returned := returned ul @ [walk_response m']\<rparr>)\<close> by simp
    then have "\<forall>ul\<in>set (uls[i := (uls ! i)\<lparr>returned := returned (uls ! i) @ [walk_response m]\<rparr>]). P ul"
      using Cons.prems(1) set_update_subset_insert by fastforce
    then show ?case using Cons.IH Cons.prems(2) by simp
  qed simp
  have "\<forall>ul\<in>set (return_walk m uls). P ul"
    unfolding return_walk_def using Cons.prems(1,2) by (intro one) (simp_all add: returns_ok_def walk_id_def)
  then show ?case using Cons.IH[of "return_walk m uls"] Cons.prems by (simp add: return_walk_length)
qed simp

lemma complete_walks_translated:
  assumes "complete_walks bw p = Some (bw', p')" and "walks_ok p []" and "walks_translated k (p, v)"
  shows "walks_translated k (p', v)"
proof -
  obtain complete rest where sp: "get_span_p (p_completed p) bw (walk_ready p) = Some (complete, rest)"
    and p': "p' = p\<lparr>p_upper_levels := fold return_walk complete (p_upper_levels p), p_completed := rest\<rparr>"
    using assms(1) by (auto simp: complete_walks_def bind_eq_Some_conv)
  have c: "p_completed p = complete @ rest" using get_span_p_bounds(1)[OF sp] by simp
  have "\<forall>ul\<in>set (fold return_walk complete (p_upper_levels p)). (\<forall>q\<in>set (RQ ul). rq_cpu q = k) \<and> (\<forall>r\<in>set (returned ul). translated v k (rs_v_address r) (rs_data r))"
    using assms(2,3) c by (intro return_walks_all) (auto simp: walks_ok_def walks_translated_def walks_def walk_response_def)
  then show ?thesis using assms(3) c by (auto simp: walks_translated_def p' walks_def)
qed

lemma advance_walks_translated:
  assumes "advance_walks bw (p, ns) = Some (bw', p', ns')" and "walks_translated k (p, v)" and "\<forall>m\<in>set ns. pw_cpu m = k"
  shows "walks_translated k (p', v) \<and> (\<forall>m\<in>set ns'. pw_cpu m = k)"
proof -
  obtain ready rest1 filled rest p1 where sp: "get_span_p (p_finished p) bw (walk_ready p) = Some (ready, rest1)"
    and w: "while_ok (collect handle_fill_walk) ready (p, ns) = Some (filled, rest, p1, ns')"
    and p': "p' = p1\<lparr>p_finished := drop (length filled) (p_finished p1)\<rparr>"
    using assms(1) by (auto simp: advance_walks_def bind_eq_Some_conv)
  have c: "walk_frame p p1 \<and> (\<exists>ms. ns' = ns @ ms \<and> list_all2 (\<lambda>m m'. walk_id m' = walk_id m) filled ms) \<and> filled @ rest = ready"
    by (rule collect_steps[OF w]) (auto dest: handle_fill_walk_cases)
  then obtain ms where ns': "ns' = ns @ ms" and ids: "map walk_id ms = map walk_id filled" by (auto dest: list_all2_ids)
  note f = walk_frameD[OF conjunct1[OF c]]
  have "p_finished p = filled @ rest @ rest1" using get_span_p_bounds(1)[OF sp] c by (metis append_assoc)
  then have "set filled \<subseteq> set (walks p)" by (auto simp: walks_def)
  then have "\<forall>m\<in>set filled. pw_cpu m = k" using assms(2) by (auto simp: walks_translated_def)
  moreover have "map pw_cpu ms = map pw_cpu filled"
    using arg_cong[OF ids, of "map (\<lambda>(a, d, t, c). c)"] by (simp add: walk_id_def comp_def)
  ultimately have "\<forall>m\<in>set ms. pw_cpu m = k" by (metis (no_types, lifting) image_iff image_set)
  then show ?thesis using assms(2,3) by (auto simp: walks_translated_def p' f walks_def ns' dest: in_set_dropD)
qed

lemma start_walks_translated:
  assumes "start_walks v j (bw, p, ns) = Some (bw', p', ns')" and "j < length (p_upper_levels p)"
    and "walks_translated k (p, v)" and "\<forall>m\<in>set ns. pw_cpu m = k"
  shows "walks_translated k (p', v) \<and> (\<forall>m\<in>set ns'. pw_cpu m = k)"
proof -
  obtain window rest1 taken rest p1 where sp: "get_span (RQ (p_upper_levels p ! j)) bw = Some (window, rest1)"
    and w: "while_ok (collect (handle_read v j)) window (p, ns) = Some (taken, rest, p1, ns')"
    and p': "p' = p1\<lparr>p_upper_levels := (p_upper_levels p1)[j := (p_upper_levels p1 ! j)\<lparr>RQ := drop (length taken) (RQ (p_upper_levels p1 ! j))\<rparr>]\<rparr>"
    using assms(1) by (auto simp: start_walks_def bind_eq_Some_conv Let_def)
  have c: "walk_frame p p1 \<and> (\<exists>ms. ns' = ns @ ms \<and> list_all2 (\<lambda>q m. walk_id m = read_id j q) taken ms) \<and> taken @ rest = window"
    by (rule collect_steps[OF w]) (auto dest: handle_read_cases)
  then obtain ms where ns': "ns' = ns @ ms" and ids: "map walk_id ms = map (read_id j) taken" by (auto dest: list_all2_ids)
  note f = walk_frameD[OF conjunct1[OF c]]
  have ul: "(\<forall>q\<in>set (RQ (p_upper_levels p ! j)). rq_cpu q = k)
      \<and> (\<forall>r\<in>set (returned (p_upper_levels p ! j)). translated v k (rs_v_address r) (rs_data r))"
    using nth_mem[OF assms(2)] assms(3) by (simp add: walks_translated_def)
  have "set taken \<subseteq> set (RQ (p_upper_levels p ! j))" using get_span_append[OF sp] c by (metis Un_upper1 append_assoc set_append)
  then have "\<forall>q\<in>set taken. rq_cpu q = k" using ul by blast
  moreover have "map pw_cpu ms = map rq_cpu taken"
    using arg_cong[OF ids, of "map (\<lambda>(a, d, t, c). c)"] by (simp add: walk_id_def read_id_def comp_def)
  ultimately have ms: "\<forall>m\<in>set ms. pw_cpu m = k" by (metis (no_types, lifting) image_iff image_set)
  let ?ul = "(p_upper_levels p ! j)\<lparr>RQ := drop (length taken) (RQ (p_upper_levels p ! j))\<rparr>"
  have "(\<forall>q\<in>set (RQ ?ul). rq_cpu q = k) \<and> (\<forall>r\<in>set (returned ?ul). translated v k (rs_v_address r) (rs_data r))"
    using ul by (auto dest: in_set_dropD)
  then have "\<forall>ul\<in>set ((p_upper_levels p)[j := ?ul]). (\<forall>q\<in>set (RQ ul). rq_cpu q = k) \<and> (\<forall>r\<in>set (returned ul). translated v k (rs_v_address r) (rs_data r))"
    using assms(3) set_update_subset_insert[of "p_upper_levels p" j ?ul] by (auto simp: walks_translated_def)
  then show ?thesis using assms(3,4) ms by (auto simp: walks_translated_def p' f walks_def ns')
qed

lemma advance_walks_partition: "advance_walks bw (p, ns) = Some (bw', p', ns') \<Longrightarrow> p_partition p' = p_partition p"
  using collect_steps[where f = handle_fill_walk and R = "\<lambda>_ _. True"] handle_fill_walk_cases(1) walk_frameD(5)
  by (fastforce simp: advance_walks_def bind_eq_Some_conv)

lemma start_walks_partition: "start_walks v j (bw, p, ns) = Some (bw', p', ns') \<Longrightarrow> p_partition p' = p_partition p"
  using collect_steps[where f = "handle_read v j" and R = "\<lambda>_ _. True"] handle_read_cases(1) walk_frameD(5)
  by (fastforce simp: start_walks_def bind_eq_Some_conv Let_def)

lemma ptw_operate_partition:
  assumes "ptw_operate (p, v) = Some (n, p', v')" and "partitions (p_partition p)"
  shows "p_partition p' = p_partition p"
proof -
  obtain p1 p2 p3 p4 bw2 bw3 bw4 ns3 ns4 where
    1: "fold_option finish_walk_packet (returned (p_lower_level p)) (p, v) = Some (p1, v')"
    and 2: "complete_walks (new_bandwidth (p_MAX_FILL p1)) (p1\<lparr>p_lower_level := (p_lower_level p1)\<lparr>returned := []\<rparr>\<rparr>) = Some (bw2, p2)"
    and 3: "advance_walks bw2 (p2, []) = Some (bw3, p3, ns3)"
    and 4: "fold_option (start_walks v') [0..<length (p_upper_levels p3)] (new_bandwidth (p_MAX_READ p3), p3, ns3) = Some (bw4, p4, ns4)"
    and p': "p' = p4\<lparr>p_MSHR := p_MSHR p4 @ ns4\<rparr>"
    using assms(1) by (auto simp: ptw_operate_def bind_eq_Some_conv Let_def split: prod.splits)
  have "p_partition (fst (snd (bw4, p4, ns4))) = p_partition p3"
    by (rule fold_option_invariant[OF 4]) (auto dest: start_walks_partition)
  moreover have "p_partition p2 = p_partition p1" using 2 by (auto simp: complete_walks_def bind_eq_Some_conv)
  ultimately show ?thesis using finish_walk_packets[OF 1 assms(2)] advance_walks_partition[OF 3] by (simp add: p')
qed

lemma ptw_operate_translated:
  assumes "ptw_operate (p, v) = Some (n, p', v')" and "partitions (p_partition p)" and "walks_ok p []" and "walks_translated k (p, v)"
  shows "walks_translated k (p', v')" and "vm_grows v v'"
proof -
  obtain p1 p2 p3 p4 bw2 bw3 bw4 ns3 ns4 where
    1: "fold_option finish_walk_packet (returned (p_lower_level p)) (p, v) = Some (p1, v')"
    and 2: "complete_walks (new_bandwidth (p_MAX_FILL p1)) (p1\<lparr>p_lower_level := (p_lower_level p1)\<lparr>returned := []\<rparr>\<rparr>) = Some (bw2, p2)"
    and 3: "advance_walks bw2 (p2, []) = Some (bw3, p3, ns3)"
    and 4: "fold_option (start_walks v') [0..<length (p_upper_levels p3)] (new_bandwidth (p_MAX_READ p3), p3, ns3) = Some (bw4, p4, ns4)"
    and p': "p' = p4\<lparr>p_MSHR := p_MSHR p4 @ ns4\<rparr>"
    using assms(1) by (auto simp: ptw_operate_def bind_eq_Some_conv Let_def split: prod.splits)
  let ?p1 = "p1\<lparr>p_lower_level := (p_lower_level p1)\<lparr>returned := []\<rparr>\<rparr>"
  note w1 = finish_walk_packets[OF 1 assms(2)] and t1 = finish_walk_packets_translated[OF 1 assms(2,4)]
  have "mset (map walk_id (walks ?p1 @ [])) = mset (map walk_id (walks p @ []))" using w1 by (simp add: walks_def)
  then have ok1: "walks_ok ?p1 []" using walks_ok_cong[of ?p1 "[]" p "[]"] w1 assms(3) by simp
  have "walks_translated k (?p1, v')" using t1 by (simp add: walks_translated_def walks_def)
  from complete_walks_translated[OF 2 ok1 this] have t2: "walks_translated k (p2, v')" .
  from advance_walks_translated[OF 3 t2] have t3: "walks_translated k (p3, v') \<and> (\<forall>m\<in>set ns3. pw_cpu m = k)" by simp
  let ?P = "\<lambda>(bw, q, ns). walks_translated k (q, v') \<and> (\<forall>m\<in>set ns. pw_cpu m = k) \<and> length (p_upper_levels q) = length (p_upper_levels p3)"
  have "?P (bw4, p4, ns4)"
  proof (rule fold_option_invariant[OF 4])
    show "?P (new_bandwidth (p_MAX_READ p3), p3, ns3)" using t3 by simp
    fix j s s'
    assume j: "j \<in> set [0..<length (p_upper_levels p3)]" and P: "?P s" and step: "start_walks v' j s = Some s'"
    obtain bw q ns bw' q' ns' where s: "s = (bw, q, ns)" "s' = (bw', q', ns')" by (cases s; cases s')
    show "?P s'" using start_walks_translated[of v' j bw q ns bw' q' ns' k] start_walks_owed(3)[of v' j bw q ns bw' q' ns'] j P step
      by (simp add: s)
  qed
  then show "walks_translated k (p', v')" by (auto simp: walks_translated_def p' walks_def)
  show "vm_grows v v'" using t1 by simp
qed

section \<open>Progress\<close>

text \<open>The steps a walk has left: two per level, a read and a fill, and its answer.\<close>

definition effort :: "PageTableWalker \<Rightarrow> ptw_mshr list \<Rightarrow> nat" where
  "effort p steps = (\<Sum>m\<leftarrow>p_MSHR p @ steps. 2 * pw_level m + 2) + (\<Sum>m\<leftarrow>p_finished p. 2 * pw_level m + 1) + length (p_completed p)"

lemma sum_list_partition:
  fixes f :: "'a \<Rightarrow> nat"
  assumes "mset ys = filter_mset P (mset xs)" and "mset zs = filter_mset (\<lambda>x. \<not> P x) (mset xs)"
  shows "sum_list (map f xs) = sum_list (map f ys) + sum_list (map f zs)"
proof -
  have "mset xs = mset ys + mset zs" using assms multiset_partition[of "mset xs" P] by simp
  then have "sum_mset (image_mset f (mset xs)) = sum_mset (image_mset f (mset ys)) + sum_mset (image_mset f (mset zs))" by simp
  then show ?thesis by (simp flip: mset_map add: sum_mset_sum_list)
qed

lemma finish_walk_packet_effort:
  assumes "finish_walk_packet r (p, v) = Some (p', v')" and "partitions (p_partition p)"
  shows "effort p' [] \<le> effort p []" and "m \<in> set (p_MSHR p) \<Longrightarrow> m \<in> set (p_MSHR p') \<or> effort p' [] < effort p []"
    and "m \<in> set (p_MSHR p) \<Longrightarrow> matches_block p r m \<Longrightarrow> effort p' [] < effort p []" and "p_log2_block p' = p_log2_block p"
proof -
  obtain served waiting served' where part: "p_partition p (matches_block p r) (p_MSHR p) = (served, waiting)"
    and s': "map_option_state (finish_step p) served v = Some (served', v')"
    and p': "p' = p\<lparr>p_MSHR := waiting, p_completed := p_completed p @ filter (\<lambda>m. pw_level m = 0) served',
       p_finished := p_finished p @ filter (\<lambda>m. pw_level m \<noteq> 0) served'\<rparr>"
    using assms(1) by (auto simp: finish_walk_packet_def bind_eq_Some_conv split: prod.splits)
  have ms: "mset served = filter_mset (matches_block p r) (mset (p_MSHR p))" "mset waiting = filter_mset (\<lambda>m. \<not> matches_block p r m) (mset (p_MSHR p))"
    using part assms(2) by (auto simp: partitions_def)
  have levels: "map pw_level served' = map pw_level served" using finish_steps_ids[OF s'] by simp
  have "(\<Sum>m\<leftarrow>served. 2 * pw_level m + 2) = sum_list (map (\<lambda>l. 2 * l + 2) (map pw_level served))" by (simp add: comp_def)
  also have "\<dots> = (\<Sum>m\<leftarrow>served'. 2 * pw_level m + 2)" unfolding levels[symmetric] by (simp add: comp_def)
  finally have "(\<Sum>m\<leftarrow>served. 2 * pw_level m + 2) = (\<Sum>m\<leftarrow>served'. 2 * pw_level m + 2)" .
  moreover have len: "length served' = length served" using arg_cong[OF levels, of length] by simp
  moreover have "(\<Sum>m\<leftarrow>served'. 2 * pw_level m + 2) = (\<Sum>m\<leftarrow>filter (\<lambda>m. pw_level m \<noteq> 0) served'. 2 * pw_level m + 1)
      + length (filter (\<lambda>m. pw_level m = 0) served') + length served'"
    by (induction served') auto
  moreover note sum_list_partition[OF ms, of "\<lambda>m. 2 * pw_level m + 2"]
  ultimately have e: "effort p' [] + length served = effort p []" by (simp add: effort_def p')
  then show "effort p' [] \<le> effort p []" by simp
  have less: "effort p' [] < effort p []" if "m \<in> set (p_MSHR p)" "matches_block p r m" for m
  proof -
    have "m \<in># mset served" using that ms(1) by simp
    then have "0 < length served" by auto
    then show ?thesis using e by linarith
  qed
  then show "m \<in> set (p_MSHR p) \<Longrightarrow> matches_block p r m \<Longrightarrow> effort p' [] < effort p []" .
  show "m \<in> set (p_MSHR p') \<or> effort p' [] < effort p []" if m: "m \<in> set (p_MSHR p)"
  proof (cases "matches_block p r m")
    case False
    then have "m \<in># mset waiting" using m ms(2) by simp
    then show ?thesis by (simp add: p')
  qed (use less[OF m] in simp)
  show "p_log2_block p' = p_log2_block p" by (simp add: p')
qed

lemma finish_walk_packets_effort:
  assumes "fold_option finish_walk_packet rs (p, v) = Some (p', v')" and "partitions (p_partition p)"
  shows "effort p' [] \<le> effort p [] \<and> (\<forall>m\<in>set (p_MSHR p). (\<exists>r\<in>set rs. matches_block p r m) \<longrightarrow> effort p' [] < effort p [])"
  using assms
proof (induction rs arbitrary: p v)
  case (Cons r rs)
  obtain p1 v1 where 1: "finish_walk_packet r (p, v) = Some (p1, v1)" and 2: "fold_option finish_walk_packet rs (p1, v1) = Some (p', v')"
    using Cons.prems(1) by (auto simp: bind_eq_Some_conv)
  note e = finish_walk_packet_effort[OF 1 Cons.prems(2)]
  have ih: "effort p' [] \<le> effort p1 [] \<and> (\<forall>m\<in>set (p_MSHR p1). (\<exists>r\<in>set rs. matches_block p1 r m) \<longrightarrow> effort p' [] < effort p1 [])"
    using Cons.IH[OF 2] Cons.prems(2) finish_walk_packet_walks(3)[OF 1 Cons.prems(2)] by simp
  have "effort p' [] < effort p []" if m: "m \<in> set (p_MSHR p)" "r' \<in> set (r # rs)" "matches_block p r' m" for m r'
  proof (cases "r' = r")
    case True
    then show ?thesis using e(3)[OF m(1)] m(3) ih by simp
  next
    case False
    then have "r' \<in> set rs" "matches_block p1 r' m" using m(2,3) e(4) by (simp_all add: matches_block_def)
    then show ?thesis using e(1) e(2)[OF m(1)] ih by force
  qed
  then show ?case using e(1) ih by force
qed simp

lemma advance_walks_effort:
  assumes "advance_walks bw (p, []) = Some (bw', p', ns)"
  shows "effort p' ns \<le> effort p []"
proof -
  obtain ready rest1 filled rest p1 where sp: "get_span_p (p_finished p) bw (walk_ready p) = Some (ready, rest1)"
    and w: "while_ok (collect handle_fill_walk) ready (p, []) = Some (filled, rest, p1, ns)"
    and p': "p' = p1\<lparr>p_finished := drop (length filled) (p_finished p1)\<rparr>"
    using assms by (auto simp: advance_walks_def bind_eq_Some_conv)
  have c: "walk_frame p p1 \<and> (\<exists>ms. ns = [] @ ms \<and> list_all2 (\<lambda>m m'. Suc (pw_level m') = pw_level m) filled ms) \<and> filled @ rest = ready"
    by (rule collect_steps[OF w]) (auto dest: handle_fill_walk_cases)
  then have "list_all2 (\<lambda>m m'. Suc (pw_level m') = pw_level m) filled ns" by simp
  then have "(\<Sum>m\<leftarrow>ns. 2 * pw_level m + 2) \<le> (\<Sum>m\<leftarrow>filled. 2 * pw_level m + 1)" by (induction rule: list_all2_induct) auto
  moreover have "p_finished p = filled @ drop (length filled) (p_finished p)"
    using get_span_p_bounds(1)[OF sp] c by (metis append_assoc append_eq_conv_conj)
  then have "(\<Sum>m\<leftarrow>p_finished p. 2 * pw_level m + 1) = (\<Sum>m\<leftarrow>filled. 2 * pw_level m + 1) + (\<Sum>m\<leftarrow>drop (length filled) (p_finished p). 2 * pw_level m + 1)"
    by (metis map_append sum_list_append)
  ultimately show ?thesis using walk_frameD[OF conjunct1[OF c]] by (simp add: effort_def p')
qed

lemma drain_empty:
  assumes "RQ (p_upper_levels p ! j) = []"
  shows "p\<lparr>p_upper_levels := (p_upper_levels p)[j := (p_upper_levels p ! j)\<lparr>RQ := []\<rparr>]\<rparr> = p"
proof -
  have "(p_upper_levels p ! j)\<lparr>RQ := []\<rparr> = p_upper_levels p ! j" using assms by (cases "p_upper_levels p ! j") simp
  then show ?thesis by simp
qed

lemma ptw_operate_effort:
  assumes "ptw_operate (p, v) = Some (n, p', v')" and "partitions (p_partition p)" and "walks_ok p []" and "\<forall>ul\<in>set (p_upper_levels p). RQ ul = []"
  shows "effort p' [] \<le> effort p []"
    and "m \<in> set (p_MSHR p) \<Longrightarrow> r \<in> set (returned (p_lower_level p)) \<Longrightarrow> matches_block p r m \<Longrightarrow> effort p' [] < effort p []"
proof -
  obtain p1 p2 p3 p4 bw2 bw3 bw4 ns3 ns4 where
    1: "fold_option finish_walk_packet (returned (p_lower_level p)) (p, v) = Some (p1, v')"
    and 2: "complete_walks (new_bandwidth (p_MAX_FILL p1)) (p1\<lparr>p_lower_level := (p_lower_level p1)\<lparr>returned := []\<rparr>\<rparr>) = Some (bw2, p2)"
    and 3: "advance_walks bw2 (p2, []) = Some (bw3, p3, ns3)"
    and 4: "fold_option (start_walks v') [0..<length (p_upper_levels p3)] (new_bandwidth (p_MAX_READ p3), p3, ns3) = Some (bw4, p4, ns4)"
    and p': "p' = p4\<lparr>p_MSHR := p_MSHR p4 @ ns4\<rparr>"
    using assms(1) by (auto simp: ptw_operate_def bind_eq_Some_conv Let_def split: prod.splits)
  note e1 = finish_walk_packets_effort[OF 1 assms(2)] and w1 = finish_walk_packets[OF 1 assms(2)]
  obtain complete rest where sp: "get_span_p (p_completed p1) (new_bandwidth (p_MAX_FILL p1)) (walk_ready (p1\<lparr>p_lower_level := (p_lower_level p1)\<lparr>returned := []\<rparr>\<rparr>)) = Some (complete, rest)"
    and p2: "p2 = p1\<lparr>p_lower_level := (p_lower_level p1)\<lparr>returned := []\<rparr>, p_upper_levels := fold return_walk complete (p_upper_levels p1), p_completed := rest\<rparr>"
    using 2 by (auto simp: complete_walks_def bind_eq_Some_conv)
  have c1: "p_completed p1 = complete @ rest" using get_span_p_bounds(1)[OF sp] by simp
  have e2: "effort p2 [] \<le> effort p1 []" by (simp add: effort_def p2 c1)
  have e3: "effort p3 ns3 \<le> effort p2 []" by (rule advance_walks_effort[OF 3])
  have "\<forall>m\<in>set complete. returns_ok (length (p_upper_levels p1)) (walk_id m)"
  proof -
    have "mset (map walk_id (walks p1 @ [])) = mset (map walk_id (walks p @ []))" using w1 by simp
    then have "walks_ok p1 []" using walks_ok_cong[of p1 "[]" p "[]"] w1 assms(3) by simp
    then show ?thesis by (simp add: walks_ok_def walks_def c1)
  qed
  then have rq2: "\<forall>ul\<in>set (p_upper_levels p2). RQ ul = []"
    using assms(4) w1 unfolding p2 by (simp, intro return_walks_all) auto
  then have rq3: "\<forall>ul\<in>set (p_upper_levels p3). RQ ul = []" using advance_walks_owed(3)[OF 3] by simp
  let ?P = "\<lambda>(bw, q, ns). q = p3 \<and> ns = ns3"
  have "?P (bw4, p4, ns4)"
  proof (rule fold_option_invariant[OF 4])
    fix j s s'
    assume j: "j \<in> set [0..<length (p_upper_levels p3)]" and P: "?P s" and step: "start_walks v' j s = Some s'"
    obtain bw where s: "s = (bw, p3, ns3)" using P by (cases s) auto
    have "RQ (p_upper_levels p3 ! j) = []" using rq3 j by simp
    then have "get_span ([] :: request list) bw \<noteq> None"
      using step by (cases "get_span ([] :: request list) bw") (auto simp: s start_walks_def)
    then obtain window rest where "get_span ([] :: request list) bw = Some (window, rest)" by auto
    then show "?P s'" using step \<open>RQ (p_upper_levels p3 ! j) = []\<close> get_span_append[of "[]" bw window rest]
      by (auto simp: s start_walks_def Let_def drain_empty bind_eq_Some_conv)
  qed simp
  then have "effort p' [] = effort p3 ns3" by (simp add: effort_def p')
  then show "effort p' [] \<le> effort p []"
    and "m \<in> set (p_MSHR p) \<Longrightarrow> r \<in> set (returned (p_lower_level p)) \<Longrightarrow> matches_block p r m \<Longrightarrow> effort p' [] < effort p []"
    using e1 e2 e3 by force+
qed

section \<open>Runs\<close>

text \<open>What happens to a walker: its own cycles, requests of the upper levels, which also take their
  responses, anything the lower level does to its queue, and what others do to the virtual memory.
  The log holds the responses taken.\<close>

datatype ptw_event = Ptw_Tick | Request nat request | Take nat | Lower_Channel channel | Other_Vmem vmem_op

type_synonym ptw_log = "nat \<Rightarrow> (address \<times> nat list) multiset"

definition on_upper :: "nat \<Rightarrow> (channel \<Rightarrow> channel) \<Rightarrow> PageTableWalker \<Rightarrow> PageTableWalker" where
  "on_upper i f p = p\<lparr>p_upper_levels := (p_upper_levels p)[i := f (p_upper_levels p ! i)]\<rparr>"

fun ptw_step :: "ptw_event \<Rightarrow> PageTableWalker \<times> VirtualMemory \<times> ptw_log \<Rightarrow> (PageTableWalker \<times> VirtualMemory \<times> ptw_log) option" where
  "ptw_step Ptw_Tick (p, v, log) = map_option (\<lambda>(n, p, v). (p, v, log)) (ptw_tick (p, v))"
| "ptw_step (Request i q) (p, v, log) = (if i < length (p_upper_levels p)
     then Some (on_upper i (\<lambda>ul. ul\<lparr>RQ := RQ ul @ [q]\<rparr>) p, v, log) else None)"
| "ptw_step (Take i) (p, v, log) = (if i < length (p_upper_levels p)
     then Some (on_upper i (\<lambda>ul. ul\<lparr>returned := []\<rparr>) p, v,
       log(i := log i + mset (map (\<lambda>r. (rs_v_address r, rs_deps r)) (returned (p_upper_levels p ! i))))) else None)"
| "ptw_step (Lower_Channel ch) (p, v, log) = Some (p\<lparr>p_lower_level := ch\<rparr>, v, log)"
| "ptw_step (Other_Vmem e) (p, v, log) = map_option (\<lambda>v. (p, v, log)) (vmem_step e v)"

abbreviation ptw_run :: "ptw_event list \<Rightarrow> PageTableWalker \<times> VirtualMemory \<times> ptw_log \<Rightarrow> (PageTableWalker \<times> VirtualMemory \<times> ptw_log) option" where
  "ptw_run \<equiv> fold_option ptw_step"

primrec asked :: "nat \<Rightarrow> ptw_event list \<Rightarrow> (address \<times> nat list) multiset" where
  "asked i [] = {#}"
| "asked i (e # es) = (case e of Request j q \<Rightarrow> if j = i \<and> rq_response_requested q then {#(rq_address q, rq_deps q)#} else {#} | _ \<Rightarrow> {#}) + asked i es"

definition idle_walker :: "PageTableWalker \<Rightarrow> bool" where
  "idle_walker p = (walks p = [] \<and> (\<forall>ul\<in>set (p_upper_levels p). RQ ul = [] \<and> returned ul = []))"

lemma on_upper_nth: "i < length (p_upper_levels p) \<Longrightarrow> p_upper_levels (on_upper j f p) ! i
    = (if i = j then f (p_upper_levels p ! i) else p_upper_levels p ! i)"
  by (simp add: on_upper_def nth_list_update)

lemma on_upper_sel [simp]: "walks (on_upper j f p) = walks p" "length (p_upper_levels (on_upper j f p)) = length (p_upper_levels p)"
  "p_partition (on_upper j f p) = p_partition p" "p_completed (on_upper j f p) = p_completed p"
  by (simp_all add: on_upper_def walks_def)

lemma ptw_tick_at:
  assumes "ptw_tick (p, v) = Some (n, p', v')"
  obtains q where "ptw_operate (q, v) = Some (n, p', v')" "q = p\<lparr>p_current_time := p_current_time p + p_clock_period p\<rparr>"
    "walks q = walks p" "p_upper_levels q = p_upper_levels p" "p_partition q = p_partition p"
  using assms by (intro that[of "p\<lparr>p_current_time := p_current_time p + p_clock_period p\<rparr>"]) (simp_all add: ptw_tick_def walks_def)

definition ptw_inv :: "PageTableWalker \<times> VirtualMemory \<times> ptw_log \<Rightarrow> bool" where
  "ptw_inv s = (partitions (p_partition (fst s)) \<and> walks_ok (fst s) [] \<and> 0 < length (p_upper_levels (fst s)))"

lemma ptw_step_owed:
  assumes "ptw_step e (p, v, log) = Some (p', v', log')" and "ptw_inv (p, v, log)" and "i < length (p_upper_levels p)"
  shows "log' i + owed i p' [] = log i + owed i p [] + asked i [e]" and "ptw_inv (p', v', log')"
    and "length (p_upper_levels p') = length (p_upper_levels p)"
proof -
  have "log' i + owed i p' [] = log i + owed i p [] + asked i [e] \<and> ptw_inv (p', v', log') \<and> length (p_upper_levels p') = length (p_upper_levels p)"
  proof (cases e)
    case Ptw_Tick
    then obtain n where "ptw_tick (p, v) = Some (n, p', v')" and l: "log' = log" using assms(1) by auto
    from this(1) obtain q where q: "ptw_operate (q, v) = Some (n, p', v')" "walks q = walks p" "p_upper_levels q = p_upper_levels p" "p_partition q = p_partition p"
      by (rule ptw_tick_at)
    have ok: "partitions (p_partition q)" "walks_ok q []" "i < length (p_upper_levels q)" using assms(2,3) q by (simp_all add: ptw_inv_def walks_ok_def)
    have "owed i q [] = owed i p []" using q by (simp add: owed_def)
    then show ?thesis using ptw_operate_owed[OF q(1) ok] ptw_operate_partition[OF q(1) ok(1)] ok(1) q(3)
      using assms(3) by (auto simp: ptw_inv_def Ptw_Tick l)
  next
    case (Request j r)
    then have p': "p' = on_upper j (\<lambda>ul. ul\<lparr>RQ := RQ ul @ [r]\<rparr>) p" "log' = log" using assms(1) by (auto split: if_splits)
    show ?thesis using assms(2,3) by (auto simp: p' Request owed_def owed_channel_def on_upper_nth ptw_inv_def walks_ok_def)
  next
    case (Take j)
    then have p': "p' = on_upper j (\<lambda>ul. ul\<lparr>returned := []\<rparr>) p"
      "log' = log(j := log j + mset (map (\<lambda>r. (rs_v_address r, rs_deps r)) (returned (p_upper_levels p ! j))))"
      using assms(1) by (auto split: if_splits)
    show ?thesis using assms(2,3) by (auto simp: p' Take owed_def owed_channel_def on_upper_nth ptw_inv_def walks_ok_def)
  qed (use assms in \<open>auto simp: owed_def ptw_inv_def walks_ok_def walks_def\<close>)
  then show "log' i + owed i p' [] = log i + owed i p [] + asked i [e]" and "ptw_inv (p', v', log')"
    and "length (p_upper_levels p') = length (p_upper_levels p)" by simp_all
qed

lemma ptw_run_owed:
  "ptw_run es (p, v, log) = Some (p', v', log') \<Longrightarrow> ptw_inv (p, v, log) \<Longrightarrow> i < length (p_upper_levels p)
    \<Longrightarrow> log' i + owed i p' [] = log i + owed i p [] + asked i es"
proof (induction es arbitrary: p v log)
  case (Cons e es)
  obtain p1 v1 log1 where 1: "ptw_step e (p, v, log) = Some (p1, v1, log1)" and 2: "ptw_run es (p1, v1, log1) = Some (p', v', log')"
    using Cons.prems(1) by (auto simp: bind_eq_Some_conv)
  note s = ptw_step_owed[OF 1 Cons.prems(2,3)]
  have "log' i + owed i p' [] = log1 i + owed i p1 [] + asked i es"
    by (rule Cons.IH[OF 2 s(2)]) (use s(3) Cons.prems(3) in simp)
  then show ?case using s(1) by (simp add: ac_simps)
qed simp

definition requests_of :: "32 word \<Rightarrow> ptw_event list \<Rightarrow> bool" where
  "requests_of k es = (\<forall>e\<in>set es. case e of Request i q \<Rightarrow> rq_cpu q = k | _ \<Rightarrow> True)"

lemma on_upper_all:
  assumes "\<forall>ul\<in>set (p_upper_levels p). P ul" and "j < length (p_upper_levels p)" and "\<And>ul. P ul \<Longrightarrow> P (f ul)"
  shows "\<forall>ul\<in>set (p_upper_levels (on_upper j f p)). P ul"
proof -
  have "P (f (p_upper_levels p ! j))" using assms by simp
  then show ?thesis using assms(1) set_update_subset_insert[of "p_upper_levels p" j "f (p_upper_levels p ! j)"] by (auto simp: on_upper_def)
qed

lemma ptw_step_translated:
  assumes "ptw_step e (p, v, log) = Some (p', v', log')" and "ptw_inv (p, v, log)" and "walks_translated k (p, v)" and "requests_of k [e]"
  shows "ptw_inv (p', v', log') \<and> walks_translated k (p', v')"
proof (cases e)
  case Ptw_Tick
  then obtain n where "ptw_tick (p, v) = Some (n, p', v')" using assms(1) by auto
  then obtain q where q: "ptw_operate (q, v) = Some (n, p', v')" "q = p\<lparr>p_current_time := p_current_time p + p_clock_period p\<rparr>"
    "walks q = walks p" "p_upper_levels q = p_upper_levels p" "p_partition q = p_partition p"
    by (rule ptw_tick_at)
  have ok: "partitions (p_partition q)" "walks_ok q []" using assms(2) q by (simp_all add: ptw_inv_def walks_ok_def)
  have t: "walks_translated k (q, v)" using assms(3) q by (simp add: walks_translated_def)
  have "0 < length (p_upper_levels q)" using assms(2) q(4) by (simp add: ptw_inv_def)
  note w = ptw_operate_owed(2,3)[OF q(1) ok this]
  show ?thesis using ptw_operate_translated(1)[OF q(1) ok t] ptw_operate_partition[OF q(1) ok(1)] ok(1) w \<open>0 < length (p_upper_levels q)\<close>
    by (auto simp: ptw_inv_def)
next
  case (Request j r)
  then have p': "p' = on_upper j (\<lambda>ul. ul\<lparr>RQ := RQ ul @ [r]\<rparr>) p" "v' = v" "j < length (p_upper_levels p)" using assms(1) by (auto split: if_splits)
  have "rq_cpu r = k" using assms(4) by (simp add: requests_of_def Request)
  then have "\<forall>ul\<in>set (p_upper_levels p'). (\<forall>q\<in>set (RQ ul). rq_cpu q = k) \<and> (\<forall>r\<in>set (returned ul). translated v k (rs_v_address r) (rs_data r))"
    unfolding p'(1) using assms(3) p'(3) by (intro on_upper_all) (auto simp: walks_translated_def)
  then show ?thesis using assms(2,3) by (simp add: p' ptw_inv_def walks_ok_def walks_translated_def)
next
  case (Take j)
  then have p': "p' = on_upper j (\<lambda>ul. ul\<lparr>returned := []\<rparr>) p" "v' = v" "j < length (p_upper_levels p)" using assms(1) by (auto split: if_splits)
  have "\<forall>ul\<in>set (p_upper_levels p'). (\<forall>q\<in>set (RQ ul). rq_cpu q = k) \<and> (\<forall>r\<in>set (returned ul). translated v k (rs_v_address r) (rs_data r))"
    unfolding p'(1) using assms(3) p'(3) by (intro on_upper_all) (auto simp: walks_translated_def)
  then show ?thesis using assms(2,3) by (simp add: p' ptw_inv_def walks_ok_def walks_translated_def)
next
  case (Other_Vmem x)
  then have "vm_grows v v'" "p' = p" using assms(1) vmem_step_grows by auto
  then show ?thesis using assms(2,3) translated_grows by (auto simp: ptw_inv_def walks_translated_def)
qed (use assms in \<open>auto simp: ptw_inv_def walks_ok_def walks_def walks_translated_def\<close>)

lemma ptw_run_translated:
  "ptw_run es (p, v, log) = Some (p', v', log') \<Longrightarrow> ptw_inv (p, v, log) \<Longrightarrow> walks_translated k (p, v) \<Longrightarrow> requests_of k es
    \<Longrightarrow> ptw_inv (p', v', log') \<and> walks_translated k (p', v')"
proof (induction es arbitrary: p v log)
  case (Cons e es)
  obtain p1 v1 log1 where 1: "ptw_step e (p, v, log) = Some (p1, v1, log1)" and 2: "ptw_run es (p1, v1, log1) = Some (p', v', log')"
    using Cons.prems(1) by (auto simp: bind_eq_Some_conv)
  have "requests_of k [e]" "requests_of k es" using Cons.prems(4) by (simp_all add: requests_of_def)
  then show ?case using ptw_step_translated[OF 1 Cons.prems(2,3)] Cons.IH[OF 2] by simp
qed simp

section \<open>Properties\<close>

text \<open>C11. The walker loses no request and answers none twice: from an idle walker, whatever the lower level and
  the other users of the virtual memory do, the responses taken by an upper level together with
  those it is still owed (in its queues or by walks in progress) are exactly those it asked for, with multiplicity.\<close>

theorem every_walk_is_answered_once:
  assumes "ptw_run es (p, v, \<lambda>_. {#}) = Some (p', v', log)" and "idle_walker p" and "partitions (p_partition p)"
    and "i < length (p_upper_levels p)"
  shows "log i + owed i p' [] = asked i es"
proof -
  have "walks p = []" "RQ (p_upper_levels p ! i) = []" "returned (p_upper_levels p ! i) = []"
    using assms(2,4) by (auto simp: idle_walker_def)
  moreover have "ptw_inv (p, v, \<lambda>_. {#})" using assms by (auto simp: ptw_inv_def walks_ok_def idle_walker_def)
  ultimately show ?thesis using ptw_run_owed[OF assms(1) _ assms(4)] by (simp add: owed_def owed_channel_def)
qed

text \<open>C10. Every answer of a walker is right: the data of a response is the address of the physical page that
  the virtual memory holds for the page asked for, whatever the walk read on its way and from which
  cached table it started.\<close>

theorem walks_translate:
  assumes "ptw_run es (p, v, log) = Some (p', v', log')" and "idle_walker p" and "partitions (p_partition p)" and "p_upper_levels p \<noteq> []"
    and "requests_of k es" and "ul \<in> set (p_upper_levels p')" and "r \<in> set (returned ul)"
  shows "\<exists>q. vpage_to_ppage_map v' (k, page_of v' (rs_v_address r)) = Some q \<and> rs_data r = page_address v' q"
proof -
  have "ptw_inv (p, v, log)" using assms(2,3,4) by (auto simp: ptw_inv_def walks_ok_def idle_walker_def)
  moreover have "walks_translated k (p, v)" using assms(2) by (auto simp: walks_translated_def idle_walker_def walks_def)
  ultimately have "walks_translated k (p', v')" using ptw_run_translated[OF assms(1) _ _ assms(5)] by blast
  then show ?thesis using assms(6,7) by (auto simp: walks_translated_def translated_def)
qed

text \<open>C12. Walks end: while no requests arrive, the steps left to all walks (at most two per level and the
  answer) never increase in a cycle, and they decrease in every cycle in which the lower level answers a read.\<close>

theorem walks_terminate:
  assumes "ptw_operate (p, v) = Some (n, p', v')" and "partitions (p_partition p)" and "walks_ok p []"
    and "\<forall>ul\<in>set (p_upper_levels p). RQ ul = []"
  shows "effort p' [] \<le> effort p [] \<and>
    (\<forall>m\<in>set (p_MSHR p). \<forall>r\<in>set (returned (p_lower_level p)). matches_block p r m \<longrightarrow> effort p' [] < effort p [])"
  using ptw_operate_effort[OF assms] by blast

section \<open>A sample walk\<close>

text \<open>A walk of two reads: the table page, then the page itself.\<close>

definition stable_partition :: "(ptw_mshr \<Rightarrow> bool) \<Rightarrow> ptw_mshr list \<Rightarrow> ptw_mshr list \<times> ptw_mshr list" where
  "stable_partition f xs = (filter f xs, filter (\<lambda>x. \<not> f x) xs)"

lemma stable_partitions: "partitions stable_partition"
  by (simp add: partitions_def stable_partition_def)

definition sample_pscl :: "pscl_entry lru_table" where
  "sample_pscl = \<lparr>NUM_SET = 2, NUM_WAY = 2, access_count = 0, block = (\<lambda>_. \<lparr>last_used = 0, data = \<lparr>ps_vaddr = 0, ps_ptw_addr = 0, ps_level = 0\<rparr>\<rparr>)\<rparr>"

definition sample_walker :: PageTableWalker where
  "sample_walker = \<lparr>p_clock_period = 1, p_current_time = 0, p_warmup = False, p_log2_block = 6, p_partition = stable_partition, p_MSHR = [],
     p_finished = [], p_completed = [], p_upper_levels = [new_channel 4 4 4 12 False], p_lower_level = new_channel 4 4 4 6 False,
     p_MSHR_SIZE = 4, p_MAX_READ = 2, p_MAX_FILL = 2, p_HIT_LATENCY = 1, p_pscl = [(21, sample_pscl)], CR3_addr = 0x200000\<rparr>"

definition sample_memory :: VirtualMemory where
  "sample_memory = sample_vmem\<lparr>minor_fault_penalty := 0\<rparr>"

definition sample_read :: request where
  "sample_read = default_request\<lparr>rq_cpu := 0, rq_address := 0x12345678, rq_v_address := 0x12345678, rq_deps := [7]\<rparr>"

definition lower_answers :: "address \<Rightarrow> ptw_event" where
  "lower_answers a = Lower_Channel ((new_channel 4 4 4 6 False)
     \<lparr>returned := [\<lparr>rs_address = a, rs_v_address = a, rs_data = 0, rs_pf_metadata = 0, rs_deps = []\<rparr>]\<rparr>)"

definition walk_events :: "ptw_event list" where
  "walk_events = [Request 0 sample_read, Ptw_Tick, lower_answers 0x200A28, Ptw_Tick, Ptw_Tick, lower_answers 0x107A28, Ptw_Tick, Ptw_Tick]"

lemma sample_walk: "map_option (\<lambda>(p, v, log). map (\<lambda>r. (rs_v_address r, rs_data r)) (returned (hd (p_upper_levels p))))
    (ptw_run walk_events (sample_walker, sample_memory, \<lambda>_. {#})) = Some [(0x12345678, 0x106000)]"
  by code_simp

lemma sample_walker_idle: "idle_walker sample_walker" "partitions (p_partition sample_walker)" "p_upper_levels sample_walker \<noteq> []"
  by (simp_all add: sample_walker_def idle_walker_def walks_def stable_partitions new_channel_def)

lemma every_walk_is_answered_once_witness:
  "\<exists>p v log. ptw_run walk_events (sample_walker, sample_memory, \<lambda>_. {#}) = Some (p, v, log) \<and> log 0 + owed 0 p [] = {#(0x12345678, [7])#}"
proof -
  obtain p v log where r: "ptw_run walk_events (sample_walker, sample_memory, \<lambda>_. {#}) = Some (p, v, log)" using sample_walk by auto
  have "asked 0 walk_events = {#(0x12345678, [7])#}"
    by (simp add: walk_events_def lower_answers_def sample_read_def default_request_def)
  then show ?thesis using r every_walk_is_answered_once[OF r sample_walker_idle(1,2), of 0] sample_walker_idle(3) by auto
qed

lemma walks_translate_witness:
  "\<exists>p v log. ptw_run walk_events (sample_walker, sample_memory, \<lambda>_. {#}) = Some (p, v, log)
    \<and> vpage_to_ppage_map v (0, page_of v 0x12345678) \<noteq> None"
proof -
  obtain p v log where r: "ptw_run walk_events (sample_walker, sample_memory, \<lambda>_. {#}) = Some (p, v, log)"
    and ret: "map (\<lambda>r. (rs_v_address r, rs_data r)) (returned (hd (p_upper_levels p))) = [(0x12345678, 0x106000)]"
    using sample_walk by auto
  then obtain a where a: "a \<in> set (returned (hd (p_upper_levels p)))" "rs_v_address a = 0x12345678" by auto
  have "p_upper_levels p \<noteq> []"
  proof -
    have "map_option (\<lambda>(p, v, log). length (p_upper_levels p)) (ptw_run walk_events (sample_walker, sample_memory, \<lambda>_. {#})) = Some 1" by code_simp
    then show ?thesis using r by auto
  qed
  moreover have "requests_of 0 walk_events" by (simp add: requests_of_def walk_events_def lower_answers_def sample_read_def)
  ultimately show ?thesis using r walks_translate[OF r sample_walker_idle, of 0 "hd (p_upper_levels p)" a] a by auto
qed

lemma walks_terminate_witness:
  "\<exists>p v log n p' v'. ptw_run (take 3 walk_events) (sample_walker, sample_memory, \<lambda>_. {#}) = Some (p, v, log)
    \<and> ptw_operate (p, v) = Some (n, p', v') \<and> effort p [] = 4 \<and> effort p' [] < 4"
proof -
  have "map_option (\<lambda>(p, v, log). (effort p [], list_all (\<lambda>ul. RQ ul = []) (p_upper_levels p),
      list_ex (\<lambda>m. list_ex (\<lambda>r. matches_block p r m) (returned (p_lower_level p))) (p_MSHR p), map_option fst (ptw_operate (p, v))))
    (ptw_run (take 3 walk_events) (sample_walker, sample_memory, \<lambda>_. {#})) = Some (4, True, True, Some 1)" by code_simp
  then obtain p v log where r: "ptw_run (take 3 walk_events) (sample_walker, sample_memory, \<lambda>_. {#}) = Some (p, v, log)"
    and e: "effort p [] = 4" and rq: "\<forall>ul\<in>set (p_upper_levels p). RQ ul = []"
    and match: "list_ex (\<lambda>m. list_ex (\<lambda>r. matches_block p r m) (returned (p_lower_level p))) (p_MSHR p)"
    and op: "map_option fst (ptw_operate (p, v)) = Some 1"
    by (auto simp: list_all_iff)
  obtain n p' v' where op: "ptw_operate (p, v) = Some (n, p', v')" using op by auto
  have "ptw_inv (sample_walker, sample_memory, \<lambda>_. {#})"
    using sample_walker_idle by (auto simp: ptw_inv_def walks_ok_def idle_walker_def)
  moreover have "walks_translated 0 (sample_walker, sample_memory)"
    using sample_walker_idle(1) by (auto simp: walks_translated_def idle_walker_def walks_def)
  moreover have "requests_of 0 (take 3 walk_events)" by (simp add: requests_of_def walk_events_def lower_answers_def sample_read_def)
  ultimately have "ptw_inv (p, v, log)" using ptw_run_translated[OF r] by blast
  then have "partitions (p_partition p)" "walks_ok p []" by (simp_all add: ptw_inv_def)
  from walks_terminate[OF op this rq] match e r op show ?thesis by (auto simp: list_ex_iff)
qed

end
