(* ===== verification/Dram_Mapping.thy ===== *)
theory Dram_Mapping
  imports Addresses "HOL-Library.Monad_Syntax"
begin

text \<open>
  The mapping of physical addresses to the coordinates of the memory, \<open>DRAM_ADDRESS_MAPPING\<close> in
  \<open>src/dram_controller.cc\<close>, and the contiguous extents it is made of, \<open>inc/extent_set.h\<close>: from the low bits
  up, the offset in a block, the channel, the bank group, the bank, the column, the rank and the row.
  The channel, the bank group and the bank are hashed with the bits of the row.  A failed assertion and
  an exception are \<open>None\<close>, and so is a loop that does not end.
\<close>

section \<open>Extent sets\<close>

fun partial_sums :: "nat \<Rightarrow> nat list \<Rightarrow> nat list" where
  "partial_sums acc [] = []"
| "partial_sums acc (x # xs) = (acc + x) # partial_sums (acc + x) xs"

definition make_contiguous_extent_set :: "nat list \<Rightarrow> extent list option" where
  "make_contiguous_extent_set sizes = (if length sizes < 2 then Some []
     else (let lowers = partial_sums 0 sizes in those (map2 dynamic_extent (tl lowers) lowers)))"

definition slice_all :: "extent list \<Rightarrow> address \<Rightarrow> address_slice list option" where
  "slice_all extents a = those (map (\<lambda>e. slice_of_slice e (full_slice a)) extents)"

definition bit_size :: "extent list \<Rightarrow> nat" where
  "bit_size extents = sum_list (map extent_size extents)"

section \<open>The mapping\<close>

definition SLICER_OFFSET_IDX :: nat where "SLICER_OFFSET_IDX = 0"
definition SLICER_CHANNEL_IDX :: nat where "SLICER_CHANNEL_IDX = 1"
definition SLICER_BANKGROUP_IDX :: nat where "SLICER_BANKGROUP_IDX = 2"
definition SLICER_BANK_IDX :: nat where "SLICER_BANK_IDX = 3"
definition SLICER_COLUMN_IDX :: nat where "SLICER_COLUMN_IDX = 4"
definition SLICER_RANK_IDX :: nat where "SLICER_RANK_IDX = 5"
definition SLICER_ROW_IDX :: nat where "SLICER_ROW_IDX = 6"

lemmas slicer_idx_defs = SLICER_OFFSET_IDX_def SLICER_CHANNEL_IDX_def SLICER_BANKGROUP_IDX_def SLICER_BANK_IDX_def
  SLICER_COLUMN_IDX_def SLICER_RANK_IDX_def SLICER_ROW_IDX_def

record DRAM_ADDRESS_MAPPING =
  address_slicer :: "extent list"
  prefetch_size :: nat

definition make_slicer :: "nat \<Rightarrow> nat \<Rightarrow> nat \<Rightarrow> nat \<Rightarrow> nat \<Rightarrow> nat \<Rightarrow> nat \<Rightarrow> nat \<Rightarrow> extent list option" where
  "make_slicer channel_width pref_size chans bgs bks cols rks rws =
     make_contiguous_extent_set (0 # map lg2 [channel_width * pref_size, chans, bgs, bks, cols div pref_size, rks, rws])"

definition field_bits :: "DRAM_ADDRESS_MAPPING \<Rightarrow> nat \<Rightarrow> nat" where
  "field_bits m i = extent_size (address_slicer m ! i)"

definition dram_rows :: "DRAM_ADDRESS_MAPPING \<Rightarrow> nat" where "dram_rows m = 2 ^ field_bits m SLICER_ROW_IDX"
definition dram_columns :: "DRAM_ADDRESS_MAPPING \<Rightarrow> nat" where "dram_columns m = prefetch_size m * 2 ^ field_bits m SLICER_COLUMN_IDX"
definition dram_ranks :: "DRAM_ADDRESS_MAPPING \<Rightarrow> nat" where "dram_ranks m = 2 ^ field_bits m SLICER_RANK_IDX"
definition dram_bankgroups :: "DRAM_ADDRESS_MAPPING \<Rightarrow> nat" where "dram_bankgroups m = 2 ^ field_bits m SLICER_BANKGROUP_IDX"
definition dram_banks :: "DRAM_ADDRESS_MAPPING \<Rightarrow> nat" where "dram_banks m = 2 ^ field_bits m SLICER_BANK_IDX"
definition dram_channels :: "DRAM_ADDRESS_MAPPING \<Rightarrow> nat" where "dram_channels m = 2 ^ field_bits m SLICER_CHANNEL_IDX"

definition new_DRAM_ADDRESS_MAPPING :: "nat \<Rightarrow> nat \<Rightarrow> nat \<Rightarrow> nat \<Rightarrow> nat \<Rightarrow> nat \<Rightarrow> nat \<Rightarrow> nat \<Rightarrow> nat \<Rightarrow> DRAM_ADDRESS_MAPPING option" where
  "new_DRAM_ADDRESS_MAPPING block_size channel_width pref_size chans bgs bks cols rks rws = do {
     slicer \<leftarrow> make_slicer channel_width pref_size chans bgs bks cols rks rws;
     let m = \<lparr>address_slicer = slicer, prefetch_size = pref_size\<rparr>;
     (if pref_size \<noteq> 0 \<and> channel_width * pref_size mod block_size = 0 \<and> dram_columns m \<ge> 1 \<and> dram_columns m = cols
         \<and> dram_rows m = rws \<and> dram_banks m = bks \<and> dram_bankgroups m = bgs \<and> dram_ranks m = rks \<and> dram_channels m = chans
      then Some m else None) }"

definition get_field :: "nat \<Rightarrow> DRAM_ADDRESS_MAPPING \<Rightarrow> address \<Rightarrow> address option" where
  "get_field i m a = map_option (\<lambda>fields. sl_value (fields ! i)) (slice_all (address_slicer m) a)"

text \<open>The loop of \<open>swizzle_bits\<close>: segment after segment of the row.\<close>

partial_function (option) swizzle_loop :: "address_slice \<Rightarrow> nat \<Rightarrow> nat \<Rightarrow> nat \<Rightarrow> extent \<Rightarrow> address \<Rightarrow> address option" where
  "swizzle_loop row segment_size segment_offset bits subextent permute_field =
     (if ex_upper subextent \<le> ex_upper (sl_extent row)
      then do {
        segment \<leftarrow> sub_slice subextent row;
        window \<leftarrow> dynamic_extent_size segment_offset bits;
        s \<leftarrow> sub_slice window segment;
        next \<leftarrow> dynamic_extent_size (ex_upper subextent) segment_size;
        swizzle_loop row segment_size segment_offset bits next (permute_field XOR sl_value s) }
      else Some permute_field)"

declare swizzle_loop.simps [code]

definition swizzle_bits :: "address \<Rightarrow> nat \<Rightarrow> nat \<Rightarrow> address \<Rightarrow> nat \<Rightarrow> DRAM_ADDRESS_MAPPING \<Rightarrow> address option" where
  "swizzle_bits a segment_size segment_offset field bits m = do {
     row \<leftarrow> slice_of_slice (address_slicer m ! SLICER_ROW_IDX) (full_slice a);
     subextent \<leftarrow> dynamic_extent_size 0 segment_size;
     swizzle_loop row segment_size segment_offset bits subextent field }"

definition get_channel :: "DRAM_ADDRESS_MAPPING \<Rightarrow> address \<Rightarrow> address option" where
  "get_channel m a = do {
     channel \<leftarrow> get_field SLICER_CHANNEL_IDX m a;
     swizzle_bits a 1 0 channel (field_bits m SLICER_CHANNEL_IDX) m }"

definition get_rank :: "DRAM_ADDRESS_MAPPING \<Rightarrow> address \<Rightarrow> address option" where
  "get_rank = get_field SLICER_RANK_IDX"

definition get_bankgroup :: "DRAM_ADDRESS_MAPPING \<Rightarrow> address \<Rightarrow> address option" where
  "get_bankgroup m a = do {
     bankgroup \<leftarrow> get_field SLICER_BANKGROUP_IDX m a;
     let bg_bits = field_bits m SLICER_BANKGROUP_IDX;
     let bk_bits = field_bits m SLICER_BANK_IDX;
     swizzle_bits a (bg_bits + bk_bits) 0 bankgroup bg_bits m }"

definition get_bank :: "DRAM_ADDRESS_MAPPING \<Rightarrow> address \<Rightarrow> address option" where
  "get_bank m a = do {
     bank \<leftarrow> get_field SLICER_BANK_IDX m a;
     let bg_bits = field_bits m SLICER_BANKGROUP_IDX;
     let bk_bits = field_bits m SLICER_BANK_IDX;
     swizzle_bits a (bg_bits + bk_bits) bg_bits bank bk_bits m }"

definition get_row :: "DRAM_ADDRESS_MAPPING \<Rightarrow> address \<Rightarrow> address option" where
  "get_row = get_field SLICER_ROW_IDX"

definition get_column :: "DRAM_ADDRESS_MAPPING \<Rightarrow> address \<Rightarrow> address option" where
  "get_column = get_field SLICER_COLUMN_IDX"

definition is_collision :: "DRAM_ADDRESS_MAPPING \<Rightarrow> address \<Rightarrow> address \<Rightarrow> bool option" where
  "is_collision m a b = do {
     let offset_bits = field_bits m SLICER_OFFSET_IDX;
     x \<leftarrow> slice_upper_of offset_bits (full_slice a);
     y \<leftarrow> slice_upper_of offset_bits (full_slice b);
     slice_eq x y }"

section \<open>Laws\<close>

text \<open>A mapping of addresses: seven adjacent extents in 64 bits.\<close>

definition mapping_ok :: "DRAM_ADDRESS_MAPPING \<Rightarrow> bool" where
  "mapping_ok m \<longleftrightarrow> length (address_slicer m) = 7 \<and> ex_lower (address_slicer m ! 0) = 0 \<and> ex_upper (address_slicer m ! 6) \<le> 64
    \<and> (\<forall>i<7. ex_lower (address_slicer m ! i) \<le> ex_upper (address_slicer m ! i))
    \<and> (\<forall>i<6. ex_lower (address_slicer m ! Suc i) = ex_upper (address_slicer m ! i))"

lemma all_less_7: "(\<forall>i<7. P i) \<longleftrightarrow> P 0 \<and> P 1 \<and> P 2 \<and> P 3 \<and> P 4 \<and> P 5 \<and> P (6::nat)"
proof -
  have "{..<7} = {0, 1, 2, 3, 4, 5, 6::nat}" by auto
  then show ?thesis by (metis (no_types, lifting) insert_iff lessThan_iff singletonD)
qed

lemma all_less_6: "(\<forall>i<6. P i) \<longleftrightarrow> P 0 \<and> P 1 \<and> P 2 \<and> P 3 \<and> P 4 \<and> P (5::nat)"
proof -
  have "{..<6} = {0, 1, 2, 3, 4, 5::nat}" by auto
  then show ?thesis by (metis (no_types, lifting) insert_iff lessThan_iff singletonD)
qed

text \<open>The fields of a mapping, each with its extent.\<close>

lemma make_slicer_shape:
  "make_slicer w p chans bgs bks cols rks rws = Some
     (let o1 = lg2 (w * p); o2 = o1 + lg2 chans; o3 = o2 + lg2 bgs; o4 = o3 + lg2 bks; o5 = o4 + lg2 (cols div p); o6 = o5 + lg2 rks
      in [\<lparr>ex_upper = o1, ex_lower = 0\<rparr>, \<lparr>ex_upper = o2, ex_lower = o1\<rparr>, \<lparr>ex_upper = o3, ex_lower = o2\<rparr>,
        \<lparr>ex_upper = o4, ex_lower = o3\<rparr>, \<lparr>ex_upper = o5, ex_lower = o4\<rparr>, \<lparr>ex_upper = o6, ex_lower = o5\<rparr>,
        \<lparr>ex_upper = o6 + lg2 rws, ex_lower = o6\<rparr>])"
  by (simp add: make_slicer_def make_contiguous_extent_set_def dynamic_extent_def Let_def add.assoc)

lemma new_mapping_ok:
  assumes "new_DRAM_ADDRESS_MAPPING block_size w p chans bgs bks cols rks rws = Some m"
    and "lg2 (w * p) + lg2 chans + lg2 bgs + lg2 bks + lg2 (cols div p) + lg2 rks + lg2 rws \<le> 64"
  shows "mapping_ok m"
proof -
  have "make_slicer w p chans bgs bks cols rks rws = Some (address_slicer m)"
    using assms(1) by (auto simp: new_DRAM_ADDRESS_MAPPING_def bind_eq_Some_conv Let_def split: if_splits)
  note slicer = this[unfolded make_slicer_shape option.inject Let_def, symmetric]
  show ?thesis using assms(2) unfolding mapping_ok_def all_less_7 all_less_6 slicer by (simp add: add.assoc)
qed

lemma field_slice:
  assumes "ex_lower e \<le> ex_upper e" "ex_upper e \<le> 64"
  shows "slice_of_slice e (full_slice a) = Some \<lparr>sl_extent = e, sl_value = take_bit (extent_size e) (drop_bit (ex_lower e) a)\<rparr>"
proof -
  have "drop_bit (ex_lower e) (a AND bitmask (ex_upper e) (ex_lower e)) = take_bit (extent_size e) (drop_bit (ex_lower e) a)"
    using assms by (intro bit_eqI) (auto simp: bit_and_iff bit_bitmask bit_drop_bit_eq bit_take_bit_iff extent_size_def dest: bit_imp_le_length)
  then show ?thesis using assms by (simp add: slice_of_slice_def full_slice_def full_extent_def address_bits_def)
qed

text \<open>The fields of an address.\<close>

definition field :: "DRAM_ADDRESS_MAPPING \<Rightarrow> nat \<Rightarrow> address \<Rightarrow> address" where
  "field m i a = take_bit (field_bits m i) (drop_bit (ex_lower (address_slicer m ! i)) a)"

lemma those_map_Some: "(\<And>x. x \<in> set xs \<Longrightarrow> f x = Some (g x)) \<Longrightarrow> those (map f xs) = Some (map g xs)"
  by (induction xs) auto

lemma mapping_extents:
  assumes "mapping_ok m" "i < 7"
  shows "ex_lower (address_slicer m ! i) \<le> ex_upper (address_slicer m ! i)" "ex_upper (address_slicer m ! i) \<le> 64"
proof -
  show 1: "ex_lower (address_slicer m ! i) \<le> ex_upper (address_slicer m ! i)" using assms by (simp add: mapping_ok_def)
  have "\<forall>i<7. ex_upper (address_slicer m ! i) \<le> 64"
    using assms(1) unfolding mapping_ok_def all_less_7 all_less_6 by (simp add: eval_nat_numeral)
  then show "ex_upper (address_slicer m ! i) \<le> 64" using assms(2) by simp
qed

lemma mapping_slice:
  assumes "mapping_ok m" "i < 7"
  shows "slice_of_slice (address_slicer m ! i) (full_slice a) = Some \<lparr>sl_extent = address_slicer m ! i, sl_value = field m i a\<rparr>"
  using field_slice[OF mapping_extents[OF assms]] by (simp add: field_def field_bits_def)

lemma get_field_eq:
  assumes "mapping_ok m" "i < 7"
  shows "get_field i m a = Some (field m i a)"
proof -
  have "slice_all (address_slicer m) a =
      Some (map (\<lambda>e. \<lparr>sl_extent = e, sl_value = take_bit (extent_size e) (drop_bit (ex_lower e) a)\<rparr>) (address_slicer m))"
    unfolding slice_all_def
  proof (rule those_map_Some)
    fix e assume "e \<in> set (address_slicer m)"
    then obtain j where "j < 7" "e = address_slicer m ! j" using assms(1) by (auto simp: in_set_conv_nth mapping_ok_def)
    then show "slice_of_slice e (full_slice a) = Some \<lparr>sl_extent = e, sl_value = take_bit (extent_size e) (drop_bit (ex_lower e) a)\<rparr>"
      using field_slice mapping_extents[OF assms(1)] by simp
  qed
  then show ?thesis using assms by (simp add: get_field_def field_def field_bits_def mapping_ok_def)
qed

lemma mapping_size:
  assumes "mapping_ok m"
  shows "ex_upper (address_slicer m ! 6) = bit_size (address_slicer m)"
proof -
  obtain e0 e1 e2 e3 e4 e5 e6 where e: "address_slicer m = [e0, e1, e2, e3, e4, e5, e6]"
    using assms by (auto simp: mapping_ok_def length_Suc_conv eval_nat_numeral)
  show ?thesis using assms unfolding mapping_ok_def all_less_7 all_less_6 e by (simp add: bit_size_def extent_size_def eval_nat_numeral)
qed

text \<open>A slice of a slice never fails, and has no more bits than were asked for.\<close>

lemma sub_slice_total:
  assumes "ex_lower (sl_extent s) \<le> ex_upper (sl_extent s)" "ex_upper (sl_extent s) \<le> 64" "ex_lower sub \<le> ex_upper sub"
  obtains t where "sub_slice sub s = Some t" "ex_lower (sl_extent t) \<le> ex_upper (sl_extent t)" "ex_upper (sl_extent t) \<le> 64"
    "take_bit (extent_size sub) (sl_value t) = sl_value t"
proof -
  let ?e = "relative_extent (sl_extent s) sub"
  have e: "ex_lower ?e \<le> ex_upper ?e" "ex_upper ?e \<le> 64" "extent_size ?e \<le> extent_size sub"
    using assms by (auto simp: relative_extent_def extent_size_def Let_def min_def)
  have "take_bit (extent_size sub) (v AND bitmask_to (extent_size ?e)) = v AND bitmask_to (extent_size ?e)" for v :: address
    using e(3) by (intro bit_eqI) (auto simp: bit_take_bit_iff bit_and_iff bit_bitmask_to)
  then show thesis using e by (intro that) (auto simp: sub_slice_def slice_of_value_def address_bits_def)
qed

text \<open>The loop ends when the segments are not empty, and combines the field with a value that depends on the row alone.\<close>

lemma swizzle_loop_xor:
  assumes "ex_lower (sl_extent row) \<le> ex_upper (sl_extent row)" "ex_upper (sl_extent row) \<le> 64" "0 < seg" "ex_lower sub \<le> ex_upper sub"
  shows "\<exists>g. take_bit bits g = g \<and> (\<forall>acc. swizzle_loop row seg off bits sub acc = Some (acc XOR g))"
  using assms(4)
proof (induction "Suc (ex_upper (sl_extent row)) - ex_upper sub" arbitrary: sub rule: less_induct)
  case less
  show ?case
  proof (cases "ex_upper sub \<le> ex_upper (sl_extent row)")
    case True
    define window where "window = \<lparr>ex_upper = off + bits, ex_lower = off\<rparr>"
    define nxt where "nxt = \<lparr>ex_upper = ex_upper sub + seg, ex_lower = ex_upper sub\<rparr>"
    obtain t where t: "sub_slice sub row = Some t" "ex_lower (sl_extent t) \<le> ex_upper (sl_extent t)" "ex_upper (sl_extent t) \<le> 64"
      by (rule sub_slice_total[OF assms(1,2) less.prems])
    obtain u where u: "sub_slice window t = Some u" "take_bit (extent_size window) (sl_value u) = sl_value u"
      by (rule sub_slice_total[OF t(2,3), of window]) (auto simp: window_def)
    have "\<exists>g. take_bit bits g = g \<and> (\<forall>acc. swizzle_loop row seg off bits nxt acc = Some (acc XOR g))"
      by (rule less.hyps) (use True assms(3) in \<open>auto simp: nxt_def\<close>)
    then obtain g where g: "take_bit bits g = g" "\<And>acc. swizzle_loop row seg off bits nxt acc = Some (acc XOR g)" by blast
    have "swizzle_loop row seg off bits sub acc = Some (acc XOR (sl_value u XOR g))" for acc
      using True t(1) u(1) g(2) by (simp add: swizzle_loop.simps[of row seg off bits sub] dynamic_extent_size_def dynamic_extent_def
          window_def nxt_def xor.assoc)
    moreover have "take_bit bits (sl_value u XOR g) = sl_value u XOR g" using u(2) g(1) by (simp add: window_def extent_size_def take_bit_xor)
    ultimately show ?thesis by blast
  next
    case False
    then show ?thesis by (intro exI[of _ 0]) (simp add: swizzle_loop.simps[of row seg off bits sub])
  qed
qed

text \<open>With empty segments it does not end.\<close>

lemma swizzle_loop_empty:
  assumes "swizzle_loop row seg off bits sub acc = Some r"
  shows "seg = 0 \<longrightarrow> ex_upper (sl_extent row) < ex_upper sub"
proof (rule swizzle_loop.raw_induct[where P = "\<lambda>row seg off bits sub acc r. seg = 0 \<longrightarrow> ex_upper (sl_extent row) < ex_upper sub", OF _ assms])
  fix loop :: "address_slice \<Rightarrow> nat \<Rightarrow> nat \<Rightarrow> nat \<Rightarrow> extent \<Rightarrow> address \<Rightarrow> address option"
    and row :: address_slice and seg off bits :: nat and sub :: extent and acc r :: address
  assume IH: "\<And>row seg off bits sub acc r. loop row seg off bits sub acc = Some r \<Longrightarrow> seg = 0 \<longrightarrow> ex_upper (sl_extent row) < ex_upper sub"
    and eq: "(if ex_upper sub \<le> ex_upper (sl_extent row)
      then sub_slice sub row \<bind> (\<lambda>segment. dynamic_extent_size off bits \<bind> (\<lambda>window. sub_slice window segment \<bind> (\<lambda>s.
        dynamic_extent_size (ex_upper sub) seg \<bind> (\<lambda>nxt. loop row seg off bits nxt (acc XOR sl_value s)))))
      else Some acc) = Some r"
  show "seg = 0 \<longrightarrow> ex_upper (sl_extent row) < ex_upper sub"
  proof (cases "ex_upper sub \<le> ex_upper (sl_extent row)")
    case True
    then obtain nxt acc' where "loop row seg off bits nxt acc' = Some r" "ex_upper nxt = ex_upper sub + seg"
      using eq by (auto simp: bind_eq_Some_conv dynamic_extent_size_def dynamic_extent_def)
    then show ?thesis using IH by fastforce
  qed simp
qed

text \<open>The value that the row contributes to a hashed field.\<close>

definition row_hash :: "DRAM_ADDRESS_MAPPING \<Rightarrow> nat \<Rightarrow> nat \<Rightarrow> nat \<Rightarrow> address \<Rightarrow> address" where
  "row_hash m seg off bits r = the (swizzle_loop \<lparr>sl_extent = address_slicer m ! SLICER_ROW_IDX, sl_value = r\<rparr> seg off bits
     \<lparr>ex_upper = seg, ex_lower = 0\<rparr> 0)"

lemma swizzle_bits_eq:
  assumes "mapping_ok m" "0 < seg"
  shows "swizzle_bits a seg off fld bits m = Some (fld XOR row_hash m seg off bits (field m SLICER_ROW_IDX a))"
    and "take_bit bits (row_hash m seg off bits r) = row_hash m seg off bits r"
proof -
  have "\<exists>g. take_bit bits g = g \<and> (\<forall>acc. swizzle_loop \<lparr>sl_extent = address_slicer m ! SLICER_ROW_IDX, sl_value = r\<rparr> seg off bits
      \<lparr>ex_upper = seg, ex_lower = 0\<rparr> acc = Some (acc XOR g))" for r
    by (rule swizzle_loop_xor) (use assms mapping_extents[OF assms(1), of SLICER_ROW_IDX] in \<open>simp_all add: SLICER_ROW_IDX_def\<close>)
  then have 1: "take_bit bits (row_hash m seg off bits r) = row_hash m seg off bits r \<and>
      (\<forall>acc. swizzle_loop \<lparr>sl_extent = address_slicer m ! SLICER_ROW_IDX, sl_value = r\<rparr> seg off bits
        \<lparr>ex_upper = seg, ex_lower = 0\<rparr> acc = Some (acc XOR row_hash m seg off bits r))" for r
    unfolding row_hash_def by (metis option.sel xor.left_neutral)
  show "take_bit bits (row_hash m seg off bits r) = row_hash m seg off bits r" using 1 by blast
  show "swizzle_bits a seg off fld bits m = Some (fld XOR row_hash m seg off bits (field m SLICER_ROW_IDX a))"
    using 1 mapping_slice[OF assms(1), of SLICER_ROW_IDX]
    by (simp add: swizzle_bits_def dynamic_extent_size_def dynamic_extent_def SLICER_ROW_IDX_def)
qed

text \<open>The number of bits that the bank and its group take from each segment of a row.\<close>

definition hash_bits :: "DRAM_ADDRESS_MAPPING \<Rightarrow> nat" where
  "hash_bits m = field_bits m SLICER_BANKGROUP_IDX + field_bits m SLICER_BANK_IDX"

lemma coordinates:
  assumes "mapping_ok m" "0 < hash_bits m"
  shows "get_channel m a = Some (field m SLICER_CHANNEL_IDX a XOR
      row_hash m 1 0 (field_bits m SLICER_CHANNEL_IDX) (field m SLICER_ROW_IDX a))"
    and "get_bankgroup m a = Some (field m SLICER_BANKGROUP_IDX a XOR
      row_hash m (hash_bits m) 0 (field_bits m SLICER_BANKGROUP_IDX) (field m SLICER_ROW_IDX a))"
    and "get_bank m a = Some (field m SLICER_BANK_IDX a XOR
      row_hash m (hash_bits m) (field_bits m SLICER_BANKGROUP_IDX) (field_bits m SLICER_BANK_IDX) (field m SLICER_ROW_IDX a))"
    and "get_rank m a = Some (field m SLICER_RANK_IDX a)" "get_row m a = Some (field m SLICER_ROW_IDX a)"
      "get_column m a = Some (field m SLICER_COLUMN_IDX a)"
  using assms get_field_eq[OF assms(1)] swizzle_bits_eq(1)[OF assms(1)]
  by (simp_all add: get_channel_def get_bankgroup_def get_bank_def get_rank_def get_row_def get_column_def hash_bits_def Let_def
      SLICER_CHANNEL_IDX_def SLICER_BANKGROUP_IDX_def SLICER_BANK_IDX_def SLICER_RANK_IDX_def SLICER_COLUMN_IDX_def
      SLICER_ROW_IDX_def del: One_nat_def)

lemma field_less: "unat (field m i a) < 2 ^ field_bits m i"
  unfolding field_def by (simp add: unsigned_take_bit_eq)

lemma xor_less:
  fixes x y :: address
  assumes "take_bit n x = x" "take_bit n y = y"
  shows "unat (x XOR y) < 2 ^ n"
proof -
  have "unat (x XOR y) = take_bit n (unat (x XOR y))"
    unfolding unsigned_take_bit_eq[symmetric] by (simp add: take_bit_xor assms)
  then show ?thesis by (metis take_bit_nat_less_exp)
qed

lemma coordinate_bounds:
  assumes "mapping_ok m" "0 < hash_bits m"
  shows "get_channel m a = Some c \<Longrightarrow> unat c < dram_channels m" "get_bankgroup m a = Some g \<Longrightarrow> unat g < dram_bankgroups m"
    "get_bank m a = Some b \<Longrightarrow> unat b < dram_banks m" "get_rank m a = Some r \<Longrightarrow> unat r < dram_ranks m"
proof -
  have hashed: "unat (field m i a XOR row_hash m seg off (field_bits m i) r) < 2 ^ field_bits m i" if "0 < seg" for i seg off r
    by (rule xor_less) (use that swizzle_bits_eq(2)[OF assms(1)] in \<open>simp_all add: field_def\<close>)
  show "unat c < dram_channels m" if "get_channel m a = Some c"
    using that hashed[of 1] unfolding coordinates(1)[OF assms] dram_channels_def by (metis option.inject zero_less_one)
  show "unat g < dram_bankgroups m" if "get_bankgroup m a = Some g"
    using that hashed[OF assms(2)] unfolding coordinates(2)[OF assms] dram_bankgroups_def by (metis option.inject)
  show "unat b < dram_banks m" if "get_bank m a = Some b"
    using that hashed[OF assms(2)] unfolding coordinates(3)[OF assms] dram_banks_def by (metis option.inject)
  show "unat r < dram_ranks m" if "get_rank m a = Some r"
    using that field_less unfolding coordinates(4)[OF assms] dram_ranks_def by (metis option.inject)
qed

text \<open>Two addresses agree from a bit on when their fields from there agree and their bits above the mapping.\<close>

lemma field_bit:
  assumes "field m i a = field m i b" "ex_lower (address_slicer m ! i) \<le> n" "n < ex_upper (address_slicer m ! i)"
  shows "bit a n = bit b n"
proof -
  have "bit (field m i a) (n - ex_lower (address_slicer m ! i)) = bit (field m i b) (n - ex_lower (address_slicer m ! i))"
    using assms(1) by simp
  then show ?thesis using assms(2,3) diff_less_mono[OF assms(3,2)] by (simp add: field_def field_bits_def extent_size_def bit_take_bit_iff bit_drop_bit_eq)
qed

lemma field_of_upper:
  assumes "drop_bit n a = drop_bit n b" "n \<le> ex_lower (address_slicer m ! i)"
  shows "field m i a = field m i b"
proof -
  have "drop_bit (ex_lower (address_slicer m ! i)) a = drop_bit (ex_lower (address_slicer m ! i) - n) (drop_bit n a)" for a :: address
    using assms(2) by simp
  then show ?thesis unfolding field_def using assms(1) by metis
qed

lemma crossing:
  fixes f :: "nat \<Rightarrow> nat"
  assumes "f 0 \<le> n" "n < f k"
  shows "\<exists>i<k. f i \<le> n \<and> n < f (Suc i)"
  using assms
proof (induction k)
  case (Suc k)
  then show ?case by (cases "n < f k") (auto intro: less_SucI)
qed simp

lemma fields_determine:
  assumes "mapping_ok m"
  shows "drop_bit (field_bits m SLICER_OFFSET_IDX) a = drop_bit (field_bits m SLICER_OFFSET_IDX) b \<longleftrightarrow>
    (\<forall>i\<in>{1..6}. field m i a = field m i b) \<and> drop_bit (ex_upper (address_slicer m ! SLICER_ROW_IDX)) a = drop_bit (ex_upper (address_slicer m ! SLICER_ROW_IDX)) b"
    (is "?l \<longleftrightarrow> ?r")
proof -
  let ?e = "\<lambda>i. ex_upper (address_slicer m ! i)"
  have o: "field_bits m SLICER_OFFSET_IDX = ?e 0" using assms by (simp add: field_bits_def extent_size_def mapping_ok_def SLICER_OFFSET_IDX_def)
  have low: "ex_lower (address_slicer m ! Suc i) = ?e i" if "i < 6" for i using assms that by (simp add: mapping_ok_def)
  have mono: "?e 0 \<le> ?e 1 \<and> ?e 1 \<le> ?e 2 \<and> ?e 2 \<le> ?e 3 \<and> ?e 3 \<le> ?e 4 \<and> ?e 4 \<le> ?e 5 \<and> ?e 5 \<le> ?e 6"
    using assms low unfolding mapping_ok_def all_less_7 all_less_6 by (simp add: eval_nat_numeral)
  show ?thesis
  proof
    assume l: ?l
    have "?e 0 \<le> ex_lower (address_slicer m ! i)" if "i \<in> {1..6}" for i
      using that mono low[of "i - 1"] by (auto simp: atLeastAtMost_iff le_Suc_eq numeral_eq_Suc)
    then have "\<forall>i\<in>{1..6}. field m i a = field m i b" using field_of_upper[OF l[unfolded o]] by blast
    moreover have "drop_bit (?e 6) a = drop_bit (?e 6) b"
    proof -
      have "drop_bit (?e 6) a = drop_bit (?e 6 - ?e 0) (drop_bit (?e 0) a)" for a :: address using mono by simp
      then show ?thesis using l[unfolded o] by metis
    qed
    ultimately show ?r by (simp add: SLICER_ROW_IDX_def)
  next
    assume r: ?r
    have "bit a n = bit b n" if n: "?e 0 \<le> n" for n
    proof (cases "?e 6 \<le> n")
      case True
      have "bit (drop_bit (?e 6) a) (n - ?e 6) = bit (drop_bit (?e 6) b) (n - ?e 6)" using r by (simp add: SLICER_ROW_IDX_def)
      then show ?thesis using True by (simp add: bit_drop_bit_eq)
    next
      case False
      then obtain i where i: "i < 6" "?e i \<le> n" "n < ?e (Suc i)" using crossing[of ?e n 6] n by auto
      then show ?thesis using field_bit[of m "Suc i" a b n] low[of i] r by auto
    qed
    then show ?l unfolding o by (intro bit_eqI) (simp add: bit_drop_bit_eq)
  qed
qed

section \<open>Properties\<close>

lemma xor_cancel: "x XOR h = y XOR h \<longleftrightarrow> x = y" for x :: address
  by (auto dest: arg_cong[of _ _ "\<lambda>z. z XOR h"] simp: xor.assoc)

text \<open>C17. The mapping loses no address: two addresses lie in one block, for the collision check, exactly when they
  have the same channel, bank group, bank, rank, row and column and the same bits above the mapping;
  the hashing of the channel and the banks never maps two blocks to one place.\<close>

theorem address_mapping_injective:
  assumes "mapping_ok m" and "0 < hash_bits m"
  shows "is_collision m a b = Some
    (get_channel m a = get_channel m b \<and> get_bankgroup m a = get_bankgroup m b \<and> get_bank m a = get_bank m b
      \<and> get_rank m a = get_rank m b \<and> get_row m a = get_row m b \<and> get_column m a = get_column m b
      \<and> drop_bit (bit_size (address_slicer m)) a = drop_bit (bit_size (address_slicer m)) b)"
proof -
  let ?n = "field_bits m SLICER_OFFSET_IDX"
  have e: "ex_upper (address_slicer m ! 6) = bit_size (address_slicer m)"
    using assms(1) mapping_size by blast
  have "?n \<le> 64" using mapping_extents[OF assms(1), of 0] by (auto simp: field_bits_def extent_size_def SLICER_OFFSET_IDX_def)
  then have "is_collision m a b = Some (drop_bit ?n a = drop_bit ?n b)"
    using slice_eq_upper[of ?n a b] by (simp add: is_collision_def Let_def)
  moreover have six: "(\<forall>i\<in>{1..6}. P i) \<longleftrightarrow> P 1 \<and> P 2 \<and> P 3 \<and> P 4 \<and> P 5 \<and> P (6::nat)" for P
    by (simp add: numeral_eq_Suc atLeastAtMostSuc_conv conj_ac)
  have "drop_bit ?n a = drop_bit ?n b \<longleftrightarrow> (field m 1 a = field m 1 b \<and> field m 2 a = field m 2 b \<and> field m 3 a = field m 3 b
      \<and> field m 4 a = field m 4 b \<and> field m 5 a = field m 5 b \<and> field m 6 a = field m 6 b)
      \<and> drop_bit (bit_size (address_slicer m)) a = drop_bit (bit_size (address_slicer m)) b"
    unfolding fields_determine[OF assms(1)] SLICER_ROW_IDX_def e six by (simp only: conj_assoc)
  ultimately show ?thesis unfolding coordinates[OF assms] slicer_idx_defs option.inject
    by (cases "field m 6 a = field m 6 b") (simp_all only: xor_cancel simp_thms conj_ac)
qed

text \<open>C18. With a single bank, in a single bank group, the hash takes no bits from the row and its loop does not
  end: the bank and the bank group of no address are ever computed.\<close>

theorem single_bank_never_returns:
  assumes "hash_bits m = 0"
  shows "get_bank m a = None \<and> get_bankgroup m a = None"
proof -
  have "swizzle_bits a 0 off fld bits m = None" for off fld bits
  proof (rule ccontr)
    assume "swizzle_bits a 0 off fld bits m \<noteq> None"
    then show False
      by (auto simp: swizzle_bits_def bind_eq_Some_conv dynamic_extent_size_def dynamic_extent_def dest: swizzle_loop_empty)
  qed
  then show ?thesis using assms by (simp add: get_bank_def get_bankgroup_def hash_bits_def Let_def split: bind_splits)
qed

text \<open>Two channels of eight banks with 16-byte blocks, and a channel with a single bank.\<close>

definition sample_mapping :: DRAM_ADDRESS_MAPPING where
  "sample_mapping = the (new_DRAM_ADDRESS_MAPPING 16 2 8 2 4 2 32 1 16)"

definition single_bank_mapping :: DRAM_ADDRESS_MAPPING where
  "single_bank_mapping = the (new_DRAM_ADDRESS_MAPPING 16 2 8 1 1 1 32 1 16)"

lemma sample_mapping_eq:
  "sample_mapping = \<lparr>address_slicer = [\<lparr>ex_upper = 4, ex_lower = 0\<rparr>, \<lparr>ex_upper = 5, ex_lower = 4\<rparr>, \<lparr>ex_upper = 7, ex_lower = 5\<rparr>,
     \<lparr>ex_upper = 8, ex_lower = 7\<rparr>, \<lparr>ex_upper = 10, ex_lower = 8\<rparr>, \<lparr>ex_upper = 10, ex_lower = 10\<rparr>, \<lparr>ex_upper = 14, ex_lower = 10\<rparr>],
     prefetch_size = 8\<rparr>"
  by code_simp

lemma sample_mapping_ok: "mapping_ok sample_mapping" "hash_bits sample_mapping = 3"
  unfolding mapping_ok_def hash_bits_def all_less_7 all_less_6 sample_mapping_eq
  by (simp_all add: field_bits_def extent_size_def slicer_idx_defs)

lemma address_mapping_injective_witness:
  "is_collision sample_mapping 0x5f 0x52 = Some True \<and> get_bank sample_mapping 0x5f = get_bank sample_mapping 0x52"
proof -
  have "is_collision sample_mapping 0x5f 0x52 = Some True" unfolding sample_mapping_eq by code_simp
  then show ?thesis using address_mapping_injective[of sample_mapping "0x5f" "0x52"] sample_mapping_ok by simp
qed

lemma single_bank_never_returns_witness: "get_bank single_bank_mapping 0x40 = None"
proof -
  have "hash_bits single_bank_mapping = 0" by code_simp
  then show ?thesis using single_bank_never_returns by blast
qed

end
