(* ===== verification/Dram.thy ===== *)
theory Dram
  imports Dram_Mapping Channel Bandwidth Waitable
begin

text \<open>
  The memory controller, \<open>src/dram_controller.cc\<close> and \<open>inc/dram_controller.h\<close>: channels of banks behind one
  data bus each.  A channel is modelled with the upper levels it answers (numbered in the order of their
  addresses, and \<open>to_return\<close> lists the numbers).  The iterators of the code are positions: of a bank, and of
  a slot of one of the two queues.  The floating-point refresh cycle time \<open>tRFC\<close> is given as a duration.  An
  assertion, an exception and an access outside a vector or to an empty slot are \<open>None\<close>.
\<close>

section \<open>State\<close>

record dram_request =
  dq_scheduled :: bool
  dq_forward_checked :: bool
  dq_asid :: "8 word \<times> 8 word"
  dq_pf_metadata :: "32 word"
  dq_address :: address
  dq_v_address :: address
  dq_data :: address
  dq_ready_time :: time
  dq_deps :: "nat list"
  dq_to_return :: "nat list"

definition dram_request_of :: "request \<Rightarrow> dram_request" where
  "dram_request_of req = \<lparr>dq_scheduled = False, dq_forward_checked = False, dq_asid = rq_asid req, dq_pf_metadata = rq_pf_metadata req,
     dq_address = rq_address req, dq_v_address = rq_address req, dq_data = rq_data req, dq_ready_time = time_sentinel,
     dq_deps = rq_deps req, dq_to_return = []\<rparr>"

type_synonym dram_queue = "dram_request option list"

text \<open>A slot of the write queue (\<open>True\<close>) or of the read queue.\<close>

type_synonym slot = "bool \<times> nat"

record BANK_REQUEST =
  br_valid :: bool
  row_buffer_hit :: bool
  need_refresh :: bool
  under_refresh :: bool
  open_row :: "address option"
  br_ready_time :: time
  br_pkt :: "slot option"

definition empty_bank :: BANK_REQUEST where
  "empty_bank = \<lparr>br_valid = False, row_buffer_hit = False, need_refresh = False, under_refresh = False, open_row = None,
     br_ready_time = 0, br_pkt = None\<rparr>"

record dram_stats =
  dbus_cycle_congested :: int
  dbus_count_congested :: nat
  refresh_cycles :: nat
  WQ_ROW_BUFFER_HIT :: nat
  WQ_ROW_BUFFER_MISS :: nat
  RQ_ROW_BUFFER_HIT :: nat
  RQ_ROW_BUFFER_MISS :: nat
  ds_WQ_FULL :: nat

definition zero_dram_stats :: dram_stats where
  "zero_dram_stats = \<lparr>dbus_cycle_congested = 0, dbus_count_congested = 0, refresh_cycles = 0, WQ_ROW_BUFFER_HIT = 0,
     WQ_ROW_BUFFER_MISS = 0, RQ_ROW_BUFFER_HIT = 0, RQ_ROW_BUFFER_MISS = 0, ds_WQ_FULL = 0\<rparr>"

record DRAM_CHANNEL =
  d_clock_period :: time
  d_current_time :: time
  d_warmup :: bool
  d_mapping :: DRAM_ADDRESS_MAPPING
  d_WQ :: dram_queue
  d_RQ :: dram_queue
  bank_request :: "BANK_REQUEST list"
  active_request :: "nat option"
  bankgroup_readytime :: "time list"
  write_mode :: bool
  dbus_cycle_available :: time
  refresh_row :: nat
  last_refresh :: time
  DRAM_ROWS_PER_REFRESH :: nat
  d_roi_stats :: dram_stats
  d_sim_stats :: dram_stats
  tRP :: time
  tRCD :: time
  tCAS :: time
  tREF :: time
  tRFC :: time
  DRAM_DBUS_TURN_AROUND_TIME :: time
  DRAM_DBUS_RETURN_TIME :: time
  DRAM_DBUS_BANKGROUP_STALL :: time
  d_data_bus_period :: time

text \<open>Times are in picoseconds; the refresh period is in microseconds and is divided as such.\<close>

definition new_DRAM_CHANNEL :: "time \<Rightarrow> time \<Rightarrow> nat \<Rightarrow> nat \<Rightarrow> nat \<Rightarrow> nat \<Rightarrow> nat \<Rightarrow> nat \<Rightarrow> time \<Rightarrow> nat \<Rightarrow> nat
    \<Rightarrow> DRAM_ADDRESS_MAPPING \<Rightarrow> DRAM_CHANNEL option" where
  "new_DRAM_CHANNEL dbus_period mc_period t_rp t_rcd t_cas t_ras refresh_period refreshes_per_period t_rfc rq_size wq_size m =
     (if refreshes_per_period = 0 then None
      else Some \<lparr>d_clock_period = mc_period, d_current_time = 0, d_warmup = True, d_mapping = m, d_WQ = replicate wq_size None,
        d_RQ = replicate rq_size None, bank_request = replicate (dram_ranks m * dram_banks m * dram_bankgroups m) empty_bank,
        active_request = None, bankgroup_readytime = replicate (dram_ranks m * dram_bankgroups m) 0, write_mode = False,
        dbus_cycle_available = 0, refresh_row = 0, last_refresh = 0, DRAM_ROWS_PER_REFRESH = dram_rows m div refreshes_per_period,
        d_roi_stats = zero_dram_stats, d_sim_stats = zero_dram_stats, tRP = int t_rp * mc_period, tRCD = int t_rcd * mc_period,
        tCAS = int t_cas * mc_period, tREF = int (refresh_period div refreshes_per_period) * 10 ^ 6, tRFC = t_rfc,
        DRAM_DBUS_TURN_AROUND_TIME = int t_ras * mc_period, DRAM_DBUS_RETURN_TIME = dbus_period * int (prefetch_size m),
        DRAM_DBUS_BANKGROUP_STALL = dbus_period * int (max (prefetch_size m div 3) 1), d_data_bus_period = dbus_period\<rparr>)"

section \<open>Slots, banks and answers\<close>

definition queue_of :: "bool \<Rightarrow> DRAM_CHANNEL \<Rightarrow> dram_queue" where
  "queue_of w d = (if w then d_WQ d else d_RQ d)"

definition set_slot :: "slot \<Rightarrow> dram_request option \<Rightarrow> DRAM_CHANNEL \<Rightarrow> DRAM_CHANNEL" where
  "set_slot s e d = (case s of (w, j) \<Rightarrow> if w then d\<lparr>d_WQ := (d_WQ d)[j := e]\<rparr> else d\<lparr>d_RQ := (d_RQ d)[j := e]\<rparr>)"

text \<open>The value of the packet of a bank.\<close>

definition pkt_value :: "DRAM_CHANNEL \<Rightarrow> BANK_REQUEST \<Rightarrow> (slot \<times> dram_request) option" where
  "pkt_value d b = do {
     (w, j) \<leftarrow> br_pkt b;
     e \<leftarrow> (if j < length (queue_of w d) then queue_of w d ! j else None);
     Some ((w, j), e) }"

definition bankgroup_request_index :: "DRAM_CHANNEL \<Rightarrow> address \<Rightarrow> nat option" where
  "bankgroup_request_index d a = do {
     op_rank \<leftarrow> get_rank (d_mapping d) a;
     op_bankgroup \<leftarrow> get_bankgroup (d_mapping d) a;
     Some (unat op_rank * dram_bankgroups (d_mapping d) + unat op_bankgroup) }"

definition bank_request_index :: "DRAM_CHANNEL \<Rightarrow> address \<Rightarrow> nat option" where
  "bank_request_index d a = do {
     op_bank \<leftarrow> get_bank (d_mapping d) a;
     group \<leftarrow> bankgroup_request_index d a;
     Some (group * dram_banks (d_mapping d) + unat op_bank) }"

definition dram_response :: "dram_request \<Rightarrow> address \<Rightarrow> response" where
  "dram_response e data = \<lparr>rs_address = dq_address e, rs_v_address = dq_v_address e, rs_data = data,
     rs_pf_metadata = dq_pf_metadata e, rs_deps = dq_deps e\<rparr>"

definition answer_entry :: "dram_request \<Rightarrow> address \<Rightarrow> channel list \<Rightarrow> channel list" where
  "answer_entry e data uls = fold (\<lambda>i uls. uls[i := (uls ! i)\<lparr>returned := returned (uls ! i) @ [dram_response e data]\<rparr>])
     (dq_to_return e) uls"

definition on_dram_stats :: "(dram_stats \<Rightarrow> dram_stats) \<Rightarrow> DRAM_CHANNEL \<Rightarrow> DRAM_CHANNEL" where
  "on_dram_stats f d = d\<lparr>d_sim_stats := f (d_sim_stats d)\<rparr>"

definition occupancy :: "dram_queue \<Rightarrow> nat" where
  "occupancy q = length (filter (\<lambda>x. x \<noteq> None) q)"

section \<open>The steps of a cycle\<close>

text \<open>During warmup every request is answered at once.\<close>

definition warmup_answers :: "DRAM_CHANNEL \<times> channel list \<Rightarrow> int \<times> DRAM_CHANNEL \<times> channel list" where
  "warmup_answers s = (case s of (d, uls) \<Rightarrow>
     if d_warmup d
     then (int (occupancy (d_RQ d) + occupancy (d_WQ d)),
       d\<lparr>d_RQ := map (\<lambda>_. None) (d_RQ d), d_WQ := map (\<lambda>_. None) (d_WQ d)\<rparr>,
       fold (\<lambda>e uls. case e of Some e \<Rightarrow> answer_entry e (dq_data e) uls | None \<Rightarrow> uls) (d_RQ d) uls)
     else (0, d, uls))"

text \<open>\<open>std::find_if\<close> with the check of the collision, over positions of a queue.\<close>

fun find_collision :: "DRAM_ADDRESS_MAPPING \<Rightarrow> address \<Rightarrow> dram_queue \<Rightarrow> nat list \<Rightarrow> nat option option" where
  "find_collision m a q [] = Some None"
| "find_collision m a q (j # js) = (case q ! j of
     None \<Rightarrow> find_collision m a q js
   | Some e \<Rightarrow> Option.bind (is_collision m (dq_address e) a) (\<lambda>c. if c then Some (Some j) else find_collision m a q js))"

text \<open>First the slots before the given one, then those after it.\<close>

definition find_other :: "DRAM_ADDRESS_MAPPING \<Rightarrow> address \<Rightarrow> dram_queue \<Rightarrow> nat \<Rightarrow> nat option option" where
  "find_other m a q i = do {
     found \<leftarrow> find_collision m a q [0..<i];
     (case found of Some j \<Rightarrow> Some (Some j) | None \<Rightarrow> find_collision m a q [Suc i..<length q]) }"

definition write_collision_step :: "nat \<Rightarrow> DRAM_CHANNEL \<Rightarrow> DRAM_CHANNEL option" where
  "write_collision_step i d = (case d_WQ d ! i of
     None \<Rightarrow> Some d
   | Some e \<Rightarrow> if dq_forward_checked e then Some d
       else map_option (\<lambda>found. set_slot (True, i) (if found = None then Some (e\<lparr>dq_forward_checked := True\<rparr>) else None) d)
         (find_other (d_mapping d) (dq_address e) (d_WQ d) i))"

definition check_write_collision :: "DRAM_CHANNEL \<Rightarrow> DRAM_CHANNEL option" where
  "check_write_collision d = fold_option write_collision_step [0..<length (d_WQ d)] d"

definition merge_read :: "dram_request \<Rightarrow> dram_request \<Rightarrow> dram_request" where
  "merge_read source found = found\<lparr>dq_deps := set_union (dq_deps found) (dq_deps source),
     dq_to_return := set_union (dq_to_return found) (dq_to_return source)\<rparr>"

definition read_collision_step :: "nat \<Rightarrow> DRAM_CHANNEL \<times> channel list \<Rightarrow> (DRAM_CHANNEL \<times> channel list) option" where
  "read_collision_step i s = (case s of (d, uls) \<Rightarrow> (case d_RQ d ! i of
     None \<Rightarrow> Some (d, uls)
   | Some e \<Rightarrow> if dq_forward_checked e then Some (d, uls)
       else do {
         in_wq \<leftarrow> find_collision (d_mapping d) (dq_address e) (d_WQ d) [0..<length (d_WQ d)];
         (case in_wq of
            Some j \<Rightarrow> do { w \<leftarrow> d_WQ d ! j; Some (set_slot (False, i) None d, answer_entry e (dq_data w) uls) }
          | None \<Rightarrow> do {
              found \<leftarrow> find_other (d_mapping d) (dq_address e) (d_RQ d) i;
              (case found of
                 Some j \<Rightarrow> do {
                   f \<leftarrow> d_RQ d ! j;
                   Some (set_slot (False, i) None (set_slot (False, j) (Some (merge_read e f)) d), uls) }
               | None \<Rightarrow> Some (set_slot (False, i) (Some (e\<lparr>dq_forward_checked := True\<rparr>)) d, uls)) }) }))"

definition check_read_collision :: "DRAM_CHANNEL \<times> channel list \<Rightarrow> (DRAM_CHANNEL \<times> channel list) option" where
  "check_read_collision s = fold_option read_collision_step [0..<length (d_RQ (fst s))] s"

text \<open>The request on the data bus is done.\<close>

definition finish_dbus_request :: "DRAM_CHANNEL \<times> channel list \<Rightarrow> (int \<times> DRAM_CHANNEL \<times> channel list) option" where
  "finish_dbus_request s = (case s of (d, uls) \<Rightarrow> (case active_request d of
     None \<Rightarrow> Some (0, d, uls)
   | Some i \<Rightarrow> (let b = bank_request d ! i in
       if br_ready_time b \<le> d_current_time d
       then do {
         (slot, e) \<leftarrow> pkt_value d b;
         Some (1, set_slot slot None (d\<lparr>bank_request := (bank_request d)[i := b\<lparr>br_valid := False\<rparr>], active_request := None\<rparr>),
           answer_entry e (dq_data e) uls) }
       else Some (0, d, uls))))"

definition refresh_due :: "DRAM_CHANNEL \<Rightarrow> bool" where
  "refresh_due d \<longleftrightarrow> last_refresh d + tREF d \<le> d_current_time d"

definition refresh_bank :: "bool \<Rightarrow> DRAM_CHANNEL \<Rightarrow> BANK_REQUEST \<Rightarrow> int \<times> BANK_REQUEST" where
  "refresh_bank due d b = (let
     b = (if due then b\<lparr>need_refresh := True\<rparr> else b);
     (n, b) = (if need_refresh b \<and> \<not> br_valid b
         then (0, b\<lparr>br_ready_time := d_current_time d + tRFC d, need_refresh := False, under_refresh := True\<rparr>)
       else if under_refresh b \<and> br_ready_time b \<le> d_current_time d then (1, b\<lparr>under_refresh := False, open_row := None\<rparr>)
       else (0, b))
   in (n + (if under_refresh b then 1 else 0), b))"

definition schedule_refresh :: "DRAM_CHANNEL \<Rightarrow> int \<times> DRAM_CHANNEL" where
  "schedule_refresh d = (let
     due = refresh_due d;
     d = (if due
       then (let row = refresh_row d + DRAM_ROWS_PER_REFRESH d
         in on_dram_stats (\<lambda>s. s\<lparr>refresh_cycles := refresh_cycles s + 1\<rparr>)
           (d\<lparr>last_refresh := d_current_time d, refresh_row := (if row \<ge> dram_rows (d_mapping d) then row - dram_rows (d_mapping d) else row)\<rparr>))
       else d);
     banks = map (refresh_bank due d) (bank_request d)
   in (sum_list (map fst banks), d\<lparr>bank_request := map snd banks\<rparr>))"

text \<open>A change between reads and writes: all banks but the active one drop their requests.\<close>

definition mode_unbalanced :: "DRAM_CHANNEL \<Rightarrow> bool" where
  "mode_unbalanced d = (let
     DRAM_WRITE_HIGH_WM = length (d_WQ d) * 7 div 8;
     DRAM_WRITE_LOW_WM = length (d_WQ d) * 6 div 8;
     wq_occu = occupancy (d_WQ d);
     rq_occu = occupancy (d_RQ d)
   in (\<not> write_mode d \<and> (wq_occu \<ge> DRAM_WRITE_HIGH_WM \<or> (rq_occu = 0 \<and> wq_occu > 0)))
    \<or> (write_mode d \<and> (wq_occu = 0 \<or> (rq_occu > 0 \<and> wq_occu < DRAM_WRITE_LOW_WM))))"

definition release_bank :: "nat \<Rightarrow> DRAM_CHANNEL \<Rightarrow> DRAM_CHANNEL option" where
  "release_bank i d = (let b = bank_request d ! i in
     if Some i \<noteq> active_request d \<and> br_valid b
     then do {
       (slot, e) \<leftarrow> pkt_value d b;
       let b = (if br_ready_time b < d_current_time d + tCAS d then b\<lparr>open_row := None\<rparr> else b);
       Some (set_slot slot (Some (e\<lparr>dq_scheduled := False, dq_ready_time := d_current_time d\<rparr>))
         (d\<lparr>bank_request := (bank_request d)[i := b\<lparr>br_valid := False\<rparr>]\<rparr>)) }
     else Some d)"

definition swap_write_mode :: "DRAM_CHANNEL \<Rightarrow> DRAM_CHANNEL option" where
  "swap_write_mode d = (if mode_unbalanced d
     then do {
       d \<leftarrow> fold_option release_bank [0..<length (bank_request d)] d;
       Some (d\<lparr>dbus_cycle_available := (case active_request d of
           Some i \<Rightarrow> br_ready_time (bank_request d ! i) | None \<Rightarrow> d_current_time d) + DRAM_DBUS_TURN_AROUND_TIME d,
         write_mode := \<not> write_mode d\<rparr>) }
     else Some d)"

text \<open>The bank that is ready first goes on the bus.\<close>

definition bank_before :: "DRAM_CHANNEL \<Rightarrow> nat \<Rightarrow> nat \<Rightarrow> bool" where
  "bank_before d l r = (let lhs = bank_request d ! l; rhs = bank_request d ! r
     in \<not> br_valid rhs \<or> (br_valid lhs \<and> br_ready_time lhs < br_ready_time rhs))"

definition count_row_buffer :: "bool \<Rightarrow> bool \<Rightarrow> dram_stats \<Rightarrow> dram_stats" where
  "count_row_buffer hit writing s =
     (if hit then (if writing then s\<lparr>WQ_ROW_BUFFER_HIT := WQ_ROW_BUFFER_HIT s + 1\<rparr> else s\<lparr>RQ_ROW_BUFFER_HIT := RQ_ROW_BUFFER_HIT s + 1\<rparr>)
      else if writing then s\<lparr>WQ_ROW_BUFFER_MISS := WQ_ROW_BUFFER_MISS s + 1\<rparr> else s\<lparr>RQ_ROW_BUFFER_MISS := RQ_ROW_BUFFER_MISS s + 1\<rparr>)"

definition start_transfer :: "nat \<Rightarrow> DRAM_CHANNEL \<Rightarrow> DRAM_CHANNEL option" where
  "start_transfer i d = (let b = bank_request d ! i in do {
     (slot, e) \<leftarrow> pkt_value d b;
     op_bankgroup \<leftarrow> bankgroup_request_index d (dq_address e);
     (if length (bankgroup_readytime d) \<le> op_bankgroup then None
      else (let
          ready = bankgroup_readytime d ! op_bankgroup;
          start = (if ready > d_current_time d then ready else d_current_time d)
        in Some (on_dram_stats (count_row_buffer (row_buffer_hit b) (write_mode d))
          (d\<lparr>active_request := Some i,
             bank_request := (bank_request d)[i := b\<lparr>br_ready_time := start + DRAM_DBUS_RETURN_TIME d\<rparr>],
             bankgroup_readytime := (bankgroup_readytime d)
               [op_bankgroup := d_current_time d + DRAM_DBUS_RETURN_TIME d + DRAM_DBUS_BANKGROUP_STALL d]\<rparr>)))) })"

definition count_congestion :: "DRAM_CHANNEL \<Rightarrow> DRAM_CHANNEL" where
  "count_congestion d = (let until = (case active_request d of Some i \<Rightarrow> br_ready_time (bank_request d ! i) | None \<Rightarrow> dbus_cycle_available d)
     in on_dram_stats (\<lambda>s. s\<lparr>dbus_cycle_congested := dbus_cycle_congested s + (until - d_current_time d) sdiv d_data_bus_period d,
       dbus_count_congested := dbus_count_congested s + 1\<rparr>) d)"

definition populate_dbus :: "DRAM_CHANNEL \<Rightarrow> (int \<times> DRAM_CHANNEL) option" where
  "populate_dbus d = (if bank_request d = [] then None
     else (let i = min_element (bank_before d) 0 (length (bank_request d)); b = bank_request d ! i in
       if br_valid b \<and> br_ready_time b \<le> d_current_time d
       then (if active_request d = None \<and> dbus_cycle_available d \<le> d_current_time d
         then map_option (Pair 1) (start_transfer i d)
         else Some (0, count_congestion d))
       else Some (0, d)))"

text \<open>The packet to schedule: one whose bank is free, the oldest of them; packets that are scheduled already come last.\<close>

definition next_schedule :: "DRAM_CHANNEL \<Rightarrow> dram_request option \<Rightarrow> dram_request option \<Rightarrow> bool option" where
  "next_schedule d lhs rhs = (case rhs of None \<Rightarrow> Some True | Some r \<Rightarrow> if dq_scheduled r then Some True
     else (case lhs of None \<Rightarrow> Some False | Some l \<Rightarrow> if dq_scheduled l then Some False
       else do {
         lop_idx \<leftarrow> bank_request_index d (dq_address l);
         rop_idx \<leftarrow> bank_request_index d (dq_address r);
         (if length (bank_request d) \<le> lop_idx \<or> length (bank_request d) \<le> rop_idx then None
          else (let rready = (\<not> br_valid (bank_request d ! rop_idx)); lready = (\<not> br_valid (bank_request d ! lop_idx))
            in Some (if rready = lready then dq_ready_time l \<le> dq_ready_time r else lready))) }))"

fun scan_packets :: "DRAM_CHANNEL \<Rightarrow> dram_queue \<Rightarrow> nat \<Rightarrow> nat list \<Rightarrow> nat option" where
  "scan_packets d q smallest [] = Some smallest"
| "scan_packets d q smallest (j # js) =
     Option.bind (next_schedule d (q ! j) (q ! smallest)) (\<lambda>less. scan_packets d q (if less then j else smallest) js)"

definition schedule_packet :: "DRAM_CHANNEL \<Rightarrow> slot option" where
  "schedule_packet d = (let q = queue_of (write_mode d) d
     in if q = [] then None else map_option (Pair (write_mode d)) (scan_packets d q 0 [1..<length q]))"

definition service_packet :: "slot \<Rightarrow> DRAM_CHANNEL \<Rightarrow> (int \<times> DRAM_CHANNEL) option" where
  "service_packet pkt d = (case pkt of (w, j) \<Rightarrow> (case queue_of w d ! j of
     None \<Rightarrow> Some (0, d)
   | Some e \<Rightarrow> if dq_ready_time e > d_current_time d then Some (0, d)
       else do {
         op_row \<leftarrow> get_row (d_mapping d) (dq_address e);
         op_idx \<leftarrow> bank_request_index d (dq_address e);
         (if length (bank_request d) \<le> op_idx then None
          else (let b = bank_request d ! op_idx in
            if \<not> br_valid b \<and> \<not> under_refresh b
            then (let
                hit = (open_row b = Some op_row);
                row_charge_delay = (if open_row b \<noteq> None then tRP d + tRCD d else tRCD d);
                b = \<lparr>br_valid = True, row_buffer_hit = hit, need_refresh = False, under_refresh = False, open_row = Some op_row,
                  br_ready_time = d_current_time d + tCAS d + (if hit then 0 else row_charge_delay), br_pkt = Some pkt\<rparr>
              in Some (1, set_slot pkt (Some (e\<lparr>dq_scheduled := True, dq_ready_time := time_sentinel\<rparr>))
                  (d\<lparr>bank_request := (bank_request d)[op_idx := b]\<rparr>)))
            else Some (0, d))) }))"

definition dram_operate :: "DRAM_CHANNEL \<times> channel list \<Rightarrow> (int \<times> DRAM_CHANNEL \<times> channel list) option" where
  "dram_operate s = do {
     let (p1, d, uls) = warmup_answers s;
     d \<leftarrow> check_write_collision d;
     (d, uls) \<leftarrow> check_read_collision (d, uls);
     (p2, d, uls) \<leftarrow> finish_dbus_request (d, uls);
     d \<leftarrow> swap_write_mode d;
     let (p3, d) = schedule_refresh d;
     (p4, d) \<leftarrow> populate_dbus d;
     pkt \<leftarrow> schedule_packet d;
     (p5, d) \<leftarrow> service_packet pkt d;
     Some (p1 + p2 + p3 + p4 + p5, d, uls) }"

definition dram_tick :: "DRAM_CHANNEL \<times> channel list \<Rightarrow> (int \<times> DRAM_CHANNEL \<times> channel list) option" where
  "dram_tick s = dram_operate (apfst (\<lambda>d. d\<lparr>d_current_time := d_current_time d + d_clock_period d\<rparr>) s)"

definition dram_end_phase :: "DRAM_CHANNEL \<Rightarrow> DRAM_CHANNEL" where
  "dram_end_phase d = d\<lparr>d_roi_stats := d_sim_stats d\<rparr>"

definition bank_request_capacity :: "DRAM_CHANNEL \<Rightarrow> nat" where "bank_request_capacity d = length (bank_request d)"
definition bankgroup_request_capacity :: "DRAM_CHANNEL \<Rightarrow> nat" where "bankgroup_request_capacity d = length (bankgroup_readytime d)"
definition dram_density :: "DRAM_CHANNEL \<Rightarrow> nat" where
  "dram_density d = dram_rows (d_mapping d) * dram_columns (d_mapping d) * dram_banks (d_mapping d) * dram_bankgroups (d_mapping d)"

section \<open>The controller\<close>

record MEMORY_CONTROLLER =
  mc_clock_period :: time
  mc_current_time :: time
  mc_warmup :: bool
  mc_mapping :: DRAM_ADDRESS_MAPPING
  mc_queues :: "channel list"
  mc_channels :: "DRAM_CHANNEL list"

definition new_MEMORY_CONTROLLER :: "time \<Rightarrow> time \<Rightarrow> nat \<Rightarrow> nat \<Rightarrow> nat \<Rightarrow> nat \<Rightarrow> nat \<Rightarrow> channel list \<Rightarrow> nat \<Rightarrow> nat \<Rightarrow> nat \<Rightarrow> nat
    \<Rightarrow> nat \<Rightarrow> nat \<Rightarrow> nat \<Rightarrow> nat \<Rightarrow> nat \<Rightarrow> nat \<Rightarrow> time \<Rightarrow> nat \<Rightarrow> MEMORY_CONTROLLER option" where
  "new_MEMORY_CONTROLLER dbus_period mc_period t_rp t_rcd t_cas t_ras refresh_period uls rq_size wq_size chans chan_width
       rws cols rks bgs bks refreshes_per_period t_rfc block_size = do {
     m \<leftarrow> new_DRAM_ADDRESS_MAPPING block_size chan_width (block_size div chan_width) chans bgs bks cols rks rws;
     ds \<leftarrow> those (replicate chans
       (new_DRAM_CHANNEL dbus_period mc_period t_rp t_rcd t_cas t_ras refresh_period refreshes_per_period t_rfc rq_size wq_size m));
     Some \<lparr>mc_clock_period = mc_period, mc_current_time = 0, mc_warmup = True, mc_mapping = m, mc_queues = uls, mc_channels = ds\<rparr> }"

definition first_empty :: "dram_queue \<Rightarrow> nat option" where
  "first_empty q = find_if (\<lambda>i. q ! i = None) 0 (length q)"

definition mc_add_rq :: "nat \<Rightarrow> request \<Rightarrow> MEMORY_CONTROLLER \<Rightarrow> (bool \<times> MEMORY_CONTROLLER) option" where
  "mc_add_rq ul packet c = do {
     chan \<leftarrow> map_option unat (get_channel (mc_mapping c) (rq_address packet));
     (if length (mc_channels c) \<le> chan then None
      else (let d = mc_channels c ! chan in Some (case first_empty (d_RQ d) of
          None \<Rightarrow> (False, c)
        | Some i \<Rightarrow> (let e = (dram_request_of packet)\<lparr>dq_forward_checked := False, dq_scheduled := False, dq_ready_time := mc_current_time c\<rparr>;
              e = (if rq_response_requested packet then e\<lparr>dq_to_return := [ul]\<rparr> else e)
            in (True, c\<lparr>mc_channels := (mc_channels c)[chan := set_slot (False, i) (Some e) d]\<rparr>))))) }"

definition mc_add_wq :: "request \<Rightarrow> MEMORY_CONTROLLER \<Rightarrow> (bool \<times> MEMORY_CONTROLLER) option" where
  "mc_add_wq packet c = do {
     chan \<leftarrow> map_option unat (get_channel (mc_mapping c) (rq_address packet));
     (if length (mc_channels c) \<le> chan then None
      else (let d = mc_channels c ! chan in Some (case first_empty (d_WQ d) of
          None \<Rightarrow> (False, c\<lparr>mc_channels := (mc_channels c)[chan := on_dram_stats (\<lambda>s. s\<lparr>ds_WQ_FULL := ds_WQ_FULL s + 1\<rparr>) d]\<rparr>)
        | Some i \<Rightarrow> (let e = (dram_request_of packet)\<lparr>dq_forward_checked := False, dq_scheduled := False, dq_ready_time := mc_current_time c\<rparr>
            in (True, c\<lparr>mc_channels := (mc_channels c)[chan := set_slot (True, i) (Some e) d]\<rparr>))))) }"

text \<open>The requests of an upper level are taken from its queues until one is refused.\<close>

definition initiate_from :: "nat \<Rightarrow> MEMORY_CONTROLLER \<Rightarrow> MEMORY_CONTROLLER option" where
  "initiate_from i c = do {
     (_, rest, c) \<leftarrow> while_ok (mc_add_rq i) (RQ (mc_queues c ! i)) c;
     let c = c\<lparr>mc_queues := (mc_queues c)[i := (mc_queues c ! i)\<lparr>RQ := rest\<rparr>]\<rparr>;
     (_, rest, c) \<leftarrow> while_ok (mc_add_rq i) (PQ (mc_queues c ! i)) c;
     let c = c\<lparr>mc_queues := (mc_queues c)[i := (mc_queues c ! i)\<lparr>PQ := rest\<rparr>]\<rparr>;
     (_, rest, c) \<leftarrow> while_ok mc_add_wq (WQ (mc_queues c ! i)) c;
     Some (c\<lparr>mc_queues := (mc_queues c)[i := (mc_queues c ! i)\<lparr>WQ := rest\<rparr>]\<rparr>) }"

definition initiate_requests :: "MEMORY_CONTROLLER \<Rightarrow> MEMORY_CONTROLLER option" where
  "initiate_requests c = fold_option initiate_from [0..<length (mc_queues c)] c"

definition mc_operate :: "MEMORY_CONTROLLER \<Rightarrow> (int \<times> MEMORY_CONTROLLER) option" where
  "mc_operate c = do {
     c \<leftarrow> initiate_requests c;
     (ds, progress, uls) \<leftarrow> map_option_state (\<lambda>d (progress, uls). map_option (\<lambda>(p, d, uls). (d, progress + p, uls)) (dram_tick (d, uls)))
       (mc_channels c) (0, mc_queues c);
     Some (progress, c\<lparr>mc_channels := ds, mc_queues := uls\<rparr>) }"

definition mc_tick :: "MEMORY_CONTROLLER \<Rightarrow> (int \<times> MEMORY_CONTROLLER) option" where
  "mc_tick c = mc_operate (c\<lparr>mc_current_time := mc_current_time c + mc_clock_period c\<rparr>)"

definition mc_begin_phase :: "MEMORY_CONTROLLER \<Rightarrow> MEMORY_CONTROLLER" where
  "mc_begin_phase c = c\<lparr>mc_channels := map (\<lambda>d. d\<lparr>d_sim_stats := zero_dram_stats, d_warmup := mc_warmup c\<rparr>) (mc_channels c),
     mc_queues := map (\<lambda>ul. ul\<lparr>roi_stats := zero_queue_stats, sim_stats := zero_queue_stats\<rparr>) (mc_queues c)\<rparr>"

definition mc_end_phase :: "MEMORY_CONTROLLER \<Rightarrow> MEMORY_CONTROLLER" where
  "mc_end_phase c = c\<lparr>mc_channels := map dram_end_phase (mc_channels c)\<rparr>"

definition mc_size :: "MEMORY_CONTROLLER \<Rightarrow> int" where
  "mc_size c = 2 ^ bit_size (address_slicer (mc_mapping c))"

text \<open>\<open>operator-\<close> of the statistics.\<close>

definition dram_stats_minus :: "dram_stats \<Rightarrow> dram_stats \<Rightarrow> dram_stats" where
  "dram_stats_minus l r = l\<lparr>dbus_cycle_congested := dbus_cycle_congested l - dbus_cycle_congested r,
     dbus_count_congested := nat ((int (dbus_count_congested l) - int (dbus_count_congested r)) mod 2 ^ 64),
     WQ_ROW_BUFFER_HIT := nat ((int (WQ_ROW_BUFFER_HIT l) - int (WQ_ROW_BUFFER_HIT r)) mod 2 ^ 32),
     WQ_ROW_BUFFER_MISS := nat ((int (WQ_ROW_BUFFER_MISS l) - int (WQ_ROW_BUFFER_MISS r)) mod 2 ^ 32),
     RQ_ROW_BUFFER_HIT := nat ((int (RQ_ROW_BUFFER_HIT l) - int (RQ_ROW_BUFFER_HIT r)) mod 2 ^ 32),
     RQ_ROW_BUFFER_MISS := nat ((int (RQ_ROW_BUFFER_MISS l) - int (RQ_ROW_BUFFER_MISS r)) mod 2 ^ 32),
     ds_WQ_FULL := nat ((int (ds_WQ_FULL l) - int (ds_WQ_FULL r)) mod 2 ^ 32)\<rparr>"

end
