(* ===== verification/Dram_Correctness.thy ===== *)
theory Dram_Correctness
  imports Dram
begin

text \<open>
  Correctness of the memory controller.  The abstract view of a channel is the set of its banks, each free or
  busy with the packet of one slot, and the packets that are scheduled: every busy bank serves a scheduled
  packet of its own bank index, and every scheduled packet is served by a bank.  Every step of a cycle keeps
  this, never touches an empty slot, and keeps the reads that are waited for until they are answered.
\<close>

section \<open>Loops over positions\<close>

lemma fold_option_append: "fold_option f (xs @ ys) s = Option.bind (fold_option f xs s) (fold_option f ys)"
proof (induction xs arbitrary: s)
  case (Cons x xs)
  then show ?case by (cases "f x s") auto
qed simp

lemma fold_option_upt:
  assumes "P 0 s" and step: "\<And>i t. i < n \<Longrightarrow> P i t \<Longrightarrow> \<exists>t'. f i t = Some t' \<and> P (Suc i) t' \<and> R t t'"
    and refl: "\<And>t. R t t" and trans: "\<And>a b c. R a b \<Longrightarrow> R b c \<Longrightarrow> R a c"
  shows "\<exists>t. fold_option f [0..<n] s = Some t \<and> P n t \<and> R s t"
  using step
proof (induction n)
  case 0
  then show ?case using assms(1) refl by simp
next
  case (Suc n)
  obtain t where t: "fold_option f [0..<n] s = Some t" "P n t" "R s t" using Suc by (meson less_SucI)
  obtain t' where "f n t = Some t'" "P (Suc n) t'" "R t t'" using Suc.prems[of n t] t(2) by blast
  then show ?case using t trans[OF t(3)] by (simp add: fold_option_append)
qed

lemma map_option_state_upt:
  assumes step: "\<And>x s. x \<in> set xs \<Longrightarrow> P s \<Longrightarrow> \<exists>y s'. f x s = Some (y, s') \<and> P s' \<and> Q x y" and "P s"
  shows "\<exists>ys t. map_option_state f xs s = Some (ys, t) \<and> P t \<and> list_all2 Q xs ys"
  using assms
proof (induction xs arbitrary: s)
  case (Cons x xs)
  obtain y s1 where y: "f x s = Some (y, s1)" "P s1" "Q x y" using Cons.prems by (meson list.set_intros(1))
  obtain ys t where "map_option_state f xs s1 = Some (ys, t)" "P t" "list_all2 Q xs ys"
    using Cons.IH[of s1] Cons.prems(1) y(2) by (meson list.set_intros(2))
  then show ?case using y by simp
qed simp

section \<open>Banks and packets\<close>

definition bank_index :: "DRAM_ADDRESS_MAPPING \<Rightarrow> address \<Rightarrow> nat option" where
  "bank_index m a = do { r \<leftarrow> get_rank m a; g \<leftarrow> get_bankgroup m a; b \<leftarrow> get_bank m a;
     Some ((unat r * dram_bankgroups m + unat g) * dram_banks m + unat b) }"

lemma bank_request_index_eq: "bank_request_index d a = bank_index (d_mapping d) a"
  by (auto simp: bank_request_index_def bankgroup_request_index_def bank_index_def split: bind_splits)

lemma index_less: "i < n \<Longrightarrow> j < m \<Longrightarrow> i * m + j < n * (m :: nat)"
proof -
  assume "i < n" "j < m"
  then have "i * m + j < Suc i * m" by simp
  also have "\<dots> \<le> n * m" using \<open>i < n\<close> by (intro mult_le_mono1) simp
  finally show ?thesis .
qed

lemma bank_index_total:
  assumes "mapping_ok m" "0 < hash_bits m"
  obtains i where "bank_index m a = Some i" "i < dram_ranks m * dram_bankgroups m * dram_banks m"
  using coordinate_bounds[OF assms] coordinates[OF assms, of a] by (fastforce simp: bank_index_def intro: index_less that)

lemma bankgroup_index_total:
  assumes "mapping_ok (d_mapping d)" "0 < hash_bits (d_mapping d)"
  obtains i where "bankgroup_request_index d a = Some i" "i < dram_ranks (d_mapping d) * dram_bankgroups (d_mapping d)"
  using coordinate_bounds[OF assms] coordinates[OF assms, of a] by (fastforce simp: bankgroup_request_index_def intro: index_less that)

text \<open>Banks, busy or free with a slot, the addresses of the scheduled packets, and the bank on the bus.\<close>

definition linked :: "DRAM_ADDRESS_MAPPING \<Rightarrow> (bool \<times> slot option) list \<Rightarrow> (slot \<Rightarrow> address option) \<Rightarrow> nat option \<Rightarrow> bool" where
  "linked m bs sched act \<longleftrightarrow>
     (\<forall>i<length bs. fst (bs ! i) \<longrightarrow> (\<exists>s a. snd (bs ! i) = Some s \<and> sched s = Some a \<and> bank_index m a = Some i))
     \<and> (\<forall>s a. sched s = Some a \<longrightarrow> (\<exists>i<length bs. fst (bs ! i) \<and> snd (bs ! i) = Some s))
     \<and> (\<forall>i. act = Some i \<longrightarrow> i < length bs \<and> fst (bs ! i))"

lemma linked_busy:
  assumes "linked m bs sched act" "i < length bs" "fst (bs ! i)"
  obtains s a where "snd (bs ! i) = Some s" "sched s = Some a" "bank_index m a = Some i"
  using assms by (auto simp: linked_def)

lemma linked_served: "linked m bs sched act \<Longrightarrow> sched s = Some a \<Longrightarrow> \<exists>i<length bs. fst (bs ! i) \<and> snd (bs ! i) = Some s"
  unfolding linked_def by blast

lemma linked_bus: "linked m bs sched act \<Longrightarrow> act = Some i \<Longrightarrow> i < length bs \<and> fst (bs ! i)"
  unfolding linked_def by blast

lemma linked_unique:
  assumes "linked m bs sched act" "i < length bs" "fst (bs ! i)" "k < length bs" "fst (bs ! k)" "snd (bs ! i) = snd (bs ! k)"
  shows "i = k"
  by (rule linked_busy[OF assms(1-3)], rule linked_busy[OF assms(1,4,5)]) (use assms(6) in auto)

lemma link_bank:
  assumes l: "linked m bs sched act" and i: "i < length bs" "\<not> fst (bs ! i)" "bank_index m a = Some i" and s: "sched s = None"
  shows "linked m (bs[i := (True, Some s)]) (sched(s := Some a)) act"
  unfolding linked_def length_list_update
proof (intro conjI allI impI)
  fix k assume k: "k < length bs" "fst (bs[i := (True, Some s)] ! k)"
  show "\<exists>t b. snd (bs[i := (True, Some s)] ! k) = Some t \<and> (sched(s := Some a)) t = Some b \<and> bank_index m b = Some k"
  proof (cases "k = i")
    case False
    then have "fst (bs ! k)" using k by simp
    from linked_busy[OF l k(1) this] obtain t b where "snd (bs ! k) = Some t" "sched t = Some b" "bank_index m b = Some k" .
    then show ?thesis using False s by (intro exI[of _ t] exI[of _ b]) auto
  qed (use i in simp)
next
  fix t b assume t: "(sched(s := Some a)) t = Some b"
  show "\<exists>k<length bs. fst (bs[i := (True, Some s)] ! k) \<and> snd (bs[i := (True, Some s)] ! k) = Some t"
  proof (cases "t = s")
    case True
    then show ?thesis using i by (intro exI[of _ i]) simp
  next
    case False
    then obtain k where "k < length bs" "fst (bs ! k)" "snd (bs ! k) = Some t" using linked_served[OF l] t by (metis fun_upd_other)
    then show ?thesis using i(2) by (intro exI[of _ k]) (cases "k = i"; simp)
  qed
next
  fix k assume "act = Some k"
  then show "k < length bs" "fst (bs[i := (True, Some s)] ! k)" using linked_bus[OF l] i by (cases "k = i"; simp)+
qed

lemma unlink_bank:
  assumes l: "linked m bs sched act" and i: "i < length bs" "fst (bs ! i)" "snd (bs ! i) = Some s" and act: "act' = act \<and> act \<noteq> Some i \<or> act' = None"
  shows "linked m (bs[i := (False, p)]) (sched(s := None)) act'"
proof -
  have other: "snd (bs ! k) \<noteq> Some s" if "k < length bs" "fst (bs ! k)" "k \<noteq> i" for k
    using linked_unique[OF l that(1,2) i(1,2)] i(3) that(3) by auto
  show ?thesis unfolding linked_def length_list_update
  proof (intro conjI allI impI)
    fix k assume k: "k < length bs" "fst (bs[i := (False, p)] ! k)"
    then have "k \<noteq> i" "fst (bs ! k)" by (cases "k = i"; simp)+
    with linked_busy[OF l k(1)] other[OF k(1)]
    show "\<exists>t a. snd (bs[i := (False, p)] ! k) = Some t \<and> (sched(s := None)) t = Some a \<and> bank_index m a = Some k"
      by (metis fun_upd_other nth_list_update_neq)
  next
    fix t a assume "(sched(s := None)) t = Some a"
    then have t: "t \<noteq> s" "sched t = Some a" by (auto split: if_splits)
    then obtain k where "k < length bs" "fst (bs ! k)" "snd (bs ! k) = Some t" using linked_served[OF l] by metis
    then show "\<exists>k<length bs. fst (bs[i := (False, p)] ! k) \<and> snd (bs[i := (False, p)] ! k) = Some t"
      using t(1) i(3) by (intro exI[of _ k]) (cases "k = i"; simp)
  next
    fix k assume "act' = Some k"
    then show "k < length bs" "fst (bs[i := (False, p)] ! k)" using act linked_bus[OF l, of k] by (cases "k = i"; auto)+
  qed
qed

section \<open>The invariant of a channel\<close>

definition entry_sched :: "dram_request option \<Rightarrow> address option" where
  "entry_sched x = (case x of Some e \<Rightarrow> if dq_scheduled e then Some (dq_address e) else None | None \<Rightarrow> None)"

lemma entry_sched_simps [simp]:
  "entry_sched None = None" "entry_sched (Some e) = (if dq_scheduled e then Some (dq_address e) else None)"
  by (simp_all add: entry_sched_def)

definition sched_view :: "DRAM_CHANNEL \<Rightarrow> slot \<Rightarrow> address option" where
  "sched_view d s = (if snd s < length (queue_of (fst s) d) then entry_sched (queue_of (fst s) d ! snd s) else None)"

definition bank_view :: "BANK_REQUEST \<Rightarrow> bool \<times> slot option" where
  "bank_view b = (br_valid b, br_pkt b)"

text \<open>The fields that no step of a cycle changes.\<close>

definition dram_shape :: "DRAM_CHANNEL \<Rightarrow> DRAM_ADDRESS_MAPPING \<times> bool \<times> nat \<times> nat \<times> nat \<times> nat" where
  "dram_shape d = (d_mapping d, d_warmup d, length (d_RQ d), length (d_WQ d), length (bank_request d), length (bankgroup_readytime d))"

definition shape_ok :: "DRAM_CHANNEL \<Rightarrow> bool" where
  "shape_ok d \<longleftrightarrow> mapping_ok (d_mapping d) \<and> 0 < hash_bits (d_mapping d) \<and> 0 < length (d_RQ d) \<and> 0 < length (d_WQ d)
     \<and> length (bank_request d) = dram_ranks (d_mapping d) * dram_bankgroups (d_mapping d) * dram_banks (d_mapping d)
     \<and> length (bankgroup_readytime d) = dram_ranks (d_mapping d) * dram_bankgroups (d_mapping d)"

definition dram_core :: "DRAM_CHANNEL \<Rightarrow> bool" where
  "dram_core d \<longleftrightarrow> shape_ok d \<and> linked (d_mapping d) (map bank_view (bank_request d)) (sched_view d) (active_request d)
     \<and> (d_warmup d \<longrightarrow> (\<forall>b\<in>set (bank_request d). \<not> br_valid b))"

text \<open>A packet is scheduled only after the check for collisions.\<close>

definition dram_ok :: "DRAM_CHANNEL \<Rightarrow> bool" where
  "dram_ok d \<longleftrightarrow> dram_core d \<and> (\<forall>w. \<forall>e. Some e \<in> set (queue_of w d) \<longrightarrow> dq_scheduled e \<longrightarrow> dq_forward_checked e)"

text \<open>After the checks; during warmup there are no packets then.\<close>

definition all_checked :: "DRAM_CHANNEL \<Rightarrow> bool" where
  "all_checked d \<longleftrightarrow> (\<forall>w. \<forall>e. Some e \<in> set (queue_of w d) \<longrightarrow> dq_forward_checked e \<and> \<not> d_warmup d)"

lemma shape_cong: "dram_shape d' = dram_shape d \<Longrightarrow> shape_ok d' = shape_ok d"
  unfolding shape_ok_def dram_shape_def prod.inject by (elim conjE) (simp only:)

lemma core_cong:
  assumes "dram_shape d' = dram_shape d" "map bank_view (bank_request d') = map bank_view (bank_request d)"
    "sched_view d' = sched_view d" "active_request d' = active_request d" "dram_core d"
  shows "dram_core d'"
proof -
  have free: "(\<forall>b\<in>set bs. \<not> br_valid b) \<longleftrightarrow> (\<forall>v\<in>set (map bank_view bs). \<not> fst v)" for bs by (simp add: bank_view_def)
  have m: "d_mapping d' = d_mapping d" "d_warmup d' = d_warmup d" using assms(1) by (simp_all add: dram_shape_def)
  show ?thesis unfolding dram_core_def shape_cong[OF assms(1)] m assms(2-4) free using assms(5)[unfolded dram_core_def free] .
qed

lemma queue_of_set_slot:
  "queue_of w' (set_slot (w, j) x d) = (if w' = w then (queue_of w d)[j := x] else queue_of w' d)"
  by (auto simp: queue_of_def set_slot_def)

lemma set_slot_frame [simp]:
  "d_mapping (set_slot s x d) = d_mapping d" "d_warmup (set_slot s x d) = d_warmup d" "bank_request (set_slot s x d) = bank_request d"
  "active_request (set_slot s x d) = active_request d" "bankgroup_readytime (set_slot s x d) = bankgroup_readytime d"
  "write_mode (set_slot s x d) = write_mode d" "d_current_time (set_slot s x d) = d_current_time d"
  "length (d_RQ (set_slot s x d)) = length (d_RQ d)" "length (d_WQ (set_slot s x d)) = length (d_WQ d)"
  by (auto simp: set_slot_def split: prod.splits)

lemma queue_of_update [simp]:
  "queue_of w (d\<lparr>bank_request := bs\<rparr>) = queue_of w d" "queue_of w (d\<lparr>active_request := a\<rparr>) = queue_of w d"
  "queue_of w (d\<lparr>bankgroup_readytime := ts\<rparr>) = queue_of w d" "queue_of w (d\<lparr>d_sim_stats := st\<rparr>) = queue_of w d"
  by (simp_all add: queue_of_def)

lemma shape_set_slot [simp]: "dram_shape (set_slot s x d) = dram_shape d"
  by (simp add: dram_shape_def)

lemma sched_view_set_slot:
  assumes "j < length (queue_of w d)"
  shows "sched_view (set_slot (w, j) x d) = (sched_view d)((w, j) := entry_sched x)"
  using assms by (intro ext) (auto simp: sched_view_def queue_of_set_slot nth_list_update split: prod.splits)

lemma sched_view_same: "(\<And>w. queue_of w d' = queue_of w d) \<Longrightarrow> sched_view d' = sched_view d"
  by (simp add: sched_view_def fun_eq_iff)

lemma set_slot_core:
  assumes "dram_core d" "j < length (queue_of w d)" "entry_sched x = sched_view d (w, j)"
  shows "dram_core (set_slot (w, j) x d)"
  by (rule core_cong[OF _ _ _ _ assms(1)]) (use assms(2,3) in \<open>auto simp: sched_view_set_slot\<close>)

lemma set_slot_checked:
  assumes "all_checked d" "\<And>e. x = Some e \<Longrightarrow> dq_forward_checked e \<and> \<not> d_warmup d"
  shows "all_checked (set_slot (w, j) x d)"
  unfolding all_checked_def
proof (intro allI impI)
  fix w' e assume "Some e \<in> set (queue_of w' (set_slot (w, j) x d))"
  then have "Some e \<in> set (queue_of w' d) \<or> x = Some e"
    using set_update_subset_insert[of "queue_of w d" j x] by (auto simp: queue_of_set_slot split: if_splits)
  then show "dq_forward_checked e \<and> \<not> d_warmup (set_slot (w, j) x d)" using assms by (auto simp: all_checked_def)
qed

lemma all_checked_ok: "dram_core d \<Longrightarrow> all_checked d \<Longrightarrow> dram_ok d"
  by (simp add: dram_ok_def all_checked_def)

text \<open>The packet of a busy bank.\<close>

lemma busy_bank:
  assumes "dram_core d" "i < length (bank_request d)" "br_valid (bank_request d ! i)"
  obtains w j e where "br_pkt (bank_request d ! i) = Some (w, j)" "j < length (queue_of w d)" "queue_of w d ! j = Some e"
    "pkt_value d (bank_request d ! i) = Some ((w, j), e)" "dq_scheduled e" "bank_index (d_mapping d) (dq_address e) = Some i"
proof -
  have "linked (d_mapping d) (map bank_view (bank_request d)) (sched_view d) (active_request d)" using assms(1) by (simp add: dram_core_def)
  then obtain s a where s: "br_pkt (bank_request d ! i) = Some s" "sched_view d s = Some a" "bank_index (d_mapping d) a = Some i"
    by (rule linked_busy[where i = i]) (use assms(2,3) in \<open>simp_all add: bank_view_def\<close>)
  obtain w j where "s = (w, j)" by (cases s)
  with s obtain e where "j < length (queue_of w d)" "queue_of w d ! j = Some e" "dq_scheduled e" "dq_address e = a"
    by (auto simp: sched_view_def entry_sched_def split: if_splits option.splits)
  with s \<open>s = (w, j)\<close> show thesis by (intro that[of w j e]) (simp_all add: pkt_value_def)
qed

lemma pkt_value_cong: "(\<And>w. queue_of w d' = queue_of w d) \<Longrightarrow> br_pkt b' = br_pkt b \<Longrightarrow> pkt_value d' b' = pkt_value d b"
  by (simp add: pkt_value_def cong: if_cong)

section \<open>Reads that are waited for\<close>

definition dram_block :: "DRAM_ADDRESS_MAPPING \<Rightarrow> address \<Rightarrow> address" where
  "dram_block m a = drop_bit (field_bits m SLICER_OFFSET_IDX) a"

lemma is_collision_eq:
  assumes "mapping_ok m"
  shows "is_collision m a b = Some (dram_block m a = dram_block m b)"
proof -
  have "field_bits m SLICER_OFFSET_IDX \<le> 64"
    using mapping_extents[OF assms, of 0] by (auto simp: field_bits_def extent_size_def SLICER_OFFSET_IDX_def)
  from slice_eq_upper[OF this, of a b] show ?thesis by (simp add: is_collision_def dram_block_def Let_def)
qed

definition hit :: "DRAM_ADDRESS_MAPPING \<Rightarrow> address \<Rightarrow> dram_queue \<Rightarrow> nat \<Rightarrow> bool" where
  "hit m a q j \<longleftrightarrow> (\<exists>e. q ! j = Some e \<and> dram_block m (dq_address e) = dram_block m a)"

lemma find_collision_eq: "mapping_ok m \<Longrightarrow> find_collision m a q js = Some (find (hit m a q) js)"
  by (induction js) (auto simp: is_collision_eq hit_def split: option.splits)

lemma find_other_eq:
  assumes "mapping_ok m" "i < length q"
  shows "\<exists>r. find_other m a q i = Some r \<and> (\<forall>j. r = Some j \<longrightarrow> j < length q \<and> j \<noteq> i \<and> hit m a q j)"
proof -
  let ?b = "find (hit m a q) [0..<i]" and ?a = "find (hit m a q) [Suc i..<length q]"
  have 1: "find_other m a q i = Some (case ?b of Some j \<Rightarrow> Some j | None \<Rightarrow> ?a)"
    by (simp add: find_other_def find_collision_eq[OF assms(1)] split: option.splits)
  have 2: "j < length q \<and> j \<noteq> i \<and> hit m a q j" if "?b = Some j \<or> ?a = Some j" for j
  proof -
    have "j \<in> set [0..<i] \<union> set [Suc i..<length q] \<and> hit m a q j" using that by (auto simp: find_Some_iff)
    then show ?thesis using assms(2) by auto
  qed
  show ?thesis using 1 2 by (auto split: option.splits)
qed

text \<open>An upper level waits for a read of a block that carries a set of dependent instructions.\<close>

definition pending_read :: "DRAM_ADDRESS_MAPPING \<Rightarrow> dram_queue \<Rightarrow> nat \<Rightarrow> address \<Rightarrow> nat set \<Rightarrow> bool" where
  "pending_read m q ul blk D \<longleftrightarrow>
     (\<exists>e. Some e \<in> set q \<and> ul \<in> set (dq_to_return e) \<and> D \<subseteq> set (dq_deps e) \<and> dram_block m (dq_address e) = blk)"

definition covers :: "DRAM_ADDRESS_MAPPING \<Rightarrow> dram_request option \<Rightarrow> dram_request option \<Rightarrow> bool" where
  "covers m x y \<longleftrightarrow> (\<forall>e. x = Some e \<longrightarrow> (\<exists>f. y = Some f \<and> dram_block m (dq_address f) = dram_block m (dq_address e)
     \<and> set (dq_to_return e) \<subseteq> set (dq_to_return f) \<and> set (dq_deps e) \<subseteq> set (dq_deps f)))"

lemma pending_cover:
  assumes "pending_read m q ul blk D" "\<And>e. Some e \<in> set q \<Longrightarrow> \<exists>y\<in>set q'. covers m (Some e) y"
  shows "pending_read m q' ul blk D"
proof -
  obtain e where e: "Some e \<in> set q" "ul \<in> set (dq_to_return e)" "D \<subseteq> set (dq_deps e)" "dram_block m (dq_address e) = blk"
    using assms(1) by (auto simp: pending_read_def)
  from assms(2)[OF e(1)] e(2-4) show ?thesis unfolding pending_read_def covers_def by force
qed

lemma covers_refl [simp]: "covers m x x"
  by (auto simp: covers_def)

lemma pending_update:
  assumes "pending_read m q ul blk D" "j < length q" "covers m (q ! j) x"
  shows "pending_read m (q[j := x]) ul blk D"
proof (rule pending_cover[OF assms(1)])
  fix e assume "Some e \<in> set q"
  then obtain i where i: "i < length q" "q ! i = Some e" by (auto simp: in_set_conv_nth)
  show "\<exists>y\<in>set (q[j := x]). covers m (Some e) y"
  proof (cases "i = j")
    case True
    then show ?thesis using assms(2,3) i by (intro bexI[of _ x]) (auto simp: set_update_memI)
  next
    case False
    then have "q[j := x] ! i = Some e" "i < length (q[j := x])" using i by simp_all
    then have "Some e \<in> set (q[j := x])" by (metis nth_mem)
    then show ?thesis by (intro bexI[of _ "Some e"]) simp_all
  qed
qed

text \<open>A removed entry is the only one that is waited for no longer.\<close>

lemma pending_remove:
  assumes "pending_read m q ul blk D" "j < length q" "q ! j = Some e"
  shows "pending_read m (q[j := None]) ul blk D \<or> ul \<in> set (dq_to_return e) \<and> D \<subseteq> set (dq_deps e) \<and> dram_block m (dq_address e) = blk"
proof -
  obtain f where f: "Some f \<in> set q" "ul \<in> set (dq_to_return f)" "D \<subseteq> set (dq_deps f)" "dram_block m (dq_address f) = blk"
    using assms(1) by (auto simp: pending_read_def)
  obtain i where i: "i < length q" "q ! i = Some f" using f(1) by (auto simp: in_set_conv_nth)
  show ?thesis
  proof (cases "i = j")
    case False
    then have "q[j := None] ! i = Some f" "i < length (q[j := None])" using i by simp_all
    then have "Some f \<in> set (q[j := None])" by (metis nth_mem)
    then show ?thesis using f(2-4) by (auto simp: pending_read_def)
  qed (use f i assms(3) in simp)
qed

text \<open>The responses that an upper level has got since an earlier state.\<close>

definition read_answered :: "DRAM_ADDRESS_MAPPING \<Rightarrow> channel list \<Rightarrow> channel list \<Rightarrow> nat \<Rightarrow> address \<Rightarrow> nat set \<Rightarrow> bool" where
  "read_answered m uls uls' ul blk D \<longleftrightarrow>
     (\<exists>r\<in>set (drop (length (returned (uls ! ul))) (returned (uls' ! ul))). D \<subseteq> set (rs_deps r) \<and> dram_block m (rs_address r) = blk)"

definition extends :: "channel list \<Rightarrow> channel list \<Rightarrow> bool" where
  "extends uls uls' \<longleftrightarrow> length uls' = length uls \<and> (\<forall>i<length uls. \<exists>rs. uls' ! i = (uls ! i)\<lparr>returned := returned (uls ! i) @ rs\<rparr>)"

lemma extends_refl [simp]: "extends uls uls"
  by (auto simp: extends_def intro: exI[of _ "[]"])

lemma extends_trans:
  assumes "extends a b" "extends b c"
  shows "extends a c"
  unfolding extends_def
proof (intro conjI allI impI)
  fix i assume i: "i < length a"
  obtain rs where b: "b ! i = (a ! i)\<lparr>returned := returned (a ! i) @ rs\<rparr>" using assms(1) i by (auto simp: extends_def)
  obtain ts where c: "c ! i = (b ! i)\<lparr>returned := returned (b ! i) @ ts\<rparr>" using assms i by (auto simp: extends_def)
  show "\<exists>us. c ! i = (a ! i)\<lparr>returned := returned (a ! i) @ us\<rparr>" by (rule exI[of _ "rs @ ts"]) (simp add: b c)
qed (use assms in \<open>simp add: extends_def\<close>)

lemma answered_trans:
  assumes "extends a b" "extends b c" "ul < length a" "read_answered m a b ul blk D \<or> read_answered m b c ul blk D"
  shows "read_answered m a c ul blk D"
proof -
  obtain rs where b: "b ! ul = (a ! ul)\<lparr>returned := returned (a ! ul) @ rs\<rparr>" using assms(1,3) by (auto simp: extends_def)
  obtain ts where c: "c ! ul = (b ! ul)\<lparr>returned := returned (b ! ul) @ ts\<rparr>" using assms(1-3) by (auto simp: extends_def)
  show ?thesis using assms(4) by (auto simp: read_answered_def b c)
qed

lemma answer_entry_nth:
  assumes "k < length uls"
  shows "answer_entry e data uls ! k = (uls ! k)\<lparr>returned := returned (uls ! k) @ replicate (count_list (dq_to_return e) k) (dram_response e data)\<rparr>"
    and "length (answer_entry e data uls) = length uls"
proof -
  let ?f = "\<lambda>r i (uls :: channel list). uls[i := (uls ! i)\<lparr>returned := returned (uls ! i) @ [r]\<rparr>]"
  have "k < length us \<Longrightarrow> fold (?f r) is us ! k = (us ! k)\<lparr>returned := returned (us ! k) @ replicate (count_list is k) r\<rparr> \<and> length (fold (?f r) is us) = length us"
    for r us and "is" :: "nat list"
  proof (induction "is" arbitrary: us)
    case (Cons i "is")
    have "k < length (us[i := (us ! i)\<lparr>returned := returned (us ! i) @ [r]\<rparr>])" using Cons.prems by simp
    from Cons.IH[OF this] Cons.prems show ?case by (cases "i = k") (simp_all add: replicate_append_same)
  qed simp
  from this[OF assms] show "answer_entry e data uls ! k = (uls ! k)\<lparr>returned := returned (uls ! k) @ replicate (count_list (dq_to_return e) k) (dram_response e data)\<rparr>"
    "length (answer_entry e data uls) = length uls" by (simp_all add: answer_entry_def)
qed

lemma answer_entry_length [simp]: "length (answer_entry e data uls) = length uls"
proof -
  have "length (fold (\<lambda>i uls. uls[i := f i uls]) is us) = length us" for f :: "nat \<Rightarrow> channel list \<Rightarrow> channel" and "is" us
    by (induction "is" arbitrary: us) simp_all
  then show ?thesis by (simp add: answer_entry_def)
qed

lemma answer_entry_extends: "extends uls (answer_entry e data uls)"
  by (auto simp: extends_def answer_entry_nth)

lemma answer_entry_answers:
  assumes "ul < length uls" "ul \<in> set (dq_to_return e)" "D \<subseteq> set (dq_deps e)" "dram_block m (dq_address e) = blk"
  shows "read_answered m uls (answer_entry e data uls) ul blk D"
proof -
  have "count_list (dq_to_return e) ul \<noteq> 0" using assms(2) by (simp add: count_list_0_iff)
  then show ?thesis using assms by (auto simp: read_answered_def answer_entry_nth dram_response_def)
qed

section \<open>The steps of a cycle keep the invariant and the reads\<close>

definition keeps :: "DRAM_CHANNEL \<times> channel list \<Rightarrow> DRAM_CHANNEL \<times> channel list \<Rightarrow> bool" where
  "keeps s s' \<longleftrightarrow> dram_shape (fst s') = dram_shape (fst s) \<and> extends (snd s) (snd s') \<and>
     (\<forall>ul<length (snd s). \<forall>blk D. pending_read (d_mapping (fst s)) (d_RQ (fst s)) ul blk D \<longrightarrow>
        pending_read (d_mapping (fst s)) (d_RQ (fst s')) ul blk D \<or> read_answered (d_mapping (fst s)) (snd s) (snd s') ul blk D)"

lemma keeps_refl [simp]: "keeps s s"
  by (simp add: keeps_def)

lemma keeps_trans:
  assumes "keeps a b" "keeps b c"
  shows "keeps a c"
proof -
  have e: "extends (snd a) (snd b)" "extends (snd b) (snd c)" using assms by (simp_all add: keeps_def)
  have m: "d_mapping (fst b) = d_mapping (fst a)" "length (snd b) = length (snd a)"
    using assms(1) by (simp_all add: keeps_def dram_shape_def extends_def)
  show ?thesis unfolding keeps_def
  proof (intro conjI allI impI)
    fix ul blk D assume ul: "ul < length (snd a)" and p: "pending_read (d_mapping (fst a)) (d_RQ (fst a)) ul blk D"
    then have "pending_read (d_mapping (fst a)) (d_RQ (fst b)) ul blk D \<or> read_answered (d_mapping (fst a)) (snd a) (snd b) ul blk D"
      using assms(1) by (simp add: keeps_def)
    moreover have "pending_read (d_mapping (fst a)) (d_RQ (fst b)) ul blk D \<longrightarrow>
        pending_read (d_mapping (fst a)) (d_RQ (fst c)) ul blk D \<or> read_answered (d_mapping (fst a)) (snd b) (snd c) ul blk D"
      using assms(2) ul by (simp add: keeps_def m)
    ultimately show "pending_read (d_mapping (fst a)) (d_RQ (fst c)) ul blk D \<or> read_answered (d_mapping (fst a)) (snd a) (snd c) ul blk D"
      using answered_trans[OF e ul] by blast
  qed (use assms extends_trans[OF e] in \<open>simp_all add: keeps_def\<close>)
qed

text \<open>Changes that cover what is waited for, without an answer.\<close>

lemma keeps_cover:
  assumes "dram_shape d' = dram_shape d"
    and "\<And>ul blk D. pending_read (d_mapping d) (d_RQ d) ul blk D \<Longrightarrow> pending_read (d_mapping d) (d_RQ d') ul blk D"
  shows "keeps (d, uls) (d', uls)"
  using assms by (simp add: keeps_def)

lemma set_slot_queue:
  "d_RQ (set_slot (False, j) x d) = (d_RQ d)[j := x]" "d_WQ (set_slot (False, j) x d) = d_WQ d"
  "d_WQ (set_slot (True, j) x d) = (d_WQ d)[j := x]" "d_RQ (set_slot (True, j) x d) = d_RQ d"
  by (simp_all add: set_slot_def)

lemma queue_of_simps [simp]: "queue_of True d = d_WQ d" "queue_of False d = d_RQ d"
  by (simp_all add: queue_of_def)

lemma set_slot_keeps:
  assumes "j < length (queue_of w d)" "covers (d_mapping d) (queue_of w d ! j) x"
  shows "keeps (d, uls) (set_slot (w, j) x d, uls)"
  by (rule keeps_cover) (use assms in \<open>cases w; simp add: set_slot_queue pending_update\<close>)+

lemma set_slot_ok:
  assumes "dram_ok d" "j < length (queue_of w d)" "entry_sched x = sched_view d (w, j)"
    and "\<And>e. x = Some e \<Longrightarrow> dq_scheduled e \<Longrightarrow> dq_forward_checked e"
  shows "dram_ok (set_slot (w, j) x d)"
  unfolding dram_ok_def
proof (intro conjI allI impI)
  show "dram_core (set_slot (w, j) x d)" using assms set_slot_core by (simp add: dram_ok_def)
  fix w' e assume e: "Some e \<in> set (queue_of w' (set_slot (w, j) x d))" and sched: "dq_scheduled e"
  have "Some e \<in> set (queue_of w' d) \<or> x = Some e"
    using e set_update_subset_insert[of "queue_of w d" j x] by (auto simp: queue_of_set_slot split: if_splits)
  then show "dq_forward_checked e" using assms(1,4) sched by (auto simp: dram_ok_def)
qed

text \<open>An entry that the check has not seen is not scheduled.\<close>

lemma fresh_entry:
  assumes "dram_ok d" "j < length (queue_of w d)" "queue_of w d ! j = Some e" "\<not> dq_forward_checked e"
  shows "\<not> dq_scheduled e" "sched_view d (w, j) = None"
proof -
  have "Some e \<in> set (queue_of w d)" using assms(2,3) by (metis nth_mem)
  then show "\<not> dq_scheduled e" using assms(1,4) by (auto simp: dram_ok_def)
  then show "sched_view d (w, j) = None" using assms(2,3) by (simp add: sched_view_def)
qed

subsection \<open>Warmup\<close>

lemma answer_all:
  defines "F \<equiv> \<lambda>q uls. fold (\<lambda>x uls. case x of Some e \<Rightarrow> answer_entry e (dq_data e) uls | None \<Rightarrow> uls) q uls"
  shows "extends uls (F q uls)" and "ul < length uls \<Longrightarrow> pending_read m q ul blk D \<Longrightarrow> read_answered m uls (F q uls) ul blk D"
proof -
  have "extends uls (F q uls) \<and> (ul < length uls \<longrightarrow> pending_read m q ul blk D \<longrightarrow> read_answered m uls (F q uls) ul blk D)"
  proof (induction q arbitrary: uls)
    case Nil
    then show ?case by (simp add: F_def pending_read_def)
  next
    case (Cons x q)
    let ?u = "case x of Some e \<Rightarrow> answer_entry e (dq_data e) uls | None \<Rightarrow> uls"
    have e: "extends uls ?u" by (auto simp: answer_entry_extends split: option.splits)
    have IH: "extends ?u (F q ?u)" "ul < length ?u \<longrightarrow> pending_read m q ul blk D \<longrightarrow> read_answered m ?u (F q ?u) ul blk D"
      using Cons.IH[of ?u] by blast+
    have F: "F (x # q) uls = F q ?u" by (simp add: F_def)
    have len: "length ?u = length uls" using e by (simp add: extends_def)
    have "pending_read m (x # q) ul blk D \<Longrightarrow> pending_read m q ul blk D \<or>
        (\<exists>e. x = Some e \<and> ul \<in> set (dq_to_return e) \<and> D \<subseteq> set (dq_deps e) \<and> dram_block m (dq_address e) = blk)"
      by (auto simp: pending_read_def)
    then have "read_answered m uls (F (x # q) uls) ul blk D" if "ul < length uls" "pending_read m (x # q) ul blk D"
      using that IH(2) len answered_trans[OF e IH(1) that(1)] answer_entry_answers[OF that(1)] unfolding F by fastforce
    then show ?case using extends_trans[OF e IH(1)] unfolding F by blast
  qed
  then show "extends uls (F q uls)" "ul < length uls \<Longrightarrow> pending_read m q ul blk D \<Longrightarrow> read_answered m uls (F q uls) ul blk D" by blast+
qed

lemma warmup_step:
  assumes "dram_ok d" "warmup_answers (d, uls) = (p, d', uls')"
  shows "dram_ok d'" "keeps (d, uls) (d', uls')"
proof -
  have "dram_ok d' \<and> keeps (d, uls) (d', uls')"
  proof (cases "d_warmup d")
    case True
    have d': "d' = d\<lparr>d_RQ := map (\<lambda>_. None) (d_RQ d), d_WQ := map (\<lambda>_. None) (d_WQ d)\<rparr>"
      and uls': "uls' = fold (\<lambda>x uls. case x of Some e \<Rightarrow> answer_entry e (dq_data e) uls | None \<Rightarrow> uls) (d_RQ d) uls"
      using assms(2) True by (simp_all add: warmup_answers_def)
    have l: "linked (d_mapping d) (map bank_view (bank_request d)) (sched_view d) (active_request d)"
      and free: "\<forall>b\<in>set (bank_request d). \<not> br_valid b" using assms(1) True by (simp_all add: dram_ok_def dram_core_def)
    have "sched_view d s = None" for s
      using linked_served[OF l, of s] free by (cases "sched_view d s") (auto simp: bank_view_def)
    moreover have "sched_view d' s = None" for s by (simp add: sched_view_def d' queue_of_def)
    ultimately have same: "sched_view d' = sched_view d" by (simp add: fun_eq_iff)
    have core: "dram_core d'"
      by (rule core_cong[of d' d]) (use assms(1) same in \<open>simp_all add: d' dram_shape_def dram_ok_def\<close>)
    have "Some e \<notin> set (queue_of w d')" for e w by (auto simp: d' queue_of_def)
    then have "dram_ok d'" using core by (simp add: dram_ok_def)
    moreover have "keeps (d, uls) (d', uls')"
      using answer_all[where q = "d_RQ d" and uls = uls] by (simp add: keeps_def uls' d' dram_shape_def)
    ultimately show ?thesis by blast
  qed (use assms in \<open>simp add: warmup_answers_def\<close>)
  then show "dram_ok d'" "keeps (d, uls) (d', uls')" by blast+
qed

subsection \<open>Collisions\<close>

definition checked_below :: "nat \<Rightarrow> dram_queue \<Rightarrow> bool" where
  "checked_below i q \<longleftrightarrow> (\<forall>k<i. \<forall>e. k < length q \<longrightarrow> q ! k = Some e \<longrightarrow> dq_forward_checked e)"

lemma checked_below_all: "checked_below (length q) q \<longleftrightarrow> (\<forall>e. Some e \<in> set q \<longrightarrow> dq_forward_checked e)"
  by (auto simp: checked_below_def in_set_conv_nth)

lemma checked_below_update:
  assumes "checked_below i q" "\<And>e. x = Some e \<Longrightarrow> dq_forward_checked e"
  shows "checked_below (Suc i) (q[i := x])"
  using assms by (auto simp: checked_below_def nth_list_update less_Suc_eq)

lemma checked_below_next:
  assumes "checked_below i q" "\<And>e. q ! i = Some e \<Longrightarrow> dq_forward_checked e"
  shows "checked_below (Suc i) q"
  using assms by (auto simp: checked_below_def less_Suc_eq)

lemma write_collision_total:
  assumes "dram_ok d" "checked_below i (d_WQ d)" "i < length (d_WQ d)"
  shows "\<exists>d'. write_collision_step i d = Some d' \<and> dram_ok d' \<and> checked_below (Suc i) (d_WQ d') \<and> keeps (d, uls) (d', uls) \<and> d_RQ d' = d_RQ d"
proof (cases "d_WQ d ! i")
  case None
  then show ?thesis using assms by (auto simp: write_collision_step_def intro: checked_below_next)
next
  case (Some e)
  show ?thesis
  proof (cases "dq_forward_checked e")
    case True
    then show ?thesis using assms Some by (auto simp: write_collision_step_def intro: checked_below_next)
  next
    case False
    have m: "mapping_ok (d_mapping d)" using assms(1) by (simp add: dram_ok_def dram_core_def shape_ok_def)
    obtain r where r: "find_other (d_mapping d) (dq_address e) (d_WQ d) i = Some r" using find_other_eq[OF m assms(3), of "dq_address e"] by blast
    let ?x = "if r = None then Some (e\<lparr>dq_forward_checked := True\<rparr>) else None"
    have sched: "\<not> dq_scheduled e" "sched_view d (True, i) = None" using fresh_entry[OF assms(1), of i True e] assms(3) Some False by simp_all
    have "dram_ok (set_slot (True, i) ?x d)" by (rule set_slot_ok[OF assms(1)]) (use assms(3) sched in \<open>auto split: if_splits\<close>)
    moreover have "keeps (d, uls) (set_slot (True, i) ?x d, uls)" by (rule keeps_cover) (simp_all add: set_slot_queue)
    moreover have "checked_below (Suc i) (d_WQ (set_slot (True, i) ?x d))"
      unfolding set_slot_queue by (rule checked_below_update[OF assms(2)]) (auto split: if_splits)
    ultimately show ?thesis using Some False r by (auto simp: write_collision_step_def set_slot_queue)
  qed
qed

lemma check_write_total:
  assumes "dram_ok d"
  obtains d' where "check_write_collision d = Some d'" "dram_ok d'" "keeps (d, uls) (d', uls)"
    "\<And>e. Some e \<in> set (d_WQ d') \<Longrightarrow> dq_forward_checked e"
proof -
  let ?n = "length (d_WQ d)"
  have "\<exists>d'. fold_option write_collision_step [0..<?n] d = Some d' \<and> (dram_ok d' \<and> checked_below ?n (d_WQ d') \<and> length (d_WQ d') = ?n)
      \<and> keeps (d, uls) (d', uls)"
  proof (rule fold_option_upt[where P = "\<lambda>i d. dram_ok d \<and> checked_below i (d_WQ d) \<and> length (d_WQ d) = ?n"])
    fix i t assume "i < ?n" "dram_ok t \<and> checked_below i (d_WQ t) \<and> length (d_WQ t) = ?n"
    then obtain t' where "write_collision_step i t = Some t'" "dram_ok t'" "checked_below (Suc i) (d_WQ t')" "keeps (t, uls) (t', uls)"
      using write_collision_total[of t i uls] by auto
    moreover from this have "length (d_WQ t') = length (d_WQ t)" by (simp add: keeps_def dram_shape_def)
    ultimately show "\<exists>t'. write_collision_step i t = Some t' \<and> (dram_ok t' \<and> checked_below (Suc i) (d_WQ t') \<and> length (d_WQ t') = ?n)
        \<and> keeps (t, uls) (t', uls)" using \<open>dram_ok t \<and> _\<close> by auto
  qed (use assms keeps_trans in \<open>auto simp: checked_below_def\<close>)
  then show thesis using that checked_below_all unfolding check_write_collision_def by metis
qed

lemma merge_read_simps [simp]:
  "dq_scheduled (merge_read e f) = dq_scheduled f" "dq_forward_checked (merge_read e f) = dq_forward_checked f"
  "dq_address (merge_read e f) = dq_address f" "set (dq_to_return (merge_read e f)) = set (dq_to_return f) \<union> set (dq_to_return e)"
  "set (dq_deps (merge_read e f)) = set (dq_deps f) \<union> set (dq_deps e)"
  by (simp_all add: merge_read_def)

text \<open>A read that a queued write answers.\<close>

lemma forward_read:
  assumes ok: "dram_ok d" and i: "i < length (d_RQ d)" "d_RQ d ! i = Some e" "\<not> dq_forward_checked e"
  shows "dram_ok (set_slot (False, i) None d)" "keeps (d, uls) (set_slot (False, i) None d, answer_entry e data uls)"
proof -
  have "sched_view d (False, i) = None" using fresh_entry[OF ok, of i False e] i by simp
  then show "dram_ok (set_slot (False, i) None d)" by (intro set_slot_ok[OF ok]) (use i in simp_all)
  show "keeps (d, uls) (set_slot (False, i) None d, answer_entry e data uls)"
    unfolding keeps_def fst_conv snd_conv set_slot_queue
  proof (intro conjI allI impI)
    fix ul blk D assume "ul < length uls" "pending_read (d_mapping d) (d_RQ d) ul blk D"
    then show "pending_read (d_mapping d) ((d_RQ d)[i := None]) ul blk D \<or> read_answered (d_mapping d) uls (answer_entry e data uls) ul blk D"
      using pending_remove[of "d_mapping d" "d_RQ d" ul blk D i e] i(1,2) answer_entry_answers by blast
  qed (simp_all add: answer_entry_extends)
qed

text \<open>A read that joins another read of its block.\<close>

lemma merged_read:
  assumes ok: "dram_ok d" and i: "i < length (d_RQ d)" "d_RQ d ! i = Some e" "\<not> dq_forward_checked e"
    and j: "j < length (d_RQ d)" "j \<noteq> i" "d_RQ d ! j = Some f" "dram_block (d_mapping d) (dq_address f) = dram_block (d_mapping d) (dq_address e)"
  shows "dram_ok (set_slot (False, i) None (set_slot (False, j) (Some (merge_read e f)) d))" (is "dram_ok (set_slot _ _ ?d1)")
    and "keeps (d, uls) (set_slot (False, i) None (set_slot (False, j) (Some (merge_read e f)) d), uls)"
proof -
  have f: "dq_scheduled f \<longrightarrow> dq_forward_checked f" using fresh_entry(1)[OF ok, of j False f] j by auto
  have "sched_view d (False, i) = None" using fresh_entry[OF ok, of i False e] i by simp
  then have s: "sched_view ?d1 (False, i) = None" using j(1,2) by (simp add: sched_view_set_slot)
  have "dram_ok ?d1" by (rule set_slot_ok[OF ok]) (use j f in \<open>auto simp: sched_view_def\<close>)
  then show "dram_ok (set_slot (False, i) None ?d1)" by (rule set_slot_ok) (use i s in \<open>simp_all add: set_slot_queue\<close>)
  let ?q = "(d_RQ d)[j := Some (merge_read e f)]"
  show "keeps (d, uls) (set_slot (False, i) None ?d1, uls)"
  proof (rule keeps_cover)
    fix ul blk D assume p: "pending_read (d_mapping d) (d_RQ d) ul blk D"
    have "pending_read (d_mapping d) ?q ul blk D" by (rule pending_update[OF p j(1)]) (auto simp: j(3) covers_def)
    moreover have "?q ! i = Some e" using i j(2) by simp
    ultimately have "pending_read (d_mapping d) (?q[i := None]) ul blk D \<or>
        ul \<in> set (dq_to_return e) \<and> D \<subseteq> set (dq_deps e) \<and> dram_block (d_mapping d) (dq_address e) = blk"
      using pending_remove[of "d_mapping d" ?q ul blk D i e] i(1) by auto
    moreover have "Some (merge_read e f) \<in> set (?q[i := None])"
      using j by (metis length_list_update nth_list_update_eq nth_list_update_neq nth_mem)
    then have "pending_read (d_mapping d) (?q[i := None]) ul blk D"
      if "ul \<in> set (dq_to_return e)" "D \<subseteq> set (dq_deps e)" "dram_block (d_mapping d) (dq_address e) = blk"
      using that j(4) unfolding pending_read_def by (intro exI[of _ "merge_read e f"]) auto
    ultimately show "pending_read (d_mapping d) (d_RQ (set_slot (False, i) None ?d1)) ul blk D" by (auto simp: set_slot_queue)
  qed simp
qed

lemma read_collision_total:
  assumes ok: "dram_ok d" and "checked_below i (d_RQ d)" "i < length (d_RQ d)"
  shows "\<exists>d' uls'. read_collision_step i (d, uls) = Some (d', uls') \<and> dram_ok d' \<and> checked_below (Suc i) (d_RQ d')
    \<and> keeps (d, uls) (d', uls') \<and> d_WQ d' = d_WQ d"
proof (cases "d_RQ d ! i")
  case None
  then show ?thesis using assms by (auto simp: read_collision_step_def intro: checked_below_next)
next
  case e: (Some e)
  show ?thesis
  proof (cases "dq_forward_checked e")
    case True
    then show ?thesis using assms e by (auto simp: read_collision_step_def intro: checked_below_next)
  next
    case False
    have m: "mapping_ok (d_mapping d)" using ok by (simp add: dram_ok_def dram_core_def shape_ok_def)
    have fc: "find_collision (d_mapping d) (dq_address e) (d_WQ d) [0..<length (d_WQ d)]
        = Some (find (hit (d_mapping d) (dq_address e) (d_WQ d)) [0..<length (d_WQ d)])" by (rule find_collision_eq[OF m])
    have below: "checked_below (Suc i) (d_RQ (set_slot (False, i) x d))" if "\<And>e. x = Some e \<Longrightarrow> dq_forward_checked e" for x
      unfolding set_slot_queue by (rule checked_below_update[OF assms(2) that])
    show ?thesis
    proof (cases "find (hit (d_mapping d) (dq_address e) (d_WQ d)) [0..<length (d_WQ d)]")
      case (Some k)
      then obtain w where "d_WQ d ! k = Some w" by (auto simp: find_Some_iff hit_def)
      then have "read_collision_step i (d, uls) = Some (set_slot (False, i) None d, answer_entry e (dq_data w) uls)"
        using e False fc Some by (simp add: read_collision_step_def)
      then show ?thesis using forward_read[OF ok assms(3) e False] below[of None] by (simp add: set_slot_queue)
    next
      case None
      obtain r where r: "find_other (d_mapping d) (dq_address e) (d_RQ d) i = Some r"
        and rj: "\<And>j. r = Some j \<Longrightarrow> j < length (d_RQ d) \<and> j \<noteq> i \<and> hit (d_mapping d) (dq_address e) (d_RQ d) j"
        using find_other_eq[OF m assms(3), of "dq_address e"] by blast
      show ?thesis
      proof (cases r)
        case (Some j)
        then obtain f where j: "j < length (d_RQ d)" "j \<noteq> i" "d_RQ d ! j = Some f"
          "dram_block (d_mapping d) (dq_address f) = dram_block (d_mapping d) (dq_address e)" using rj by (auto simp: hit_def)
        have "read_collision_step i (d, uls) = Some (set_slot (False, i) None (set_slot (False, j) (Some (merge_read e f)) d), uls)"
          using e False fc None r Some j(3) by (simp add: read_collision_step_def)
        moreover have "checked_below i ((d_RQ d)[j := Some (merge_read e f)])"
          using assms(2) j(1,3) by (auto simp: checked_below_def nth_list_update)
        then have "checked_below (Suc i) ((d_RQ d)[j := Some (merge_read e f), i := None])" by (rule checked_below_update) simp
        ultimately show ?thesis using merged_read[OF ok assms(3) e False j] by (simp add: set_slot_queue)
      next
        case n: None
        have "read_collision_step i (d, uls) = Some (set_slot (False, i) (Some (e\<lparr>dq_forward_checked := True\<rparr>)) d, uls)"
          using e False fc None r n by (simp add: read_collision_step_def)
        moreover have "dram_ok (set_slot (False, i) (Some (e\<lparr>dq_forward_checked := True\<rparr>)) d)"
          by (rule set_slot_ok[OF ok]) (use assms(3) e in \<open>auto simp: sched_view_def\<close>)
        moreover have "keeps (d, uls) (set_slot (False, i) (Some (e\<lparr>dq_forward_checked := True\<rparr>)) d, uls)"
          by (rule set_slot_keeps) (use assms(3) e in \<open>auto simp: covers_def\<close>)
        ultimately show ?thesis using below[of "Some (e\<lparr>dq_forward_checked := True\<rparr>)"] by (simp add: set_slot_queue)
      qed
    qed
  qed
qed

lemma check_read_total:
  assumes "dram_ok d" "\<And>e. Some e \<in> set (d_WQ d) \<Longrightarrow> dq_forward_checked e" "\<not> d_warmup d"
  obtains d' uls' where "check_read_collision (d, uls) = Some (d', uls')" "dram_core d'" "all_checked d'" "keeps (d, uls) (d', uls')"
proof -
  let ?n = "length (d_RQ d)"
  let ?P = "\<lambda>i (t, us :: channel list). dram_ok t \<and> checked_below i (d_RQ t) \<and> length (d_RQ t) = ?n \<and> d_WQ t = d_WQ d"
  have "\<exists>s. fold_option read_collision_step [0..<?n] (d, uls) = Some s \<and> ?P ?n s \<and> keeps (d, uls) s"
  proof (rule fold_option_upt[where P = ?P and R = keeps])
    fix i s assume i: "i < ?n" and P: "?P i s"
    obtain t us where s: "s = (t, us)" by (cases s)
    obtain t' us' where "read_collision_step i (t, us) = Some (t', us')" "dram_ok t'" "checked_below (Suc i) (d_RQ t')"
      "keeps (t, us) (t', us')" "d_WQ t' = d_WQ t" using read_collision_total[of t i us] i P by (auto simp: s)
    moreover from this have "length (d_RQ t') = length (d_RQ t)" by (simp add: keeps_def dram_shape_def)
    ultimately show "\<exists>s'. read_collision_step i s = Some s' \<and> ?P (Suc i) s' \<and> keeps s s'" using P by (auto simp: s)
  qed (use assms(1) keeps_trans in \<open>auto simp: checked_below_def\<close>)
  then obtain d' uls' where d': "check_read_collision (d, uls) = Some (d', uls')" "dram_ok d'" "checked_below (length (d_RQ d')) (d_RQ d')"
    "d_WQ d' = d_WQ d" "keeps (d, uls) (d', uls')" by (auto simp: check_read_collision_def)
  have "\<not> d_warmup d'" using d'(5) assms(3) by (simp add: keeps_def dram_shape_def)
  then have "all_checked d'" using d'(3,4) assms(2) by (auto simp: all_checked_def checked_below_all queue_of_def)
  then show thesis using that d' by (simp add: dram_ok_def)
qed

text \<open>Without packets the checks have nothing to do.\<close>

lemma fold_option_id: "(\<And>x. x \<in> set xs \<Longrightarrow> f x s = Some s) \<Longrightarrow> fold_option f xs s = Some s"
  by (induction xs) simp_all

lemma empty_checks:
  assumes "\<And>w e. Some e \<notin> set (queue_of w d)"
  shows "check_write_collision d = Some d" "check_read_collision (d, uls) = Some (d, uls)"
proof -
  have none: "d_WQ d ! i = None" if "i < length (d_WQ d)" for i using assms[of _ True] that by (cases "d_WQ d ! i") (auto dest: nth_mem)
  have none': "d_RQ d ! i = None" if "i < length (d_RQ d)" for i using assms[of _ False] that by (cases "d_RQ d ! i") (auto dest: nth_mem)
  show "check_write_collision d = Some d"
    unfolding check_write_collision_def by (rule fold_option_id) (simp add: write_collision_step_def none)
  show "check_read_collision (d, uls) = Some (d, uls)"
    unfolding check_read_collision_def by (rule fold_option_id) (simp add: read_collision_step_def none')
qed

lemma checks_total:
  assumes "dram_ok d" "d_warmup d \<Longrightarrow> (\<forall>w. \<forall>e. Some e \<notin> set (queue_of w d))"
  obtains d1 d' uls' where "check_write_collision d = Some d1" "check_read_collision (d1, uls) = Some (d', uls')"
    "dram_core d'" "all_checked d'" "keeps (d, uls) (d', uls')"
proof (cases "d_warmup d")
  case True
  then have no: "\<And>w e. Some e \<notin> set (queue_of w d)" using assms(2) by blast
  show thesis by (rule that[OF empty_checks[OF no]]) (use assms(1) no in \<open>auto simp: dram_ok_def all_checked_def\<close>)
next
  case False
  obtain d1 where d1: "check_write_collision d = Some d1" "dram_ok d1" "keeps (d, uls) (d1, uls)"
    "\<And>e. Some e \<in> set (d_WQ d1) \<Longrightarrow> dq_forward_checked e" by (rule check_write_total[OF assms(1), of uls]) blast
  have "\<not> d_warmup d1" using d1(3) False by (simp add: keeps_def dram_shape_def)
  from check_read_total[OF d1(2,4) this, of uls] obtain d' uls' where "check_read_collision (d1, uls) = Some (d', uls')"
    "dram_core d'" "all_checked d'" "keeps (d1, uls) (d', uls')" by blast
  then show thesis using that[OF d1(1)] keeps_trans[OF d1(3)] by blast
qed

subsection \<open>Banks\<close>

text \<open>After the checks, until the end of the cycle.\<close>

definition dram_ready :: "DRAM_CHANNEL \<Rightarrow> bool" where
  "dram_ready d \<longleftrightarrow> dram_core d \<and> all_checked d"

lemma dram_ready_cong:
  assumes "dram_shape d' = dram_shape d" "map bank_view (bank_request d') = map bank_view (bank_request d)"
    "\<And>w. queue_of w d' = queue_of w d" "active_request d' = active_request d" "dram_ready d"
  shows "dram_ready d'"
  using core_cong[OF assms(1,2) sched_view_same[OF assms(3)] assms(4)] assms(1,3,5) by (simp add: dram_ready_def all_checked_def dram_shape_def)

lemma ready_parts:
  assumes "dram_ready d"
  shows "linked (d_mapping d) (map bank_view (bank_request d)) (sched_view d) (active_request d)"
    and "mapping_ok (d_mapping d)" "0 < hash_bits (d_mapping d)" "0 < length (bank_request d)"
    and "length (bank_request d) = dram_ranks (d_mapping d) * dram_bankgroups (d_mapping d) * dram_banks (d_mapping d)"
    and "length (bankgroup_readytime d) = dram_ranks (d_mapping d) * dram_bankgroups (d_mapping d)"
    and "0 < length (d_RQ d)" "0 < length (d_WQ d)"
  using assms by (auto simp: dram_ready_def dram_core_def shape_ok_def dram_ranks_def dram_bankgroups_def dram_banks_def)

lemma active_busy: "dram_ready d \<Longrightarrow> active_request d = Some i \<Longrightarrow> i < length (bank_request d) \<and> br_valid (bank_request d ! i)"
  by (drule ready_parts(1), drule linked_bus, assumption) (auto simp: bank_view_def)

text \<open>A bank lets its packet go.\<close>

lemma unlink_ready:
  assumes "dram_ready d" "i < length (bank_request d)" "br_valid (bank_request d ! i)"
    and pkt: "br_pkt (bank_request d ! i) = Some (w, j)" "j < length (queue_of w d)"
    and d1: "dram_shape d1 = dram_shape d" "\<And>w. queue_of w d1 = queue_of w d" "bank_request d1 = (bank_request d)[i := b]" "\<not> br_valid b"
    and act: "active_request d1 = active_request d \<and> active_request d \<noteq> Some i \<or> active_request d1 = None"
    and x: "entry_sched x = None" "\<And>e. x = Some e \<Longrightarrow> dq_forward_checked e \<and> \<not> d_warmup d"
  shows "dram_ready (set_slot (w, j) x d1)"
proof -
  have core: "dram_core d" "all_checked d" using assms(1) by (simp_all add: dram_ready_def)
  have v: "map bank_view (bank_request d1) = (map bank_view (bank_request d))[i := (False, br_pkt b)]"
    using d1(3,4) by (simp add: map_update bank_view_def)
  have s: "sched_view (set_slot (w, j) x d1) = (sched_view d)((w, j) := None)"
    using pkt(2) sched_view_same[OF d1(2)] x(1) by (simp add: sched_view_set_slot d1(2))
  have m: "d_mapping d1 = d_mapping d" "d_warmup d1 = d_warmup d" using d1(1) by (simp_all add: dram_shape_def)
  have "linked (d_mapping d) (map bank_view (bank_request d1)) (sched_view (set_slot (w, j) x d1)) (active_request d1)"
    unfolding v s by (rule unlink_bank[OF ready_parts(1)[OF assms(1)]]) (use assms(2,3) pkt(1) act in \<open>auto simp: bank_view_def\<close>)
  moreover have "d_warmup d \<longrightarrow> (\<forall>b\<in>set (bank_request d1). \<not> br_valid b)"
    using core(1) d1(3,4) set_update_subset_insert[of "bank_request d" i b] by (auto simp: dram_core_def)
  moreover have "shape_ok (set_slot (w, j) x d1)" using core(1) d1(1) shape_cong[of "set_slot (w, j) x d1" d] by (simp add: dram_core_def)
  moreover have "all_checked d1" using core(2) d1(2) m(2) by (simp add: all_checked_def)
  ultimately show ?thesis using set_slot_checked x(2) by (simp add: dram_ready_def dram_core_def m)
qed

lemma finish_dbus_total:
  assumes "dram_ready d"
  obtains p d' uls' where "finish_dbus_request (d, uls) = Some (p, d', uls')" "dram_ready d'" "keeps (d, uls) (d', uls')"
proof (cases "active_request d")
  case None
  then show thesis using assms by (intro that[of 0 d uls]) (simp_all add: finish_dbus_request_def)
next
  case (Some i)
  let ?b = "bank_request d ! i"
  have i: "i < length (bank_request d)" "br_valid ?b" using active_busy[OF assms Some] by simp_all
  show thesis
  proof (cases "br_ready_time ?b \<le> d_current_time d")
    case True
    obtain w j e where p: "br_pkt ?b = Some (w, j)" "j < length (queue_of w d)" "queue_of w d ! j = Some e" "pkt_value d ?b = Some ((w, j), e)"
      using assms i by (elim busy_bank[rotated]) (auto simp: dram_ready_def)
    let ?d1 = "d\<lparr>bank_request := (bank_request d)[i := ?b\<lparr>br_valid := False\<rparr>], active_request := None\<rparr>"
    have "finish_dbus_request (d, uls) = Some (1, set_slot (w, j) None ?d1, answer_entry e (dq_data e) uls)"
      using Some True p(4) by (simp add: finish_dbus_request_def Let_def)
    moreover have "dram_ready (set_slot (w, j) None ?d1)" by (rule unlink_ready[OF assms i p(1,2), where b = "?b\<lparr>br_valid := False\<rparr>"]) (simp_all add: dram_shape_def)
    moreover have "keeps (d, uls) (set_slot (w, j) None ?d1, answer_entry e (dq_data e) uls)"
      unfolding keeps_def fst_conv snd_conv
    proof (intro conjI allI impI)
      fix ul blk D assume "ul < length uls" "pending_read (d_mapping d) (d_RQ d) ul blk D"
      then show "pending_read (d_mapping d) (d_RQ (set_slot (w, j) None ?d1)) ul blk D \<or> read_answered (d_mapping d) uls (answer_entry e (dq_data e) uls) ul blk D"
        using pending_remove[of "d_mapping d" "d_RQ d" ul blk D j e] p(2,3) answer_entry_answers by (cases w) (auto simp: set_slot_queue)
    qed (simp_all add: answer_entry_extends dram_shape_def)
    ultimately show thesis by (rule that)
  next
    case False
    then show thesis using assms Some by (intro that[of 0 d uls]) (simp_all add: finish_dbus_request_def Let_def)
  qed
qed

lemma release_bank_total:
  assumes "dram_ready d" "i < length (bank_request d)"
  shows "\<exists>d'. release_bank i d = Some d' \<and> dram_ready d' \<and> keeps (d, uls) (d', uls) \<and> active_request d' = active_request d"
proof (cases "Some i \<noteq> active_request d \<and> br_valid (bank_request d ! i)")
  case True
  let ?b = "bank_request d ! i"
  obtain w j e where p: "br_pkt ?b = Some (w, j)" "j < length (queue_of w d)" "queue_of w d ! j = Some e" "pkt_value d ?b = Some ((w, j), e)"
    using assms True by (elim busy_bank[rotated]) (auto simp: dram_ready_def)
  define b where "b = (if br_ready_time ?b < d_current_time d + tCAS d then ?b\<lparr>open_row := None\<rparr> else ?b)"
  let ?d1 = "d\<lparr>bank_request := (bank_request d)[i := b\<lparr>br_valid := False\<rparr>]\<rparr>"
  let ?x = "Some (e\<lparr>dq_scheduled := False, dq_ready_time := d_current_time d\<rparr>)"
  have e: "dq_forward_checked e" "\<not> d_warmup d" using assms(1) p(3) nth_mem[OF p(2)] by (auto simp: dram_ready_def all_checked_def)
  have "release_bank i d = Some (set_slot (w, j) ?x ?d1)" using True p(4) by (simp add: release_bank_def Let_def b_def)
  moreover have "dram_ready (set_slot (w, j) ?x ?d1)"
    by (rule unlink_ready[OF assms _ p(1,2), where b = "b\<lparr>br_valid := False\<rparr>"]) (use True e in \<open>auto simp: dram_shape_def\<close>)
  moreover have "keeps (d, uls) (?d1, uls)" by (rule keeps_cover) (simp_all add: dram_shape_def)
  moreover have "keeps (?d1, uls) (set_slot (w, j) ?x ?d1, uls)"
    by (rule set_slot_keeps) (use p(2,3) in \<open>auto simp: covers_def\<close>)
  moreover have "active_request (set_slot (w, j) ?x ?d1) = active_request d" by simp
  ultimately show ?thesis using keeps_trans by blast
next
  case False
  then have "release_bank i d = Some d" unfolding release_bank_def Let_def by (rule if_not_P)
  then show ?thesis using assms(1) by simp
qed

lemma swap_mode_total:
  assumes "dram_ready d"
  obtains d' where "swap_write_mode d = Some d'" "dram_ready d'" "keeps (d, uls) (d', uls)"
proof (cases "mode_unbalanced d")
  case True
  let ?n = "length (bank_request d)"
  have "\<exists>t. fold_option release_bank [0..<?n] d = Some t \<and> (dram_ready t \<and> length (bank_request t) = ?n) \<and> keeps (d, uls) (t, uls)"
  proof (rule fold_option_upt[where P = "\<lambda>_ t. dram_ready t \<and> length (bank_request t) = ?n"])
    fix i t assume "i < ?n" "dram_ready t \<and> length (bank_request t) = ?n"
    then obtain t' where "release_bank i t = Some t'" "dram_ready t'" "keeps (t, uls) (t', uls)"
      using release_bank_total[of t i uls] by auto
    moreover from this have "length (bank_request t') = length (bank_request t)" by (simp add: keeps_def dram_shape_def)
    ultimately show "\<exists>t'. release_bank i t = Some t' \<and> (dram_ready t' \<and> length (bank_request t') = ?n) \<and> keeps (t, uls) (t', uls)"
      using \<open>dram_ready t \<and> _\<close> by auto
  qed (use assms keeps_trans in auto)
  then obtain t where t: "fold_option release_bank [0..<?n] d = Some t" "dram_ready t" "keeps (d, uls) (t, uls)" by blast
  define d' where "d' = t\<lparr>dbus_cycle_available := (case active_request t of
           Some i \<Rightarrow> br_ready_time (bank_request t ! i) | None \<Rightarrow> d_current_time t) + DRAM_DBUS_TURN_AROUND_TIME t, write_mode := \<not> write_mode t\<rparr>"
  have "dram_ready d'" by (rule dram_ready_cong[OF _ _ _ _ t(2)]) (simp_all add: d'_def dram_shape_def queue_of_def)
  moreover have "keeps (t, uls) (d', uls)" by (rule keeps_cover) (simp_all add: d'_def dram_shape_def)
  moreover have "swap_write_mode d = Some d'" using True t(1) by (simp add: swap_write_mode_def d'_def)
  ultimately show thesis using that keeps_trans[OF t(3)] by blast
next
  case False
  then show thesis using assms by (intro that[of d]) (simp_all add: swap_write_mode_def)
qed

lemma refresh_bank_view: "bank_view (snd (refresh_bank due d b)) = bank_view b"
  by (simp add: refresh_bank_def bank_view_def Let_def)

lemma refresh_total:
  assumes "dram_ready d" "schedule_refresh d = (p, d')"
  shows "dram_ready d'" "keeps (d, uls) (d', uls)"
proof -
  define d1 where "d1 = (if refresh_due d
       then (let row = refresh_row d + DRAM_ROWS_PER_REFRESH d
         in on_dram_stats (\<lambda>s. s\<lparr>refresh_cycles := refresh_cycles s + 1\<rparr>)
           (d\<lparr>last_refresh := d_current_time d, refresh_row := (if row \<ge> dram_rows (d_mapping d) then row - dram_rows (d_mapping d) else row)\<rparr>))
       else d)"
  have d': "d' = d1\<lparr>bank_request := map (snd \<circ> refresh_bank (refresh_due d) d1) (bank_request d1)\<rparr>"
    using assms(2) by (simp add: schedule_refresh_def d1_def Let_def)
  have d1: "dram_shape d1 = dram_shape d" "bank_request d1 = bank_request d" "d_RQ d1 = d_RQ d" "active_request d1 = active_request d"
    "\<And>w. queue_of w d1 = queue_of w d"
    by (simp_all add: d1_def dram_shape_def on_dram_stats_def queue_of_def Let_def)
  have shape: "dram_shape d' = dram_shape d" using d1(1,2) by (simp add: d' dram_shape_def)
  show "dram_ready d'"
    by (rule dram_ready_cong[OF shape _ _ _ assms(1)]) (simp_all add: d' d1 refresh_bank_view comp_def)
  show "keeps (d, uls) (d', uls)" by (rule keeps_cover[OF shape]) (simp add: d' d1)
qed

lemma populate_total:
  assumes "dram_ready d"
  obtains p d' where "populate_dbus d = Some (p, d')" "dram_ready d'" "keeps (d, uls) (d', uls)"
proof -
  let ?i = "min_element (bank_before d) 0 (length (bank_request d))"
  let ?b = "bank_request d ! ?i"
  have i: "?i < length (bank_request d)" using min_element_range(2)[OF ready_parts(4)[OF assms]] .
  then have ne: "bank_request d \<noteq> []" by auto
  show thesis
  proof (cases "br_valid ?b \<and> br_ready_time ?b \<le> d_current_time d")
    case ready: True
    show thesis
    proof (cases "active_request d = None \<and> dbus_cycle_available d \<le> d_current_time d")
      case True
      obtain w j e where p: "pkt_value d ?b = Some ((w, j), e)"
        using assms i ready by (elim busy_bank[rotated]) (auto simp: dram_ready_def)
      obtain g where g: "bankgroup_request_index d (dq_address e) = Some g" "g < length (bankgroup_readytime d)"
        using bankgroup_index_total[OF ready_parts(2,3)[OF assms]] ready_parts(6)[OF assms] by metis
      let ?t = "(if bankgroup_readytime d ! g > d_current_time d then bankgroup_readytime d ! g else d_current_time d) + DRAM_DBUS_RETURN_TIME d"
      define d' where "d' = on_dram_stats (count_row_buffer (row_buffer_hit ?b) (write_mode d))
          (d\<lparr>active_request := Some ?i, bank_request := (bank_request d)[?i := ?b\<lparr>br_ready_time := ?t\<rparr>],
             bankgroup_readytime := (bankgroup_readytime d)[g := d_current_time d + DRAM_DBUS_RETURN_TIME d + DRAM_DBUS_BANKGROUP_STALL d]\<rparr>)"
      have "populate_dbus d = Some (1, d')"
        using ne ready True p g by (simp add: populate_dbus_def start_transfer_def Let_def d'_def)
      moreover have shape: "dram_shape d' = dram_shape d" by (simp add: d'_def dram_shape_def on_dram_stats_def)
      have "dram_ready d'"
      proof -
        have views: "map bank_view (bank_request d') = map bank_view (bank_request d)"
          using i by (simp add: d'_def on_dram_stats_def bank_view_def map_update_same)
        have q: "queue_of w d' = queue_of w d" for w by (simp add: d'_def on_dram_stats_def queue_of_def)
        have "linked (d_mapping d) (map bank_view (bank_request d)) (sched_view d) (active_request d')"
          using ready_parts(1)[OF assms] i ready by (auto simp: linked_def d'_def on_dram_stats_def bank_view_def)
        then have "dram_core (d'\<lparr>active_request := active_request d\<rparr>) \<longrightarrow> dram_core d'"
          by (simp add: dram_core_def views sched_view_same[OF q] shape_ok_def) (use shape in \<open>simp add: dram_shape_def\<close>)
        moreover have "dram_core (d'\<lparr>active_request := active_request d\<rparr>)"
          by (rule core_cong[of _ d]) (use assms shape views q in \<open>simp_all add: dram_shape_def dram_ready_def sched_view_def fun_eq_iff\<close>)
        moreover have "all_checked d'" using assms q shape by (simp add: dram_ready_def all_checked_def dram_shape_def)
        ultimately show ?thesis by (simp add: dram_ready_def)
      qed
      moreover have "keeps (d, uls) (d', uls)" by (rule keeps_cover[OF shape]) (simp add: d'_def on_dram_stats_def)
      ultimately show thesis using that by blast
    next
      case False
      have "dram_ready (count_congestion d)"
        by (rule dram_ready_cong[OF _ _ _ _ assms]) (simp_all add: count_congestion_def on_dram_stats_def dram_shape_def Let_def)
      moreover have "keeps (d, uls) (count_congestion d, uls)"
        by (rule keeps_cover) (simp_all add: count_congestion_def on_dram_stats_def dram_shape_def Let_def)
      moreover have "populate_dbus d = Some (0, count_congestion d)"
        unfolding populate_dbus_def Let_def if_not_P[OF ne] if_P[OF ready] by (rule if_not_P[OF False])
      ultimately show thesis using that by blast
    qed
  next
    case False
    have "populate_dbus d = Some (0, d)" unfolding populate_dbus_def Let_def if_not_P[OF ne] by (rule if_not_P[OF False])
    then show thesis using that assms by simp
  qed
qed

lemma next_schedule_total:
  assumes "dram_ready d"
  obtains b where "next_schedule d x y = Some b"
proof -
  have idx: "\<exists>i<length (bank_request d). bank_request_index d a = Some i" for a
    using bank_index_total[OF ready_parts(2,3)[OF assms], of a] ready_parts(5)[OF assms] by (metis bank_request_index_eq)
  have "next_schedule d x y \<noteq> None"
  proof (cases x; cases y)
    fix l r assume "x = Some l" "y = Some r"
    then show ?thesis using idx[of "dq_address l"] idx[of "dq_address r"] by (auto simp: next_schedule_def Let_def)
  qed (auto simp: next_schedule_def)
  then show thesis using that by blast
qed

lemma scan_packets_total:
  assumes "dram_ready d" "k < n" "\<forall>j\<in>set js. j < n"
  shows "\<exists>r. scan_packets d q k js = Some r \<and> r < n"
  using assms(2,3)
proof (induction js arbitrary: k)
  case (Cons j js)
  obtain b where "next_schedule d (q ! j) (q ! k) = Some b" by (rule next_schedule_total[OF assms(1)])
  then show ?case using Cons by simp
qed simp

lemma schedule_packet_total:
  assumes "dram_ready d"
  obtains w j where "schedule_packet d = Some (w, j)" "j < length (queue_of w d)"
proof -
  let ?q = "queue_of (write_mode d) d"
  have n: "0 < length ?q" using ready_parts(7,8)[OF assms] by (simp add: queue_of_def)
  have "\<exists>r. scan_packets d ?q 0 [1..<length ?q] = Some r \<and> r < length ?q" by (rule scan_packets_total[OF assms n]) simp
  then show thesis using that n by (auto simp: schedule_packet_def Let_def)
qed

lemma service_total:
  assumes "dram_ready d" "j < length (queue_of w d)"
  obtains p d' where "service_packet (w, j) d = Some (p, d')" "dram_ready d'" "keeps (d, uls) (d', uls)"
proof (cases "queue_of w d ! j")
  case None
  then show thesis using assms(1) by (intro that[of 0 d]) (simp_all add: service_packet_def)
next
  case e: (Some e)
  obtain row where row: "get_row (d_mapping d) (dq_address e) = Some row" using coordinates(5)[OF ready_parts(2,3)[OF assms(1)]] by blast
  obtain i where "bank_index (d_mapping d) (dq_address e) = Some i" "i < length (bank_request d)"
    using bank_index_total[OF ready_parts(2,3)[OF assms(1)], of "dq_address e"] ready_parts(5)[OF assms(1)] by metis
  then have i: "bank_request_index d (dq_address e) = Some i" "bank_index (d_mapping d) (dq_address e) = Some i" "i < length (bank_request d)"
    by (simp_all add: bank_request_index_eq)
  let ?b = "bank_request d ! i"
  show thesis
  proof (cases "dq_ready_time e \<le> d_current_time d \<and> \<not> br_valid ?b \<and> \<not> under_refresh ?b")
    case True
    define b where "b = \<lparr>br_valid = True, row_buffer_hit = (open_row ?b = Some row), need_refresh = False, under_refresh = False, open_row = Some row,
                  br_ready_time = d_current_time d + tCAS d + (if open_row ?b = Some row then 0 else if open_row ?b \<noteq> None then tRP d + tRCD d else tRCD d),
                  br_pkt = Some (w, j)\<rparr>"
    let ?d1 = "d\<lparr>bank_request := (bank_request d)[i := b]\<rparr>"
    define d' where "d' = set_slot (w, j) (Some (e\<lparr>dq_scheduled := True, dq_ready_time := time_sentinel\<rparr>)) ?d1"
    have shape: "dram_shape d' = dram_shape d" "dram_shape ?d1 = dram_shape d" by (simp_all add: d'_def dram_shape_def)
    have l: "linked (d_mapping d) (map bank_view (bank_request d)) (sched_view d) (active_request d)" by (rule ready_parts(1)[OF assms(1)])
    have free: "\<not> fst (map bank_view (bank_request d) ! i)" using True i(3) by (simp add: bank_view_def)
    have "sched_view d (w, j) = None"
    proof (rule ccontr)
      assume "sched_view d (w, j) \<noteq> None"
      then have a: "sched_view d (w, j) = Some (dq_address e)" using assms(2) e by (auto simp: sched_view_def split: if_splits)
      then obtain k where k: "k < length (bank_request d)" "fst (map bank_view (bank_request d) ! k)" "snd (map bank_view (bank_request d) ! k) = Some (w, j)"
        using linked_served[OF l, of "(w, j)"] by auto
      then obtain s a' where "snd (map bank_view (bank_request d) ! k) = Some s" "sched_view d s = Some a'" "bank_index (d_mapping d) a' = Some k"
        using linked_busy[OF l, of k] by auto
      then have "k = i" using k a i(2) by simp
      then show False using k(2) free by simp
    qed
    then have "linked (d_mapping d) ((map bank_view (bank_request d))[i := (True, Some (w, j))]) ((sched_view d)((w, j) := Some (dq_address e))) (active_request d)"
      using link_bank[OF l] i free by simp
    moreover have "map bank_view (bank_request d') = (map bank_view (bank_request d))[i := (True, Some (w, j))]"
      by (simp add: d'_def map_update bank_view_def b_def)
    moreover have "sched_view d' = (sched_view d)((w, j) := Some (dq_address e))"
      using assms(2) sched_view_same[of ?d1 d] by (simp add: d'_def sched_view_set_slot)
    ultimately have "linked (d_mapping d') (map bank_view (bank_request d')) (sched_view d') (active_request d')" by (simp add: d'_def)
    moreover have checked: "all_checked ?d1" "dq_forward_checked e" "\<not> d_warmup d"
      using assms e nth_mem[OF assms(2)] by (auto simp: dram_ready_def all_checked_def)
    moreover have "d_warmup d' = d_warmup d" by (simp add: d'_def)
    ultimately have core: "dram_core d'"
      using assms(1) shape_cong[OF shape(1)] by (simp add: dram_ready_def dram_core_def)
    from checked have checked: "all_checked d'" unfolding d'_def by (intro set_slot_checked) auto
    have "service_packet (w, j) d = Some (1, d')"
      using True e row i by (simp add: service_packet_def Let_def d'_def b_def)
    moreover have "keeps (d, uls) (d', uls)"
    proof (rule keeps_trans)
      show "keeps (d, uls) (?d1, uls)" by (rule keeps_cover[OF shape(2)]) simp
      show "keeps (?d1, uls) (d', uls)" unfolding d'_def by (rule set_slot_keeps) (use assms(2) e in \<open>auto simp: covers_def\<close>)
    qed
    ultimately show thesis using that core checked by (auto simp: dram_ready_def)
  next
    case False
    then have "service_packet (w, j) d = Some (0, d)" using e row i by (auto simp: service_packet_def Let_def)
    then show thesis using that assms(1) by simp
  qed
qed

subsection \<open>The whole cycle\<close>

lemma operate_total:
  assumes "dram_ok d"
  obtains p d' uls' where "dram_operate (d, uls) = Some (p, d', uls')" "dram_ok d'" "keeps (d, uls) (d', uls')"
proof -
  obtain p0 d0 u0 where w: "warmup_answers (d, uls) = (p0, d0, u0)" by (cases "warmup_answers (d, uls)") auto
  have 0: "dram_ok d0" "keeps (d, uls) (d0, u0)" by (rule warmup_step[OF assms w])+
  have none: "\<forall>w. \<forall>e. Some e \<notin> set (queue_of w d0)" if "d_warmup d0"
    using w that 0(2) by (auto simp: warmup_answers_def queue_of_def keeps_def dram_shape_def split: if_splits)
  obtain d1 d2 u2 where 2: "check_write_collision d0 = Some d1" "check_read_collision (d1, u0) = Some (d2, u2)"
    "dram_core d2" "all_checked d2" "keeps (d0, u0) (d2, u2)" by (rule checks_total[OF 0(1) none])
  have r2: "dram_ready d2" using 2(3,4) by (simp add: dram_ready_def)
  obtain p3 d3 u3 where 3: "finish_dbus_request (d2, u2) = Some (p3, d3, u3)" "dram_ready d3" "keeps (d2, u2) (d3, u3)"
    by (rule finish_dbus_total[OF r2])
  obtain d4 where 4: "swap_write_mode d3 = Some d4" "dram_ready d4" "keeps (d3, u3) (d4, u3)" by (rule swap_mode_total[OF 3(2)])
  obtain p5 d5 where s5: "schedule_refresh d4 = (p5, d5)" by (cases "schedule_refresh d4")
  have 5: "dram_ready d5" "keeps (d4, u3) (d5, u3)" by (rule refresh_total[OF 4(2) s5])+
  obtain p6 d6 where 6: "populate_dbus d5 = Some (p6, d6)" "dram_ready d6" "keeps (d5, u3) (d6, u3)" by (rule populate_total[OF 5(1)])
  obtain w j where pkt: "schedule_packet d6 = Some (w, j)" "j < length (queue_of w d6)" by (rule schedule_packet_total[OF 6(2)])
  obtain p7 d7 where 7: "service_packet (w, j) d6 = Some (p7, d7)" "dram_ready d7" "keeps (d6, u3) (d7, u3)" by (rule service_total[OF 6(2) pkt(2)])
  have "dram_operate (d, uls) = Some (p0 + p3 + p5 + p6 + p7, d7, u3)"
    using w 2(1,2) 3(1) 4(1) s5 6(1) pkt(1) 7(1) by (simp add: dram_operate_def)
  moreover have "dram_ok d7" using 7(2) by (simp add: dram_ready_def all_checked_ok)
  moreover have "keeps (d, uls) (d7, u3)"
    using keeps_trans[OF keeps_trans[OF keeps_trans[OF keeps_trans[OF keeps_trans[OF keeps_trans[OF 0(2) 2(5)] 3(3)] 4(3)] 5(2)] 6(3)] 7(3)] .
  ultimately show thesis by (rule that)
qed

end
