(* ===== verification/Dram_Controller.thy ===== *)
theory Dram_Controller
  imports Dram_Correctness
begin

text \<open>
  The memory controller as a whole: it takes the requests of the upper levels, gives them to the channels
  and runs these.  No sequence of requests and cycles makes it fail, and no read is forgotten: from the queue
  of an upper level until its answer there is always someone who holds it.
\<close>

section \<open>The invariant of the controller\<close>

definition mc_ok :: "MEMORY_CONTROLLER \<Rightarrow> bool" where
  "mc_ok c \<longleftrightarrow> (\<forall>d\<in>set (mc_channels c). dram_ok d \<and> d_mapping d = mc_mapping c) \<and> length (mc_channels c) = dram_channels (mc_mapping c)"

definition held_read :: "MEMORY_CONTROLLER \<Rightarrow> nat \<Rightarrow> address \<Rightarrow> nat set \<Rightarrow> bool" where
  "held_read c ul blk D \<longleftrightarrow> (\<exists>d\<in>set (mc_channels c). pending_read (mc_mapping c) (d_RQ d) ul blk D)"

lemma held_read_map: "held_read c ul blk D \<longleftrightarrow> (\<exists>q\<in>set (map d_RQ (mc_channels c)). pending_read (mc_mapping c) q ul blk D)"
  by (simp add: held_read_def)

definition queued_read :: "MEMORY_CONTROLLER \<Rightarrow> nat \<Rightarrow> address \<Rightarrow> nat set \<Rightarrow> bool" where
  "queued_read c ul blk D \<longleftrightarrow> (\<exists>q\<in>set (RQ (mc_queues c ! ul)) \<union> set (PQ (mc_queues c ! ul)).
     rq_response_requested q \<and> D \<subseteq> set (rq_deps q) \<and> dram_block (mc_mapping c) (rq_address q) = blk)"

text \<open>An upper level waits for an answer.\<close>

definition awaits :: "MEMORY_CONTROLLER \<Rightarrow> nat \<Rightarrow> address \<Rightarrow> nat set \<Rightarrow> bool" where
  "awaits c ul blk D \<longleftrightarrow> queued_read c ul blk D \<or> held_read c ul blk D"

definition mc_keeps :: "MEMORY_CONTROLLER \<Rightarrow> MEMORY_CONTROLLER \<Rightarrow> bool" where
  "mc_keeps c c' \<longleftrightarrow> mc_mapping c' = mc_mapping c \<and> length (mc_queues c') = length (mc_queues c) \<and>
     (\<forall>ul<length (mc_queues c). (\<exists>rs. returned (mc_queues c' ! ul) = returned (mc_queues c ! ul) @ rs) \<and>
        (\<forall>blk D. awaits c ul blk D \<longrightarrow> awaits c' ul blk D \<or> read_answered (mc_mapping c) (mc_queues c) (mc_queues c') ul blk D))"

lemma mc_keeps_refl [simp]: "mc_keeps c c"
  by (simp add: mc_keeps_def)

lemma mc_keeps_trans:
  assumes "mc_keeps a b" "mc_keeps b c"
  shows "mc_keeps a c"
  unfolding mc_keeps_def
proof (intro conjI allI impI)
  fix ul assume ul: "ul < length (mc_queues a)"
  obtain rs where rs: "returned (mc_queues b ! ul) = returned (mc_queues a ! ul) @ rs" using assms(1) ul by (auto simp: mc_keeps_def)
  have "ul < length (mc_queues b)" using assms(1) ul by (simp add: mc_keeps_def)
  then obtain ts where "returned (mc_queues c ! ul) = returned (mc_queues b ! ul) @ ts" using assms(2) by (auto simp: mc_keeps_def)
  note r = rs this
  then show "\<exists>rs. returned (mc_queues c ! ul) = returned (mc_queues a ! ul) @ rs" by simp
  fix blk D assume "awaits a ul blk D"
  then have "awaits b ul blk D \<or> read_answered (mc_mapping a) (mc_queues a) (mc_queues b) ul blk D"
    using assms(1) ul by (auto simp: mc_keeps_def)
  moreover have "awaits b ul blk D \<longrightarrow> awaits c ul blk D \<or> read_answered (mc_mapping a) (mc_queues b) (mc_queues c) ul blk D"
    using assms ul by (auto simp: mc_keeps_def)
  ultimately have "awaits c ul blk D \<or> read_answered (mc_mapping a) (mc_queues b) (mc_queues c) ul blk D \<or> read_answered (mc_mapping a) (mc_queues a) (mc_queues b) ul blk D"
    by blast
  then show "awaits c ul blk D \<or> read_answered (mc_mapping a) (mc_queues a) (mc_queues c) ul blk D"
    by (auto simp: read_answered_def r)
qed (use assms in \<open>simp_all add: mc_keeps_def\<close>)

section \<open>Taking requests\<close>

text \<open>A loop that takes requests while it can keeps an invariant, and what holds of a taken one.\<close>

lemma while_ok_total:
  assumes "P s" and step: "\<And>x s. P s \<Longrightarrow> \<exists>b s'. f x s = Some (b, s') \<and> P s' \<and> R s s' \<and> (b \<longrightarrow> G x s')"
    and refl: "\<And>s. R s s" and trans: "\<And>a b c. R a b \<Longrightarrow> R b c \<Longrightarrow> R a c" and mono: "\<And>x a b. R a b \<Longrightarrow> G x a \<Longrightarrow> G x b"
  shows "\<exists>taken rest t. while_ok f xs s = Some (taken, rest, t) \<and> P t \<and> R s t \<and> taken @ rest = xs \<and> (\<forall>x\<in>set taken. G x t)"
  using assms(1)
proof (induction xs arbitrary: s)
  case (Cons x xs)
  obtain b s1 where 1: "f x s = Some (b, s1)" "P s1" "R s s1" "b \<longrightarrow> G x s1" using step[OF Cons.prems] by blast
  show ?case
  proof (cases b)
    case True
    obtain taken rest t where "while_ok f xs s1 = Some (taken, rest, t)" "P t" "R s1 t" "taken @ rest = xs" "\<forall>x\<in>set taken. G x t"
      using Cons.IH[OF 1(2)] by blast
    moreover from this have "R s t" "G x t" using 1(4) True trans[OF 1(3)] mono by blast+
    ultimately show ?thesis using 1(1) True by simp
  next
    case False
    then show ?thesis using 1 by auto
  qed
qed (use refl in simp)

text \<open>What the channels hold can only grow while requests are taken.\<close>

definition mc_grows :: "MEMORY_CONTROLLER \<Rightarrow> MEMORY_CONTROLLER \<Rightarrow> bool" where
  "mc_grows c c' \<longleftrightarrow> mc_mapping c' = mc_mapping c \<and> mc_queues c' = mc_queues c \<and> (\<forall>ul blk D. held_read c ul blk D \<longrightarrow> held_read c' ul blk D)"

definition holds_request :: "nat \<Rightarrow> request \<Rightarrow> MEMORY_CONTROLLER \<Rightarrow> bool" where
  "holds_request ul q c \<longleftrightarrow> (rq_response_requested q \<longrightarrow>
     (\<forall>D. D \<subseteq> set (rq_deps q) \<longrightarrow> held_read c ul (dram_block (mc_mapping c) (rq_address q)) D))"

lemma mc_grows_refl [simp]: "mc_grows c c"
  by (simp add: mc_grows_def)

lemma mc_grows_trans: "mc_grows a b \<Longrightarrow> mc_grows b c \<Longrightarrow> mc_grows a c"
  by (simp add: mc_grows_def)

lemma mc_grows_holds: "mc_grows a b \<Longrightarrow> holds_request ul q a \<Longrightarrow> holds_request ul q b"
  by (simp add: mc_grows_def holds_request_def)

lemma channel_total:
  assumes "mc_ok c"
  obtains k where "get_channel (mc_mapping c) a = Some k" "unat k < length (mc_channels c)" "dram_ok (mc_channels c ! unat k)"
    "d_mapping (mc_channels c ! unat k) = mc_mapping c"
proof -
  have len: "length (mc_channels c) = dram_channels (mc_mapping c)" using assms by (simp add: mc_ok_def)
  then have "0 < length (mc_channels c)" by (simp add: dram_channels_def)
  then have "mc_channels c ! 0 \<in> set (mc_channels c)" by simp
  then have m: "mapping_ok (mc_mapping c)" "0 < hash_bits (mc_mapping c)"
    using assms by (auto simp: mc_ok_def dram_ok_def dram_core_def shape_ok_def)
  obtain k where k: "get_channel (mc_mapping c) a = Some k" using coordinates(1)[OF m] by blast
  have "unat k < length (mc_channels c)" using coordinate_bounds(1)[OF m k] len by simp
  then show thesis using that[OF k] assms by (auto simp: mc_ok_def)
qed

lemma mc_ok_update:
  assumes "mc_ok c" "dram_ok d" "d_mapping d = mc_mapping c"
  shows "mc_ok (c\<lparr>mc_channels := (mc_channels c)[k := d]\<rparr>)"
  using assms set_update_subset_insert[of "mc_channels c" k d] by (auto simp: mc_ok_def)

text \<open>A request is put in an empty slot.\<close>

lemma fill_slot:
  assumes ok: "mc_ok c" and k: "k < length (mc_channels c)" and j: "j < length (queue_of w (mc_channels c ! k))"
    and e: "queue_of w (mc_channels c ! k) ! j = None" "\<not> dq_scheduled e"
  defines "c' \<equiv> c\<lparr>mc_channels := (mc_channels c)[k := set_slot (w, j) (Some e) (mc_channels c ! k)]\<rparr>"
  shows "mc_ok c'" "mc_grows c c'" "\<not> w \<Longrightarrow> Some e \<in> set (d_RQ (mc_channels c' ! k))" "k < length (mc_channels c')"
proof -
  let ?d = "mc_channels c ! k"
  have d: "dram_ok ?d" "d_mapping ?d = mc_mapping c" using ok k by (simp_all add: mc_ok_def)
  have "dram_ok (set_slot (w, j) (Some e) ?d)" by (rule set_slot_ok[OF d(1) j]) (use e j in \<open>simp_all add: sched_view_def\<close>)
  then show "mc_ok c'" unfolding c'_def by (rule mc_ok_update[OF ok]) (simp add: d)
  have "held_read c' ul blk D" if "held_read c ul blk D" for ul blk D
  proof -
    obtain x where x: "x \<in> set (mc_channels c)" "pending_read (mc_mapping c) (d_RQ x) ul blk D" using \<open>held_read c ul blk D\<close> by (auto simp: held_read_def)
    obtain i where i: "i < length (mc_channels c)" "mc_channels c ! i = x" using x(1) by (auto simp: in_set_conv_nth)
    have "pending_read (mc_mapping c) (d_RQ (mc_channels c' ! i)) ul blk D"
    proof (cases "i = k")
      case True
      have "keeps (?d, []) (set_slot (w, j) (Some e) ?d, [])" by (rule set_slot_keeps[OF j]) (simp add: e covers_def)
      have "pending_read (mc_mapping c) (d_RQ (set_slot (w, j) (Some e) ?d)) ul blk D"
        using x(2) i True j e(1) by (cases w) (auto simp: set_slot_queue covers_def intro!: pending_update)
      then show ?thesis using True k by (simp add: c'_def)
    next
      case False
      then show ?thesis using i x(2) by (simp add: c'_def)
    qed
    then show ?thesis using i(1) by (auto simp: held_read_def c'_def)
  qed
  then show "mc_grows c c'" by (simp add: mc_grows_def c'_def)
  show "k < length (mc_channels c')" using k by (simp add: c'_def)
  show "Some e \<in> set (d_RQ (mc_channels c' ! k))" if "\<not> w"
    using that k j by (simp add: c'_def set_slot_queue set_update_memI)
qed

lemma add_rq_total:
  assumes "mc_ok c"
  shows "\<exists>b c'. mc_add_rq ul q c = Some (b, c') \<and> mc_ok c' \<and> mc_grows c c' \<and> (b \<longrightarrow> holds_request ul q c')"
proof -
  obtain k where k: "get_channel (mc_mapping c) (rq_address q) = Some k" "unat k < length (mc_channels c)"
    by (rule channel_total[OF assms])
  let ?d = "mc_channels c ! unat k"
  show ?thesis
  proof (cases "first_empty (d_RQ ?d)")
    case None
    then have "mc_add_rq ul q c = Some (False, c)" using k by (simp add: mc_add_rq_def Let_def)
    then show ?thesis using assms by (intro exI[of _ False] exI[of _ c]) simp
  next
    case (Some j)
    then have j: "j < length (queue_of False ?d)" "queue_of False ?d ! j = None" by (auto simp: first_empty_def dest: find_if_SomeD)
    define e where "e = (let e = (dram_request_of q)\<lparr>dq_forward_checked := False, dq_scheduled := False, dq_ready_time := mc_current_time c\<rparr>
      in if rq_response_requested q then e\<lparr>dq_to_return := [ul]\<rparr> else e)"
    have e: "\<not> dq_scheduled e" "dq_address e = rq_address q" "dq_deps e = rq_deps q" "rq_response_requested q \<Longrightarrow> dq_to_return e = [ul]"
      by (simp_all add: e_def dram_request_of_def Let_def)
    define c' where "c' = c\<lparr>mc_channels := (mc_channels c)[unat k := set_slot (False, j) (Some e) ?d]\<rparr>"
    have "mc_add_rq ul q c = Some (True, c')" using k Some by (simp add: mc_add_rq_def Let_def e_def c'_def)
    moreover note f = fill_slot[OF assms k(2) j e(1), folded c'_def]
    have "holds_request ul q c'"
      using f(3,4) e f(2) by (auto simp: holds_request_def held_read_def pending_read_def mc_grows_def intro!: bexI[OF _ nth_mem[OF f(4)]] exI[of _ e])
    ultimately show ?thesis using f(1,2) by blast
  qed
qed

lemma add_wq_total:
  assumes "mc_ok c"
  shows "\<exists>b c'. mc_add_wq q c = Some (b, c') \<and> mc_ok c' \<and> mc_grows c c' \<and> (b \<longrightarrow> True)"
proof -
  obtain k where k: "get_channel (mc_mapping c) (rq_address q) = Some k" "unat k < length (mc_channels c)" "dram_ok (mc_channels c ! unat k)"
    "d_mapping (mc_channels c ! unat k) = mc_mapping c" by (rule channel_total[OF assms])
  let ?d = "mc_channels c ! unat k"
  show ?thesis
  proof (cases "first_empty (d_WQ ?d)")
    case None
    define d' where "d' = on_dram_stats (\<lambda>s. s\<lparr>ds_WQ_FULL := ds_WQ_FULL s + 1\<rparr>) ?d"
    define c' where "c' = c\<lparr>mc_channels := (mc_channels c)[unat k := d']\<rparr>"
    have same: "d_RQ d' = d_RQ ?d" "d_mapping d' = mc_mapping c" "\<And>w. queue_of w d' = queue_of w ?d"
      using k(4) by (simp_all add: d'_def on_dram_stats_def)
    have "dram_core d'"
      by (rule core_cong[of d' ?d]) (use k(3) same(3) in \<open>simp_all add: d'_def on_dram_stats_def dram_shape_def sched_view_def fun_eq_iff dram_ok_def\<close>)
    then have "dram_ok d'" using k(3) same(3) by (simp add: dram_ok_def)
    then have "mc_ok c'" unfolding c'_def by (rule mc_ok_update[OF assms]) (simp add: same)
    moreover have "map d_RQ (mc_channels c') = map d_RQ (mc_channels c)" unfolding c'_def using k(2) by (simp add: map_update_same same(1))
    then have "held_read c ul blk D \<longrightarrow> held_read c' ul blk D" for ul blk D
      unfolding held_read_map by (simp add: c'_def)
    then have "mc_grows c c'" by (simp add: mc_grows_def c'_def)
    moreover have "mc_add_wq q c = Some (False, c')" using k None by (simp add: mc_add_wq_def Let_def c'_def d'_def)
    ultimately show ?thesis by blast
  next
    case (Some j)
    then have j: "j < length (queue_of True ?d)" "queue_of True ?d ! j = None" by (auto simp: first_empty_def dest: find_if_SomeD)
    let ?e = "(dram_request_of q)\<lparr>dq_forward_checked := False, dq_scheduled := False, dq_ready_time := mc_current_time c\<rparr>"
    have "\<not> dq_scheduled ?e" by simp
    note f = fill_slot[OF assms k(2) j this]
    have "mc_add_wq q c = Some (True, c\<lparr>mc_channels := (mc_channels c)[unat k := set_slot (True, j) (Some ?e) ?d]\<rparr>)"
      using k Some by (simp add: mc_add_wq_def Let_def)
    then show ?thesis using f(1,2) by blast
  qed
qed

text \<open>What was taken is held by a channel, and the rest stays in the queue.\<close>

lemma taken_keeps:
  assumes grows: "mc_grows c c1" and i: "i < length (mc_queues c)" and "\<And>q. q \<in> set taken \<Longrightarrow> holds_request i q c1"
    and old: "set (RQ (mc_queues c ! i)) \<union> set (PQ (mc_queues c ! i)) \<subseteq> set taken \<union> set (RQ ul') \<union> set (PQ ul')"
    and "returned ul' = returned (mc_queues c ! i)"
  shows "mc_keeps c (c1\<lparr>mc_queues := (mc_queues c1)[i := ul']\<rparr>)" (is "mc_keeps c ?c2")
  unfolding mc_keeps_def
proof (intro conjI allI impI)
  have m: "mc_mapping c1 = mc_mapping c" "mc_queues c1 = mc_queues c" using grows by (simp_all add: mc_grows_def)
  then show "mc_mapping ?c2 = mc_mapping c" "length (mc_queues ?c2) = length (mc_queues c)" by simp_all
  fix ul assume ul: "ul < length (mc_queues c)"
  show "\<exists>rs. returned (mc_queues ?c2 ! ul) = returned (mc_queues c ! ul) @ rs" using ul assms(5) by (cases "ul = i") (simp_all add: m)
  have held: "held_read (c1\<lparr>mc_queues := us\<rparr>) ul blk D = held_read c1 ul blk D" for us blk D by (simp add: held_read_def)
  fix blk D assume "awaits c ul blk D"
  then consider "held_read c ul blk D" | q where "q \<in> set (RQ (mc_queues c ! ul)) \<union> set (PQ (mc_queues c ! ul))" "rq_response_requested q"
    "D \<subseteq> set (rq_deps q)" "dram_block (mc_mapping c) (rq_address q) = blk" by (auto simp: awaits_def queued_read_def)
  then have "awaits ?c2 ul blk D"
  proof cases
    case 1
    then show ?thesis using grows by (simp add: awaits_def held mc_grows_def)
  next
    case 2
    show ?thesis
    proof (cases "ul = i \<and> q \<in> set taken")
      case True
      then have "held_read c1 ul blk D" using assms(3)[of q] 2 by (auto simp: holds_request_def m)
      then show ?thesis by (simp add: awaits_def held)
    next
      case False
      then have "q \<in> set (RQ (mc_queues ?c2 ! ul)) \<union> set (PQ (mc_queues ?c2 ! ul))"
        using 2(1) old ul by (cases "ul = i") (auto simp: m)
      then have "queued_read ?c2 ul blk D" unfolding queued_read_def using 2(2-4) by (intro bexI[of _ q]) (simp_all add: m)
      then show ?thesis by (simp add: awaits_def)
    qed
  qed
  then show "awaits ?c2 ul blk D \<or> read_answered (mc_mapping c) (mc_queues c) (mc_queues ?c2) ul blk D" by blast
qed

lemma mc_ok_queues [simp]: "mc_ok (c\<lparr>mc_queues := uls\<rparr>) = mc_ok c"
  by (simp add: mc_ok_def)

lemma initiate_from_total:
  assumes "mc_ok c" "i < length (mc_queues c)"
  shows "\<exists>c'. initiate_from i c = Some c' \<and> mc_ok c' \<and> mc_keeps c c'"
proof -
  have rq: "\<exists>taken rest t. while_ok (mc_add_rq i) xs s = Some (taken, rest, t) \<and> mc_ok t \<and> mc_grows s t \<and> taken @ rest = xs
      \<and> (\<forall>x\<in>set taken. holds_request i x t)" if "mc_ok s" for xs s
    by (rule while_ok_total[where P = mc_ok and R = mc_grows])
      (use that add_rq_total mc_grows_trans mc_grows_holds in \<open>auto simp del: split_paired_Ex\<close>)
  have wq: "\<exists>taken rest t. while_ok mc_add_wq xs s = Some (taken, rest, t) \<and> mc_ok t \<and> mc_grows s t \<and> taken @ rest = xs
      \<and> (\<forall>x\<in>set taken. True)" if "mc_ok s" for xs s
    by (rule while_ok_total[where P = mc_ok and R = mc_grows])
      (use that add_wq_total mc_grows_trans in \<open>auto simp del: split_paired_Ex\<close>)
  obtain t1 r1 c1 where 1: "while_ok (mc_add_rq i) (RQ (mc_queues c ! i)) c = Some (t1, r1, c1)" "mc_ok c1" "mc_grows c c1"
    "t1 @ r1 = RQ (mc_queues c ! i)" "\<forall>x\<in>set t1. holds_request i x c1" using rq[OF assms(1)] by blast
  define c2 where "c2 = c1\<lparr>mc_queues := (mc_queues c1)[i := (mc_queues c1 ! i)\<lparr>RQ := r1\<rparr>]\<rparr>"
  have q1: "mc_queues c1 = mc_queues c" using 1(3) by (simp add: mc_grows_def)
  have k1: "mc_keeps c c2" unfolding c2_def by (rule taken_keeps[OF 1(3) assms(2), of t1]) (use 1(4,5) in \<open>auto simp: q1 simp flip: 1(4)\<close>)
  have ok2: "mc_ok c2" "i < length (mc_queues c2)" using 1(2) assms(2) by (simp_all add: c2_def q1)
  obtain t3 r3 c3 where 3: "while_ok (mc_add_rq i) (PQ (mc_queues c2 ! i)) c2 = Some (t3, r3, c3)" "mc_ok c3" "mc_grows c2 c3"
    "t3 @ r3 = PQ (mc_queues c2 ! i)" "\<forall>x\<in>set t3. holds_request i x c3" using rq[OF ok2(1)] by blast
  define c4 where "c4 = c3\<lparr>mc_queues := (mc_queues c3)[i := (mc_queues c3 ! i)\<lparr>PQ := r3\<rparr>]\<rparr>"
  have q3: "mc_queues c3 = mc_queues c2" using 3(3) by (simp add: mc_grows_def)
  have k3: "mc_keeps c2 c4" unfolding c4_def by (rule taken_keeps[OF 3(3) ok2(2), of t3]) (use 3(4,5) in \<open>auto simp: q3 simp flip: 3(4)\<close>)
  have ok4: "mc_ok c4" "i < length (mc_queues c4)" using 3(2) ok2(2) by (simp_all add: c4_def q3)
  obtain t5 r5 c5 where 5: "while_ok mc_add_wq (WQ (mc_queues c4 ! i)) c4 = Some (t5, r5, c5)" "mc_ok c5" "mc_grows c4 c5"
    using wq[OF ok4(1)] by blast
  define c6 where "c6 = c5\<lparr>mc_queues := (mc_queues c5)[i := (mc_queues c5 ! i)\<lparr>WQ := r5\<rparr>]\<rparr>"
  have q5: "mc_queues c5 = mc_queues c4" using 5(3) by (simp add: mc_grows_def)
  have k5: "mc_keeps c4 c6" unfolding c6_def by (rule taken_keeps[OF 5(3) ok4(2), of "[]"]) (auto simp: q5)
  have "initiate_from i c = Some c6" using 1(1) 3(1) 5(1) by (simp add: initiate_from_def c2_def c4_def c6_def)
  then show ?thesis using 5(2) mc_keeps_trans[OF mc_keeps_trans[OF k1 k3] k5] by (auto simp: c6_def)
qed

section \<open>Running the channels\<close>

lemma dram_ok_time [simp]: "dram_ok (d\<lparr>d_current_time := t\<rparr>) = dram_ok d"
proof -
  have q: "queue_of w (d\<lparr>d_current_time := t\<rparr>) = queue_of w d" for w by (simp add: queue_of_def)
  have "dram_core (d\<lparr>d_current_time := t\<rparr>) = dram_core d"
    by (simp add: dram_core_def shape_ok_def sched_view_same[OF q])
  then show ?thesis by (simp add: dram_ok_def q)
qed

definition run_channel :: "DRAM_CHANNEL \<Rightarrow> int \<times> channel list \<Rightarrow> (DRAM_CHANNEL \<times> int \<times> channel list) option" where
  "run_channel d s = (case s of (progress, uls) \<Rightarrow> map_option (\<lambda>(p, d, uls). (d, progress + p, uls)) (dram_tick (d, uls)))"

lemma run_channels_total:
  assumes "\<forall>d\<in>set ds. dram_ok d \<and> d_mapping d = m"
  shows "\<exists>ds' n' uls'. map_option_state run_channel ds (n, uls) = Some (ds', n', uls') \<and> (\<forall>d\<in>set ds'. dram_ok d \<and> d_mapping d = m)
    \<and> length ds' = length ds \<and> extends uls uls' \<and> (\<forall>ul<length uls. \<forall>blk D. (\<exists>d\<in>set ds. pending_read m (d_RQ d) ul blk D) \<longrightarrow>
      (\<exists>d\<in>set ds'. pending_read m (d_RQ d) ul blk D) \<or> read_answered m uls uls' ul blk D)"
  using assms
proof (induction ds arbitrary: n uls)
  case (Cons d ds)
  have "dram_ok (d\<lparr>d_current_time := d_current_time d + d_clock_period d\<rparr>)" "d_mapping d = m" using Cons.prems by simp_all
  then obtain p d1 u1 where 1: "dram_tick (d, uls) = Some (p, d1, u1)" "dram_ok d1"
    "keeps (d\<lparr>d_current_time := d_current_time d + d_clock_period d\<rparr>, uls) (d1, u1)"
    using operate_total unfolding dram_tick_def apfst_conv by metis
  have k: "d_mapping d1 = m" "extends uls u1" "\<And>ul blk D. ul < length uls \<Longrightarrow> pending_read m (d_RQ d) ul blk D \<Longrightarrow>
      pending_read m (d_RQ d1) ul blk D \<or> read_answered m uls u1 ul blk D"
    using 1(3) \<open>d_mapping d = m\<close> by (auto simp: keeps_def dram_shape_def)
  obtain ds' n' uls' where 2: "map_option_state run_channel ds (n + p, u1) = Some (ds', n', uls')" "\<forall>d\<in>set ds'. dram_ok d \<and> d_mapping d = m"
    "length ds' = length ds" "extends u1 uls'"
    "\<forall>ul<length u1. \<forall>blk D. (\<exists>d\<in>set ds. pending_read m (d_RQ d) ul blk D) \<longrightarrow>
      (\<exists>d\<in>set ds'. pending_read m (d_RQ d) ul blk D) \<or> read_answered m u1 uls' ul blk D"
    using Cons.IH[of "n + p" u1] Cons.prems by auto
  have len: "length u1 = length uls" using k(2) by (simp add: extends_def)
  have "map_option_state run_channel (d # ds) (n, uls) = Some (d1 # ds', n', uls')" using 1(1) 2(1) by (simp add: run_channel_def)
  moreover have "(\<exists>d\<in>set (d1 # ds'). pending_read m (d_RQ d) ul blk D) \<or> read_answered m uls uls' ul blk D"
    if ul: "ul < length uls" and p: "\<exists>d\<in>set (d # ds). pending_read m (d_RQ d) ul blk D" for ul blk D
  proof -
    have "pending_read m (d_RQ d1) ul blk D \<or> read_answered m uls u1 ul blk D \<or> (\<exists>d\<in>set ds'. pending_read m (d_RQ d) ul blk D) \<or> read_answered m u1 uls' ul blk D"
      using p k(3)[OF ul] 2(5) ul len by (metis set_ConsD)
    then show ?thesis using answered_trans[OF k(2) 2(4) ul] by auto
  qed
  ultimately show ?case using 1(2) k(1) 2(2,3) extends_trans[OF k(2) 2(4)] by simp
qed simp

lemma mc_operate_total:
  assumes "mc_ok c"
  obtains p c' where "mc_operate c = Some (p, c')" "mc_ok c'" "mc_keeps c c'"
proof -
  have "\<exists>t. fold_option initiate_from [0..<length (mc_queues c)] c = Some t \<and> (mc_ok t \<and> length (mc_queues t) = length (mc_queues c)) \<and> mc_keeps c t"
  proof (rule fold_option_upt[where P = "\<lambda>_ t. mc_ok t \<and> length (mc_queues t) = length (mc_queues c)"])
    fix i t assume "i < length (mc_queues c)" "mc_ok t \<and> length (mc_queues t) = length (mc_queues c)"
    then obtain t' where "initiate_from i t = Some t'" "mc_ok t'" "mc_keeps t t'" using initiate_from_total[of t i] by auto
    moreover from this have "length (mc_queues t') = length (mc_queues t)" by (simp add: mc_keeps_def)
    ultimately show "\<exists>t'. initiate_from i t = Some t' \<and> (mc_ok t' \<and> length (mc_queues t') = length (mc_queues c)) \<and> mc_keeps t t'"
      using \<open>mc_ok t \<and> _\<close> by auto
  qed (use assms mc_keeps_trans in auto)
  then obtain c1 where c1: "initiate_requests c = Some c1" "mc_ok c1" "mc_keeps c c1" by (auto simp: initiate_requests_def)
  obtain ds' n' uls' where 2: "map_option_state run_channel (mc_channels c1) (0, mc_queues c1) = Some (ds', n', uls')"
    "\<forall>d\<in>set ds'. dram_ok d \<and> d_mapping d = mc_mapping c1" "length ds' = length (mc_channels c1)" "extends (mc_queues c1) uls'"
    "\<forall>ul<length (mc_queues c1). \<forall>blk D. (\<exists>d\<in>set (mc_channels c1). pending_read (mc_mapping c1) (d_RQ d) ul blk D) \<longrightarrow>
      (\<exists>d\<in>set ds'. pending_read (mc_mapping c1) (d_RQ d) ul blk D) \<or> read_answered (mc_mapping c1) (mc_queues c1) uls' ul blk D"
    using run_channels_total[of "mc_channels c1" "mc_mapping c1" 0 "mc_queues c1"] c1(2) by (auto simp: mc_ok_def)
  define c2 where "c2 = c1\<lparr>mc_channels := ds', mc_queues := uls'\<rparr>"
  have "(\<lambda>d (progress, uls). map_option (\<lambda>(p, d, uls). (d, progress + p, uls)) (dram_tick (d, uls))) = run_channel"
    by (simp add: run_channel_def fun_eq_iff)
  then have "mc_operate c = Some (n', c2)" using c1(1) 2(1) by (simp add: mc_operate_def c2_def)
  moreover have "mc_ok c2" using c1(2) 2(2,3) by (simp add: mc_ok_def c2_def)
  moreover have "mc_keeps c1 c2"
    unfolding mc_keeps_def
  proof (intro conjI allI impI)
    show "mc_mapping c2 = mc_mapping c1" "length (mc_queues c2) = length (mc_queues c1)" using 2(4) by (simp_all add: c2_def extends_def)
    fix ul assume ul: "ul < length (mc_queues c1)"
    then obtain rs where rs: "uls' ! ul = (mc_queues c1 ! ul)\<lparr>returned := returned (mc_queues c1 ! ul) @ rs\<rparr>" using 2(4) by (auto simp: extends_def)
    then show "\<exists>rs. returned (mc_queues c2 ! ul) = returned (mc_queues c1 ! ul) @ rs" by (simp add: c2_def)
    fix blk D assume w: "awaits c1 ul blk D"
    have "queued_read c2 ul blk D = queued_read c1 ul blk D" by (simp add: queued_read_def c2_def rs)
    moreover have "held_read c1 ul blk D \<longrightarrow> held_read c2 ul blk D \<or> read_answered (mc_mapping c1) (mc_queues c1) (mc_queues c2) ul blk D"
      using 2(5)[rule_format, OF ul, of blk D] by (simp add: held_read_def c2_def)
    ultimately show "awaits c2 ul blk D \<or> read_answered (mc_mapping c1) (mc_queues c1) (mc_queues c2) ul blk D"
      using w unfolding awaits_def by blast
  qed
  ultimately show thesis using that mc_keeps_trans[OF c1(3)] by blast
qed

section \<open>Properties\<close>

text \<open>A controller in use: cycles, the operations of the upper levels on their channels, and the end of the warmup.\<close>

datatype mc_event = Mc_Tick | Mc_Upper nat channel_op | Mc_Simulate

fun mc_step :: "mc_event \<Rightarrow> MEMORY_CONTROLLER \<Rightarrow> MEMORY_CONTROLLER option" where
  "mc_step Mc_Tick c = map_option snd (mc_tick c)"
| "mc_step (Mc_Upper i op) c = Some (c\<lparr>mc_queues := (mc_queues c)[i := channel_step op (mc_queues c ! i)]\<rparr>)"
| "mc_step Mc_Simulate c = Some (mc_begin_phase (c\<lparr>mc_warmup := False\<rparr>))"

abbreviation mc_run :: "mc_event list \<Rightarrow> MEMORY_CONTROLLER \<Rightarrow> MEMORY_CONTROLLER option" where
  "mc_run \<equiv> fold_option mc_step"

lemma mc_ok_time [simp]: "mc_ok (c\<lparr>mc_current_time := t\<rparr>) = mc_ok c"
  by (simp add: mc_ok_def)

lemma dram_ok_simulate: "dram_ok d \<Longrightarrow> dram_ok (d\<lparr>d_sim_stats := s, d_warmup := False\<rparr>)"
proof -
  assume d: "dram_ok d"
  let ?d = "d\<lparr>d_sim_stats := s, d_warmup := False\<rparr>"
  have q: "queue_of w ?d = queue_of w d" for w by (simp add: queue_of_def)
  have "dram_core ?d" using d by (simp add: dram_core_def dram_ok_def shape_ok_def sched_view_same[OF q])
  then show "dram_ok ?d" using d by (simp add: dram_ok_def q)
qed

lemma mc_step_total:
  assumes "mc_ok c"
  shows "\<exists>c'. mc_step e c = Some c' \<and> mc_ok c'"
proof (cases e)
  case Mc_Tick
  have "mc_ok (c\<lparr>mc_current_time := mc_current_time c + mc_clock_period c\<rparr>)" using assms by simp
  then obtain p c' where "mc_tick c = Some (p, c')" "mc_ok c'" unfolding mc_tick_def by (rule mc_operate_total)
  then show ?thesis using Mc_Tick by simp
next
  case (Mc_Upper i op)
  then show ?thesis using assms by simp
next
  case Mc_Simulate
  then show ?thesis using assms by (auto simp: mc_begin_phase_def mc_ok_def intro: dram_ok_simulate)
qed

lemma mc_run_total: "mc_ok c \<Longrightarrow> \<exists>c'. mc_run es c = Some c' \<and> mc_ok c'"
proof (induction es arbitrary: c)
  case (Cons e es)
  obtain c1 where "mc_step e c = Some c1" "mc_ok c1" using mc_step_total[OF Cons.prems] by blast
  then show ?case using Cons.IH[of c1] by simp
qed simp

lemma new_dram_channel_ok:
  assumes "new_DRAM_CHANNEL dbus_period mc_period t_rp t_rcd t_cas t_ras refresh_period refreshes t_rfc rq_size wq_size m = Some d"
    and "mapping_ok m" "0 < hash_bits m" "0 < rq_size" "0 < wq_size"
  shows "dram_ok d" "d_mapping d = m"
proof -
  have d: "d_RQ d = replicate rq_size None" "d_WQ d = replicate wq_size None" "d_mapping d = m" "active_request d = None"
    "bank_request d = replicate (dram_ranks m * dram_banks m * dram_bankgroups m) empty_bank"
    "bankgroup_readytime d = replicate (dram_ranks m * dram_bankgroups m) 0"
    using assms(1) by (auto simp: new_DRAM_CHANNEL_def split: if_splits)
  have "sched_view d s = None" for s by (simp add: sched_view_def queue_of_def d)
  then have "linked m (map bank_view (bank_request d)) (sched_view d) (active_request d)"
    by (simp add: linked_def d bank_view_def empty_bank_def)
  moreover have "Some e \<notin> set (queue_of w d)" for e w by (auto simp: queue_of_def d)
  ultimately show "dram_ok d" "d_mapping d = m"
    using assms(2-5) by (simp_all add: dram_ok_def dram_core_def shape_ok_def d empty_bank_def mult.assoc mult.left_commute)
qed

lemma those_replicate: "those (replicate n x) = Some ys \<Longrightarrow> length ys = n \<and> (\<forall>y\<in>set ys. x = Some y)"
  by (induction n arbitrary: ys) (auto split: option.splits)

lemma new_controller_ok:
  assumes "new_MEMORY_CONTROLLER dbus_period mc_period t_rp t_rcd t_cas t_ras refresh_period uls rq_size wq_size chans chan_width
      rws cols rks bgs bks refreshes t_rfc block_size = Some c"
    and "lg2 (chan_width * (block_size div chan_width)) + lg2 chans + lg2 bgs + lg2 bks + lg2 (cols div (block_size div chan_width)) + lg2 rks + lg2 rws \<le> 64"
    and "1 < bgs * bks" "0 < rq_size" "0 < wq_size"
  shows "mc_ok c" "mc_queues c = uls"
proof -
  obtain m ds where m: "new_DRAM_ADDRESS_MAPPING block_size chan_width (block_size div chan_width) chans bgs bks cols rks rws = Some m"
    and ds: "those (replicate chans (new_DRAM_CHANNEL dbus_period mc_period t_rp t_rcd t_cas t_ras refresh_period refreshes t_rfc rq_size wq_size m)) = Some ds"
    and c: "mc_mapping c = m" "mc_channels c = ds" "mc_queues c = uls"
    using assms(1) by (auto simp: new_MEMORY_CONTROLLER_def bind_eq_Some_conv)
  have "dram_bankgroups m = bgs" "dram_banks m = bks" "dram_channels m = chans"
    using m by (auto simp: new_DRAM_ADDRESS_MAPPING_def bind_eq_Some_conv Let_def split: if_splits)
  then have "0 < hash_bits m" "dram_channels m = chans"
    using assms(3) by (auto simp: hash_bits_def dram_bankgroups_def dram_banks_def intro!: Nat.gr0I)
  then have "dram_ok d \<and> d_mapping d = m" if "d \<in> set ds" for d
    using those_replicate[OF ds] that new_dram_channel_ok[OF _ new_mapping_ok[OF m assms(2)] _ assms(4,5)] by metis
  then show "mc_ok c" "mc_queues c = uls" using those_replicate[OF ds] c \<open>dram_channels m = chans\<close> by (simp_all add: mc_ok_def)
qed

text \<open>C16. The memory controller never fails: with more than one bank and non-empty queues, no sequence of
  cycles and operations of the upper levels makes it use an empty slot, an index outside its tables or a bank
  without a packet; and after every cycle each busy bank serves a scheduled packet that maps to it, and each
  scheduled packet is served by a bank.\<close>

theorem controller_never_fails:
  assumes "new_MEMORY_CONTROLLER dbus_period mc_period t_rp t_rcd t_cas t_ras refresh_period uls rq_size wq_size chans chan_width
      rws cols rks bgs bks refreshes t_rfc block_size = Some c"
    and "lg2 (chan_width * (block_size div chan_width)) + lg2 chans + lg2 bgs + lg2 bks + lg2 (cols div (block_size div chan_width)) + lg2 rks + lg2 rws \<le> 64"
    and "1 < bgs * bks" and "0 < rq_size" and "0 < wq_size"
  shows "\<exists>c'. mc_run es c = Some c' \<and> (\<forall>d\<in>set (mc_channels c').
    linked (d_mapping d) (map bank_view (bank_request d)) (sched_view d) (active_request d))"
  using mc_run_total[OF new_controller_ok(1)[OF assms], of es] by (auto simp: mc_ok_def dram_ok_def dram_core_def)

text \<open>C15. No read is forgotten: an upper level that waits for a block, with its request in a queue or in a channel,
  waits for it after a cycle too, with all its dependent instructions, or has been answered in that cycle.\<close>

theorem no_read_is_forgotten:
  assumes "mc_ok c" and "mc_tick c = Some (p, c')" and "awaits c ul blk D" and "ul < length (mc_queues c)"
  shows "awaits c' ul blk D \<or> read_answered (mc_mapping c) (mc_queues c) (mc_queues c') ul blk D"
proof -
  let ?c = "c\<lparr>mc_current_time := mc_current_time c + mc_clock_period c\<rparr>"
  have ok: "mc_ok ?c" using assms(1) by simp
  obtain p1 c1 where "mc_operate ?c = Some (p1, c1)" "mc_keeps ?c c1" by (rule mc_operate_total[OF ok])
  then have "mc_keeps ?c c'" using assms(2) by (simp add: mc_tick_def)
  moreover have "awaits ?c ul blk D = awaits c ul blk D" by (simp add: awaits_def queued_read_def held_read_def)
  ultimately show ?thesis using assms(3,4) by (auto simp: mc_keeps_def)
qed

text \<open>The controller keeps the older of two writes of a block: a write that arrives while another write of its
  block is queued is dropped with its data, and the queued one keeps its own.\<close>

theorem newer_write_is_dropped:
  assumes "dram_ok d" and "i < length (d_WQ d)" and "j < length (d_WQ d)" and "i \<noteq> j"
    and "d_WQ d ! i = Some e" and "\<not> dq_forward_checked e" and "d_WQ d ! j = Some old"
    and "dram_block (d_mapping d) (dq_address old) = dram_block (d_mapping d) (dq_address e)"
  shows "\<exists>d'. write_collision_step i d = Some d' \<and> d_WQ d' = (d_WQ d)[i := None] \<and> d_WQ d' ! j = Some old"
proof -
  have m: "mapping_ok (d_mapping d)" using assms(1) by (simp add: dram_ok_def dram_core_def shape_ok_def)
  have "hit (d_mapping d) (dq_address e) (d_WQ d) j" using assms(7,8) by (auto simp: hit_def)
  then have "find (hit (d_mapping d) (dq_address e) (d_WQ d)) [0..<i] \<noteq> None \<or> find (hit (d_mapping d) (dq_address e) (d_WQ d)) [Suc i..<length (d_WQ d)] \<noteq> None"
  proof -
    have "j \<in> set [0..<i] \<or> j \<in> set [Suc i..<length (d_WQ d)]" using assms(3,4) by auto
    then show ?thesis using \<open>hit _ _ _ j\<close> unfolding find_None_iff by blast
  qed
  then obtain k where "find_other (d_mapping d) (dq_address e) (d_WQ d) i = Some (Some k)"
    by (cases "find (hit (d_mapping d) (dq_address e) (d_WQ d)) [0..<i]") (auto simp: find_other_def find_collision_eq[OF m])
  then have "write_collision_step i d = Some (set_slot (True, i) None d)" using assms(5,6) by (simp add: write_collision_step_def)
  then show ?thesis using assms(4,7) by (simp add: set_slot_queue)
qed

section \<open>A sample controller\<close>

text \<open>One channel of two banks with 16-byte blocks, after the warmup.\<close>

definition sample_upper :: channel where
  "sample_upper = new_channel 4 4 4 4 False"

definition sample_controller :: MEMORY_CONTROLLER where
  "sample_controller = the (new_MEMORY_CONTROLLER 1 1 2 2 2 2 32 [sample_upper] 4 4 1 2 16 32 1 1 2 8 4 16)"

definition dram_read :: request where
  "dram_read = default_request\<lparr>rq_address := 0x47, rq_v_address := 0x47, rq_deps := [5]\<rparr>"

definition dram_events :: "nat \<Rightarrow> mc_event list" where
  "dram_events n = [Mc_Simulate, Mc_Upper 0 (Add_RQ dram_read)] @ replicate n Mc_Tick"

lemma sample_controller_new:
  "new_MEMORY_CONTROLLER 1 1 2 2 2 2 32 [sample_upper] 4 4 1 2 16 32 1 1 2 8 4 16 = Some sample_controller"
proof -
  have "new_MEMORY_CONTROLLER 1 1 2 2 2 2 32 [sample_upper] 4 4 1 2 16 32 1 1 2 8 4 16 \<noteq> None" by code_simp
  then show ?thesis by (simp add: sample_controller_def)
qed

lemma sample_controller_ok: "mc_ok sample_controller"
  by (rule new_controller_ok(1)[OF sample_controller_new]) (simp_all, code_simp)

lemma controller_never_fails_witness:
  "\<exists>c'. mc_run (dram_events 20) sample_controller = Some c' \<and> (\<forall>d\<in>set (mc_channels c').
    linked (d_mapping d) (map bank_view (bank_request d)) (sched_view d) (active_request d))"
  by (rule controller_never_fails[OF sample_controller_new]) (simp_all, code_simp)

text \<open>The read is held by its channel until the data bus is done with it.\<close>

lemma no_read_is_forgotten_witness:
  "\<exists>c p c'. mc_run (dram_events 12) sample_controller = Some c \<and> mc_tick c = Some (p, c') \<and> returned (mc_queues c ! 0) = []
    \<and> awaits c 0 4 {5} \<and> (awaits c' 0 4 {5} \<or> read_answered (mc_mapping c) (mc_queues c) (mc_queues c') 0 4 {5})"
proof -
  have "map_option (\<lambda>c. (length (mc_queues c), returned (mc_queues c ! 0), list_ex (\<lambda>d. list_ex (\<lambda>x. case x of None \<Rightarrow> False
      | Some e \<Rightarrow> 0 \<in> set (dq_to_return e) \<and> 5 \<in> set (dq_deps e) \<and> dram_block (mc_mapping c) (dq_address e) = 4) (d_RQ d)) (mc_channels c)))
      (mc_run (dram_events 12) sample_controller) = Some (1, [], True)" by code_simp
  then obtain c where c: "mc_run (dram_events 12) sample_controller = Some c" "length (mc_queues c) = 1" "returned (mc_queues c ! 0) = []"
    "list_ex (\<lambda>d. list_ex (\<lambda>x. case x of None \<Rightarrow> False
      | Some e \<Rightarrow> 0 \<in> set (dq_to_return e) \<and> 5 \<in> set (dq_deps e) \<and> dram_block (mc_mapping c) (dq_address e) = 4) (d_RQ d)) (mc_channels c)" by auto
  have "held_read c 0 4 {5}" using c(4) by (fastforce simp: held_read_def pending_read_def list_ex_iff split: option.splits)
  then have a: "awaits c 0 4 {5}" by (simp add: awaits_def)
  have ok: "mc_ok c" using mc_run_total[OF sample_controller_ok, of "dram_events 12"] c(1) by auto
  then obtain t where "mc_step Mc_Tick c = Some t" using mc_step_total by blast
  then obtain p where "mc_tick c = Some (p, t)" by auto
  then show ?thesis using no_read_is_forgotten[OF ok _ a] c a by fastforce
qed

text \<open>Two writes of one block.\<close>

definition sample_write :: "address \<Rightarrow> dram_request" where
  "sample_write data = (dram_request_of dram_read)\<lparr>dq_data := data\<rparr>"

definition two_writes :: DRAM_CHANNEL where
  "two_writes = set_slot (True, 1) (Some (sample_write 2)) (set_slot (True, 0) (Some (sample_write 1)) (mc_channels sample_controller ! 0))"

lemma newer_write_is_dropped_witness: "\<exists>d'. write_collision_step 1 two_writes = Some d' \<and> d_WQ d' ! 0 = Some (sample_write 1)"
proof -
  let ?d = "mc_channels sample_controller ! 0"
  have len: "0 < length (mc_channels sample_controller)" "d_WQ ?d = [None, None, None, None]" by code_simp+
  have w: "\<not> dq_scheduled (sample_write x)" "\<not> dq_forward_checked (sample_write x)" "dq_address (sample_write x) = 0x47" for x
    by (simp_all add: sample_write_def dram_request_of_def dram_read_def default_request_def)
  have 0: "dram_ok ?d" using sample_controller_ok len(1) by (auto simp: mc_ok_def)
  have 1: "dram_ok (set_slot (True, 0) (Some (sample_write 1)) ?d)" by (rule set_slot_ok[OF 0]) (simp_all add: len w sched_view_def)
  have "dram_ok two_writes" unfolding two_writes_def
    by (rule set_slot_ok[OF 1]) (simp_all add: len w sched_view_def set_slot_queue)
  moreover have "d_WQ two_writes = [Some (sample_write 1), Some (sample_write 2), None, None]"
    by (simp add: two_writes_def set_slot_queue len)
  ultimately show ?thesis using newer_write_is_dropped[of two_writes 1 0 "sample_write 2" "sample_write 1"] w by fastforce
qed

end
