(* ===== verification/Spp.thy ===== *)
theory Spp
  imports Cache_Modules
begin

text \<open>
  The signature path prefetcher, \<open>prefetcher/spp_dev\<close>: a signature per page compresses the deltas between the
  blocks accessed in it, the pattern table predicts the next delta from the signature, and a lookahead follows
  the most confident delta.  Arrays are functions of their index, which is always reduced to their range.
  A write or a read beyond the candidate queues, whose length is the number of MSHRs, and the failed
  assertions are errors.
\<close>

section \<open>State\<close>

definition ST_SET :: nat where "ST_SET = 1"
definition ST_WAY :: nat where "ST_WAY = 256"
definition ST_TAG_BIT :: nat where "ST_TAG_BIT = 16"
definition SIG_SHIFT :: nat where "SIG_SHIFT = 3"
definition SIG_MASK :: "32 word" where "SIG_MASK = 0xFFF"
definition SIG_DELTA_BIT :: nat where "SIG_DELTA_BIT = 7"
definition PT_SET :: nat where "PT_SET = 512"
definition PT_WAY :: nat where "PT_WAY = 4"
definition C_SIG_MAX :: nat where "C_SIG_MAX = 15"
definition QUOTIENT_BIT :: nat where "QUOTIENT_BIT = 10"
definition REMAINDER_BIT :: nat where "REMAINDER_BIT = 6"
definition FILL_THRESHOLD :: nat where "FILL_THRESHOLD = 90"
definition PF_THRESHOLD :: nat where "PF_THRESHOLD = 25"
definition GLOBAL_COUNTER_MAX :: nat where "GLOBAL_COUNTER_MAX = 1023"
definition MAX_GHR_ENTRY :: nat where "MAX_GHR_ENTRY = 8"

datatype spp_error = St_no_victim | St_lru_wrong | Pt_no_victim | Ghr_no_victim | Queue_overflow

datatype FILTER_REQUEST = SPP_L2C_PREFETCH | SPP_LLC_PREFETCH | L2C_DEMAND | L2C_EVICT

record st_entry =
  st_valid :: bool
  st_tag :: address
  st_last_offset :: nat
  st_sig :: "32 word"
  st_lru :: nat

record PATTERN_TABLE =
  pt_delta :: "nat \<Rightarrow> nat \<Rightarrow> int"
  c_delta :: "nat \<Rightarrow> nat \<Rightarrow> nat"
  c_sig :: "nat \<Rightarrow> nat"

record PREFETCH_FILTER =
  fl_remainder_tag :: "nat \<Rightarrow> nat"
  fl_valid :: "nat \<Rightarrow> bool"
  fl_useful :: "nat \<Rightarrow> bool"

record ghr_entry =
  gh_valid :: bool
  gh_sig :: "32 word"
  gh_confidence :: nat
  gh_offset :: nat
  gh_delta :: int

record GLOBAL_REGISTER =
  gr_pf_useful :: nat
  gr_pf_issued :: nat
  gr_global_accuracy :: nat
  gr_entry :: "nat \<Rightarrow> ghr_entry"

record spp_dev =
  spp_ST :: "nat \<Rightarrow> nat \<Rightarrow> st_entry"
  spp_PT :: PATTERN_TABLE
  spp_FILTER :: PREFETCH_FILTER
  spp_GHR :: GLOBAL_REGISTER

definition new_SIGNATURE_TABLE :: "nat \<Rightarrow> nat \<Rightarrow> st_entry" where
  "new_SIGNATURE_TABLE si way = \<lparr>st_valid = False, st_tag = 0, st_last_offset = 0, st_sig = 0, st_lru = way\<rparr>"

definition new_PATTERN_TABLE :: PATTERN_TABLE where
  "new_PATTERN_TABLE = \<lparr>pt_delta = (\<lambda>si way. 0), c_delta = (\<lambda>si way. 0), c_sig = (\<lambda>si. 0)\<rparr>"

definition new_PREFETCH_FILTER :: PREFETCH_FILTER where
  "new_PREFETCH_FILTER = \<lparr>fl_remainder_tag = (\<lambda>q. 0), fl_valid = (\<lambda>q. False), fl_useful = (\<lambda>q. False)\<rparr>"

definition new_GLOBAL_REGISTER :: GLOBAL_REGISTER where
  "new_GLOBAL_REGISTER = \<lparr>gr_pf_useful = 0, gr_pf_issued = 0, gr_global_accuracy = 0,
     gr_entry = (\<lambda>i. \<lparr>gh_valid = False, gh_sig = 0, gh_confidence = 0, gh_offset = 0, gh_delta = 0\<rparr>)\<rparr>"

definition new_spp_dev :: spp_dev where
  "new_spp_dev = \<lparr>spp_ST = new_SIGNATURE_TABLE, spp_PT = new_PATTERN_TABLE, spp_FILTER = new_PREFETCH_FILTER,
     spp_GHR = new_GLOBAL_REGISTER\<rparr>"

section \<open>Hashes, signatures and slices of addresses\<close>

definition get_hash :: "64 word \<Rightarrow> 64 word" where
  "get_hash key = (let
     key = key + push_bit 12 key;
     key = key XOR drop_bit 22 key;
     key = key + push_bit 4 key;
     key = key XOR drop_bit 9 key;
     key = key + push_bit 10 key;
     key = key XOR drop_bit 2 key;
     key = key + push_bit 7 key;
     key = key XOR drop_bit 12 key
   in drop_bit 3 key * 2654435761)"

definition sig_delta :: "int \<Rightarrow> int" where
  "sig_delta delta = (if delta < 0 then - delta + 2 ^ (SIG_DELTA_BIT - 1) else delta)"

definition next_sig :: "32 word \<Rightarrow> int \<Rightarrow> 32 word" where
  "next_sig sig delta = (push_bit SIG_SHIFT sig XOR word_of_int (sig_delta delta)) AND SIG_MASK"

definition page_number :: "'m CACHE \<Rightarrow> address \<Rightarrow> address" where
  "page_number c a = drop_bit (c_log2_page c) a"

definition block_in_page :: "'m CACHE \<Rightarrow> address \<Rightarrow> nat" where
  "block_in_page c a = unat (take_bit (c_log2_page c - c_log2_block c) (drop_bit (c_log2_block c) a))"

definition partial_page :: "'m CACHE \<Rightarrow> address \<Rightarrow> address" where
  "partial_page c a = take_bit ST_TAG_BIT (page_number c a)"

definition pt_index :: "32 word \<Rightarrow> nat" where
  "pt_index sig = unat (get_hash (ucast sig) mod of_nat PT_SET)"

text \<open>The first index whose value is below every earlier one and below the bound, and its dual among the
  indices that satisfy a condition.\<close>

fun below_scan :: "(nat \<Rightarrow> nat) \<Rightarrow> nat list \<Rightarrow> nat \<Rightarrow> nat option \<Rightarrow> nat option" where
  "below_scan f [] bound found = found"
| "below_scan f (i # is) bound found = (if f i < bound then below_scan f is (f i) (Some i) else below_scan f is bound found)"

fun above_scan :: "(nat \<Rightarrow> bool) \<Rightarrow> (nat \<Rightarrow> nat) \<Rightarrow> nat list \<Rightarrow> nat \<Rightarrow> nat option \<Rightarrow> nat option" where
  "above_scan P f [] bound found = found"
| "above_scan P f (i # is) bound found =
     (if P i \<and> bound < f i then above_scan P f is (f i) (Some i) else above_scan P f is bound found)"

section \<open>The global register\<close>

definition update_entry :: "32 word \<Rightarrow> nat \<Rightarrow> nat \<Rightarrow> int \<Rightarrow> GLOBAL_REGISTER \<Rightarrow> spp_error + GLOBAL_REGISTER" where
  "update_entry pf_sig pf_confidence pf_offset pf_delta g = (
     case find_if (\<lambda>i. gh_valid (gr_entry g i) \<and> gh_offset (gr_entry g i) = pf_offset) 0 MAX_GHR_ENTRY of
       Some i \<Rightarrow> Inr (g\<lparr>gr_entry := (gr_entry g)(i := (gr_entry g i)\<lparr>gh_sig := pf_sig, gh_confidence := pf_confidence,
                 gh_delta := pf_delta\<rparr>)\<rparr>)
     | None \<Rightarrow> (case below_scan (\<lambda>i. gh_confidence (gr_entry g i)) [0..<MAX_GHR_ENTRY] 100 None of
         None \<Rightarrow> Inl Ghr_no_victim
       | Some i \<Rightarrow> Inr (g\<lparr>gr_entry := (gr_entry g)(i := \<lparr>gh_valid = True, gh_sig = pf_sig, gh_confidence = pf_confidence,
                   gh_offset = pf_offset, gh_delta = pf_delta\<rparr>)\<rparr>)))"

definition check_entry :: "nat \<Rightarrow> GLOBAL_REGISTER \<Rightarrow> nat option" where
  "check_entry page_offset g = above_scan (\<lambda>i. gh_offset (gr_entry g i) = page_offset)
     (\<lambda>i. gh_confidence (gr_entry g i)) [0..<MAX_GHR_ENTRY] 0 None"

definition count_issued :: "GLOBAL_REGISTER \<Rightarrow> GLOBAL_REGISTER" where
  "count_issued g = (let g = g\<lparr>gr_pf_issued := gr_pf_issued g + 1\<rparr>
   in if gr_pf_issued g > GLOBAL_COUNTER_MAX
      then g\<lparr>gr_pf_issued := gr_pf_issued g div 2, gr_pf_useful := gr_pf_useful g div 2\<rparr> else g)"

definition update_accuracy :: "GLOBAL_REGISTER \<Rightarrow> GLOBAL_REGISTER" where
  "update_accuracy g = g\<lparr>gr_global_accuracy := (if gr_pf_issued g \<noteq> 0 then 100 * gr_pf_useful g div gr_pf_issued g else 0)\<rparr>"

section \<open>The signature table\<close>

definition st_put :: "nat \<Rightarrow> nat \<Rightarrow> st_entry \<Rightarrow> spp_dev \<Rightarrow> spp_dev" where
  "st_put si way e s = s\<lparr>spp_ST := (spp_ST s)(si := (spp_ST s si)(way := e))\<rparr>"

text \<open>The loop that moves a way to the most recent position.\<close>

definition st_touch :: "nat \<Rightarrow> nat \<Rightarrow> spp_dev \<Rightarrow> spp_error + spp_dev" where
  "st_touch si match s = (let t = spp_ST s si; older = (\<lambda>way. st_lru (t way) < st_lru (t match)) in
     if find_if (\<lambda>way. older way \<and> st_lru (t way) + 1 \<ge> ST_WAY) 0 ST_WAY \<noteq> None then Inl St_lru_wrong
     else Inr (s\<lparr>spp_ST := (spp_ST s)(si := (\<lambda>way.
       if way = match then (t way)\<lparr>st_lru := 0\<rparr>
       else if way < ST_WAY \<and> older way then (t way)\<lparr>st_lru := st_lru (t way) + 1\<rparr> else t way))\<rparr>))"

text \<open>The way of a page that is not in the table: an invalid one, which becomes valid, or the least
  recently used one.\<close>

definition st_claim :: "nat \<Rightarrow> address \<Rightarrow> nat \<Rightarrow> spp_dev \<Rightarrow> spp_error + nat \<times> spp_dev" where
  "st_claim si tag page_offset s = (let t = spp_ST s si in
     case find_if (\<lambda>way. \<not> st_valid (t way)) 0 ST_WAY of
       Some way \<Rightarrow> Inr (way, st_put si way ((t way)\<lparr>st_valid := True, st_tag := tag, st_sig := 0, st_last_offset := page_offset\<rparr>) s)
     | None \<Rightarrow> (case find_if (\<lambda>way. st_lru (t way) = ST_WAY - 1) 0 ST_WAY of
         Some way \<Rightarrow> Inr (way, st_put si way ((t way)\<lparr>st_tag := tag, st_sig := 0, st_last_offset := page_offset\<rparr>) s)
       | None \<Rightarrow> Inl St_no_victim))"

text \<open>The signature that bootstraps a new page from the global register.\<close>

definition ghr_sig :: "nat \<Rightarrow> GLOBAL_REGISTER \<Rightarrow> 32 word" where
  "ghr_sig page_offset g = (case check_entry page_offset g of
     None \<Rightarrow> 0 | Some i \<Rightarrow> next_sig (gh_sig (gr_entry g i)) (gh_delta (gr_entry g i)))"

text \<open>The results are the last and the current signature and the delta.\<close>

definition read_and_update_sig :: "'m CACHE \<Rightarrow> address \<Rightarrow> spp_dev \<Rightarrow> spp_error + (32 word \<times> 32 word \<times> int) \<times> spp_dev" where
  "read_and_update_sig c a s = (let
     si = unat (get_hash (page_number c a) mod of_nat ST_SET); tag = partial_page c a; page_offset = block_in_page c a;
     finish = (\<lambda>way result s. case st_touch si way s of Inl e \<Rightarrow> Inl e | Inr s \<Rightarrow> Inr (result, s))
   in case find_if (\<lambda>way. st_valid (spp_ST s si way) \<and> st_tag (spp_ST s si way) = tag) 0 ST_WAY of
        Some way \<Rightarrow> (let
          e = spp_ST s si way; delta = int page_offset - int (st_last_offset e); sig = next_sig (st_sig e) delta
          in if delta \<noteq> 0
             then finish way (st_sig e, sig, delta) (st_put si way (e\<lparr>st_sig := sig, st_last_offset := page_offset\<rparr>) s)
             else finish way (0, 0, 0) s)
      | None \<Rightarrow> (case st_claim si tag page_offset s of
          Inl e \<Rightarrow> Inl e
        | Inr (way, s) \<Rightarrow> (let sig = ghr_sig page_offset (spp_GHR s)
            in finish way (0, sig, 0) (st_put si way ((spp_ST s si way)\<lparr>st_sig := sig\<rparr>) s))))"

section \<open>The pattern table\<close>

definition pt_count :: "nat \<Rightarrow> PATTERN_TABLE \<Rightarrow> PATTERN_TABLE" where
  "pt_count si t = (let t = t\<lparr>c_sig := (c_sig t)(si := c_sig t si + 1)\<rparr>
   in if c_sig t si > C_SIG_MAX
      then t\<lparr>c_delta := (c_delta t)(si := (\<lambda>way. c_delta t si way div 2)), c_sig := (c_sig t)(si := c_sig t si div 2)\<rparr>
      else t)"

definition update_pattern :: "32 word \<Rightarrow> int \<Rightarrow> PATTERN_TABLE \<Rightarrow> spp_error + PATTERN_TABLE" where
  "update_pattern last_sig curr_delta t = (let si = pt_index last_sig in
     case find_if (\<lambda>way. pt_delta t si way = curr_delta) 0 PT_WAY of
       Some way \<Rightarrow> Inr (pt_count si (t\<lparr>c_delta := (c_delta t)(si := (c_delta t si)(way := c_delta t si way + 1))\<rparr>))
     | None \<Rightarrow> (case below_scan (c_delta t si) [0..<PT_WAY] C_SIG_MAX None of
         None \<Rightarrow> Inl Pt_no_victim
       | Some way \<Rightarrow> Inr (pt_count si (t\<lparr>pt_delta := (pt_delta t)(si := (pt_delta t si)(way := curr_delta)),
                     c_delta := (c_delta t)(si := (c_delta t si)(way := 0))\<rparr>))))"

text \<open>The candidates of an access, and the state of the lookahead that the pattern table updates.\<close>

record candidates =
  confidence_q :: "nat list"
  delta_q :: "int list"
  pf_q_tail :: nat
  lookahead_way :: nat
  lookahead_conf :: nat
  spp_depth :: nat

definition u32 :: "nat \<Rightarrow> nat" where "u32 n = n mod 2 ^ 32"

definition pattern_conf :: "nat \<Rightarrow> nat \<Rightarrow> nat \<Rightarrow> candidates \<Rightarrow> nat" where
  "pattern_conf accuracy cd cs q = (if spp_depth q \<noteq> 0
     then u32 (u32 (accuracy * cd) div cs * lookahead_conf q) div 100 else 100 * cd div cs)"

fun read_ways :: "nat \<Rightarrow> PATTERN_TABLE \<Rightarrow> nat \<Rightarrow> nat list \<Rightarrow> nat \<Rightarrow> candidates \<Rightarrow> spp_error + nat \<times> candidates" where
  "read_ways accuracy t si [] max_conf q = Inr (max_conf, q)"
| "read_ways accuracy t si (way # ways) max_conf q = (let pf_conf = pattern_conf accuracy (c_delta t si way) (c_sig t si) q in
     if pf_conf < PF_THRESHOLD then read_ways accuracy t si ways max_conf q
     else if pf_q_tail q \<ge> length (confidence_q q) then Inl Queue_overflow
     else (let
       q = q\<lparr>confidence_q := (confidence_q q)[pf_q_tail q := pf_conf],
              delta_q := (delta_q q)[pf_q_tail q := pt_delta t si way], pf_q_tail := pf_q_tail q + 1\<rparr>
       in if pf_conf > max_conf then read_ways accuracy t si ways pf_conf (q\<lparr>lookahead_way := way\<rparr>)
          else read_ways accuracy t si ways max_conf q))"

definition read_pattern :: "32 word \<Rightarrow> nat \<Rightarrow> PATTERN_TABLE \<Rightarrow> candidates \<Rightarrow> spp_error + candidates" where
  "read_pattern curr_sig accuracy t q = (let si = pt_index curr_sig in
     if c_sig t si \<noteq> 0
     then (case read_ways accuracy t si [0..<PT_WAY] 0 q of
         Inl e \<Rightarrow> Inl e
       | Inr (max_conf, q) \<Rightarrow> Inr (q\<lparr>pf_q_tail := pf_q_tail q + 1, lookahead_conf := max_conf,
           spp_depth := (if max_conf \<ge> PF_THRESHOLD then spp_depth q + 1 else spp_depth q)\<rparr>))
     else if pf_q_tail q \<ge> length (confidence_q q) then Inl Queue_overflow
     else Inr (q\<lparr>confidence_q := (confidence_q q)[pf_q_tail q := 0]\<rparr>))"

section \<open>The prefetch filter\<close>

definition filter_index :: "'m CACHE \<Rightarrow> address \<Rightarrow> nat" where
  "filter_index c a = unat (drop_bit REMAINDER_BIT (get_hash (block_number c a)) AND mask QUOTIENT_BIT)"

definition filter_remainder :: "'m CACHE \<Rightarrow> address \<Rightarrow> nat" where
  "filter_remainder c a = unat (get_hash (block_number c a) mod push_bit REMAINDER_BIT 1)"

definition filter_check :: "'m CACHE \<Rightarrow> address \<Rightarrow> FILTER_REQUEST \<Rightarrow> spp_dev \<Rightarrow> bool \<times> spp_dev" where
  "filter_check c a request s = (let f = spp_FILTER s; g = spp_GHR s; quotient = filter_index c a; remainder = filter_remainder c a;
     present = ((fl_valid f quotient \<or> fl_useful f quotient) \<and> fl_remainder_tag f quotient = remainder)
   in case request of
     SPP_L2C_PREFETCH \<Rightarrow> if present then (False, s)
       else (True, s\<lparr>spp_FILTER := \<lparr>fl_remainder_tag = (fl_remainder_tag f)(quotient := remainder),
              fl_valid = (fl_valid f)(quotient := True), fl_useful = (fl_useful f)(quotient := False)\<rparr>\<rparr>)
   | SPP_LLC_PREFETCH \<Rightarrow> (\<not> present, s)
   | L2C_DEMAND \<Rightarrow> if fl_remainder_tag f quotient = remainder \<and> \<not> fl_useful f quotient
       then (True, s\<lparr>spp_FILTER := f\<lparr>fl_useful := (fl_useful f)(quotient := True)\<rparr>,
              spp_GHR := (if fl_valid f quotient then g\<lparr>gr_pf_useful := gr_pf_useful g + 1\<rparr> else g)\<rparr>)
       else (True, s)
   | L2C_EVICT \<Rightarrow> (True, s\<lparr>spp_FILTER := \<lparr>fl_remainder_tag = (fl_remainder_tag f)(quotient := 0),
              fl_valid = (fl_valid f)(quotient := False), fl_useful = (fl_useful f)(quotient := False)\<rparr>,
            spp_GHR := (if fl_valid f quotient \<and> \<not> fl_useful f quotient \<and> gr_pf_useful g \<noteq> 0
              then g\<lparr>gr_pf_useful := gr_pf_useful g - 1\<rparr> else g)\<rparr>))"

section \<open>The operations of the prefetcher\<close>

text \<open>The variables of the lookahead of one access, with the prefetcher and the cache.\<close>

record 'm lookahead =
  lk_base_addr :: address
  lk_curr_sig :: "32 word"
  lk_q :: candidates
  lk_pf_q_head :: nat
  lk_do_lookahead :: bool
  lk_spp :: spp_dev
  lk_cache :: "'m CACHE"

definition issue_candidate :: "address \<Rightarrow> nat \<Rightarrow> 'm lookahead \<Rightarrow> spp_error + 'm lookahead" where
  "issue_candidate page i l = (let q = lk_q l; s = lk_spp l; c = lk_cache l in
     if i \<ge> length (confidence_q q) then Inl Queue_overflow
     else if confidence_q q ! i < PF_THRESHOLD then Inr l
     else (let
       conf = confidence_q q ! i; to_l2 = (conf \<ge> FILL_THRESHOLD);
       pf_addr = block_address c (block_plus c (block_number c (lk_base_addr l)) (delta_q q ! i));
       next = l\<lparr>lk_do_lookahead := True, lk_pf_q_head := lk_pf_q_head l + 1\<rparr>
       in if page_number c pf_addr = page
          then (let (fresh, s) = filter_check c pf_addr (if to_l2 then SPP_L2C_PREFETCH else SPP_LLC_PREFETCH) s
                in if fresh
                   then Inr (next\<lparr>lk_cache := snd (prefetch_line pf_addr to_l2 0 c),
                     lk_spp := (if to_l2 then s\<lparr>spp_GHR := count_issued (spp_GHR s)\<rparr> else s)\<rparr>)
                   else Inr (next\<lparr>lk_spp := s\<rparr>))
          else (case update_entry (lk_curr_sig l) conf (block_in_page c pf_addr) (delta_q q ! i) (spp_GHR s) of
              Inl e \<Rightarrow> Inl e
            | Inr g \<Rightarrow> Inr (next\<lparr>lk_spp := s\<lparr>spp_GHR := g\<rparr>\<rparr>))))"

fun issue_candidates :: "address \<Rightarrow> nat list \<Rightarrow> 'm lookahead \<Rightarrow> spp_error + 'm lookahead" where
  "issue_candidates page [] l = Inr l"
| "issue_candidates page (i # is) l = (case issue_candidate page i l of Inl e \<Rightarrow> Inl e | Inr l \<Rightarrow> issue_candidates page is l)"

definition advance :: "'m lookahead \<Rightarrow> 'm lookahead" where
  "advance l = (if lookahead_way (lk_q l) < PT_WAY
     then (let delta = pt_delta (spp_PT (lk_spp l)) (pt_index (lk_curr_sig l)) (lookahead_way (lk_q l))
           in l\<lparr>lk_base_addr := lk_base_addr l + word_of_int (delta * 2 ^ c_log2_block (lk_cache l)),
                lk_curr_sig := next_sig (lk_curr_sig l) delta\<rparr>)
     else l)"

definition lookahead_step :: "address \<Rightarrow> 'm lookahead \<Rightarrow> spp_error + 'm lookahead" where
  "lookahead_step page l = (
     case read_pattern (lk_curr_sig l) (gr_global_accuracy (spp_GHR (lk_spp l))) (spp_PT (lk_spp l)) ((lk_q l)\<lparr>lookahead_way := PT_WAY\<rparr>) of
       Inl e \<Rightarrow> Inl e
     | Inr q \<Rightarrow> (case issue_candidates page [lk_pf_q_head l..<pf_q_tail q] (l\<lparr>lk_q := q, lk_do_lookahead := False\<rparr>) of
         Inl e \<Rightarrow> Inl e
       | Inr l \<Rightarrow> Inr (advance l)))"

text \<open>The head only moves on for a candidate within the queues, so the lookahead takes at most as many
  rounds as there are MSHRs.\<close>

abbreviation queue_size :: "'m lookahead \<Rightarrow> nat" where "queue_size l \<equiv> length (confidence_q (lk_q l))"

lemma read_ways_length:
  "read_ways accuracy t si ways m q = Inr (m', q') \<Longrightarrow> length (confidence_q q') = length (confidence_q q)"
  by (induction ways arbitrary: m q) (auto simp: Let_def split: if_splits)

lemma read_pattern_length:
  "read_pattern sig accuracy t q = Inr q' \<Longrightarrow> length (confidence_q q') = length (confidence_q q)"
  by (auto simp: read_pattern_def Let_def split: if_splits sum.splits dest: read_ways_length)

lemma issue_candidate_q: "issue_candidate page i l = Inr l' \<Longrightarrow> lk_q l' = lk_q l \<and> i < queue_size l
    \<and> (lk_pf_q_head l' = lk_pf_q_head l \<and> lk_do_lookahead l' = lk_do_lookahead l
       \<or> lk_pf_q_head l' = Suc (lk_pf_q_head l) \<and> lk_do_lookahead l')"
  by (auto simp: issue_candidate_def Let_def split: if_splits sum.splits prod.splits)

lemma issue_candidates_q: "issue_candidates page is l = Inr l' \<Longrightarrow> lk_q l' = lk_q l \<and> (\<forall>i\<in>set is. i < queue_size l)
    \<and> lk_pf_q_head l \<le> lk_pf_q_head l' \<and> lk_pf_q_head l' \<le> lk_pf_q_head l + length is
    \<and> (lk_do_lookahead l' \<longrightarrow> lk_do_lookahead l \<or> lk_pf_q_head l < lk_pf_q_head l')"
proof (induction "is" arbitrary: l)
  case (Cons i "is")
  then obtain k where k: "issue_candidate page i l = Inr k" "issue_candidates page is k = Inr l'" by (auto split: sum.splits)
  show ?case using issue_candidate_q[OF k(1)] Cons.IH[OF k(2)] by auto
qed simp

lemma advance_q [simp]: "lk_q (advance l) = lk_q l" "lk_pf_q_head (advance l) = lk_pf_q_head l"
  "lk_do_lookahead (advance l) = lk_do_lookahead l" "lk_spp (advance l) = lk_spp l" "lk_cache (advance l) = lk_cache l"
  by (simp_all add: advance_def Let_def)

lemma lookahead_step_head:
  assumes "lookahead_step page l = Inr l'" "lk_do_lookahead l'"
  shows "queue_size l' = queue_size l \<and> lk_pf_q_head l < lk_pf_q_head l' \<and> lk_pf_q_head l' \<le> queue_size l"
proof -
  obtain q k where q: "read_pattern (lk_curr_sig l) (gr_global_accuracy (spp_GHR (lk_spp l))) (spp_PT (lk_spp l))
        ((lk_q l)\<lparr>lookahead_way := PT_WAY\<rparr>) = Inr q"
    and k: "issue_candidates page [lk_pf_q_head l..<pf_q_tail q] (l\<lparr>lk_q := q, lk_do_lookahead := False\<rparr>) = Inr k" "l' = advance k"
    using assms(1) by (auto simp: lookahead_step_def split: sum.splits)
  have len: "length (confidence_q q) = queue_size l" using read_pattern_length[OF q] by simp
  have h: "lk_pf_q_head l < lk_pf_q_head k" "lk_pf_q_head k \<le> lk_pf_q_head l + (pf_q_tail q - lk_pf_q_head l)"
    "\<forall>i\<in>{lk_pf_q_head l..<pf_q_tail q}. i < queue_size l"
    using issue_candidates_q[OF k(1)] assms(2) k(2) len by auto
  then have "pf_q_tail q - 1 < queue_size l" by (intro bspec[OF h(3)]) auto
  then have "lk_pf_q_head k \<le> queue_size l" using h by linarith
  then show ?thesis using h issue_candidates_q[OF k(1)] len k(2) by auto
qed

function lookahead_loop :: "address \<Rightarrow> 'm lookahead \<Rightarrow> spp_error + 'm lookahead" where
  "lookahead_loop page l = (case lookahead_step page l of Inl e \<Rightarrow> Inl e
     | Inr l \<Rightarrow> if lk_do_lookahead l then lookahead_loop page l else Inr l)"
  by pat_completeness auto

termination
  by (relation "measure (\<lambda>(page, l). Suc (queue_size l) - lk_pf_q_head l)") (auto dest!: lookahead_step_head)

declare lookahead_loop.simps [simp del]

definition new_candidates :: "nat \<Rightarrow> candidates" where
  "new_candidates mshrs = \<lparr>confidence_q = (replicate mshrs 0)[0 := 100], delta_q = replicate mshrs 0, pf_q_tail = 0,
     lookahead_way = PT_WAY, lookahead_conf = 100, spp_depth = 0\<rparr>"

definition start_lookahead :: "address \<Rightarrow> 32 word \<Rightarrow> spp_dev \<Rightarrow> 'm CACHE \<Rightarrow> 'm lookahead" where
  "start_lookahead a curr_sig s c = \<lparr>lk_base_addr = a, lk_curr_sig = curr_sig, lk_q = new_candidates (c_MSHR_SIZE c), lk_pf_q_head = 0,
     lk_do_lookahead = False, lk_spp = s, lk_cache = c\<rparr>"

definition spp_train :: "'m CACHE \<Rightarrow> address \<Rightarrow> spp_dev \<Rightarrow> spp_error + 32 word \<times> spp_dev" where
  "spp_train c a s = (
     case read_and_update_sig c a (s\<lparr>spp_GHR := update_accuracy (spp_GHR s)\<rparr>) of Inl e \<Rightarrow> Inl e
     | Inr ((last_sig, curr_sig, delta), s) \<Rightarrow> (let s = snd (filter_check c a L2C_DEMAND s) in
         if last_sig \<noteq> 0
         then (case update_pattern last_sig delta (spp_PT s) of Inl e \<Rightarrow> Inl e | Inr t \<Rightarrow> Inr (curr_sig, s\<lparr>spp_PT := t\<rparr>))
         else Inr (curr_sig, s)))"

definition spp_cache_operate :: "address \<Rightarrow> address \<Rightarrow> bool \<Rightarrow> bool \<Rightarrow> access_type \<Rightarrow> 32 word \<Rightarrow> (spp_dev \<times> 'r) CACHE
    \<Rightarrow> spp_error + 32 word \<times> (spp_dev \<times> 'r) CACHE" where
  "spp_cache_operate a ip hit useful type md c = (
     if c_MSHR_SIZE c = 0 then Inl Queue_overflow
     else case spp_train c a (fst (c_modules c)) of Inl e \<Rightarrow> Inl e
     | Inr (curr_sig, s) \<Rightarrow> (case lookahead_loop (page_number c a) (start_lookahead a curr_sig s c) of Inl e \<Rightarrow> Inl e
       | Inr l \<Rightarrow> Inr (md, (lk_cache l)\<lparr>c_modules := (lk_spp l, snd (c_modules c))\<rparr>)))"

definition spp_cache_fill :: "address \<Rightarrow> nat \<Rightarrow> nat \<Rightarrow> bool \<Rightarrow> address \<Rightarrow> 32 word \<Rightarrow> (spp_dev \<times> 'r) CACHE
    \<Rightarrow> 32 word \<times> (spp_dev \<times> 'r) CACHE" where
  "spp_cache_fill a si way pf evicted md c =
     (md, c\<lparr>c_modules := (snd (filter_check c evicted L2C_EVICT (fst (c_modules c))), snd (c_modules c))\<rparr>)"

end
