(* ===== verification/Spp_Correctness.thy ===== *)
theory Spp_Correctness
  imports Spp
begin

text \<open>
  What the signature path prefetcher keeps along any sequence of accesses and fills: the ages of the signature
  table are a permutation, the pattern counters fit in four bits and stay below their signature's counter, and
  the accuracy stays within three hundred percent; what an access may prefetch, and how it can fail.
\<close>

section \<open>Invariant\<close>

definition sig_ok :: "32 word \<Rightarrow> bool" where
  "sig_ok sig = (sig AND SIG_MASK = sig)"

definition st_ok :: "(nat \<Rightarrow> nat \<Rightarrow> st_entry) \<Rightarrow> bool" where
  "st_ok t = (\<forall>si<ST_SET. bij_betw (\<lambda>way. st_lru (t si way)) {..<ST_WAY} {..<ST_WAY} \<and> (\<forall>way. sig_ok (st_sig (t si way))))"

definition pt_set_ok :: "nat \<Rightarrow> (nat \<Rightarrow> nat) \<Rightarrow> (nat \<Rightarrow> int) \<Rightarrow> bool" where
  "pt_set_ok n f d = (n \<le> C_SIG_MAX \<and> (if n = 0 then \<forall>way<PT_WAY. f way = 0 \<and> d way = 0 else (\<Sum>way<PT_WAY. f way) < n))"

definition pt_ok :: "PATTERN_TABLE \<Rightarrow> bool" where
  "pt_ok t = (\<forall>si. pt_set_ok (c_sig t si) (c_delta t si) (pt_delta t si))"

text \<open>The prefetched lines that have not been used.\<close>

definition outstanding :: "PREFETCH_FILTER \<Rightarrow> nat" where
  "outstanding f = card {q. q < 2 ^ QUOTIENT_BIT \<and> fl_valid f q \<and> \<not> fl_useful f q}"

definition count_ok :: "nat \<Rightarrow> nat \<Rightarrow> nat \<Rightarrow> bool" where
  "count_ok out issued useful = (issued \<le> GLOBAL_COUNTER_MAX \<and> out \<le> 1024
     \<and> (useful + out \<le> issued \<or> 512 \<le> issued \<and> useful + out \<le> issued + 1024))"

definition spp_ok :: "spp_dev \<Rightarrow> bool" where
  "spp_ok s = (st_ok (spp_ST s) \<and> pt_ok (spp_PT s) \<and> (\<forall>i. sig_ok (gh_sig (gr_entry (spp_GHR s) i)))
     \<and> count_ok (outstanding (spp_FILTER s)) (gr_pf_issued (spp_GHR s)) (gr_pf_useful (spp_GHR s))
     \<and> gr_global_accuracy (spp_GHR s) \<le> 300)"

lemma next_sig_ok [simp]: "sig_ok (next_sig sig d)"
  by (simp add: sig_ok_def next_sig_def and.assoc)

lemma sig_ok_0 [simp]: "sig_ok 0"
  by (simp add: sig_ok_def)

section \<open>The signature table\<close>

lemma promote_bij:
  assumes "bij_betw f {..<n} {..<n}" "m < n"
  shows "bij_betw (\<lambda>w. if w = m then 0 else if w < n \<and> f w < f m then f w + 1 else f w :: nat) {..<n} {..<n}"
    (is "bij_betw ?g _ _")
proof -
  have f: "inj_on f {..<n}" "f ` {..<n} = {..<n}" using assms(1) by (auto simp: bij_betw_def)
  have lt: "f w < n" if "w < n" for w using f(2) that by blast
  have "inj_on ?g {..<n}"
  proof (rule inj_onI)
    fix x y assume xy: "x \<in> {..<n}" "y \<in> {..<n}" "?g x = ?g y"
    let ?h = "\<lambda>a. if a = f m then 0 else if a < f m then a + 1 else a"
    have g: "?g z = ?h (f z)" if "z \<in> {..<n}" for z using that assms(2) inj_on_eq_iff[OF f(1), of z m] by auto
    have "f x = f y" using xy(3) unfolding g[OF xy(1)] g[OF xy(2)] by (auto split: if_splits)
    then show "x = y" using xy(1,2) f(1) by (simp add: inj_on_eq_iff)
  qed
  moreover have "?g w < n" if "w < n" for w using lt[OF that] lt[OF assms(2)] assms(2) by simp
  then have "?g ` {..<n} \<subseteq> {..<n}" by (intro image_subsetI) (simp only: lessThan_iff)
  ultimately show ?thesis unfolding bij_betw_def by - (intro conjI endo_inj_surj finite_lessThan; assumption)
qed

lemma st_touch_ok:
  assumes "st_ok (spp_ST s)" "si < ST_SET" "way < ST_WAY"
  shows "\<exists>t. st_touch si way s = Inr (s\<lparr>spp_ST := t\<rparr>) \<and> st_ok t"
proof -
  let ?f = "\<lambda>w. st_lru (spp_ST s si w)"
  have b: "bij_betw ?f {..<ST_WAY} {..<ST_WAY}" using assms(1,2) by (simp add: st_ok_def)
  then have lt: "?f w < ST_WAY" if "w < ST_WAY" for w using that bij_betwE by fastforce
  have none: "find_if (\<lambda>w. ?f w < ?f way \<and> ?f w + 1 \<ge> ST_WAY) 0 ST_WAY = None"
    using lt[OF assms(3)] by (auto simp: find_if_None)
  have "(\<lambda>w. st_lru (if w = way then (spp_ST s si w)\<lparr>st_lru := 0\<rparr> else if w < ST_WAY \<and> ?f w < ?f way
      then (spp_ST s si w)\<lparr>st_lru := ?f w + 1\<rparr> else spp_ST s si w))
    = (\<lambda>w. if w = way then 0 else if w < ST_WAY \<and> ?f w < ?f way then ?f w + 1 else ?f w)" by auto
  then show ?thesis using none promote_bij[OF b assms(3)] assms(1) by (auto simp: st_touch_def Let_def st_ok_def)
qed

lemma st_put_ok:
  assumes "st_ok (spp_ST s)" "st_lru e = st_lru (spp_ST s si way)" "sig_ok (st_sig e)"
  shows "\<exists>t. st_put si way e s = s\<lparr>spp_ST := t\<rparr> \<and> st_ok t"
proof -
  have "(\<lambda>w. st_lru (((spp_ST s si)(way := e)) w)) = (\<lambda>w. st_lru (spp_ST s si w))" using assms(2) by auto
  then show ?thesis using assms(1,3) by (auto simp: st_put_def st_ok_def simp del: fun_upd_apply) (auto simp: fun_upd_def)
qed

lemma st_claim_ok:
  assumes "st_ok (spp_ST s)" "si < ST_SET"
  shows "\<exists>way t. st_claim si tag off s = Inr (way, s\<lparr>spp_ST := t\<rparr>) \<and> way < ST_WAY \<and> st_ok t"
proof -
  let ?put = "\<lambda>way e. st_put si way e s"
  have put: "\<exists>t. ?put way e = s\<lparr>spp_ST := t\<rparr> \<and> st_ok t" if "st_lru e = st_lru (spp_ST s si way)" "st_sig e = 0" for way e
    using st_put_ok[OF assms(1) that(1)] that(2) by simp
  have "ST_WAY - 1 \<in> (\<lambda>w. st_lru (spp_ST s si w)) ` {..<ST_WAY}"
    using assms by (simp add: st_ok_def bij_betw_def ST_WAY_def)
  then have ex: "find_if (\<lambda>w. st_lru (spp_ST s si w) = ST_WAY - 1) 0 ST_WAY \<noteq> None" by (auto simp: find_if_None)
  show ?thesis
  proof (cases "find_if (\<lambda>w. \<not> st_valid (spp_ST s si w)) 0 ST_WAY")
    case None
    obtain way where w: "find_if (\<lambda>w. st_lru (spp_ST s si w) = ST_WAY - 1) 0 ST_WAY = Some way" using ex by auto
    show ?thesis using put[of "(spp_ST s si way)\<lparr>st_tag := tag, st_sig := 0, st_last_offset := off\<rparr>" way] find_if_SomeD(2)[OF w]
      by (auto simp: st_claim_def Let_def None w[simplified])
  next
    case (Some way)
    show ?thesis using put[of "(spp_ST s si way)\<lparr>st_valid := True, st_tag := tag, st_sig := 0, st_last_offset := off\<rparr>" way] find_if_SomeD(2)[OF Some]
      by (auto simp: st_claim_def Let_def Some)
  qed
qed

lemma read_and_update_sig_ok:
  assumes "st_ok (spp_ST s)"
  shows "\<exists>last curr d t. read_and_update_sig c a s = Inr ((last, curr, d), s\<lparr>spp_ST := t\<rparr>) \<and> st_ok t \<and> sig_ok curr \<and> (last \<noteq> 0 \<longrightarrow> d \<noteq> 0)"
proof -
  define si where "si = unat (get_hash (page_number c a) mod of_nat ST_SET)"
  have si: "si < ST_SET" by (simp add: si_def ST_SET_def)
  define tag off where "tag = partial_page c a" and "off = block_in_page c a"
  note def = read_and_update_sig_def Let_def si_def[symmetric] tag_def[symmetric] off_def[symmetric]
  show ?thesis
  proof (cases "find_if (\<lambda>w. st_valid (spp_ST s si w) \<and> st_tag (spp_ST s si w) = tag) 0 ST_WAY")
    case (Some way)
    define e where "e = spp_ST s si way"
    define d where "d = int off - int (st_last_offset e)"
    have way: "way < ST_WAY" using find_if_SomeD(2)[OF Some] .
    obtain t where t: "st_put si way (e\<lparr>st_sig := next_sig (st_sig e) d, st_last_offset := off\<rparr>) s = s\<lparr>spp_ST := t\<rparr>" "st_ok t"
      using st_put_ok[OF assms, of "e\<lparr>st_sig := next_sig (st_sig e) d, st_last_offset := off\<rparr>" si way] by (auto simp: e_def)
    obtain t0 t1 where t01: "st_touch si way s = Inr (s\<lparr>spp_ST := t0\<rparr>)" "st_ok t0"
        "st_touch si way (s\<lparr>spp_ST := t\<rparr>) = Inr (s\<lparr>spp_ST := t1\<rparr>)" "st_ok t1"
      using st_touch_ok[OF assms si way] st_touch_ok[of "s\<lparr>spp_ST := t\<rparr>", OF _ si way] t(2) by auto
    have "read_and_update_sig c a s = (if d \<noteq> 0 then Inr ((st_sig e, next_sig (st_sig e) d, d), s\<lparr>spp_ST := t1\<rparr>)
        else Inr ((0, 0, 0), s\<lparr>spp_ST := t0\<rparr>))"
      unfolding def Some option.case e_def[symmetric] d_def[symmetric] t(1) t01(1,3) sum.case by simp
    then show ?thesis using t01 by (cases "d = 0") auto
  next
    case None
    obtain way t where w: "st_claim si tag off s = Inr (way, s\<lparr>spp_ST := t\<rparr>)" "way < ST_WAY" "st_ok t"
      using st_claim_ok[OF assms si] by blast
    define e where "e = (t si way)\<lparr>st_sig := ghr_sig off (spp_GHR s)\<rparr>"
    have gs: "sig_ok (ghr_sig off (spp_GHR s))" by (simp add: ghr_sig_def split: option.split)
    obtain t' where t': "st_put si way e (s\<lparr>spp_ST := t\<rparr>) = s\<lparr>spp_ST := t'\<rparr>" "st_ok t'"
      using st_put_ok[of "s\<lparr>spp_ST := t\<rparr>" e si way] w(3) gs by (auto simp: e_def)
    obtain t1 where t1: "st_touch si way (s\<lparr>spp_ST := t'\<rparr>) = Inr (s\<lparr>spp_ST := t1\<rparr>)" "st_ok t1"
      using st_touch_ok[of "s\<lparr>spp_ST := t'\<rparr>", OF _ si w(2)] t'(2) by auto
    have "read_and_update_sig c a s = Inr ((0, ghr_sig off (spp_GHR s), 0), s\<lparr>spp_ST := t1\<rparr>)"
      using t'(1) by (simp add: def None w(1) e_def t1)
    then show ?thesis using t1 gs by auto
  qed
qed

section \<open>The pattern table\<close>

lemma pt_sum: "(\<Sum>way<PT_WAY. f way) = f 0 + f 1 + f 2 + f (3::nat)" for f :: "nat \<Rightarrow> nat"
  by (simp add: PT_WAY_def numeral_eq_Suc)

lemma way_cases: "way < PT_WAY \<Longrightarrow> way = 0 \<or> way = 1 \<or> way = 2 \<or> way = 3"
  by (auto simp: PT_WAY_def)

lemma below_scan_range: "below_scan f is bound found = Some i \<Longrightarrow> i \<in> set is \<or> found = Some i"
  by (induction f "is" bound found rule: below_scan.induct) (auto split: if_splits)

lemma below_scan_found: "below_scan f is bound (Some j) \<noteq> None"
  by (induction "is" arbitrary: bound j) auto

lemma below_scan_exists: "i \<in> set is \<Longrightarrow> f i < bound \<Longrightarrow> below_scan f is bound None \<noteq> None"
  by (induction "is") (auto simp: below_scan_found[simplified])

text \<open>One update: the counter of the signature goes up, that of one delta may, and both are halved when the
  first overflows.\<close>

lemma pt_count_ok:
  assumes "pt_ok (t\<lparr>c_sig := cs, c_delta := cd, pt_delta := pd\<rparr>)"
    and "\<And>s. s \<noteq> si \<Longrightarrow> c_sig t s = cs s \<and> c_delta t s = cd s \<and> pt_delta t s = pd s"
    and "c_sig t si \<le> C_SIG_MAX" "(\<Sum>way<PT_WAY. c_delta t si way) < c_sig t si + 1"
  shows "pt_ok (pt_count si t)"
proof -
  let ?n = "c_sig t si + 1"
  have half: "(\<Sum>way<PT_WAY. c_delta t si way div 2) < ?n div 2" if "?n > C_SIG_MAX"
  proof -
    have "a + b + c + d < 16 \<Longrightarrow> a div 2 + b div 2 + c div 2 + d div 2 < 8" for a b c d :: nat
      using div_times_less_eq_dividend[of a 2] div_times_less_eq_dividend[of b 2] div_times_less_eq_dividend[of c 2]
        div_times_less_eq_dividend[of d 2] by linarith
    moreover have "?n = 16" using that assms(3) by (simp add: C_SIG_MAX_def)
    ultimately show ?thesis using assms(4) by (simp add: pt_sum)
  qed
  have "pt_set_ok (c_sig (pt_count si t) s) (c_delta (pt_count si t) s) (pt_delta (pt_count si t) s)" for s
  proof (cases "s = si")
    case True
    then show ?thesis using assms(3,4) half by (auto simp: pt_count_def Let_def pt_set_ok_def C_SIG_MAX_def)
  next
    case False
    then show ?thesis using assms(1) assms(2)[OF False] by (auto simp: pt_count_def Let_def pt_ok_def)
  qed
  then show ?thesis by (simp add: pt_ok_def)
qed

lemma update_pattern_ok:
  assumes "pt_ok t" "d \<noteq> 0"
  shows "\<exists>t'. update_pattern sig d t = Inr t' \<and> pt_ok t'"
proof -
  define si where "si = pt_index sig"
  have si: "pt_set_ok (c_sig t si) (c_delta t si) (pt_delta t si)" using assms(1) by (simp add: pt_ok_def)
  have same: "t\<lparr>c_sig := c_sig t, c_delta := c_delta t, pt_delta := pt_delta t\<rparr> = t" by simp
  show ?thesis
  proof (cases "find_if (\<lambda>way. pt_delta t si way = d) 0 PT_WAY")
    case (Some way)
    let ?t = "t\<lparr>c_delta := (c_delta t)(si := (c_delta t si)(way := c_delta t si way + 1))\<rparr>"
    have "way < PT_WAY" "pt_delta t si way = d" using find_if_SomeD[OF Some] by auto
    then have "c_sig t si \<noteq> 0" using si assms(2) by (auto simp: pt_set_ok_def split: if_splits)
    then have "(\<Sum>w<PT_WAY. c_delta ?t si w) < c_sig ?t si + 1"
      using si way_cases[OF \<open>way < PT_WAY\<close>] by (auto simp: pt_set_ok_def pt_sum)
    then have "pt_ok (pt_count si ?t)"
      using si assms(1) by (intro pt_count_ok[where cs = "c_sig t" and cd = "c_delta t" and pd = "pt_delta t"]) (auto simp: pt_set_ok_def)
    then show ?thesis by (simp add: update_pattern_def Let_def si_def[symmetric] Some)
  next
    case None
    have w0: "0 < PT_WAY" by (simp add: PT_WAY_def)
    then have "c_delta t si 0 < C_SIG_MAX" using si by (auto simp: pt_set_ok_def pt_sum C_SIG_MAX_def split: if_splits)
    with w0 obtain way where w: "below_scan (c_delta t si) [0..<PT_WAY] C_SIG_MAX None = Some way"
      using below_scan_exists[of _ "[0..<PT_WAY]" "c_delta t si" C_SIG_MAX] by fastforce
    let ?t = "t\<lparr>pt_delta := (pt_delta t)(si := (pt_delta t si)(way := d)), c_delta := (c_delta t)(si := (c_delta t si)(way := 0))\<rparr>"
    have "way < PT_WAY" using below_scan_range[OF w] by auto
    moreover have "0 < PT_WAY" "1 < PT_WAY" "2 < PT_WAY" "3 < PT_WAY" by (simp_all add: PT_WAY_def)
    ultimately have "(\<Sum>w<PT_WAY. c_delta ?t si w) < c_sig ?t si + 1"
      using si way_cases[of way] by (auto simp: pt_set_ok_def pt_sum split: if_splits)
    then have "pt_ok (pt_count si ?t)"
      using si assms(1) by (intro pt_count_ok[where cs = "c_sig t" and cd = "c_delta t" and pd = "pt_delta t"]) (auto simp: pt_set_ok_def)
    then show ?thesis by (simp add: update_pattern_def Let_def si_def[symmetric] None w)
  qed
qed

section \<open>The filter and the accuracy\<close>

lemma filter_index_less: "filter_index c a < 2 ^ QUOTIENT_BIT"
  by (simp add: filter_index_def unat_and_mask QUOTIENT_BIT_def)

definition unused :: "PREFETCH_FILTER \<Rightarrow> nat set" where
  "unused f = {q. q < 2 ^ QUOTIENT_BIT \<and> fl_valid f q \<and> \<not> fl_useful f q}"

lemma outstanding_unused: "outstanding f = card (unused f)" and finite_unused [simp]: "finite (unused f)"
  by (simp_all add: outstanding_def unused_def)

lemma outstanding_less: "outstanding f \<le> 1024"
proof -
  have "unused f \<subseteq> {..<1024}" by (auto simp: unused_def QUOTIENT_BIT_def)
  then show ?thesis using card_mono[of "{..<1024::nat}" "unused f"] by (simp add: outstanding_unused)
qed

lemma count_ok_mono: "count_ok out i u \<Longrightarrow> out' \<le> 1024 \<Longrightarrow> u' + out' \<le> u + out \<Longrightarrow> count_ok out' i u'"
  by (auto simp: count_ok_def)

lemma filter_demand_ok:
  assumes "spp_ok s"
  shows "spp_ok (snd (filter_check c a L2C_DEMAND s))"
proof -
  let ?f = "spp_FILTER s" let ?q = "filter_index c a"
  let ?f' = "?f\<lparr>fl_useful := (fl_useful ?f)(?q := True)\<rparr>"
  have u: "unused ?f' = unused ?f - {?q}" by (auto simp: unused_def)
  have "outstanding ?f' + (if fl_valid ?f ?q then 1 else 0) \<le> outstanding ?f" if "\<not> fl_useful ?f ?q"
  proof (cases "fl_valid ?f ?q")
    case True
    then have q: "?q \<in> unused ?f" using that filter_index_less[of c a] by (simp add: unused_def)
    then have "card (unused ?f) > 0" by (auto simp: card_gt_0_iff)
    then show ?thesis using True q by (simp add: outstanding_unused u)
  next
    case False
    then show ?thesis by (simp add: outstanding_unused u card_mono)
  qed
  then have "count_ok (outstanding ?f') (gr_pf_issued (spp_GHR s)) (gr_pf_useful (spp_GHR s) + (if fl_valid ?f ?q then 1 else 0))"
    if "\<not> fl_useful ?f ?q" using assms that count_ok_mono[OF _ outstanding_less] by (simp add: spp_ok_def split: if_splits)
  then show ?thesis using assms by (auto simp: filter_check_def Let_def spp_ok_def split: if_splits)
qed

lemma filter_evict_ok:
  assumes "spp_ok s"
  shows "spp_ok (snd (filter_check c a L2C_EVICT s))"
proof -
  let ?f = "spp_FILTER s" let ?q = "filter_index c a" let ?u = "gr_pf_useful (spp_GHR s)"
  let ?f' = "\<lparr>fl_remainder_tag = (fl_remainder_tag ?f)(?q := 0), fl_valid = (fl_valid ?f)(?q := False), fl_useful = (fl_useful ?f)(?q := False)\<rparr>"
  have "unused ?f' = unused ?f - {?q}" by (auto simp: unused_def)
  then have "outstanding ?f' \<le> outstanding ?f" by (simp add: outstanding_unused card_mono)
  then have "count_ok (outstanding ?f') (gr_pf_issued (spp_GHR s)) v" if "v \<le> ?u" for v
    using assms add_mono[OF that] count_ok_mono[of "outstanding ?f" _ ?u, OF _ outstanding_less] by (simp add: spp_ok_def)
  then show ?thesis using assms by (auto simp: filter_check_def Let_def spp_ok_def)
qed

lemma filter_llc [simp]: "snd (filter_check c a SPP_LLC_PREFETCH s) = s"
  by (simp add: filter_check_def Let_def)

lemma filter_l2c_ok:
  assumes "spp_ok s" "filter_check c a SPP_L2C_PREFETCH s = (fresh, s')"
  shows "if fresh then spp_ok (s'\<lparr>spp_GHR := count_issued (spp_GHR s')\<rparr>) else s' = s"
proof -
  let ?f = "spp_FILTER s" let ?q = "filter_index c a" let ?g = "spp_GHR s"
  let ?f' = "\<lparr>fl_remainder_tag = (fl_remainder_tag ?f)(?q := filter_remainder c a), fl_valid = (fl_valid ?f)(?q := True),
    fl_useful = (fl_useful ?f)(?q := False)\<rparr>"
  have "unused ?f' \<subseteq> insert ?q (unused ?f)" by (auto simp: unused_def split: if_splits)
  then have "outstanding ?f' \<le> card (insert ?q (unused ?f))" unfolding outstanding_unused by (intro card_mono) simp_all
  then have o: "outstanding ?f' \<le> outstanding ?f + 1" by (simp add: outstanding_unused card_insert_if split: if_splits)
  have c: "count_ok (outstanding ?f) (gr_pf_issued ?g) (gr_pf_useful ?g)" using assms(1) by (simp add: spp_ok_def)
  have "count_ok (outstanding ?f') (gr_pf_issued (count_issued ?g)) (gr_pf_useful (count_issued ?g))"
  proof (cases "gr_pf_issued ?g = GLOBAL_COUNTER_MAX")
    case True
    then show ?thesis using c o outstanding_less[of ?f'] by (auto simp: count_ok_def count_issued_def Let_def GLOBAL_COUNTER_MAX_def)
  next
    case False
    then show ?thesis using c o outstanding_less[of ?f'] by (auto simp: count_ok_def count_issued_def Let_def GLOBAL_COUNTER_MAX_def)
  qed
  moreover have "gr_entry (count_issued ?g) = gr_entry ?g" "gr_global_accuracy (count_issued ?g) = gr_global_accuracy ?g"
    by (simp_all add: count_issued_def Let_def)
  ultimately show ?thesis using assms by (auto simp: filter_check_def Let_def spp_ok_def split: if_splits)
qed

lemma update_accuracy_ok: "spp_ok s \<Longrightarrow> spp_ok (s\<lparr>spp_GHR := update_accuracy (spp_GHR s)\<rparr>)"
proof -
  assume s: "spp_ok s"
  let ?g = "spp_GHR s"
  have "100 * gr_pf_useful ?g div gr_pf_issued ?g \<le> 300" if "gr_pf_issued ?g \<noteq> 0"
  proof -
    have "gr_pf_useful ?g \<le> 3 * gr_pf_issued ?g" using s by (auto simp: spp_ok_def count_ok_def)
    then have "100 * gr_pf_useful ?g div gr_pf_issued ?g \<le> (300 * gr_pf_issued ?g) div gr_pf_issued ?g" by (intro div_le_mono) simp
    then show ?thesis using that by simp
  qed
  then show ?thesis using s by (simp add: spp_ok_def update_accuracy_def)
qed

section \<open>The lookahead\<close>

lemma hook_frame_sizes: "hook_frame c c' \<Longrightarrow> c_log2_page c' = c_log2_page c \<and> c_log2_block c' = c_log2_block c"
  by (auto simp: hook_frame_def)

text \<open>What the lookahead keeps: the prefetcher's invariant, and a cache that has only gained prefetches of one page.\<close>

definition prefetched_in :: "'m CACHE \<Rightarrow> address \<Rightarrow> 'm CACHE \<Rightarrow> bool" where
  "prefetched_in c0 page c = (hook_frame c0 c \<and>
     (\<exists>pq. c_internal_PQ c = c_internal_PQ c0 @ pq \<and> (\<forall>x\<in>set pq. page_number c0 (tl_address x) = page)))"

lemma prefetched_in_refl [simp]: "prefetched_in c page c"
  by (simp add: prefetched_in_def)

lemma prefetched_in_line:
  assumes "prefetched_in c0 page c" "page_number c a = page"
  shows "prefetched_in c0 page (snd (prefetch_line a to_l2 md c))"
proof -
  have f: "hook_frame c0 (snd (prefetch_line a to_l2 md c))"
    using assms(1) hook_frame_trans prefetch_line_frame unfolding prefetched_in_def by blast
  obtain pq where pq: "c_internal_PQ c = c_internal_PQ c0 @ pq" "\<forall>x\<in>set pq. page_number c0 (tl_address x) = page"
    using assms(1) by (auto simp: prefetched_in_def)
  have "page_number c0 a = page" using assms hook_frame_sizes[of c0 c] by (simp add: prefetched_in_def page_number_def)
  then have "\<exists>pq. c_internal_PQ (snd (prefetch_line a to_l2 md c)) = c_internal_PQ c0 @ pq \<and> (\<forall>x\<in>set pq. page_number c0 (tl_address x) = page)"
    using pq by (simp add: prefetch_line_def Let_def on_stats_def tag_of_request_def)
  then show ?thesis using f by (simp add: prefetched_in_def)
qed

definition lk_ok :: "'m lookahead \<Rightarrow> bool" where
  "lk_ok l = (spp_ok (lk_spp l) \<and> sig_ok (lk_curr_sig l))"

definition soft_error :: "spp_error \<Rightarrow> bool" where
  "soft_error e = (e = Queue_overflow \<or> e = Ghr_no_victim)"

fun ok_or_soft :: "('a \<Rightarrow> bool) \<Rightarrow> spp_error + 'a \<Rightarrow> bool" where
  "ok_or_soft P (Inl e) = soft_error e"
| "ok_or_soft P (Inr x) = P x"

lemma update_entry_ok:
  "spp_ok s \<Longrightarrow> sig_ok sig \<Longrightarrow> ok_or_soft (\<lambda>g. spp_ok (s\<lparr>spp_GHR := g\<rparr>)) (update_entry sig conf off d (spp_GHR s))"
  by (auto simp: update_entry_def spp_ok_def soft_error_def split: option.split)

lemma issue_candidate_ok:
  assumes "lk_ok l"
  shows "ok_or_soft lk_ok (issue_candidate page i l)"
proof -
  let ?s = "lk_spp l" let ?c = "lk_cache l" let ?q = "lk_q l"
  have l: "spp_ok ?s" "sig_ok (lk_curr_sig l)" using assms by (auto simp: lk_ok_def)
  define a where "a = block_address ?c (block_plus ?c (block_number ?c (lk_base_addr l)) (delta_q ?q ! i))"
  define to_l2 where "to_l2 \<longleftrightarrow> confidence_q ?q ! i \<ge> FILL_THRESHOLD"
  obtain fresh s' where f: "filter_check ?c a (if to_l2 then SPP_L2C_PREFETCH else SPP_LLC_PREFETCH) ?s = (fresh, s')" by fastforce
  have s': "if to_l2 \<and> fresh then spp_ok (s'\<lparr>spp_GHR := count_issued (spp_GHR s')\<rparr>) else s' = ?s"
    using filter_l2c_ok[OF l(1), of ?c a fresh s'] f filter_llc[of ?c a ?s] by (cases to_l2) auto
  note def = issue_candidate_def Let_def a_def[symmetric] to_l2_def[symmetric] f prod.case
  consider "i \<ge> queue_size l \<or> confidence_q ?q ! i < PF_THRESHOLD"
    | "\<not> (i \<ge> queue_size l \<or> confidence_q ?q ! i < PF_THRESHOLD)" "page_number ?c a = page"
    | "\<not> (i \<ge> queue_size l \<or> confidence_q ?q ! i < PF_THRESHOLD)" "page_number ?c a \<noteq> page" by blast
  then show ?thesis
  proof cases
    case 1
    then show ?thesis using assms by (auto simp: issue_candidate_def Let_def soft_error_def)
  next
    case 2
    then show ?thesis using s' l unfolding def by (simp add: lk_ok_def split: if_splits)
  next
    case 3
    show ?thesis using update_entry_ok[OF l, of "confidence_q ?q ! i" "block_in_page ?c a" "delta_q ?q ! i"] 3 l(2) unfolding def
      by (auto simp: lk_ok_def split: sum.split)
  qed
qed

lemma issue_candidate_page:
  assumes "issue_candidate page i l = Inr l'" "prefetched_in c0 page (lk_cache l)"
  shows "prefetched_in c0 page (lk_cache l')"
  using assms by (simp add: issue_candidate_def Let_def split: if_splits sum.splits prod.splits) (auto intro: prefetched_in_line)

lemma issue_candidates_ok: "lk_ok l \<Longrightarrow> ok_or_soft lk_ok (issue_candidates page is l)"
proof (induction "is" arbitrary: l)
  case (Cons i "is")
  then show ?case using issue_candidate_ok[OF Cons.prems, of page i] by (cases "issue_candidate page i l") auto
qed simp

lemma issue_candidates_page:
  "issue_candidates page is l = Inr l' \<Longrightarrow> prefetched_in c0 page (lk_cache l) \<Longrightarrow> prefetched_in c0 page (lk_cache l')"
  by (induction "is" arbitrary: l) (auto split: sum.splits dest: issue_candidate_page)

lemma read_ways_error: "read_ways accuracy t si ways m q = Inl e \<Longrightarrow> e = Queue_overflow"
  by (induction ways arbitrary: m q) (auto simp: Let_def split: if_splits)

lemma read_pattern_error: "read_pattern sig accuracy t q = Inl e \<Longrightarrow> e = Queue_overflow"
  by (auto simp: read_pattern_def Let_def dest: read_ways_error split: if_splits sum.splits)

lemma advance_ok: "lk_ok l \<Longrightarrow> lk_ok (advance l)"
  by (simp add: lk_ok_def advance_def Let_def)

lemma lookahead_step_ok:
  assumes "lk_ok l"
  shows "ok_or_soft lk_ok (lookahead_step page l)"
proof (cases "read_pattern (lk_curr_sig l) (gr_global_accuracy (spp_GHR (lk_spp l))) (spp_PT (lk_spp l)) ((lk_q l)\<lparr>lookahead_way := PT_WAY\<rparr>)")
  case (Inl e)
  then show ?thesis using read_pattern_error[OF Inl] by (simp add: lookahead_step_def soft_error_def)
next
  case (Inr q)
  let ?r = "issue_candidates page [lk_pf_q_head l..<pf_q_tail q] (l\<lparr>lk_q := q, lk_do_lookahead := False\<rparr>)"
  have "ok_or_soft lk_ok ?r" using assms by (intro issue_candidates_ok) (simp add: lk_ok_def)
  then show ?thesis using Inr by (cases ?r) (simp_all add: lookahead_step_def advance_ok)
qed

lemma lookahead_step_page:
  assumes "lookahead_step page l = Inr l'" "prefetched_in c0 page (lk_cache l)"
  shows "prefetched_in c0 page (lk_cache l')"
  using assms by (auto simp: lookahead_step_def split: sum.splits dest!: issue_candidates_page[of _ _ _ _ c0])

lemma lookahead_loop_ok: "lk_ok l \<Longrightarrow> ok_or_soft lk_ok (lookahead_loop page l)"
proof (induction page l rule: lookahead_loop.induct)
  case (1 page l)
  then show ?case using lookahead_step_ok[OF 1(2), of page] by (subst lookahead_loop.simps) (auto split: sum.split)
qed

lemma lookahead_loop_page:
  "lookahead_loop page l = Inr l' \<Longrightarrow> prefetched_in c0 page (lk_cache l) \<Longrightarrow> prefetched_in c0 page (lk_cache l')"
proof (induction page l rule: lookahead_loop.induct)
  case (1 page l)
  from 1(2) obtain k where k: "lookahead_step page l = Inr k" "(if lk_do_lookahead k then lookahead_loop page k else Inr k) = Inr l'"
    by (subst (asm) lookahead_loop.simps) (auto split: sum.splits)
  have "prefetched_in c0 page (lk_cache k)" using lookahead_step_page[OF k(1) 1(3)] .
  then show ?case using 1(1)[OF k(1)] k(2) by (auto split: if_splits)
qed

section \<open>Accesses, fills and runs\<close>

lemma new_spp_ok: "spp_ok new_spp_dev"
  by (auto simp: spp_ok_def new_spp_dev_def st_ok_def new_SIGNATURE_TABLE_def pt_ok_def pt_set_ok_def new_PATTERN_TABLE_def
      new_GLOBAL_REGISTER_def new_PREFETCH_FILTER_def outstanding_def count_ok_def bij_betw_def)

lemma spp_train_ok:
  assumes "spp_ok s"
  shows "\<exists>sig s'. spp_train c a s = Inr (sig, s') \<and> spp_ok s' \<and> sig_ok sig"
proof -
  define s1 where "s1 = s\<lparr>spp_GHR := update_accuracy (spp_GHR s)\<rparr>"
  have s1: "spp_ok s1" unfolding s1_def by (rule update_accuracy_ok[OF assms])
  then obtain last curr d t where r: "read_and_update_sig c a s1 = Inr ((last, curr, d), s1\<lparr>spp_ST := t\<rparr>)" "st_ok t" "sig_ok curr"
      "last \<noteq> 0 \<longrightarrow> d \<noteq> 0" using read_and_update_sig_ok[of s1 c a] by (auto simp: spp_ok_def)
  define s2 where "s2 = snd (filter_check c a L2C_DEMAND (s1\<lparr>spp_ST := t\<rparr>))"
  have s2: "spp_ok s2" unfolding s2_def using s1 r(2) by (intro filter_demand_ok) (simp add: spp_ok_def)
  show ?thesis
  proof (cases "last = 0")
    case True
    then show ?thesis using s2 r by (simp add: spp_train_def s1_def[symmetric] Let_def s2_def[symmetric])
  next
    case False
    then obtain t' where t': "update_pattern last d (spp_PT s2) = Inr t'" "pt_ok t'"
      using update_pattern_ok[of "spp_PT s2" d last] r(4) s2 by (auto simp: spp_ok_def)
    then show ?thesis using s2 r False by (simp add: spp_train_def s1_def[symmetric] Let_def s2_def[symmetric] spp_ok_def)
  qed
qed

lemma spp_cache_operate_ok:
  assumes "spp_ok (fst (c_modules c))"
  shows "ok_or_soft (\<lambda>(md', c'). spp_ok (fst (c_modules c'))) (spp_cache_operate a ip hit useful type md c)"
proof -
  obtain sig s where t: "spp_train c a (fst (c_modules c)) = Inr (sig, s)" "spp_ok s" "sig_ok sig" using spp_train_ok[OF assms] by blast
  let ?l = "lookahead_loop (page_number c a) (start_lookahead a sig s c)"
  have "ok_or_soft lk_ok ?l" using t(2,3) by (intro lookahead_loop_ok) (simp add: lk_ok_def start_lookahead_def)
  then show ?thesis using t(1) by (cases ?l) (auto simp: spp_cache_operate_def soft_error_def lk_ok_def)
qed

text \<open>The states a prefetcher reaches: between its operations the cache and the other modules do what they like.\<close>

inductive spp_reachable :: "spp_dev \<times> 'r \<Rightarrow> bool" where
  start: "spp_reachable (new_spp_dev, r)"
| other: "spp_reachable (s, r) \<Longrightarrow> spp_reachable (s, r')"
| access: "spp_reachable (c_modules c) \<Longrightarrow> spp_cache_operate a ip hit useful type md c = Inr (md', c') \<Longrightarrow> spp_reachable (c_modules c')"
| fill: "spp_reachable (c_modules c) \<Longrightarrow> spp_cache_fill a si way pf evicted md c = (md', c') \<Longrightarrow> spp_reachable (c_modules c')"

lemma spp_reachable_ok: "spp_reachable m \<Longrightarrow> spp_ok (fst m)"
proof (induction rule: spp_reachable.induct)
  case (access c a ip hit useful type md md' c')
  then show ?case using spp_cache_operate_ok[OF access(3), of a ip hit useful type md] by simp
next
  case (fill c a si way pf evicted md md' c')
  then show ?case using filter_evict_ok[OF fill(3), of c evicted] by (auto simp: spp_cache_fill_def)
qed (simp_all add: new_spp_ok)

section \<open>Samples\<close>

text \<open>A cache of 64 byte blocks and 4096 byte pages with a number of MSHRs.\<close>

definition spp_cache :: "nat \<Rightarrow> spp_dev \<Rightarrow> (spp_dev \<times> unit) CACHE" where
  "spp_cache mshrs s = \<lparr>c_clock_period = 1, c_current_time = 0, c_warmup = False, c_log2_page = 12, c_log2_block = 6,
     c_channels = (\<lambda>_. new_channel 4 4 4 6 False), c_upper_levels = [0], c_lower_level = new_channel 4 4 4 6 False,
     c_lower_translate = None, c_cpu = 0, c_NUM_SET = 2, c_NUM_WAY = 2, c_MSHR_SIZE = mshrs, c_PQ_SIZE = 2, c_HIT_LATENCY = 1,
     c_FILL_LATENCY = 1, c_OFFSET_BITS = 6, c_block = (\<lambda>_. empty_block), c_MAX_TAG = 2, c_MAX_FILL = 2,
     c_prefetch_as_load = False, c_match_offset_bits = False, c_virtual_prefetch = False, c_pref_activate_mask = [LOAD, PREFETCH],
     c_sim_stats = zero_cache_stats, c_roi_stats = zero_cache_stats, c_MSHR = [], c_inflight_writes = [], c_internal_PQ = [],
     c_inflight_tag_check = [], c_translation_stash = [], c_modules = (s, ())\<rparr>"



section \<open>Properties\<close>

lemma pt_way_less: "pt_set_ok n f d \<Longrightarrow> way < PT_WAY \<Longrightarrow> f way \<le> n \<and> (n \<noteq> 0 \<longrightarrow> f way < n)"
  using way_cases[of way] by (auto simp: pt_set_ok_def pt_sum split: if_splits)

text \<open>C38. The state of the signature path prefetcher stays in its ranges along any sequence of accesses and fills:
  the ages of the signature table are a permutation, signatures have twelve bits and counters four, no delta is as
  frequent as its signature, and the global accuracy is at most three hundred percent.\<close>

theorem spp_stays_in_range:
  assumes "spp_reachable m"
  shows "bij_betw (\<lambda>way. st_lru (spp_ST (fst m) 0 way)) {..<ST_WAY} {..<ST_WAY}
    \<and> (\<forall>way. st_sig (spp_ST (fst m) 0 way) AND SIG_MASK = st_sig (spp_ST (fst m) 0 way))
    \<and> (\<forall>si. c_sig (spp_PT (fst m)) si \<le> C_SIG_MAX)
    \<and> (\<forall>si way. way < PT_WAY \<and> c_sig (spp_PT (fst m)) si \<noteq> 0 \<longrightarrow> c_delta (spp_PT (fst m)) si way < c_sig (spp_PT (fst m)) si)
    \<and> gr_pf_issued (spp_GHR (fst m)) \<le> GLOBAL_COUNTER_MAX
    \<and> gr_pf_useful (spp_GHR (fst m)) \<le> gr_pf_issued (spp_GHR (fst m)) + 1024
    \<and> gr_global_accuracy (spp_GHR (fst m)) \<le> 300"
proof -
  have ok: "spp_ok (fst m)" by (rule spp_reachable_ok[OF assms])
  then have pt: "pt_set_ok (c_sig (spp_PT (fst m)) si) (c_delta (spp_PT (fst m)) si) (pt_delta (spp_PT (fst m)) si)" for si
    by (simp add: spp_ok_def pt_ok_def)
  show ?thesis using ok pt_way_less[OF pt] pt
    by (auto simp: spp_ok_def st_ok_def ST_SET_def sig_ok_def pt_set_ok_def count_ok_def)
qed

lemma spp_stays_in_range_witness: "gr_global_accuracy (spp_GHR (fst (new_spp_dev, ()))) \<le> 300"
  using spp_stays_in_range[OF spp_reachable.start[of "()"]] by blast

text \<open>An access fails only by running over the end of its candidate queues or of the global register: the assertions
  on the victims of the signature and the pattern table and on the ages never fail.\<close>

theorem spp_fails_only_at_queues:
  assumes "spp_reachable (c_modules c)" "spp_cache_operate a ip hit useful type md c = Inl e"
  shows "e = Queue_overflow \<or> e = Ghr_no_victim"
  using spp_cache_operate_ok[OF spp_reachable_ok[OF assms(1)], of a ip hit useful type md] assms(2) by (simp add: soft_error_def)

text \<open>A cache without MSHRs has no queue at all.\<close>

lemma spp_fails_only_at_queues_witness:
  "spp_cache_operate 0x4000 0 False False LOAD 0 (spp_cache 0 new_spp_dev) = Inl Queue_overflow
    \<and> (Queue_overflow = Queue_overflow \<or> Queue_overflow = Ghr_no_victim)"
proof -
  have r: "spp_reachable (c_modules (spp_cache 0 new_spp_dev))" by (simp add: spp_cache_def spp_reachable.start)
  have "spp_cache_operate 0x4000 0 False False LOAD 0 (spp_cache 0 new_spp_dev) = Inl Queue_overflow"
    by (simp add: spp_cache_operate_def spp_cache_def)
  with spp_fails_only_at_queues[OF r this] show ?thesis by blast
qed

text \<open>C39. An access prefetches only lines of the page it accesses, and touches nothing of its cache but the queue of
  prefetches, the statistics and the state of the modules.\<close>

theorem spp_prefetches_in_page:
  assumes "spp_cache_operate a ip hit useful type md c = Inr (md', c')"
  shows "md' = md \<and> hook_frame c c'
    \<and> (\<exists>pq. c_internal_PQ c' = c_internal_PQ c @ pq \<and> (\<forall>x\<in>set pq. page_number c (tl_address x) = page_number c a))"
proof -
  obtain sig s l where t: "lookahead_loop (page_number c a) (start_lookahead a sig s c) = Inr l"
    "md' = md" "c' = (lk_cache l)\<lparr>c_modules := (lk_spp l, snd (c_modules c))\<rparr>"
    using assms by (auto simp: spp_cache_operate_def split: if_splits sum.splits)
  have "prefetched_in c (page_number c a) (lk_cache l)"
    using lookahead_loop_page[OF t(1)] by (simp add: start_lookahead_def)
  then show ?thesis using t by (auto simp: prefetched_in_def intro: hook_frame_modules)
qed

section \<open>A page without confident pattern\<close>

lemma block_plus_0 [simp]: "block_plus c (block_number c a) 0 = block_number c a"
  by (simp add: block_plus_def block_number_def) (rule bit_eqI, auto simp: bit_simps dest: bit_imp_le_length)

lemma block_number_address [simp]: "block_number c (block_address c (block_number c a)) = block_number c a"
  by (simp add: block_number_def block_address_def) (rule bit_eqI, auto simp: bit_simps dest: bit_imp_le_length)

lemma page_number_address:
  "c_log2_block c \<le> c_log2_page c \<Longrightarrow> page_number c (block_address c (block_number c a)) = page_number c a"
  by (simp add: page_number_def block_number_def block_address_def) (rule bit_eqI, auto simp: bit_simps dest: bit_imp_le_length)

lemma filter_check_block:
  "block_number c a = block_number c b \<Longrightarrow> filter_check c a r s = filter_check c b r s"
  by (simp add: filter_check_def filter_index_def filter_remainder_def)

lemma read_ways_low:
  "\<forall>way\<in>set ways. pattern_conf accuracy (c_delta t si way) (c_sig t si) q < PF_THRESHOLD \<Longrightarrow> read_ways accuracy t si ways m q = Inr (m, q)"
  by (induction ways) (simp_all add: Let_def)

text \<open>With no confident pattern the first round meets the initial entry of the queue, whose confidence is one hundred
  and whose delta is zero, and the second meets nothing.\<close>

lemma spp_low_confidence:
  assumes "spp_train c a (fst (c_modules c)) = Inr (sig, s)" "c_sig (spp_PT s) (pt_index sig) \<noteq> 0"
    and low: "\<forall>way<PT_WAY. 100 * c_delta (spp_PT s) (pt_index sig) way div c_sig (spp_PT s) (pt_index sig) < PF_THRESHOLD"
    and f: "filter_check c a SPP_L2C_PREFETCH s = (True, s')" and n: "1 < c_MSHR_SIZE c" and "c_log2_block c \<le> c_log2_page c"
  shows "spp_cache_operate a ip hit useful type md c = Inr (md, (snd (prefetch_line (block_address c (block_number c a)) True 0 c))
    \<lparr>c_modules := (s'\<lparr>spp_GHR := count_issued (spp_GHR s')\<rparr>, snd (c_modules c))\<rparr>)"
proof -
  let ?l = "start_lookahead a sig s c" let ?b = "block_address c (block_number c a)"
  let ?s = "s'\<lparr>spp_GHR := count_issued (spp_GHR s')\<rparr>" let ?page = "page_number c a"
  have pt: "spp_PT ?s = spp_PT s" using f by (auto simp: filter_check_def Let_def split: if_splits)
  have w: "read_ways accuracy (spp_PT s) (pt_index sig) [0..<PT_WAY] 0 q = Inr (0, q)" if "spp_depth q = 0" for accuracy q
    using low that by (intro read_ways_low) (simp add: pattern_conf_def)
  define q1 where "q1 = (new_candidates (c_MSHR_SIZE c))\<lparr>lookahead_way := PT_WAY, pf_q_tail := 1, lookahead_conf := 0\<rparr>"
  have r1: "read_pattern sig accuracy (spp_PT s) ((new_candidates (c_MSHR_SIZE c))\<lparr>lookahead_way := PT_WAY\<rparr>) = Inr q1" for accuracy
    using assms(2) by (simp add: read_pattern_def Let_def w new_candidates_def q1_def PF_THRESHOLD_def)
  define q2 where "q2 = q1\<lparr>pf_q_tail := 2\<rparr>"
  have r2: "read_pattern sig accuracy (spp_PT s) (q1\<lparr>lookahead_way := PT_WAY\<rparr>) = Inr q2" for accuracy
    using assms(2) by (simp add: read_pattern_def Let_def w new_candidates_def q1_def q2_def PF_THRESHOLD_def)
  have fb: "filter_check c ?b SPP_L2C_PREFETCH s = (True, s')" using f filter_check_block[of c ?b a] by simp
  define l1 where "l1 = ?l\<lparr>lk_q := q1, lk_do_lookahead := True, lk_pf_q_head := 1, lk_cache := snd (prefetch_line ?b True 0 c), lk_spp := ?s\<rparr>"
  have q1_list: "0 < length (confidence_q q1)" "confidence_q q1 ! 0 = 100" "delta_q q1 ! 0 = 0" "1 < length (confidence_q q2)" "confidence_q q2 ! 1 = 0"
    using n by (simp_all add: q1_def q2_def new_candidates_def)
  have s1: "lookahead_step ?page ?l = Inr l1"
    using r1 fb page_number_address[OF assms(6), of a] q1_list
    by (simp add: lookahead_step_def start_lookahead_def issue_candidate_def Let_def PF_THRESHOLD_def FILL_THRESHOLD_def l1_def advance_def q1_def)
  have one: "[Suc 0..<2] = [Suc 0]" by (simp add: upt_rec)
  have s2: "lookahead_step ?page l1 = Inr (l1\<lparr>lk_q := q2, lk_do_lookahead := False\<rparr>)"
    using r2 pt q1_list by (simp add: lookahead_step_def start_lookahead_def issue_candidate_def Let_def PF_THRESHOLD_def l1_def advance_def q2_def
        one q1_def)
  have "lookahead_loop ?page ?l = Inr (l1\<lparr>lk_q := q2, lk_do_lookahead := False\<rparr>)"
  proof -
    have "lk_do_lookahead l1" by (simp add: l1_def)
    then have "lookahead_loop ?page ?l = lookahead_loop ?page l1" by (subst lookahead_loop.simps) (simp add: s1)
    also have "\<dots> = Inr (l1\<lparr>lk_q := q2, lk_do_lookahead := False\<rparr>)" by (subst lookahead_loop.simps) (simp add: s2)
    finally show ?thesis .
  qed
  then show ?thesis using assms(1) n by (simp add: spp_cache_operate_def l1_def start_lookahead_def)
qed

section \<open>A stream\<close>






lemma count_issued_accuracy [simp]: "gr_global_accuracy (count_issued g) = gr_global_accuracy g"
  by (simp add: count_issued_def Let_def)

lemma filter_check_frame [simp]:
  "spp_PT (snd (filter_check c a r s)) = spp_PT s"
  "gr_global_accuracy (spp_GHR (snd (filter_check c a r s))) = gr_global_accuracy (spp_GHR s)"
  by (cases r; simp add: filter_check_def Let_def)+







lemma pattern_conf_0 [simp]: "pattern_conf accuracy 0 n q = 0"
  by (simp add: pattern_conf_def u32_def)

lemma pattern_conf_way [simp]: "pattern_conf accuracy cd n (q\<lparr>lookahead_way := w\<rparr>) = pattern_conf accuracy cd n q"
  by (simp add: pattern_conf_def)






section \<open>Candidates\<close>

lemma read_and_update_sig_new:
  assumes "\<And>si way. \<not> st_valid (spp_ST s si way)" "read_and_update_sig c a s = Inr ((sg, sg', d), s')"
  shows "sg = 0 \<and> d = 0 \<and> sg' = ghr_sig (block_in_page c a) (spp_GHR s)"
proof -
  have none: "find_if (\<lambda>way. st_valid (spp_ST s si way) \<and> P way) 0 ST_WAY = None" for si P using assms(1) by (simp add: find_if_None)
  have "spp_GHR t = spp_GHR s" if "st_claim si tag off s = Inr (way, t)" for si tag off way t
    using that by (auto simp: st_claim_def Let_def st_put_def split: option.splits)
  then show ?thesis using assms(2) by (auto simp: read_and_update_sig_def Let_def none split: sum.splits)
qed

text \<open>The training of the sample: the page is new, and no line has been prefetched.\<close>

lemma train_new:
  assumes "spp_ok s" "\<And>si way. \<not> st_valid (spp_ST s si way)" "\<And>i. gh_confidence (gr_entry (spp_GHR s) i) = 0" "\<And>q. \<not> fl_valid (spp_FILTER s) q"
  shows "\<exists>s'. spp_train c a s = Inr (0, s') \<and> spp_PT s' = spp_PT s \<and> spp_GHR s' = update_accuracy (spp_GHR s)
    \<and> (fl_remainder_tag (spp_FILTER s) (filter_index c a) \<noteq> filter_remainder c a \<longrightarrow> spp_FILTER s' = spp_FILTER s)"
proof -
  define s1 where "s1 = s\<lparr>spp_GHR := update_accuracy (spp_GHR s)\<rparr>"
  have "st_ok (spp_ST s1)" using assms(1) by (simp add: s1_def spp_ok_def)
  then obtain last curr d t where r: "read_and_update_sig c a s1 = Inr ((last, curr, d), s1\<lparr>spp_ST := t\<rparr>)"
    using read_and_update_sig_ok[of s1 c a] by blast
  have "above_scan P (\<lambda>i. 0) is 0 None = None" for P "is" by (induction "is") simp_all
  then have "ghr_sig (block_in_page c a) (spp_GHR s1) = 0"
    using assms(3) by (simp add: ghr_sig_def check_entry_def s1_def update_accuracy_def)
  then have "last = 0 \<and> curr = 0" using read_and_update_sig_new[OF _ r] assms(2) by (simp add: s1_def)
  then show ?thesis using r assms(4) by (simp add: spp_train_def s1_def[symmetric] Let_def) (auto simp: filter_check_def Let_def s1_def)
qed


text \<open>Without a confident pattern an access prefetches the line it has just accessed, with full confidence: when the
  signature has been seen and none of its deltas reaches the threshold, the initial entry of the candidate queue, one hundred
  and delta zero, is taken for a candidate.\<close>

theorem spp_prefetches_accessed_line:
  assumes "spp_train c a (fst (c_modules c)) = Inr (sig, s)" and "c_sig (spp_PT s) (pt_index sig) \<noteq> 0"
    and "\<forall>way<PT_WAY. 100 * c_delta (spp_PT s) (pt_index sig) way div c_sig (spp_PT s) (pt_index sig) < PF_THRESHOLD"
    and "fst (filter_check c a SPP_L2C_PREFETCH s)"
    and "1 < c_MSHR_SIZE c" and "c_log2_block c \<le> c_log2_page c" and "length (c_internal_PQ c) < c_PQ_SIZE c"
  shows "\<exists>c' x. spp_cache_operate a ip hit useful type md c = Inr (md, c') \<and> c_internal_PQ c' = c_internal_PQ c @ [x]
    \<and> tl_address x = block_address c (block_number c a) \<and> tl_type x = PREFETCH \<and> \<not> tl_skip_fill x
    \<and> gr_pf_issued (spp_GHR (fst (c_modules c'))) = gr_pf_issued (count_issued (spp_GHR s))"
proof -
  obtain s' where f: "filter_check c a SPP_L2C_PREFETCH s = (True, s')" using assms(4) by (cases "filter_check c a SPP_L2C_PREFETCH s") auto
  then have g: "spp_GHR s' = spp_GHR s" by (auto simp: filter_check_def Let_def split: if_splits)
  show ?thesis using spp_low_confidence[OF assms(1-3) f assms(5,6)] assms(7)
    by (simp add: prefetch_line_def Let_def on_stats_def tag_of_request_def g)
qed

text \<open>Every signature was seen once, with a delta that is not known yet.\<close>

definition waiting :: spp_dev where
  "waiting = new_spp_dev\<lparr>spp_PT := new_PATTERN_TABLE\<lparr>c_sig := (\<lambda>si. 1)\<rparr>\<rparr>"

lemma waiting_train:
  "\<exists>s. spp_train (spp_cache 32 waiting) 0x4000 (fst (c_modules (spp_cache 32 waiting))) = Inr (0, s) \<and> spp_PT s = spp_PT waiting
    \<and> fst (filter_check (spp_cache 32 waiting) 0x4000 SPP_L2C_PREFETCH s)"
proof -
  let ?c = "spp_cache 32 waiting"
  have ok: "spp_ok waiting"
    using new_spp_ok by (auto simp: waiting_def spp_ok_def pt_ok_def pt_set_ok_def C_SIG_MAX_def new_PATTERN_TABLE_def new_spp_dev_def)
  have r: "filter_remainder ?c 0x4000 \<noteq> 0" by code_simp
  then obtain s where s: "spp_train ?c 0x4000 waiting = Inr (0, s)" "spp_PT s = spp_PT waiting" "spp_FILTER s = spp_FILTER waiting"
    using train_new[OF ok, of ?c "0x4000"]
    by (auto simp: waiting_def new_spp_dev_def new_SIGNATURE_TABLE_def new_GLOBAL_REGISTER_def new_PREFETCH_FILTER_def)
  then show ?thesis by (simp add: spp_cache_def filter_check_def Let_def waiting_def new_spp_dev_def new_PREFETCH_FILTER_def)
qed

lemma spp_prefetches_accessed_line_witness:
  "\<exists>c' x. spp_cache_operate 0x4000 0 False False LOAD 0 (spp_cache 32 waiting) = Inr (0, c') \<and> c_internal_PQ c' = [x] \<and> tl_address x = 0x4000"
proof -
  let ?c = "spp_cache 32 waiting"
  obtain s where s: "spp_train ?c 0x4000 (fst (c_modules ?c)) = Inr (0, s)" "spp_PT s = spp_PT waiting" "fst (filter_check ?c 0x4000 SPP_L2C_PREFETCH s)"
    using waiting_train by blast
  have a: "block_address ?c (block_number ?c 0x4000) = 0x4000" by code_simp
  have c: "1 < c_MSHR_SIZE ?c" "c_log2_block ?c \<le> c_log2_page ?c" "length (c_internal_PQ ?c) < c_PQ_SIZE ?c" "c_internal_PQ ?c = []"
    by (simp_all add: spp_cache_def)
  have p: "c_sig (spp_PT s) (pt_index 0) \<noteq> 0"
    "\<forall>way<PT_WAY. 100 * c_delta (spp_PT s) (pt_index 0) way div c_sig (spp_PT s) (pt_index 0) < PF_THRESHOLD"
    using s(2) by (simp_all add: waiting_def new_PATTERN_TABLE_def PF_THRESHOLD_def)
  show ?thesis using spp_prefetches_accessed_line[OF s(1) p s(3) c(1-3), of 0 False False LOAD 0] a c(4) by auto
qed

lemma spp_prefetches_in_page_witness:
  "\<exists>c'. spp_cache_operate 0x4000 0 False False LOAD 0 (spp_cache 32 waiting) = Inr (0, c') \<and> hook_frame (spp_cache 32 waiting) c'"
proof -
  let ?c = "spp_cache 32 waiting"
  obtain s where s: "spp_train ?c 0x4000 (fst (c_modules ?c)) = Inr (0, s)" "spp_PT s = spp_PT waiting" "fst (filter_check ?c 0x4000 SPP_L2C_PREFETCH s)"
    using waiting_train by blast
  obtain s' where f: "filter_check ?c 0x4000 SPP_L2C_PREFETCH s = (True, s')" using s(3) by (cases "filter_check ?c 0x4000 SPP_L2C_PREFETCH s") auto
  have c: "1 < c_MSHR_SIZE ?c" "c_log2_block ?c \<le> c_log2_page ?c" by (simp_all add: spp_cache_def)
  have p: "c_sig (spp_PT s) (pt_index 0) \<noteq> 0"
    "\<forall>way<PT_WAY. 100 * c_delta (spp_PT s) (pt_index 0) way div c_sig (spp_PT s) (pt_index 0) < PF_THRESHOLD"
    using s(2) by (simp_all add: waiting_def new_PATTERN_TABLE_def PF_THRESHOLD_def)
  show ?thesis using spp_prefetches_in_page[OF spp_low_confidence[OF s(1) p f c, of 0 False False LOAD 0]]
      spp_low_confidence[OF s(1) p f c, of 0 False False LOAD 0] by blast
qed

end
