(* ===== verification/Trace_Reader.thy ===== *)
theory Trace_Reader
  imports Core
begin

text \<open>
  The readers of traces, \<open>inc/tracereader.h\<close>, \<open>src/tracereader.cc\<close> and \<open>inc/repeatable.h\<close>: trace records are read
  in blocks into a buffer, where each taken branch gets the address of the next instruction as its target; one
  instruction is kept back for this purpose.  Every instruction gets a number that is unique over all traces.
  The front of an empty buffer is \<open>None\<close>.
\<close>

section \<open>The file\<close>

text \<open>
  A trace file, or a decompressed one, is the sequence of its unread records; \<open>eof()\<close> tells whether a read asked for more than
  there was.  Reads ask for whole records and start at a record, so a trailing part of a record is never more than
  the bytes by which the last read falls short.
\<close>

record trace_file =
  tf_records :: "input_instr list"
  tf_eof :: bool

definition read_records :: "nat \<Rightarrow> trace_file \<Rightarrow> input_instr list \<times> trace_file" where
  "read_records n f = (take n (tf_records f), \<lparr>tf_records = drop n (tf_records f), tf_eof = (length (tf_records f) < n)\<rparr>)"

section \<open>The buffered reader\<close>

definition buffer_size :: nat where "buffer_size = 128"
definition refresh_thresh :: nat where "refresh_thresh = 1"

record bulk_tracereader =
  tr_cpu :: "8 word"
  tr_eof :: bool
  tr_file :: trace_file
  instr_buffer :: "core_instr list"

definition new_bulk_tracereader :: "8 word \<Rightarrow> input_instr list \<Rightarrow> bulk_tracereader" where
  "new_bulk_tracereader cpu ts = \<lparr>tr_cpu = cpu, tr_eof = False, tr_file = \<lparr>tf_records = ts, tf_eof = False\<rparr>, instr_buffer = []\<rparr>"

definition bulk_eof :: "bulk_tracereader \<Rightarrow> bool" where
  "bulk_eof r = (tf_eof (tr_file r) \<and> length (instr_buffer r) \<le> refresh_thresh)"

definition apply_branch_target :: "core_instr \<Rightarrow> core_instr \<Rightarrow> core_instr" where
  "apply_branch_target b target = b\<lparr>branch_target := (if is_branch b \<and> branch_taken b then instr_ip target else 0)\<rparr>"

text \<open>The adjacent difference from the back: each instruction but the last is combined with its successor.\<close>

fun set_branch_targets :: "core_instr list \<Rightarrow> core_instr list" where
  "set_branch_targets (x # y # is) = apply_branch_target x y # set_branch_targets (y # is)"
| "set_branch_targets is = is"

definition inflate :: "8 word \<Rightarrow> input_instr \<Rightarrow> core_instr" where
  "inflate cpu t = core_instr_of cpu 0 0 (make_instr t)"

definition refresh :: "bulk_tracereader \<Rightarrow> bulk_tracereader" where
  "refresh r = (if length (instr_buffer r) \<le> refresh_thresh
     then (let (ts, f) = read_records (buffer_size - refresh_thresh) (tr_file r)
           in r\<lparr>tr_file := f, tr_eof := tf_eof f, instr_buffer := set_branch_targets (instr_buffer r @ map (inflate (tr_cpu r)) ts)\<rparr>)
     else r)"

definition bulk_next :: "bulk_tracereader \<Rightarrow> (core_instr \<times> bulk_tracereader) option" where
  "bulk_next r = (let r = refresh r in case instr_buffer r of [] \<Rightarrow> None | i # is \<Rightarrow> Some (i, r\<lparr>instr_buffer := is\<rparr>))"

section \<open>Readers\<close>

text \<open>A reader that starts again at the end keeps what it needs to open the trace.\<close>

datatype trace_reader = Bulk bulk_tracereader | Repeatable "8 word" "input_instr list" bulk_tracereader

definition get_tracereader :: "input_instr list \<Rightarrow> 8 word \<Rightarrow> bool \<Rightarrow> trace_reader" where
  "get_tracereader ts cpu repeat = (if repeat then Repeatable cpu ts (new_bulk_tracereader cpu ts) else Bulk (new_bulk_tracereader cpu ts))"

fun reader_eof :: "trace_reader \<Rightarrow> bool" where
  "reader_eof (Bulk r) = bulk_eof r"
| "reader_eof (Repeatable cpu ts r) = False"

fun reader_next :: "trace_reader \<Rightarrow> (core_instr \<times> trace_reader) option" where
  "reader_next (Bulk r) = map_option (\<lambda>(i, r). (i, Bulk r)) (bulk_next r)"
| "reader_next (Repeatable cpu ts r) =
     map_option (\<lambda>(i, r). (i, Repeatable cpu ts r)) (bulk_next (if bulk_eof r then new_bulk_tracereader cpu ts else r))"

text \<open>The number of an instruction comes from a counter that all readers share.\<close>

definition trace_next :: "nat \<Rightarrow> trace_reader \<Rightarrow> (core_instr \<times> nat \<times> trace_reader) option" where
  "trace_next unique_id r = map_option (\<lambda>(i, r). (i\<lparr>instr_id := unique_id\<rparr>, unique_id + 1, r)) (reader_next r)"

section \<open>What a reader delivers\<close>

text \<open>Up to \<open>n\<close> instructions, as long as the reader is not at its end.\<close>

primrec read_upto :: "nat \<Rightarrow> trace_reader \<Rightarrow> (core_instr list \<times> trace_reader) option" where
  "read_upto 0 r = Some ([], r)"
| "read_upto (Suc n) r = (if reader_eof r then Some ([], r)
     else do { (i, r) \<leftarrow> reader_next r; (is, r) \<leftarrow> read_upto n r; Some (i # is, r) })"

text \<open>The program of a trace, and the instructions of it that are delivered.\<close>

definition trace_program :: "8 word \<Rightarrow> input_instr list \<Rightarrow> core_instr list" where
  "trace_program cpu ts = set_branch_targets (map (inflate cpu) ts)"

definition delivered :: "nat \<Rightarrow> nat" where
  "delivered n = (if n = 1 \<or> (buffer_size - refresh_thresh) dvd n then n else n - 1)"

lemma block_127: "buffer_size - refresh_thresh = 127"
  by (simp add: buffer_size_def refresh_thresh_def)

lemma apply_branch_target_twice [simp]: "apply_branch_target (apply_branch_target x y) z = apply_branch_target x z"
  by (simp add: apply_branch_target_def)

lemma apply_branch_target_ip [simp]: "apply_branch_target x (apply_branch_target y z) = apply_branch_target x y"
  by (simp add: apply_branch_target_def)

lemma set_branch_targets_length [simp]: "length (set_branch_targets xs) = length xs"
  by (induction xs rule: set_branch_targets.induct) simp_all

lemma apply_set_hd: "apply_branch_target x (hd (set_branch_targets (y # ys))) = apply_branch_target x y"
  by (cases ys) simp_all

lemma set_branch_targets_append: "set_branch_targets (set_branch_targets xs @ ys) = set_branch_targets (xs @ ys)"
proof (induction xs rule: set_branch_targets.induct)
  case (1 x y "is")
  obtain z zs where z: "set_branch_targets (y # is) = z # zs" by (cases "is") auto
  have "apply_branch_target x z = apply_branch_target x y" using apply_set_hd[of x y "is"] z by simp
  then show ?case using 1 z by simp
qed simp_all

lemma set_branch_targets_idem [simp]: "set_branch_targets (set_branch_targets xs) = set_branch_targets xs"
  using set_branch_targets_append[of xs "[]"] by simp

lemma set_branch_targets_tl: "set_branch_targets xs = xs \<Longrightarrow> set_branch_targets (tl xs) = tl xs"
  by (induction xs rule: set_branch_targets.induct) auto

text \<open>The instructions a reader still has, with their targets, and how many of them it will deliver.\<close>

definition pending :: "bulk_tracereader \<Rightarrow> core_instr list" where
  "pending r = set_branch_targets (instr_buffer r @ map (inflate (tr_cpu r)) (tf_records (tr_file r)))"

definition to_deliver :: "bulk_tracereader \<Rightarrow> nat" where
  "to_deliver r = (let b = length (instr_buffer r); n = length (tf_records (tr_file r)) in
     if bulk_eof r then 0 else if tf_eof (tr_file r) then b - 1
     else if b = 0 then delivered n else if 127 dvd n then b + n else b + n - 1)"

definition reader_ok :: "bulk_tracereader \<Rightarrow> bool" where
  "reader_ok r = (set_branch_targets (instr_buffer r) = instr_buffer r \<and> (tf_eof (tr_file r) \<longrightarrow> tf_records (tr_file r) = [])
     \<and> (instr_buffer r = [] \<longrightarrow> tf_eof (tr_file r) \<or> tf_records (tr_file r) \<noteq> []))"

lemma new_reader_ok: "ts \<noteq> [] \<Longrightarrow> reader_ok (new_bulk_tracereader cpu ts)"
  by (simp add: reader_ok_def new_bulk_tracereader_def)

lemma new_reader_pending: "pending (new_bulk_tracereader cpu ts) = trace_program cpu ts"
  by (simp add: pending_def new_bulk_tracereader_def trace_program_def)

lemma new_reader_to_deliver: "to_deliver (new_bulk_tracereader cpu ts) = delivered (length ts)"
  by (simp add: to_deliver_def new_bulk_tracereader_def bulk_eof_def)

lemma set_branch_targets_Nil [simp]: "set_branch_targets xs = [] \<longleftrightarrow> xs = []"
  by (cases xs rule: set_branch_targets.cases) simp_all

lemma refresh_eq: "refresh r = (if length (instr_buffer r) \<le> 1
   then r\<lparr>tr_file := \<lparr>tf_records = drop 127 (tf_records (tr_file r)), tf_eof = (length (tf_records (tr_file r)) < 127)\<rparr>,
     tr_eof := (length (tf_records (tr_file r)) < 127),
     instr_buffer := set_branch_targets (instr_buffer r @ map (inflate (tr_cpu r)) (take 127 (tf_records (tr_file r))))\<rparr>
   else r)"
  by (simp add: refresh_def block_127 read_records_def) (simp add: refresh_thresh_def)

lemma bulk_eof_eq: "bulk_eof r = (tf_eof (tr_file r) \<and> length (instr_buffer r) \<le> 1)"
  by (simp add: bulk_eof_def refresh_thresh_def)

lemma refresh_pending: "reader_ok r \<Longrightarrow> pending (refresh r) = pending r"
proof -
  assume "reader_ok r"
  let ?f = "map (inflate (tr_cpu r))" let ?ts = "tf_records (tr_file r)"
  have "set_branch_targets (set_branch_targets (instr_buffer r @ ?f (take 127 ?ts)) @ ?f (drop 127 ?ts)) = pending r"
    by (simp add: pending_def set_branch_targets_append flip: map_append)
  then show ?thesis by (simp add: refresh_eq pending_def)
qed

lemma refresh_ok:
  assumes "reader_ok r" "\<not> bulk_eof r"
  shows "reader_ok (refresh r) \<and> instr_buffer (refresh r) \<noteq> [] \<and> tr_cpu (refresh r) = tr_cpu r
    \<and> (tf_eof (tr_file (refresh r)) \<or> 2 \<le> length (instr_buffer (refresh r)))"
  using assms by (auto simp: reader_ok_def refresh_eq bulk_eof_eq min_def not_le not_less numeral_2_eq_2 Suc_le_eq)

lemma refresh_to_deliver:
  assumes "reader_ok r" "\<not> bulk_eof r"
  shows "to_deliver r = (let r' = refresh r; b = length (instr_buffer r'); n = length (tf_records (tr_file r')) in
    if tf_eof (tr_file r') then (if b = 1 then 1 else b - 1) else if 127 dvd n then b + n else b + n - 1)"
proof (cases "length (instr_buffer r) \<le> 1")
  case False
  then show ?thesis by (auto simp: refresh_eq to_deliver_def bulk_eof_eq Let_def)
next
  case True
  let ?b = "length (instr_buffer r)" let ?n = "length (tf_records (tr_file r))"
  have e: "\<not> tf_eof (tr_file r)" using assms(2) True by (simp add: bulk_eof_eq)
  then have n: "?b = 0 \<longrightarrow> ?n \<noteq> 0" using assms(1) by (auto simp: reader_ok_def)
  have l: "to_deliver r = (if ?b = 0 then delivered ?n else if 127 dvd ?n then ?b + ?n else ?b + ?n - 1)"
    using e assms(2) by (simp add: to_deliver_def)
  show ?thesis
  proof (cases "?n < 127")
    case less: True
    then have "127 dvd ?n \<longleftrightarrow> ?n = 0" by (auto dest: dvd_imp_le)
    then show ?thesis using l less True n
      by (cases "instr_buffer r"; cases "tf_records (tr_file r)") (auto simp: refresh_eq delivered_def block_127 Let_def)
  next
    case False
    then have "127 dvd (?n - 127) \<longleftrightarrow> 127 dvd ?n" by (metis dvd_diff_nat dvd_refl dvd_diffD not_less)
    then show ?thesis using l False True n
      by (auto simp: refresh_eq delivered_def block_127 Let_def min_def)
  qed
qed

lemma bulk_next_step:
  assumes "reader_ok r" "\<not> bulk_eof r"
  shows "\<exists>i r'. bulk_next r = Some (i, r') \<and> reader_ok r' \<and> pending r = i # pending r' \<and> to_deliver r = Suc (to_deliver r')"
proof -
  note ok = refresh_ok[OF assms]
  obtain i "is" where b: "instr_buffer (refresh r) = i # is" using ok by (cases "instr_buffer (refresh r)") auto
  let ?r = "(refresh r)\<lparr>instr_buffer := is\<rparr>"
  let ?f = "tr_file (refresh r)"
  have fx: "set_branch_targets (i # is) = i # is" and e: "tf_eof ?f \<longrightarrow> tf_records ?f = []" using ok b by (auto simp: reader_ok_def)
  have two: "tf_eof ?f \<or> is \<noteq> []" using ok b by (cases "is") auto
  have "reader_ok ?r" using set_branch_targets_tl[OF fx] e two by (auto simp: reader_ok_def)
  moreover have "pending r = i # pending ?r"
  proof -
    have p: "pending r = set_branch_targets ((i # is) @ map (inflate (tr_cpu r)) (tf_records ?f))"
      using refresh_pending[OF assms(1)] ok by (simp add: pending_def b)
    show ?thesis
    proof (cases "is")
      case Nil
      then show ?thesis using p e two by (simp add: pending_def)
    next
      case (Cons j js)
      then have "apply_branch_target i j = i" using fx by simp
      then show ?thesis using p Cons ok by (simp add: pending_def)
    qed
  qed
  moreover have "to_deliver r = Suc (to_deliver ?r)"
    using refresh_to_deliver[OF assms] two e unfolding to_deliver_def
    by (cases "is") (auto simp: b Let_def bulk_eof_eq)
  ultimately show ?thesis by (simp add: bulk_next_def b)
qed

lemma read_upto_bulk:
  "reader_ok r \<Longrightarrow> \<exists>r'. read_upto n (Bulk r) = Some (take n (take (to_deliver r) (pending r)), Bulk r')"
proof (induction n arbitrary: r)
  case (Suc n)
  show ?case
  proof (cases "bulk_eof r")
    case False
    obtain i r1 where s: "bulk_next r = Some (i, r1)" "reader_ok r1" "pending r = i # pending r1" "to_deliver r = Suc (to_deliver r1)"
      using bulk_next_step[OF Suc.prems False] by blast
    then show ?thesis using Suc.IH[OF s(2)] False by auto
  qed (simp add: to_deliver_def)
qed simp

lemma delivered_pos: "0 < n \<Longrightarrow> 0 < delivered n"
  by (auto simp: delivered_def)

lemma read_upto_repeatable:
  assumes "ts \<noteq> []" "reader_ok r"
  shows "\<exists>r'. read_upto n (Repeatable cpu ts r) = Some (take n (take (to_deliver r) (pending r)
    @ concat (replicate n (take (delivered (length ts)) (trace_program cpu ts)))), r')"
  using assms(2)
proof (induction n arbitrary: r)
  case (Suc n)
  define r0 where "r0 = (if bulk_eof r then new_bulk_tracereader cpu ts else r)"
  let ?p = "take (delivered (length ts)) (trace_program cpu ts)"
  have ok: "reader_ok r0" using Suc.prems new_reader_ok[OF assms(1)] by (simp add: r0_def)
  have ne: "\<not> bulk_eof r0" by (simp add: r0_def new_bulk_tracereader_def bulk_eof_def)
  have len: "length ?p = delivered (length ts)" by (simp add: trace_program_def delivered_def)
  have p0: "take (Suc n) (take (to_deliver r0) (pending r0) @ concat (replicate n ?p))
      = take (Suc n) (take (to_deliver r) (pending r) @ concat (replicate (Suc n) ?p))"
  proof (cases "bulk_eof r")
    case True
    then have "to_deliver r = 0" by (simp add: to_deliver_def)
    then show ?thesis using True by (simp add: r0_def new_reader_pending new_reader_to_deliver)
  next
    case False
    obtain i r1 where "pending r = i # pending r1" "to_deliver r = Suc (to_deliver r1)" using bulk_next_step[OF Suc.prems False] by blast
    then have "1 \<le> length (take (to_deliver r) (pending r))" by simp
    moreover have "n * 1 \<le> n * delivered (length ts)" using delivered_pos[of "length ts"] assms(1) by (intro mult_le_mono2) (simp add: Suc_le_eq)
    then have "n \<le> length (concat (replicate n ?p))" using len by (simp add: length_concat sum_list_replicate)
    ultimately have "Suc n \<le> length (take (to_deliver r) (pending r) @ concat (replicate n ?p))"
      unfolding length_append by linarith
    moreover have "concat (replicate (Suc n) ?p) = concat (replicate n ?p) @ ?p" by (simp only: replicate_append_same[symmetric] replicate_Suc concat_append) simp
    ultimately show ?thesis using False by (simp add: r0_def del: replicate_Suc)
  qed
  obtain i r1 where s: "bulk_next r0 = Some (i, r1)" "reader_ok r1" "pending r0 = i # pending r1" "to_deliver r0 = Suc (to_deliver r1)"
    using bulk_next_step[OF ok ne] by blast
  obtain r' where r': "read_upto n (Repeatable cpu ts r1) = Some (take n (take (to_deliver r1) (pending r1) @ concat (replicate n ?p)), r')"
    using Suc.IH[OF s(2)] by blast
  have "take (Suc n) (take (to_deliver r0) (pending r0) @ concat (replicate n ?p)) = i # take n (take (to_deliver r1) (pending r1) @ concat (replicate n ?p))"
    using s by simp
  then show ?case using s(1) r' p0 by (simp add: r0_def[symmetric])
qed simp

text \<open>The first \<open>n\<close> instructions that the reader of a trace delivers.\<close>

definition delivered_program :: "bool \<Rightarrow> 8 word \<Rightarrow> input_instr list \<Rightarrow> nat \<Rightarrow> core_instr list" where
  "delivered_program repeat cpu ts n = (let is = take (delivered (length ts)) (trace_program cpu ts)
     in take n (if repeat then concat (replicate n is) else is))"

lemma reader_delivers:
  assumes "ts \<noteq> []"
  shows "\<exists>r. read_upto n (get_tracereader ts cpu repeat) = Some (delivered_program repeat cpu ts n, r)"
proof (cases repeat)
  case False
  then show ?thesis using read_upto_bulk[OF new_reader_ok[OF assms]]
    by (simp add: get_tracereader_def new_reader_pending new_reader_to_deliver delivered_program_def Let_def) blast
next
  case True
  let ?p = "take (delivered (length ts)) (trace_program cpu ts)"
  have len: "1 \<le> length ?p" using assms delivered_pos[of "length ts"] by (cases ts) (auto simp: trace_program_def)
  then have "n * 1 \<le> n * length ?p" by (rule mult_le_mono2)
  then have "n \<le> length (concat (replicate n ?p))" by (simp add: length_concat sum_list_replicate)
  moreover have "?p @ concat (replicate n ?p) = concat (replicate n ?p) @ ?p" by (induction n) simp_all
  ultimately have "take n (?p @ concat (replicate n ?p)) = take n (concat (replicate n ?p))" by simp
  then show ?thesis using True read_upto_repeatable[OF assms new_reader_ok[OF assms], of n cpu cpu]
    by (simp add: get_tracereader_def new_reader_pending new_reader_to_deliver delivered_program_def Let_def)
qed

section \<open>Properties\<close>

text \<open>C9. A reader delivers the instructions of its trace in order, each with the next instruction of the trace as its target
  if it is a taken branch; but it keeps the last one for itself, unless the trace has a single instruction or a multiple
  of the size of a block.\<close>

theorem trace_is_delivered:
  assumes "ts \<noteq> []"
  shows "\<exists>r. read_upto n (get_tracereader ts cpu False) = Some (take n (take (delivered (length ts)) (trace_program cpu ts)), r)"
  using reader_delivers[OF assms, of n cpu False] by (simp add: delivered_program_def Let_def)

definition sample_record :: "address \<Rightarrow> input_instr" where
  "sample_record a = \<lparr>in_ip = a, in_is_branch = False, in_branch_taken = False, in_destination_registers = [], in_source_registers = [],
     in_destination_memory = [], in_source_memory = []\<rparr>"

lemma trace_is_delivered_witness:
  "\<exists>is r. read_upto 5 (get_tracereader [sample_record 1, sample_record 2, sample_record 3] 0 False) = Some (is, r) \<and> map instr_ip is = [1, 2]"
proof -
  have "map instr_ip (take 5 (take (delivered (length [sample_record 1, sample_record 2, sample_record 3]))
      (trace_program 0 [sample_record 1, sample_record 2, sample_record 3]))) = [1, 2]" by code_simp
  then show ?thesis using trace_is_delivered[of "[sample_record 1, sample_record 2, sample_record 3]" 5 0] by fastforce
qed

text \<open>A repeating reader delivers the program of its trace over and over, each time without the instruction that a
  single reading would keep back: between two rounds one instruction of the program is missing.\<close>

theorem repeated_trace_is_delivered:
  assumes "ts \<noteq> []"
  shows "\<exists>r. read_upto n (get_tracereader ts cpu True) = Some (take n (concat (replicate n (take (delivered (length ts)) (trace_program cpu ts)))), r)"
  using reader_delivers[OF assms, of n cpu True] by (simp add: delivered_program_def Let_def)

lemma repeated_trace_is_delivered_witness:
  "\<exists>is r. read_upto 5 (get_tracereader [sample_record 1, sample_record 2, sample_record 3] 0 True) = Some (is, r) \<and> map instr_ip is = [1, 2, 1, 2, 1]"
proof -
  have "map instr_ip (take 5 (concat (replicate 5 (take (delivered (length [sample_record 1, sample_record 2, sample_record 3]))
      (trace_program 0 [sample_record 1, sample_record 2, sample_record 3]))))) = [1, 2, 1, 2, 1]" by code_simp
  then show ?thesis using repeated_trace_is_delivered[of "[sample_record 1, sample_record 2, sample_record 3]" 5 0] by fastforce
qed

text \<open>The first instruction of an empty trace is the front of an empty buffer.\<close>

lemma empty_trace: "reader_next (get_tracereader [] cpu repeat) = None"
  by (simp add: get_tracereader_def new_bulk_tracereader_def bulk_next_def refresh_eq bulk_eof_eq)

end
