(* ===== verification/Operable.thy ===== *)
theory Operable
  imports Core_Order Cache_Correctness Ptw_Correctness Dram_Controller
begin

text \<open>
  What the components have in common, the class \<open>operable\<close> of \<open>inc/operable.h\<close> and \<open>src/operable.cc\<close>: each has a
  clock of its own, \<open>_operate\<close> advances it by one period and runs a cycle, and \<open>operate_on\<close> runs cycles until the component
  has caught up with the global clock.
\<close>

section \<open>The interface\<close>

text \<open>\<open>None\<close> is a cycle that fails, or a clock that never catches up.\<close>

partial_function (option) operate_on :: "('c \<Rightarrow> time) \<Rightarrow> ('c \<Rightarrow> (int \<times> 'c) option) \<Rightarrow> time \<Rightarrow> 'c \<Rightarrow> (int \<times> 'c) option" where
  [code]: "operate_on current tick now c = (if current c < now
     then do { (progress, c) \<leftarrow> tick c; (rest, c) \<leftarrow> operate_on current tick now c; Some (progress + rest, c) }
     else Some (0, c))"

locale operable =
  fixes current :: "'c \<Rightarrow> time" and period :: "'c \<Rightarrow> time" and tick :: "'c \<Rightarrow> (int \<times> 'c) option"
  assumes tick_current: "tick c = Some (n, c') \<Longrightarrow> current c' = current c + period c"
    and tick_period: "tick c = Some (n, c') \<Longrightarrow> period c' = period c"
begin

text \<open>Induction on the cycles that are run.\<close>

lemma operate_on_induct:
  assumes "operate_on current tick now c = Some (n, c')" and "\<And>d. now \<le> current d \<Longrightarrow> R d d"
    and "\<And>d m e f. current d < now \<Longrightarrow> tick d = Some (m, e) \<Longrightarrow> R e f \<Longrightarrow> R d f"
  shows "R c c'"
proof -
  have "current = current \<longrightarrow> tick = tick \<longrightarrow> now = now \<longrightarrow> R c (snd (n, c'))"
  proof (rule operate_on.raw_induct[where P = "\<lambda>cur t m d r. cur = current \<longrightarrow> t = tick \<longrightarrow> m = now \<longrightarrow> R d (snd r)", OF _ assms(1)],
      intro impI)
    fix rec :: "('c \<Rightarrow> time) \<Rightarrow> ('c \<Rightarrow> (int \<times> 'c) option) \<Rightarrow> time \<Rightarrow> 'c \<Rightarrow> (int \<times> 'c) option" and cur t m d r
    assume IH: "\<And>cur t m d r. rec cur t m d = Some r \<Longrightarrow> cur = current \<longrightarrow> t = tick \<longrightarrow> m = now \<longrightarrow> R d (snd r)"
      and body: "(if cur d < m then do { (progress, c) \<leftarrow> t d; (rest, c) \<leftarrow> rec cur t m c; Some (progress + rest, c) } else Some (0, d)) = Some r"
      and e: "cur = current" "t = tick" "m = now"
    show "R d (snd r)"
    proof (cases "current d < now")
      case True
      then obtain n1 e n2 f where 1: "tick d = Some (n1, e)" and 2: "rec cur t m e = Some (n2, f)" and r: "r = (n1 + n2, f)"
        using body e by (auto simp: bind_eq_Some_conv)
      show ?thesis using assms(3)[OF True 1] IH[OF 2] e by (simp add: r)
    qed (use body e assms(2) in auto)
  qed
  then show ?thesis by simp
qed

text \<open>What a cycle keeps, \<open>operate_on\<close> keeps.\<close>

lemma operate_on_invariant:
  assumes "operate_on current tick now c = Some (n, c')" and "P c" and "\<And>c n c'. P c \<Longrightarrow> tick c = Some (n, c') \<Longrightarrow> P c'"
  shows "P c'"
proof -
  have "P c \<longrightarrow> P c'" by (rule operate_on_induct[OF assms(1)]) (auto dest: assms(3))
  then show ?thesis using assms(2) by blast
qed

lemma operate_on_idle: "now \<le> current c \<Longrightarrow> operate_on current tick now c = Some (0, c)"
  by (subst operate_on.simps) simp

lemma operate_on_period: "operate_on current tick now c = Some (n, c') \<Longrightarrow> period c' = period c"
  by (erule operate_on_invariant[where P = "\<lambda>d. period d = period c"]) (auto dest: tick_period)

text \<open>The component has caught up, and is less than a period ahead unless it was so before.\<close>

lemma operate_on_caught_up: "operate_on current tick now c = Some (n, c') \<Longrightarrow> now \<le> current c'"
  by (erule operate_on_induct)

lemma operate_on_ahead:
  assumes "operate_on current tick now c = Some (n, c')" and "current c < now + period c"
  shows "current c' < now + period c'"
proof -
  have "current c < now + period c \<longrightarrow> current c' < now + period c'"
    by (rule operate_on_induct[OF assms(1)]) (auto simp: tick_current tick_period)
  then show ?thesis using assms(2) by blast
qed

text \<open>With a positive period the clock catches up: nothing is returned only if a cycle fails.\<close>

lemma operate_on_returns:
  assumes "P c" and "0 < period c" and "\<And>c. P c \<Longrightarrow> \<exists>n c'. tick c = Some (n, c') \<and> P c'"
  shows "\<exists>n c'. operate_on current tick now c = Some (n, c') \<and> P c'"
  using assms(1,2)
proof (induction "nat (now - current c)" arbitrary: c rule: less_induct)
  case less
  show ?case
  proof (cases "current c < now")
    case True
    obtain n d where d: "tick c = Some (n, d)" "P d" using assms(3)[OF less.prems(1)] by blast
    then have "nat (now - current d) < nat (now - current c)" "0 < period d"
      using tick_current[OF d(1)] tick_period[OF d(1)] less.prems(2) True by auto
    then obtain m e where "operate_on current tick now d = Some (m, e)" "P e" using less.hyps d(2) by blast
    then show ?thesis using True d(1) by (subst operate_on.simps) simp
  qed (use less.prems in \<open>simp add: operate_on_idle\<close>)
qed

end

section \<open>Frames of the core\<close>

definition core_fixed :: "'m O3_CPU \<Rightarrow> time \<times> time \<times> bool \<times> nat \<times> int \<times> nat" where
  "core_fixed c = (o_current_time c, o_clock_period c, o_warmup c, o_cpu c, IN_QUEUE_SIZE c, begin_phase_instr c)"

definition core_frame :: "'m O3_CPU \<Rightarrow> 'm O3_CPU \<Rightarrow> bool" where
  "core_frame c c' = (core_fixed c' = core_fixed c \<and> num_retired c' = num_retired c \<and> input_queue c' = input_queue c)"

lemma core_frame_refl [simp]: "core_frame c c" by (simp add: core_frame_def)

lemma core_frame_trans [trans]: "core_frame a b \<Longrightarrow> core_frame b c \<Longrightarrow> core_frame a c"
  by (simp add: core_frame_def)

lemmas core_frame_defs = core_frame_def core_fixed_def

lemma retire_fixed: "retire_rob c = Some (n, c') \<Longrightarrow> core_fixed c' = core_fixed c \<and> num_retired c \<le> num_retired c' \<and> input_queue c' = input_queue c"
  by (auto simp: retire_rob_def core_fixed_def bind_eq_Some_conv)

lemma complete_loop_frame: "complete_loop rob bw c = Some (rob', bw', c') \<Longrightarrow> core_frame c c'"
proof (induction rob arbitrary: bw c rob' bw')
  case (Cons i rob)
  have step: "core_frame c d" if "do_complete_execution i c = Some (j, d)" for j d
    using that by (cases "branch_mispredicted i") (auto simp: do_complete_execution_def bind_eq_Some_conv Let_def core_frame_defs)
  show ?case
  proof (cases "has_remaining bw")
    case True
    then obtain j bw1 d where d: "(if can_complete (o_current_time c) i
          then do { (i, c) \<leftarrow> do_complete_execution i c; bw \<leftarrow> bw_consume_one bw; Some (i, bw, c) } else Some (i, bw, c)) = Some (j, bw1, d)"
        and r: "\<exists>r b. complete_loop rob bw1 d = Some (r, b, c')"
      using Cons.prems by (auto simp: bind_eq_Some_conv split: prod.splits)
    have "core_frame c d" using d step by (auto simp: bind_eq_Some_conv split: if_splits)
    then show ?thesis using r Cons.IH core_frame_trans by blast
  qed (use Cons.prems in auto)
qed simp

lemma complete_frame: "complete_inflight_instruction c = Some (n, c') \<Longrightarrow> core_frame c c'"
  by (auto simp: complete_inflight_instruction_def bind_eq_Some_conv core_frame_defs dest!: complete_loop_frame)

lemma execute_loop_frame: "execute_loop rob bw c = Some (rob', bw', c') \<Longrightarrow> core_frame c c'"
proof (induction rob arbitrary: bw c rob' bw')
  case (Cons i rob)
  have step: "core_frame c (snd (do_execution i c))" by (simp add: do_execution_def Let_def core_frame_defs)
  show ?case
  proof (cases "has_remaining bw")
    case True
    then obtain ready j bw1 d where d: "(if ready then (let (i, c) = do_execution i c in map_option (\<lambda>bw. (i, bw, c)) (bw_consume_one bw))
          else Some (i, bw, c)) = Some (j, bw1, d)"
        and r: "\<exists>r b. execute_loop rob bw1 d = Some (r, b, c')"
      using Cons.prems by (auto simp: bind_eq_Some_conv split: prod.splits)
    have "core_frame c d" using d step by (auto simp: Let_def split: if_splits prod.splits)
    then show ?thesis using r Cons.IH core_frame_trans by blast
  qed (use Cons.prems in auto)
qed simp

lemma execute_frame: "execute_instruction c = Some (n, c') \<Longrightarrow> core_frame c c'"
  by (auto simp: execute_instruction_def bind_eq_Some_conv core_frame_defs dest!: execute_loop_frame)

lemma schedule_frame: "schedule_instruction c = Some (n, c') \<Longrightarrow> core_frame c c'"
  by (auto simp: schedule_instruction_def bind_eq_Some_conv core_frame_defs)

lemma return_frame: "handle_memory_return c = Some (n, c') \<Longrightarrow> core_frame c c'"
  by (auto simp: handle_memory_return_def bind_eq_Some_conv core_frame_defs Let_def)

lemma lsq_frame: "operate_lsq c = Some (n, c') \<Longrightarrow> core_frame c c'"
  by (auto simp: operate_lsq_def issue_stores_def complete_stores_def bind_eq_Some_conv core_frame_defs Let_def)

lemma dispatch_loop_frame: "dispatch_loop q bw c = Some (bw', c') \<Longrightarrow> core_frame c c'"
proof (induction q arbitrary: bw c)
  case (Cons i q)
  show ?case
  proof (cases "has_remaining bw \<and> can_dispatch i c")
    case True
    then obtain bw1 d where "dispatch_loop q bw1 d = Some (bw', c')" "core_frame c d"
      using Cons.prems by (auto simp: bind_eq_Some_conv core_frame_defs)
    then show ?thesis using Cons.IH core_frame_trans by blast
  qed (use Cons.prems in auto)
qed simp

lemma dispatch_frame: "dispatch_instruction c = Some (n, c') \<Longrightarrow> core_frame c c'"
  by (auto simp: dispatch_instruction_def bind_eq_Some_conv dest!: dispatch_loop_frame)

lemma do_decode_frame: "core_frame c (snd (do_decode i c))"
  by (cases "branch_mispredicted i \<and> resolved_at_decode i") (simp_all add: do_decode_def do_dib_update_def Let_def core_frame_defs)

lemma do_check_dib_frame: "core_frame c (snd (do_check_dib i c))"
  by (simp add: do_check_dib_def Let_def split_beta core_frame_defs)

lemma decode_frame: "decode_instruction c = Some (n, c') \<Longrightarrow> core_frame c c'"
proof -
  assume "decode_instruction c = Some (n, c')"
  then obtain k ys d where m: "map_option_state (\<lambda>i c. Some (do_decode i c)) (take k (DECODE_BUFFER c)) c = Some (ys, d)" and c': "core_frame d c'"
    by (auto simp: decode_instruction_def bind_eq_Some_conv core_frame_defs Let_def)
  have "core_frame c d" by (rule map_option_state_invariant[OF m]) (simp, metis core_frame_trans do_decode_frame option.inject snd_conv)
  then show ?thesis using c' core_frame_trans by blast
qed

lemma promote_frame: "promote_to_decode c = Some (n, c') \<Longrightarrow> core_frame c c'"
  by (auto simp: promote_to_decode_def bind_eq_Some_conv core_frame_defs Let_def)

lemma fetch_frame: "fetch_instruction c = Some (n, c') \<Longrightarrow> core_frame c c'"
  by (auto simp: fetch_instruction_def bind_eq_Some_conv core_frame_defs)

lemma check_dib_frame: "check_dib c = Some (n, c') \<Longrightarrow> core_frame c c'"
proof -
  assume "check_dib c = Some (n, c')"
  then obtain w ys d where m: "map_option_state (\<lambda>i c. Some (do_check_dib i c)) w c = Some (ys, d)" and c': "core_frame d c'"
    by (auto simp: check_dib_def bind_eq_Some_conv core_frame_defs)
  have "core_frame c d" by (rule map_option_state_invariant[OF m]) (simp, metis core_frame_trans do_check_dib_frame option.inject snd_conv)
  then show ?thesis using c' core_frame_trans by blast
qed

lemma do_predict_fixed:
  "do_predict_branch h i c = (b, j, d) \<Longrightarrow> core_frame c d"
  by (auto simp: do_predict_branch_def on_cpu_stats_def Let_def core_frame_defs split: prod.splits if_splits)

text \<open>Fetching consumes the input queue from the front.\<close>

lemma init_loop_fixed:
  assumes "init_loop h q bw c = Some c'" "input_queue c = q"
  shows "core_fixed c' = core_fixed c \<and> num_retired c' = num_retired c \<and> (\<exists>k. input_queue c' = drop k q)"
  using assms
proof (induction q arbitrary: bw c)
  case Nil
  then show ?case by simp
next
  case (Cons i q)
  show ?case
  proof (cases "o_current_time c \<ge> fetch_resume_time c \<and> has_remaining bw")
    case True
    obtain stop j d where d: "do_init_instruction h i c = (stop, j, d)" using prod_cases3 by blast
    define e where "e = d\<lparr>IFETCH_BUFFER := IFETCH_BUFFER d @ [j\<lparr>ready_time := o_current_time d\<rparr>], input_queue := q\<rparr>"
    have f: "core_fixed e = core_fixed c" "num_retired e = num_retired c" "input_queue e = q"
      using do_predict_fixed[of h _ c stop j d] d by (auto simp: do_init_instruction_def Let_def e_def core_frame_defs)
    have "\<exists>bw1. (if stop then Some e else init_loop h q bw1 e) = Some c'"
      using Cons.prems True d by (auto simp: bind_eq_Some_conv Let_def e_def)
    then obtain bw1 where "(if stop then Some e else init_loop h q bw1 e) = Some c'" ..
    then have "core_fixed c' = core_fixed e \<and> num_retired c' = num_retired e \<and> (\<exists>k. input_queue c' = drop k q)"
      using Cons.IH[of bw1 e] f(3) by (auto split: if_splits intro: exI[of _ 0])
    then show ?thesis using f by (metis drop_Suc_Cons)
  next
    case False
    then show ?thesis using Cons.prems by (auto intro: exI[of _ 0])
  qed
qed

lemma core_tick_fixed:
  assumes "core_tick h c = Some (n, c')"
  shows "core_fixed c' = core_fixed (c\<lparr>o_current_time := o_current_time c + o_clock_period c\<rparr>) \<and> num_retired c \<le> num_retired c'
    \<and> (\<exists>k. input_queue c' = drop k (input_queue c))"
proof -
  let ?c = "c\<lparr>o_current_time := o_current_time c + o_clock_period c\<rparr>"
  obtain p1 p2 p3 p4 p5 p6 p7 p8 p9 p10 p11 c1 c2 c3 c4 c5 c6 c7 c8 c9 c10 c11 c12 where
    1: "retire_rob ?c = Some (p1, c1)" and 2: "complete_inflight_instruction c1 = Some (p2, c2)" and 3: "execute_instruction c2 = Some (p3, c3)"
    and 4: "schedule_instruction c3 = Some (p4, c4)" and 5: "handle_memory_return c4 = Some (p5, c5)" and 6: "operate_lsq c5 = Some (p6, c6)"
    and 7: "dispatch_instruction c6 = Some (p7, c7)" and 8: "decode_instruction c7 = Some (p8, c8)" and 9: "promote_to_decode c8 = Some (p9, c9)"
    and 10: "fetch_instruction c9 = Some (p10, c10)" and 11: "check_dib c10 = Some (p11, c11)" and 12: "initialize_instruction h c11 = Some c12"
    and c': "c' = heartbeat c12"
    using assms by (auto simp: core_tick_def core_operate_def bind_eq_Some_conv)
  note complete_frame[OF 2] also note execute_frame[OF 3] also note schedule_frame[OF 4] also note return_frame[OF 5]
  also note lsq_frame[OF 6] also note dispatch_frame[OF 7] also note decode_frame[OF 8] also note promote_frame[OF 9]
  also note fetch_frame[OF 10] also note check_dib_frame[OF 11]
  finally have mid: "core_frame c1 c11" .
  have "core_fixed c' = core_fixed c12 \<and> num_retired c' = num_retired c12 \<and> input_queue c' = input_queue c12"
    by (simp add: c' heartbeat_def core_fixed_def)
  then show ?thesis using retire_fixed[OF 1] mid init_loop_fixed[OF 12[unfolded initialize_instruction_def] refl] by (simp add: core_frame_def)
qed

interpretation core_operable: operable o_current_time o_clock_period "core_tick h"
  by unfold_locales (auto dest!: core_tick_fixed simp: core_fixed_def)

section \<open>Frames of the cache\<close>

definition cache_clock :: "'m CACHE \<Rightarrow> time \<times> time" where
  "cache_clock c = (c_current_time c, c_clock_period c)"

lemma hook_frame_clock: "hook_frame c c' \<Longrightarrow> cache_clock c' = cache_clock c"
  by (auto simp: hook_frame_def cache_clock_def)

lemma deliver_clock [simp]: "cache_clock (deliver uls r c) = cache_clock c"
  by (simp add: deliver_def cache_clock_def)

lemma on_stats_clock [simp]: "cache_clock (on_stats f c) = cache_clock c"
  by (simp add: on_stats_def cache_clock_def)

lemma cache_clock_updates [simp]:
  "cache_clock (c\<lparr>c_block := b\<rparr>) = cache_clock c" "cache_clock (c\<lparr>c_modules := m\<rparr>) = cache_clock c" "cache_clock (c\<lparr>c_cpu := n\<rparr>) = cache_clock c"
  "cache_clock (c\<lparr>c_MSHR := q\<rparr>) = cache_clock c" "cache_clock (c\<lparr>c_inflight_writes := q\<rparr>) = cache_clock c"
  "cache_clock (c\<lparr>c_lower_level := l\<rparr>) = cache_clock c" "cache_clock (c\<lparr>c_lower_translate := lt\<rparr>) = cache_clock c"
  "cache_clock (c\<lparr>c_channels := ch\<rparr>) = cache_clock c" "cache_clock (c\<lparr>c_inflight_tag_check := t\<rparr>) = cache_clock c"
  "cache_clock (c\<lparr>c_translation_stash := t\<rparr>) = cache_clock c" "cache_clock (c\<lparr>c_internal_PQ := t\<rparr>) = cache_clock c"
  "cache_clock (c\<lparr>c_upper_levels := u\<rparr>) = cache_clock c"
  by (simp_all add: cache_clock_def)

lemma finish_fill_clock [simp]: "cache_clock (finish_fill m way md c) = cache_clock c"
  by (simp add: finish_fill_def Let_def)

lemma finish_hit_clock [simp]: "cache_clock (finish_hit pkt i u md c) = cache_clock c"
  by (simp add: finish_hit_def Let_def)

lemma handle_miss_clock: "cache_clock (snd (do_handle_miss pkt c)) = cache_clock c"
  by (auto simp: do_handle_miss_def handle_write_def handle_miss_def count_miss_def Let_def split: option.split prod.split)

lemma finish_packet_clock: "finish_packet r c = Some c' \<Longrightarrow> cache_clock c' = cache_clock c"
  by (auto simp: finish_packet_def Let_def split: option.splits)

lemma finish_returns_clock: "finish_returns c = Some (n, c') \<Longrightarrow> cache_clock c' = cache_clock c"
  by (auto simp: finish_returns_def bind_eq_Some_conv finish_packet_clock
      elim!: fold_option_invariant[where P = "\<lambda>d. cache_clock d = cache_clock c"])

lemma finish_translations_clock: "cache_clock (snd (finish_translations c)) = cache_clock c"
proof -
  have "cache_clock (fold finish_translation rs d) = cache_clock d" for rs and d :: "'a CACHE"
    by (induction rs arbitrary: d) (simp_all add: finish_translation_def Let_def)
  then show ?thesis by (simp add: finish_translations_def split: option.split)
qed

lemma initiate_clock: "initiate_tag_checks c = Some (bw, c') \<Longrightarrow> cache_clock c' = cache_clock c"
proof -
  assume "initiate_tag_checks c = Some (bw, c')"
  then obtain q bw1 avail per bw3 c3 f4 where
    3: "fold_option (start_upper avail per) (c_upper_levels (rotate_upper (c\<lparr>c_inflight_tag_check := f4, c_translation_stash := q\<rparr>)))
      (bw1, rotate_upper (c\<lparr>c_inflight_tag_check := f4, c_translation_stash := q\<rparr>)) = Some (bw3, c3)" and 4: "cache_clock c' = cache_clock c3"
    by (fastforce simp: initiate_tag_checks_def bind_eq_Some_conv Let_def dest!: start_checks_frame)
  have r: "cache_clock (rotate_upper (c\<lparr>c_inflight_tag_check := f4, c_translation_stash := q\<rparr>)) = cache_clock c" by (simp add: rotate_upper_def)
  have u: "start_upper a p ul (b, d) = Some (b', d') \<Longrightarrow> cache_clock d' = cache_clock d" for a p ul b d b' and d' :: "'a CACHE"
    by (auto simp: start_upper_def bind_eq_Some_conv Let_def dest!: start_checks_frame)
  have "cache_clock (snd (bw3, c3)) = cache_clock c"
    by (rule fold_option_invariant[OF 3, where P = "\<lambda>s. cache_clock (snd s) = cache_clock c"]) (auto simp: r dest!: u)
  then show ?thesis using 4 by simp
qed

lemma issue_clock: "issue_translations c = Some c' \<Longrightarrow> cache_clock c' = cache_clock c"
proof -
  assume "issue_translations c = Some c'"
  then obtain q1 c1 q2 c2 where 1: "map_option_state issue_translation (c_inflight_tag_check c) c = Some (q1, c1)"
    and 2: "map_option_state issue_translation (c_translation_stash (c1\<lparr>c_inflight_tag_check := q1\<rparr>)) (c1\<lparr>c_inflight_tag_check := q1\<rparr>)
      = Some (q2, c2)" and c': "c' = c2\<lparr>c_translation_stash := q2\<rparr>"
    by (auto simp: issue_translations_def bind_eq_Some_conv Let_def)
  have step: "issue_translation e d = Some (e', d') \<Longrightarrow> cache_clock d' = cache_clock d" for e e' d and d' :: "'a CACHE"
    by (auto simp: issue_translation_def split: if_splits option.splits prod.splits)
  have "cache_clock c1 = cache_clock c"
    by (rule map_option_state_invariant[OF 1, where P = "\<lambda>d. cache_clock d = cache_clock c"]) (auto dest: step)
  then have "cache_clock (c1\<lparr>c_inflight_tag_check := q1\<rparr>) = cache_clock c" by simp
  then have "cache_clock c2 = cache_clock c"
    by (rule map_option_state_invariant[OF 2, where P = "\<lambda>d. cache_clock d = cache_clock c"]) (auto dest: step)
  then show ?thesis by (simp add: c')
qed

lemma stash_clock: "cache_clock (snd (stash_untranslated c)) = cache_clock c"
  by (simp add: stash_untranslated_def split: prod.split)

context cache_modules
begin

lemma handle_fill_clock:
  assumes "handle_fill h m c = Some (b, c')"
  shows "cache_clock c' = cache_clock c"
proof -
  define si where "si = get_set_index (c\<lparr>c_cpu := ms_cpu m\<rparr>) (ms_address m)"
  obtain way c1 where 1: "choose_way h m (c\<lparr>c_cpu := ms_cpu m\<rparr>) = Some (way, c1)"
    using assms by (auto simp: handle_fill_def bind_eq_Some_conv Let_def)
  obtain ok c2 where 2: "write_back m way c1 = (ok, c2)" by fastforce
  have r: "(if ok then do {
          let evicting = evicting_address m way c2;
          let addr = module_address c2 (ms_address m) (ms_v_address m);
          let (metadata_thru, c) = h_prefetcher_cache_fill h addr si way (ms_type m = PREFETCH) evicting (snd (m_value (ms_data_promise m))) c2;
          s \<leftarrow> h_replacement_cache_fill h (ms_cpu m) si way addr (ms_ip m) evicting (ms_type m) (c_modules c);
          Some (True, finish_fill m way metadata_thru (c\<lparr>c_modules := s\<rparr>)) } else Some (False, c2)) = Some (b, c')"
    using assms 1 2 by (cases ok) (simp_all add: handle_fill_def Let_def si_def)
  have "cache_clock c2 = cache_clock c" using choose_way_frame[OF 1] write_back_frame[OF 2] by auto
  moreover have "cache_clock c' = cache_clock c2"
    using r hook_frame_clock[OF hook_fill_frame[of c2]] by (cases ok) (auto simp: bind_eq_Some_conv Let_def split_beta)
  ultimately show ?thesis by simp
qed

lemma try_hit_clock: "try_hit h pkt c = Some (b, c') \<Longrightarrow> cache_clock c' = cache_clock c"
  using hook_frame_clock[OF hook_operate_frame[of "c\<lparr>c_cpu := tl_cpu pkt\<rparr>"]]
  by (auto simp: try_hit_def bind_eq_Some_conv Let_def split_beta split: if_splits option.splits)

lemma fill_ready_clock: "fill_ready h q bw c = Some (n, bw', c') \<Longrightarrow> cache_clock c' = cache_clock c"
  by (auto simp: fill_ready_def bind_eq_Some_conv dest: handle_fill_clock
      elim!: while_ok_invariant[where P = "\<lambda>d. cache_clock d = cache_clock c"])

lemma perform_fills_clock: "perform_fills h c = Some (bw, c') \<Longrightarrow> cache_clock c' = cache_clock c"
  by (auto simp: perform_fills_def bind_eq_Some_conv Let_def dest!: fill_ready_clock)

lemma perform_tag_checks_clock: "perform_tag_checks h c = Some (bw, c') \<Longrightarrow> cache_clock c' = cache_clock c"
proof -
  assume a: "perform_tag_checks h c = Some (bw, c')"
  obtain ready hits misses c1 handled failed c2 f where 1: "partition_state (try_hit h) ready c = Some (hits, misses, c1)"
    and 2: "partition_state (\<lambda>pkt c. Some (do_handle_miss pkt c)) misses c1 = Some (handled, failed, c2)"
    and c': "c' = c2\<lparr>c_inflight_tag_check := f\<rparr>"
    using a by (auto simp: perform_tag_checks_def bind_eq_Some_conv Let_def)
  have "cache_clock c1 = cache_clock c"
    by (rule partition_state_invariant[OF 1, where P = "\<lambda>d. cache_clock d = cache_clock c"]) (auto dest: try_hit_clock)
  then have "cache_clock c2 = cache_clock c"
    by (rule partition_state_invariant[OF 2, where P = "\<lambda>d. cache_clock d = cache_clock c"]) (simp, metis handle_miss_clock option.inject snd_conv)
  then show ?thesis by (simp add: c')
qed

lemma cache_operate_clock:
  assumes a: "cache_operate h c = Some (n, c')"
  shows "cache_clock c' = cache_clock c"
proof -
  obtain n1 c1 bw1 c3 bw2 c4 c5 bw3 c7 where
    1: "finish_returns (check_upper_collisions c) = Some (n1, c1)" and
    2: "perform_fills h (snd (finish_translations c1)) = Some (bw1, c3)" and
    3: "initiate_tag_checks c3 = Some (bw2, c4)" and
    4: "issue_translations c4 = Some c5" and
    5: "perform_tag_checks h (snd (stash_untranslated c5)) = Some (bw3, c7)" and
    c': "c' = h_prefetcher_cycle_operate h c7"
    using a by (auto simp: cache_operate_def bind_eq_Some_conv Let_def case_prod_unfold)
  show ?thesis
    using finish_returns_clock[OF 1] perform_fills_clock[OF 2] initiate_clock[OF 3] issue_clock[OF 4] perform_tag_checks_clock[OF 5]
      hook_frame_clock[OF hook_cycle_frame[of c7]] by (simp add: c' finish_translations_clock stash_clock check_upper_collisions_def)
qed

lemma cache_tick_clock: "cache_tick h c = Some (n, c') \<Longrightarrow> cache_clock c' = (c_current_time c + c_clock_period c, c_clock_period c)"
  using cache_operate_clock[of "c\<lparr>c_current_time := c_current_time c + c_clock_period c\<rparr>" n c'] by (simp add: cache_tick_def cache_clock_def)

lemma cache_operable: "operable c_current_time c_clock_period (cache_tick h)"
  by unfold_locales (auto dest!: cache_tick_clock simp: cache_clock_def)

end

interpretation lru_cache_operable: operable c_current_time c_clock_period "cache_tick (lru_hooks [no])"
  by (rule lru_cache.cache_operable)

interpretation srrip_cache_operable: operable c_current_time c_clock_period "cache_tick (srrip_hooks [no])"
  by (rule srrip_cache.cache_operable)

section \<open>Frames of the page table walker\<close>

definition walker_clock :: "PageTableWalker \<Rightarrow> time \<times> time" where
  "walker_clock p = (p_current_time p, p_clock_period p)"

lemma walk_frame_clock: "walk_frame p p' \<Longrightarrow> walker_clock p' = walker_clock p"
  by (auto simp: walk_frame_def walker_clock_def)

lemma walker_clock_updates [simp]:
  "walker_clock (p\<lparr>p_MSHR := q\<rparr>) = walker_clock p" "walker_clock (p\<lparr>p_completed := q\<rparr>) = walker_clock p"
  "walker_clock (p\<lparr>p_finished := q\<rparr>) = walker_clock p" "walker_clock (p\<lparr>p_upper_levels := u\<rparr>) = walker_clock p"
  "walker_clock (p\<lparr>p_lower_level := l\<rparr>) = walker_clock p"
  by (simp_all add: walker_clock_def)

lemma finish_walk_packet_clock: "finish_walk_packet r s = Some s' \<Longrightarrow> walker_clock (fst s') = walker_clock (fst s)"
  by (auto simp: finish_walk_packet_def bind_eq_Some_conv split_beta Let_def)

lemma collect_clock:
  assumes "while_ok (collect f) xs (p, ms) = Some (taken, rest, p', ms')" "\<And>x p r p'. f x p = Some (r, p') \<Longrightarrow> walk_frame p p'"
  shows "walker_clock p' = walker_clock p"
proof -
  have "walker_clock (fst (p', ms')) = walker_clock p"
    by (rule while_ok_invariant[OF assms(1), where P = "\<lambda>s. walker_clock (fst s) = walker_clock p"])
      (auto simp: collect_def walk_frame_clock split: option.splits dest!: assms(2))
  then show ?thesis by simp
qed

lemma start_walks_clock: "start_walks vmem i (bw, p, ms) = Some (bw', p', ms') \<Longrightarrow> walker_clock p' = walker_clock p"
  by (auto simp: start_walks_def bind_eq_Some_conv Let_def dest!: collect_clock[OF _ handle_read_cases(1)])

lemma ptw_operate_clock:
  assumes "ptw_operate s = Some (n, s')"
  shows "walker_clock (fst s') = walker_clock (fst s)"
proof -
  obtain p1 v1 bw2 p2 bw3 p3 ms3 bw4 p4 ms4 where
    1: "fold_option finish_walk_packet (returned (p_lower_level (fst s))) s = Some (p1, v1)" and
    2: "complete_walks (new_bandwidth (p_MAX_FILL p1)) (p1\<lparr>p_lower_level := (p_lower_level p1)\<lparr>returned := []\<rparr>\<rparr>) = Some (bw2, p2)" and
    3: "advance_walks bw2 (p2, []) = Some (bw3, p3, ms3)" and
    4: "fold_option (start_walks v1) [0..<length (p_upper_levels p3)] (new_bandwidth (p_MAX_READ p3), p3, ms3) = Some (bw4, p4, ms4)" and
    s': "fst s' = p4\<lparr>p_MSHR := p_MSHR p4 @ ms4\<rparr>"
    using assms by (auto simp: ptw_operate_def bind_eq_Some_conv Let_def)
  have "walker_clock (fst (p1, v1)) = walker_clock (fst s)"
    by (rule fold_option_invariant[OF 1, where P = "\<lambda>t. walker_clock (fst t) = walker_clock (fst s)"]) (auto dest: finish_walk_packet_clock)
  moreover have "walker_clock p2 = walker_clock p1" using 2 by (auto simp: complete_walks_def bind_eq_Some_conv)
  moreover have "walker_clock p3 = walker_clock p2"
    using 3 by (auto simp: advance_walks_def bind_eq_Some_conv dest!: collect_clock[OF _ handle_fill_walk_cases(1)])
  moreover have "walker_clock (fst (snd (bw4, p4, ms4))) = walker_clock p3"
    by (rule fold_option_invariant[OF 4, where P = "\<lambda>t. walker_clock (fst (snd t)) = walker_clock p3"]) (auto dest!: start_walks_clock)
  ultimately show ?thesis by (simp add: s')
qed

lemma ptw_tick_clock:
  "ptw_tick s = Some (n, s') \<Longrightarrow> walker_clock (fst s') = (p_current_time (fst s) + p_clock_period (fst s), p_clock_period (fst s))"
  unfolding ptw_tick_def by (drule ptw_operate_clock) (simp add: walker_clock_def apfst_def map_prod_def split_beta)

interpretation walker_operable: operable "p_current_time \<circ> fst" "p_clock_period \<circ> fst" ptw_tick
  by unfold_locales (auto dest!: ptw_tick_clock simp: walker_clock_def)

section \<open>Frames of the memory controller\<close>

definition mc_clock :: "MEMORY_CONTROLLER \<Rightarrow> time \<times> time" where
  "mc_clock c = (mc_current_time c, mc_clock_period c)"

lemma mc_clock_updates [simp]: "mc_clock (c\<lparr>mc_channels := ds\<rparr>) = mc_clock c" "mc_clock (c\<lparr>mc_queues := uls\<rparr>) = mc_clock c"
  by (simp_all add: mc_clock_def)

lemma mc_add_rq_clock: "mc_add_rq ul r c = Some (b, c') \<Longrightarrow> mc_clock c' = mc_clock c"
  by (auto simp: mc_add_rq_def bind_eq_Some_conv Let_def split: if_splits option.splits)

lemma mc_add_wq_clock: "mc_add_wq r c = Some (b, c') \<Longrightarrow> mc_clock c' = mc_clock c"
  by (auto simp: mc_add_wq_def bind_eq_Some_conv Let_def split: if_splits option.splits)

lemma initiate_from_clock: "initiate_from i c = Some c' \<Longrightarrow> mc_clock c' = mc_clock c"
proof -
  have rq: "while_ok (mc_add_rq i) q d = Some (t, r, d') \<Longrightarrow> mc_clock d' = mc_clock d" for q d t r d'
    by (erule while_ok_invariant[where P = "\<lambda>x. mc_clock x = mc_clock d"]) (auto dest: mc_add_rq_clock)
  have wq: "while_ok mc_add_wq q d = Some (t, r, d') \<Longrightarrow> mc_clock d' = mc_clock d" for q d t r d'
    by (erule while_ok_invariant[where P = "\<lambda>x. mc_clock x = mc_clock d"]) (auto dest: mc_add_wq_clock)
  show "initiate_from i c = Some c' \<Longrightarrow> mc_clock c' = mc_clock c"
    by (auto simp: initiate_from_def bind_eq_Some_conv Let_def dest!: rq wq)
qed

lemma mc_tick_clock: "mc_tick c = Some (n, c') \<Longrightarrow> mc_clock c' = (mc_current_time c + mc_clock_period c, mc_clock_period c)"
proof -
  assume "mc_tick c = Some (n, c')"
  then obtain d where d: "initiate_requests (c\<lparr>mc_current_time := mc_current_time c + mc_clock_period c\<rparr>) = Some d" "mc_clock c' = mc_clock d"
    by (auto simp: mc_tick_def mc_operate_def bind_eq_Some_conv)
  have "mc_clock d = mc_clock (c\<lparr>mc_current_time := mc_current_time c + mc_clock_period c\<rparr>)"
    using d(1) unfolding initiate_requests_def
    by (rule fold_option_invariant[where P = "\<lambda>x. mc_clock x = mc_clock (c\<lparr>mc_current_time := mc_current_time c + mc_clock_period c\<rparr>)"])
      (auto dest: initiate_from_clock)
  then show ?thesis using d(2) by (simp add: mc_clock_def)
qed

interpretation memory_operable: operable mc_current_time mc_clock_period mc_tick
  by unfold_locales (auto dest!: mc_tick_clock simp: mc_clock_def)

end
