(* ===== verification/Simulation.thy ===== *)
theory Simulation
  imports Operable Trace_Reader "HOL-Library.Signed_Division"
begin

text \<open>
  The driver of the simulation, \<open>src/champsim.cc\<close>, \<open>inc/phase_info.h\<close>, \<open>inc/environment.h\<close> and the phases that \<open>src/main.cc\<close>
  sets up: in each cycle of the global clock every component runs until it has caught up, and the cores are fed from their
  traces; a phase runs until every core has retired its instructions, a trace ends, or the simulation is aborted because nothing
  moves.

  The components hold pointers to channels that the environment owns.  Here the environment holds the channels and, for
  each component, which of them it is connected to; before a component runs its channels are loaded into it, and afterwards they are
  stored back.  The channels of one component are different ones.  The virtual memory, which all walkers share, is held and
  passed in the same way.
\<close>

section \<open>The environment\<close>

record core_wires =
  wire_L1I :: nat
  wire_L1D :: nat

record cache_wires =
  wire_uppers :: "nat list"
  wire_lower :: nat
  wire_translate :: "nat option"

record ptw_wires =
  wire_walk_uppers :: "nat list"
  wire_walk_lower :: nat

record ('m, 'k) environment =
  e_channels :: "channel list"
  e_vmem :: VirtualMemory
  cpu_view :: "'m O3_CPU list"
  cpu_wires :: "core_wires list"
  cache_view :: "'k CACHE list"
  caches_wires :: "cache_wires list"
  ptw_view :: "PageTableWalker list"
  ptws_wires :: "ptw_wires list"
  dram_view :: MEMORY_CONTROLLER
  dram_wires :: "nat list"

text \<open>The modules the components are configured with, and how they are initialised.\<close>

record ('m, 'k) configured_modules =
  core_hooks_at :: "nat \<Rightarrow> 'm core_hooks"
  cache_hooks_at :: "nat \<Rightarrow> 'k cache_hooks"
  core_initialize :: "nat \<Rightarrow> 'm \<Rightarrow> 'm"
  cache_initialize :: "nat \<Rightarrow> 'k CACHE \<Rightarrow> 'k CACHE"

datatype operable_ref = Cpu nat | Cache nat | Ptw nat | Dram

definition operable_view :: "('m, 'k) environment \<Rightarrow> operable_ref list" where
  "operable_view e = map Cpu [0..<length (cpu_view e)] @ map Cache [0..<length (cache_view e)] @ map Ptw [0..<length (ptw_view e)] @ [Dram]"

fun ref_current_time :: "operable_ref \<Rightarrow> ('m, 'k) environment \<Rightarrow> time" where
  "ref_current_time (Cpu i) e = o_current_time (cpu_view e ! i)"
| "ref_current_time (Cache i) e = c_current_time (cache_view e ! i)"
| "ref_current_time (Ptw i) e = p_current_time (ptw_view e ! i)"
| "ref_current_time Dram e = mc_current_time (dram_view e)"

fun ref_clock_period :: "operable_ref \<Rightarrow> ('m, 'k) environment \<Rightarrow> time" where
  "ref_clock_period (Cpu i) e = o_clock_period (cpu_view e ! i)"
| "ref_clock_period (Cache i) e = c_clock_period (cache_view e ! i)"
| "ref_clock_period (Ptw i) e = p_clock_period (ptw_view e ! i)"
| "ref_clock_period Dram e = mc_clock_period (dram_view e)"

text \<open>Storing channels, the channels of a component loaded, and the component stored with its channels.\<close>

definition store_channels :: "nat list \<Rightarrow> channel list \<Rightarrow> channel list \<Rightarrow> channel list" where
  "store_channels is = fold (\<lambda>(i, ch) chs. chs[i := ch]) \<circ> zip is"

definition load_core :: "nat \<Rightarrow> ('m, 'k) environment \<Rightarrow> 'm O3_CPU" where
  "load_core i e = (let c = cpu_view e ! i; w = cpu_wires e ! i in
     c\<lparr>L1I_bus := (L1I_bus c)\<lparr>bus_lower_level := e_channels e ! wire_L1I w\<rparr>, L1D_bus := (L1D_bus c)\<lparr>bus_lower_level := e_channels e ! wire_L1D w\<rparr>\<rparr>)"

definition store_core :: "nat \<Rightarrow> 'm O3_CPU \<Rightarrow> ('m, 'k) environment \<Rightarrow> ('m, 'k) environment" where
  "store_core i c e = (let w = cpu_wires e ! i in e\<lparr>cpu_view := (cpu_view e)[i := c],
     e_channels := store_channels [wire_L1I w, wire_L1D w] [bus_lower_level (L1I_bus c), bus_lower_level (L1D_bus c)] (e_channels e)\<rparr>)"

definition load_cache :: "nat \<Rightarrow> ('m, 'k) environment \<Rightarrow> 'k CACHE" where
  "load_cache i e = (let c = cache_view e ! i; w = caches_wires e ! i in
     c\<lparr>c_channels := (\<lambda>j. if j < length (wire_uppers w) then e_channels e ! (wire_uppers w ! j) else c_channels c j),
       c_lower_level := e_channels e ! wire_lower w, c_lower_translate := map_option (\<lambda>k. e_channels e ! k) (wire_translate w)\<rparr>)"

definition store_cache :: "nat \<Rightarrow> 'k CACHE \<Rightarrow> ('m, 'k) environment \<Rightarrow> ('m, 'k) environment" where
  "store_cache i c e = (let w = caches_wires e ! i; us = wire_uppers w in e\<lparr>cache_view := (cache_view e)[i := c],
     e_channels := store_channels (us @ wire_lower w # (case wire_translate w of None \<Rightarrow> [] | Some k \<Rightarrow> [k]))
       (map (c_channels c) [0..<length us] @ c_lower_level c # (case c_lower_translate c of None \<Rightarrow> [] | Some ch \<Rightarrow> [ch])) (e_channels e)\<rparr>)"

definition load_ptw :: "nat \<Rightarrow> ('m, 'k) environment \<Rightarrow> PageTableWalker" where
  "load_ptw i e = (let w = ptws_wires e ! i in (ptw_view e ! i)
     \<lparr>p_upper_levels := map (\<lambda>k. e_channels e ! k) (wire_walk_uppers w), p_lower_level := e_channels e ! wire_walk_lower w\<rparr>)"

definition store_ptw :: "nat \<Rightarrow> PageTableWalker \<Rightarrow> ('m, 'k) environment \<Rightarrow> ('m, 'k) environment" where
  "store_ptw i p e = (let w = ptws_wires e ! i in e\<lparr>ptw_view := (ptw_view e)[i := p],
     e_channels := store_channels (wire_walk_uppers w @ [wire_walk_lower w]) (p_upper_levels p @ [p_lower_level p]) (e_channels e)\<rparr>)"

definition load_dram :: "('m, 'k) environment \<Rightarrow> MEMORY_CONTROLLER" where
  "load_dram e = (dram_view e)\<lparr>mc_queues := map (\<lambda>k. e_channels e ! k) (dram_wires e)\<rparr>"

definition store_dram :: "MEMORY_CONTROLLER \<Rightarrow> ('m, 'k) environment \<Rightarrow> ('m, 'k) environment" where
  "store_dram c e = e\<lparr>dram_view := c, e_channels := store_channels (dram_wires e) (mc_queues c) (e_channels e)\<rparr>"

section \<open>The operations of a component\<close>

fun ref_operate_on :: "('m, 'k) configured_modules \<Rightarrow> time \<Rightarrow> operable_ref \<Rightarrow> ('m, 'k) environment \<Rightarrow> (int \<times> ('m, 'k) environment) option" where
  "ref_operate_on M now (Cpu i) e = map_option (apsnd (\<lambda>c. store_core i c e))
     (operate_on o_current_time (core_tick (core_hooks_at M i)) now (load_core i e))"
| "ref_operate_on M now (Cache i) e = map_option (apsnd (\<lambda>c. store_cache i c e))
     (operate_on c_current_time (cache_tick (cache_hooks_at M i)) now (load_cache i e))"
| "ref_operate_on M now (Ptw i) e = map_option (apsnd (\<lambda>(p, v). (store_ptw i p e)\<lparr>e_vmem := v\<rparr>))
     (operate_on (p_current_time \<circ> fst) ptw_tick now (load_ptw i e, e_vmem e))"
| "ref_operate_on M now Dram e = map_option (apsnd (\<lambda>c. store_dram c e)) (operate_on mc_current_time mc_tick now (load_dram e))"

fun ref_initialize :: "('m, 'k) configured_modules \<Rightarrow> operable_ref \<Rightarrow> ('m, 'k) environment \<Rightarrow> ('m, 'k) environment" where
  "ref_initialize M (Cpu i) e = e\<lparr>cpu_view := (cpu_view e)[i := (cpu_view e ! i)\<lparr>o_modules := core_initialize M i (o_modules (cpu_view e ! i))\<rparr>]\<rparr>"
| "ref_initialize M (Cache i) e = e\<lparr>cache_view := (cache_view e)[i := cache_initialize M i (cache_view e ! i)]\<rparr>"
| "ref_initialize M (Ptw i) e = e"
| "ref_initialize M Dram e = e"

text \<open>The start of a phase: \<open>warmup\<close> is set and \<open>begin_phase\<close> called.\<close>

fun ref_begin_phase :: "bool \<Rightarrow> operable_ref \<Rightarrow> ('m, 'k) environment \<Rightarrow> ('m, 'k) environment" where
  "ref_begin_phase w (Cpu i) e = e\<lparr>cpu_view := (cpu_view e)[i := core_begin_phase ((cpu_view e ! i)\<lparr>o_warmup := w\<rparr>)]\<rparr>"
| "ref_begin_phase w (Cache i) e = store_cache i (cache_begin_phase ((load_cache i e)\<lparr>c_warmup := w\<rparr>)) e"
| "ref_begin_phase w (Ptw i) e = store_ptw i (ptw_begin_phase ((load_ptw i e)\<lparr>p_warmup := w\<rparr>)) e"
| "ref_begin_phase w Dram e = store_dram (mc_begin_phase ((load_dram e)\<lparr>mc_warmup := w\<rparr>)) e"

fun ref_end_phase :: "nat \<Rightarrow> operable_ref \<Rightarrow> ('m, 'k) environment \<Rightarrow> ('m, 'k) environment" where
  "ref_end_phase cpu (Cpu i) e = e\<lparr>cpu_view := (cpu_view e)[i := core_end_phase cpu (cpu_view e ! i)]\<rparr>"
| "ref_end_phase cpu (Cache i) e = store_cache i (cache_end_phase (load_cache i e)) e"
| "ref_end_phase cpu (Ptw i) e = e"
| "ref_end_phase cpu Dram e = e\<lparr>dram_view := mc_end_phase (dram_view e)\<rparr>"

section \<open>A cycle\<close>

record ('m, 'k) simulation =
  s_env :: "('m, 'k) environment"
  s_traces :: "trace_reader list"
  instr_unique_id :: nat
  global_clock :: time

text \<open>\<open>std::vector::at\<close>.\<close>

definition vec_at :: "'a list \<Rightarrow> nat \<Rightarrow> 'a option" where
  "vec_at xs i = (if i < length xs then Some (xs ! i) else None)"

primrec read_packets :: "nat \<Rightarrow> nat \<Rightarrow> trace_reader \<Rightarrow> (core_instr list \<times> nat \<times> trace_reader) option" where
  "read_packets 0 u r = Some ([], u, r)"
| "read_packets (Suc pkt_count) u r = (if reader_eof r then Some ([], u, r)
     else do { (i, u, r) \<leftarrow> trace_next u r; (is, u, r) \<leftarrow> read_packets pkt_count u r; Some (i # is, u, r) })"

definition feed_core :: "nat list \<Rightarrow> nat \<Rightarrow> ('m, 'k) simulation \<Rightarrow> ('m, 'k) simulation option" where
  "feed_core trace_index i s = (let e = s_env s; cpu = cpu_view e ! i in do {
     t \<leftarrow> vec_at trace_index (o_cpu cpu);
     r \<leftarrow> vec_at (s_traces s) t;
     (is, u, r) \<leftarrow> read_packets (nat (IN_QUEUE_SIZE cpu - int (length (input_queue cpu)))) (instr_unique_id s) r;
     Some (s\<lparr>s_env := e\<lparr>cpu_view := (cpu_view e)[i := cpu\<lparr>input_queue := input_queue cpu @ is\<rparr>]\<rparr>,
       s_traces := (s_traces s)[t := r], instr_unique_id := u\<rparr>) })"

text \<open>\<open>std::sort\<close> leaves the order of components with the same time open: it is a parameter, a function that returns the
  references in an order of ascending keys.\<close>

type_synonym sorter = "(operable_ref \<Rightarrow> time) \<Rightarrow> operable_ref list \<Rightarrow> operable_ref list"

definition sorts :: "sorter \<Rightarrow> bool" where
  "sorts srt = (\<forall>key rs. mset (srt key rs) = mset rs \<and> sorted (map key (srt key rs)))"

definition operate_step :: "('m, 'k) configured_modules \<Rightarrow> time \<Rightarrow> operable_ref \<Rightarrow> int \<times> ('m, 'k) environment \<Rightarrow> (int \<times> ('m, 'k) environment) option" where
  "operate_step M now r = (\<lambda>(progress, e). map_option (apfst ((+) progress)) (ref_operate_on M now r e))"

definition do_cycle :: "('m, 'k) configured_modules \<Rightarrow> sorter \<Rightarrow> nat list \<Rightarrow> ('m, 'k) simulation \<Rightarrow> (int \<times> ('m, 'k) simulation) option" where
  "do_cycle M srt trace_index s = do {
     let operables = srt (\<lambda>r. ref_current_time r (s_env s)) (operable_view (s_env s));
     (progress, e) \<leftarrow> fold_option (operate_step M (global_clock s)) operables (0, s_env s);
     s \<leftarrow> fold_option (feed_core trace_index) [0..<length (cpu_view e)] (s\<lparr>s_env := e\<rparr>);
     Some (progress, s) }"

section \<open>A phase\<close>

definition DEADLOCK_CYCLE :: nat where "DEADLOCK_CYCLE = 500"
definition livelock_period :: nat where "livelock_period = 10000000"

record phase_info =
  phase_name :: string
  is_warmup :: bool
  phase_length :: int
  trace_index :: "nat list"
  trace_names :: "string list"

record ('m, 'k) phase_state =
  ph_sim :: "('m, 'k) simulation"
  stalled_cycle :: nat
  livelock_timer :: nat
  livelock_instr :: "int list"
  phase_complete :: "bool list"

text \<open>How a cycle, a phase or the simulation ends: it may throw or run into undefined behaviour, abort, or be done.\<close>

datatype 'a outcome = Failed | Aborted | Done 'a

definition sim_instr :: "'m O3_CPU \<Rightarrow> int" where
  "sim_instr c = int (num_retired c) - int (begin_phase_instr c)"

text \<open>A core that retires at most one instruction in a hundred cycles of the period triggers the abort.  (The code
  divides in floating point; the quotient of 100000 by the period is the literal 0.01, and larger numbers give more.)\<close>

definition livelock_step :: "'m O3_CPU \<Rightarrow> int list \<times> bool \<Rightarrow> (int list \<times> bool) option" where
  "livelock_step cpu = (\<lambda>(instr, trigger). do {
     before \<leftarrow> vec_at instr (o_cpu cpu);
     Some (instr[o_cpu cpu := sim_instr cpu], trigger \<or> 100 * (sim_instr cpu - before) \<le> int livelock_period) })"

definition livelock_check :: "('m, 'k) simulation \<Rightarrow> nat \<Rightarrow> int list \<Rightarrow> (nat \<times> int list \<times> bool) option" where
  "livelock_check s timer instr = (if livelock_period \<le> timer + 1
     then map_option (\<lambda>(instr, trigger). (0, instr, trigger)) (fold_option livelock_step (cpu_view (s_env s)) (instr, False))
     else Some (timer + 1, instr, False))"

text \<open>For evaluation the period is an integer.\<close>

lemma livelock_step_code [code]:
  "livelock_step cpu (instr, trigger) = do {
     before \<leftarrow> vec_at instr (o_cpu cpu);
     Some (instr[o_cpu cpu := sim_instr cpu], trigger \<or> 100 * (sim_instr cpu - before) \<le> 10000000) }"
  by (simp add: livelock_step_def livelock_period_def)

lemma livelock_check_code [code]:
  "livelock_check s timer instr = (if 10000000 \<le> int timer + 1
     then map_option (\<lambda>(instr, trigger). (0, instr, trigger)) (fold_option livelock_step (cpu_view (s_env s)) (instr, False))
     else Some (timer + 1, instr, False))"
  by (simp add: livelock_check_def livelock_period_def)

definition complete_step :: "int \<Rightarrow> 'm O3_CPU \<Rightarrow> bool list \<Rightarrow> bool list option" where
  "complete_step len cpu next = do { b \<leftarrow> vec_at next (o_cpu cpu); Some (next[o_cpu cpu := b \<or> len \<le> sim_instr cpu]) }"

definition next_complete :: "int \<Rightarrow> ('m, 'k) simulation \<Rightarrow> bool list \<Rightarrow> bool list option" where
  "next_complete len s old = fold_option (complete_step len) (cpu_view (s_env s))
     (if list_ex reader_eof (s_traces s) then replicate (length old) True else old)"

definition end_step :: "bool list \<Rightarrow> bool list \<Rightarrow> nat \<Rightarrow> ('m, 'k) environment \<Rightarrow> ('m, 'k) environment" where
  "end_step old next i e = (let cpu = o_cpu (cpu_view e ! i) in
     if next ! cpu \<noteq> old ! cpu then fold (ref_end_phase cpu) (operable_view e) e else e)"

definition phase_cycle :: "('m, 'k) configured_modules \<Rightarrow> sorter \<Rightarrow> phase_info \<Rightarrow> time \<Rightarrow> ('m, 'k) phase_state \<Rightarrow> ('m, 'k) phase_state outcome" where
  "phase_cycle M srt p quantum st = (let s = (ph_sim st)\<lparr>global_clock := global_clock (ph_sim st) + quantum\<rparr> in
     case do_cycle M srt (trace_index p) s of None \<Rightarrow> Failed
     | Some (progress, s) \<Rightarrow> (let stalled = (if progress = 0 then stalled_cycle st + 1 else 0) in
       case livelock_check s (livelock_timer st) (livelock_instr st) of None \<Rightarrow> Failed
       | Some (timer, instr, trigger) \<Rightarrow> if DEADLOCK_CYCLE \<le> stalled \<or> trigger then Aborted
         else case next_complete (phase_length p) s (phase_complete st) of None \<Rightarrow> Failed
         | Some next \<Rightarrow> (let e = fold (end_step (phase_complete st) next) [0..<length (cpu_view (s_env s))] (s_env s) in
             Done \<lparr>ph_sim = s\<lparr>s_env := e\<rparr>, stalled_cycle = stalled, livelock_timer = timer, livelock_instr = instr, phase_complete = next\<rparr>)))"

text \<open>\<open>None\<close> is a phase that never ends.\<close>

partial_function (option) phase_loop :: "(('m, 'k) phase_state \<Rightarrow> ('m, 'k) phase_state outcome) \<Rightarrow> ('m, 'k) phase_state \<Rightarrow> ('m, 'k) phase_state outcome option" where
  [code]: "phase_loop cycle st = (if list_all id (phase_complete st) then Some (Done st)
     else case cycle st of Failed \<Rightarrow> Some Failed | Aborted \<Rightarrow> Some Aborted | Done st \<Rightarrow> phase_loop cycle st)"

record phase_stats =
  st_name :: string
  st_trace_names :: "string list"
  roi_cpu_stats :: "cpu_stats list"
  sim_cpu_stats :: "cpu_stats list"
  roi_cache_stats :: "cache_stats list"
  sim_cache_stats :: "cache_stats list"
  roi_dram_stats :: "dram_stats list"
  sim_dram_stats :: "dram_stats list"

definition collect_stats :: "phase_info \<Rightarrow> ('m, 'k) environment \<Rightarrow> phase_stats option" where
  "collect_stats p e = do {
     names \<leftarrow> those (map (vec_at (trace_names p)) (trace_index p));
     Some \<lparr>st_name = phase_name p, st_trace_names = names,
       roi_cpu_stats = map o_roi_stats (cpu_view e), sim_cpu_stats = map o_sim_stats (cpu_view e),
       roi_cache_stats = map c_roi_stats (cache_view e), sim_cache_stats = map c_sim_stats (cache_view e),
       roi_dram_stats = map d_roi_stats (mc_channels (dram_view e)), sim_dram_stats = map d_sim_stats (mc_channels (dram_view e))\<rparr> }"

definition begin_phase :: "phase_info \<Rightarrow> ('m, 'k) simulation \<Rightarrow> ('m, 'k) phase_state" where
  "begin_phase p s = (let e = fold (ref_begin_phase (is_warmup p)) (operable_view (s_env s)) (s_env s); n = length (cpu_view e) in
     \<lparr>ph_sim = s\<lparr>s_env := e\<rparr>, stalled_cycle = 0, livelock_timer = 0, livelock_instr = replicate n 0, phase_complete = replicate n False\<rparr>)"

definition time_quantum :: "('m, 'k) environment \<Rightarrow> time" where
  "time_quantum e = fold (\<lambda>r acc. min acc (ref_clock_period r e)) (operable_view e) (2 ^ 63 - 1)"

fun finish_phase :: "phase_info \<Rightarrow> ('m, 'k) phase_state outcome \<Rightarrow> (phase_stats \<times> ('m, 'k) simulation) outcome" where
  "finish_phase p Failed = Failed"
| "finish_phase p Aborted = Aborted"
| "finish_phase p (Done st) = (case collect_stats p (s_env (ph_sim st)) of None \<Rightarrow> Failed | Some stats \<Rightarrow> Done (stats, ph_sim st))"

definition do_phase :: "('m, 'k) configured_modules \<Rightarrow> sorter \<Rightarrow> phase_info \<Rightarrow> ('m, 'k) simulation \<Rightarrow> (phase_stats \<times> ('m, 'k) simulation) outcome option" where
  "do_phase M srt p s = (let st = begin_phase p s in
     map_option (finish_phase p) (phase_loop (phase_cycle M srt p (time_quantum (s_env (ph_sim st)))) st))"

section \<open>The program\<close>

primrec do_phases :: "('m, 'k) configured_modules \<Rightarrow> sorter \<Rightarrow> phase_info list \<Rightarrow> ('m, 'k) simulation
    \<Rightarrow> (phase_stats list \<times> ('m, 'k) simulation) outcome option" where
  "do_phases M srt [] s = Some (Done ([], s))"
| "do_phases M srt (p # ps) s = (case do_phase M srt p s of None \<Rightarrow> None | Some Failed \<Rightarrow> Some Failed | Some Aborted \<Rightarrow> Some Aborted
     | Some (Done (stats, s)) \<Rightarrow> map_option (\<lambda>out. case out of Failed \<Rightarrow> Failed | Aborted \<Rightarrow> Aborted
         | Done (results, s) \<Rightarrow> Done (if is_warmup p then results else stats # results, s)) (do_phases M srt ps s))"

definition champsim_main :: "('m, 'k) configured_modules \<Rightarrow> sorter \<Rightarrow> ('m, 'k) environment \<Rightarrow> phase_info list \<Rightarrow> trace_reader list
    \<Rightarrow> (phase_stats list \<times> ('m, 'k) simulation) outcome option" where
  "champsim_main M srt env phases traces = do_phases M srt phases
     \<lparr>s_env = fold (ref_initialize M) (operable_view env) env, s_traces = traces, instr_unique_id = 0, global_clock = 0\<rparr>"

text \<open>The command line: the instructions of the warmup and of the measured phase, where given, and the traces with their names.\<close>

definition setup_traces :: "int option \<Rightarrow> input_instr list list \<Rightarrow> trace_reader list" where
  "setup_traces simulation_instructions traces =
     map (\<lambda>(i, ts). get_tracereader ts (of_nat i) (simulation_instructions \<noteq> None)) (zip [0..<length traces] traces)"

definition setup_phases :: "int option \<Rightarrow> int option \<Rightarrow> string list \<Rightarrow> phase_info list" where
  "setup_phases warmup_instructions simulation_instructions names = (let
     simulation = (case simulation_instructions of Some n \<Rightarrow> n | None \<Rightarrow> 2 ^ 63 - 1);
     warmup = (case warmup_instructions of Some n \<Rightarrow> n
       | None \<Rightarrow> (case simulation_instructions of Some n \<Rightarrow> n sdiv 5 | None \<Rightarrow> 0));
     index = [0..<length names]
   in [\<lparr>phase_name = ''Warmup'', is_warmup = True, phase_length = warmup, trace_index = index, trace_names = names\<rparr>,
       \<lparr>phase_name = ''Simulation'', is_warmup = False, phase_length = simulation, trace_index = index, trace_names = names\<rparr>])"

definition run_program :: "('m, 'k) configured_modules \<Rightarrow> sorter \<Rightarrow> ('m, 'k) environment \<Rightarrow> int option \<Rightarrow> int option \<Rightarrow> (string \<times> input_instr list) list
    \<Rightarrow> (phase_stats list \<times> ('m, 'k) simulation) outcome option" where
  "run_program M srt env warmup_instructions simulation_instructions traces = champsim_main M srt env
     (setup_phases warmup_instructions simulation_instructions (map fst traces)) (setup_traces simulation_instructions (map snd traces))"

end
