(* ===== verification/Simulation_Correctness.thy ===== *)
theory Simulation_Correctness
  imports Simulation Core_Modules
begin

text \<open>
  What the driver guarantees: a phase always comes to an end, a phase that is done has retired its instructions on every
  core or has used up a trace, the components keep up with the global clock, and the cores retire their traces in order.
\<close>

section \<open>Cores in order\<close>

text \<open>The instructions in flight are the last ones of those that were fed.\<close>

definition in_order :: "nat list \<Rightarrow> 'm O3_CPU \<Rightarrow> bool" where
  "in_order f c = (num_retired c \<le> length f \<and> in_flight c = drop (num_retired c) f)"

text \<open>What the cycles of a core do to it.\<close>

definition advances :: "'m O3_CPU \<Rightarrow> 'm O3_CPU \<Rightarrow> bool" where
  "advances c c' = (o_cpu c' = o_cpu c \<and> begin_phase_instr c' = begin_phase_instr c \<and> IN_QUEUE_SIZE c' = IN_QUEUE_SIZE c
     \<and> num_retired c \<le> num_retired c' \<and> length (input_queue c') \<le> length (input_queue c)
     \<and> (\<forall>f. sorted_wrt (<) f \<longrightarrow> in_order f c \<longrightarrow> in_order f c'))"

lemma advances_refl [simp]: "advances c c" by (simp add: advances_def)

lemma advances_trans [trans]: "advances a b \<Longrightarrow> advances b c \<Longrightarrow> advances a c"
  by (auto simp: advances_def)

text \<open>Updates of what neither the order nor the counters depend on.\<close>

lemma same_advances:
  assumes "core_fixed c' = (t, u, v, o_cpu c, IN_QUEUE_SIZE c, begin_phase_instr c)" "num_retired c' = num_retired c"
    "input_queue c' = input_queue c" "in_flight c' = in_flight c"
  shows "advances c c'"
  using assms by (auto simp: advances_def core_fixed_def in_order_def)

lemma tick_advances:
  assumes t: "core_tick h c = Some (n, c')"
  shows "advances c c'"
proof -
  let ?c = "c\<lparr>o_current_time := o_current_time c + o_clock_period c\<rparr>"
  have fl: "in_flight ?c = in_flight c" by (simp add: in_flight_def)
  have "in_order f c'" if "sorted_wrt (<) f" "in_order f c" for f
  proof -
    have s: "sorted_wrt (<) (in_flight ?c)" using that fl by (simp add: in_order_def sorted_wrt_drop)
    have o: "core_operate h ?c = Some (n, c')" using t by (simp add: core_tick_def)
    obtain k where "num_retired c' = num_retired c + k" "in_flight c' = drop k (in_flight c)" "k \<le> length (in_flight c)"
      using core_operate_order[OF o s] fl by auto
    then show ?thesis using that(2) by (auto simp: in_order_def add.commute)
  qed
  then show ?thesis using core_tick_fixed[OF t] by (auto simp: advances_def core_fixed_def)
qed

lemma operate_on_advances: "operate_on o_current_time (core_tick h) now c = Some (n, c') \<Longrightarrow> advances c c'"
  by (erule core_operable.operate_on_invariant[where P = "advances c"]) (auto intro: advances_trans tick_advances)

lemma load_core_advances: "advances (cpu_view e ! i) (load_core i e)"
  by (rule same_advances) (simp_all add: load_core_def Let_def in_flight_def core_fixed_def)

lemma end_phase_advances: "advances c (core_end_phase cpu c)"
  by (rule same_advances) (simp_all add: core_end_phase_def on_cpu_stats_def Let_def in_flight_def core_fixed_def)

lemma core_begin_phase_cpu [simp]: "o_cpu (core_begin_phase c) = o_cpu c"
  by (simp add: core_begin_phase_def)

lemma core_begin_phase_order: "in_order f (core_begin_phase (c\<lparr>o_warmup := w\<rparr>)) = in_order f c"
  by (simp add: in_order_def core_begin_phase_def in_flight_def)

section \<open>Frames of the environment\<close>

text \<open>The parts of the environment that never change: how many components there are and how they are connected.\<close>

definition env_shape :: "('m, 'k) environment \<Rightarrow> nat \<times> nat \<times> nat" where
  "env_shape e = (length (cpu_view e), length (cache_view e), length (ptw_view e))"

lemma operable_view_shape: "env_shape e' = env_shape e \<Longrightarrow> operable_view e' = operable_view e"
  by (simp add: env_shape_def operable_view_def)

abbreviation cores_advance :: "('m, 'k) environment \<Rightarrow> ('m, 'k) environment \<Rightarrow> bool" where
  "cores_advance e e' \<equiv> list_all2 advances (cpu_view e) (cpu_view e')"

lemma list_all2_update: "(\<And>x. R x x) \<Longrightarrow> (i < length xs \<Longrightarrow> R (xs ! i) y) \<Longrightarrow> list_all2 R xs (xs[i := y])"
  by (cases "i < length xs") (auto simp: list_all2_conv_all_nth nth_list_update)

lemma cores_advance_refl [simp]: "cores_advance e e"
  by (simp add: list.rel_refl)

lemma cores_advance_trans [trans]: "cores_advance a b \<Longrightarrow> cores_advance b c \<Longrightarrow> cores_advance a c"
  by (rule list_all2_trans[of advances advances advances]) (auto intro: advances_trans)

lemmas stores = store_core_def store_cache_def store_ptw_def store_dram_def Let_def

lemma ref_operate_frame:
  assumes "ref_operate_on M now r e = Some (n, e')"
  shows "cores_advance e e' \<and> env_shape e' = env_shape e"
proof (cases r)
  case (Cpu i)
  then obtain c where "operate_on o_current_time (core_tick (core_hooks_at M i)) now (load_core i e) = Some (n, c)" "e' = store_core i c e"
    using assms by auto
  moreover from this(1) have "advances (cpu_view e ! i) c" by (rule advances_trans[OF load_core_advances operate_on_advances])
  ultimately show ?thesis by (auto simp: stores env_shape_def intro!: list_all2_update)
qed (use assms in \<open>auto simp: stores env_shape_def list.rel_refl split: prod.splits\<close>)

lemma operate_all_frame:
  assumes "fold_option (operate_step M now) rs (p, e) = Some (q, e')"
  shows "cores_advance e e' \<and> env_shape e' = env_shape e"
proof -
  have "cores_advance e (snd (q, e')) \<and> env_shape (snd (q, e')) = env_shape e"
    by (rule fold_option_invariant[OF assms, where P = "\<lambda>x. cores_advance e (snd x) \<and> env_shape (snd x) = env_shape e"])
      (auto simp: operate_step_def dest!: ref_operate_frame intro: cores_advance_trans)
  then show ?thesis by simp
qed

lemma ref_end_phase_frame: "cores_advance e (ref_end_phase cpu r e) \<and> env_shape (ref_end_phase cpu r e) = env_shape e"
  by (cases r) (auto simp: stores env_shape_def list.rel_refl end_phase_advances intro!: list_all2_update)

lemma end_all_frame: "cores_advance e (fold (ref_end_phase cpu) rs e) \<and> env_shape (fold (ref_end_phase cpu) rs e) = env_shape e"
  by (induction rs arbitrary: e) (use ref_end_phase_frame cores_advance_trans in \<open>auto, blast\<close>)

lemma end_steps_frame: "cores_advance e (fold (end_step old next) is e) \<and> env_shape (fold (end_step old next) is e) = env_shape e"
proof (induction "is" arbitrary: e)
  case (Cons i "is")
  have "cores_advance e (end_step old next i e) \<and> env_shape (end_step old next i e) = env_shape e"
    using end_all_frame by (auto simp: end_step_def Let_def)
  then show ?case using Cons.IH[of "end_step old next i e"] cores_advance_trans by auto
qed simp


section \<open>Counting instructions\<close>

definition counts_on :: "('m, 'k) environment \<Rightarrow> ('m, 'k) environment \<Rightarrow> bool" where
  "counts_on e e' = (env_shape e' = env_shape e
     \<and> list_all2 (\<lambda>c c'. o_cpu c' = o_cpu c \<and> begin_phase_instr c' = begin_phase_instr c \<and> num_retired c \<le> num_retired c') (cpu_view e) (cpu_view e'))"

lemma counts_on_refl [simp]: "counts_on e e" by (simp add: counts_on_def list.rel_refl)

lemma counts_on_trans [trans]: "counts_on a b \<Longrightarrow> counts_on b c \<Longrightarrow> counts_on a c"
  unfolding counts_on_def by (elim conjE, intro conjI, simp) (erule (1) list_all2_trans[rotated], auto)

lemma advance_counts: "cores_advance e e' \<and> env_shape e' = env_shape e \<Longrightarrow> counts_on e e'"
  by (auto simp: counts_on_def advances_def list_all2_conv_all_nth)

lemma feed_core_counts: "feed_core ti i s = Some s' \<Longrightarrow> counts_on (s_env s) (s_env s') \<and> global_clock s' = global_clock s"
  by (auto simp: feed_core_def Let_def bind_eq_Some_conv counts_on_def env_shape_def intro!: list_all2_update)

lemma feed_all_counts:
  assumes "fold_option (feed_core ti) is s = Some s'"
  shows "counts_on (s_env s) (s_env s') \<and> global_clock s' = global_clock s"
  by (rule fold_option_invariant[OF assms, where P = "\<lambda>x. counts_on (s_env s) (s_env x) \<and> global_clock x = global_clock s"])
    (auto dest!: feed_core_counts intro: counts_on_trans)

lemma do_cycle_counts: "do_cycle M srt ti s = Some (n, s') \<Longrightarrow> counts_on (s_env s) (s_env s') \<and> global_clock s' = global_clock s"
  by (auto simp: do_cycle_def bind_eq_Some_conv Let_def dest!: feed_all_counts operate_all_frame[THEN advance_counts] intro: counts_on_trans)

lemma counts_on_simple: "counts_on e e' \<Longrightarrow> length (cpu_view e') = length (cpu_view e) \<and> map o_cpu (cpu_view e') = map o_cpu (cpu_view e)
    \<and> (\<forall>i < length (cpu_view e). sim_instr (cpu_view e ! i) \<le> sim_instr (cpu_view e' ! i))"
  by (auto simp: counts_on_def list_all2_conv_all_nth sim_instr_def intro: nth_equalityI)

lemma sim_instr_end_phase [simp]: "sim_instr (core_end_phase cpu c) = sim_instr c"
  by (simp add: core_end_phase_def on_cpu_stats_def Let_def sim_instr_def)

lemma end_phase_instr: "map sim_instr (cpu_view (ref_end_phase cpu r e)) = map sim_instr (cpu_view e)"
proof (cases r)
  case (Cpu i)
  then show ?thesis by (cases "i < length (cpu_view e)") (simp_all add: map_update_same list_update_beyond)
qed (simp_all add: stores)

lemma end_steps_instr: "map sim_instr (cpu_view (fold (end_step old next) is e)) = map sim_instr (cpu_view e)"
proof (induction "is" arbitrary: e)
  case (Cons i "is")
  have "map sim_instr (cpu_view (fold (ref_end_phase cpu) rs d)) = map sim_instr (cpu_view d)" for cpu rs and d :: "('a, 'b) environment"
    by (induction rs arbitrary: d) (simp_all add: end_phase_instr)
  then have "map sim_instr (cpu_view (end_step old next i e)) = map sim_instr (cpu_view e)" by (simp add: end_step_def Let_def)
  then show ?case using Cons.IH by simp
qed simp

section \<open>The phase ends\<close>

lemma livelock_fold:
  assumes "map o_cpu cs = [k..<k + length cs]" "k + length cs = length instr"
  shows "fold_option livelock_step cs (instr, b) = Some (take k instr @ map sim_instr cs,
    b \<or> (\<exists>j < length cs. 100 * (sim_instr (cs ! j) - instr ! (k + j)) \<le> int livelock_period))"
  using assms
proof (induction cs arbitrary: k instr b)
  case (Cons c cs)
  from Cons.prems have c: "o_cpu c = k" "map o_cpu cs = [Suc k..<Suc k + length cs]" by (simp_all add: upt_conv_Cons del: upt_Suc)
  have "take (Suc k) (instr[k := sim_instr c]) = take k instr @ [sim_instr c]" using Cons.prems(2) by (simp add: take_Suc_conv_app_nth)
  moreover have "(\<exists>j < Suc (length cs). Q j) \<longleftrightarrow> Q 0 \<or> (\<exists>j < length cs. Q (Suc j))" for Q by (rule Ex_less_Suc2)
  ultimately show ?case using Cons.IH[OF c(2), of "instr[k := sim_instr c]"] Cons.prems(2) c(1)
    by (simp add: livelock_step_def vec_at_def)
qed simp

lemma complete_fold:
  assumes "map o_cpu cs = [k..<k + length cs]" "k + length cs = length next"
  shows "\<exists>next'. fold_option (complete_step len) cs next = Some next' \<and> length next' = length next
    \<and> (\<forall>i < length next. next' ! i \<longleftrightarrow> next ! i \<or> k \<le> i \<and> len \<le> sim_instr (cs ! (i - k)))"
  using assms
proof (induction cs arbitrary: k "next")
  case (Cons c cs)
  from Cons.prems have c: "o_cpu c = k" "map o_cpu cs = [Suc k..<Suc k + length cs]" by (simp_all add: upt_conv_Cons del: upt_Suc)
  let ?next = "next[k := next ! k \<or> len \<le> sim_instr c]"
  obtain n' where n': "fold_option (complete_step len) cs ?next = Some n'" "length n' = length ?next"
    "\<forall>i < length ?next. n' ! i \<longleftrightarrow> ?next ! i \<or> Suc k \<le> i \<and> len \<le> sim_instr (cs ! (i - Suc k))"
    using Cons.IH[OF c(2), of ?next] Cons.prems(2) by fastforce
  have "n' ! i \<longleftrightarrow> next ! i \<or> k \<le> i \<and> len \<le> sim_instr ((c # cs) ! (i - k))" if "i < length next" for i
    using n'(3) that Cons.prems(2) by (cases "i = k") (auto simp: nth_Cons' nth_list_update)
  moreover have "complete_step len c next = Some ?next" using Cons.prems(2) c(1) by (simp add: complete_step_def vec_at_def)
  ultimately show ?case using n'(1,2) by (intro exI[of _ n']) simp
qed simp

lemma next_complete_fold:
  assumes "map o_cpu (cpu_view (s_env s)) = [0..<length (cpu_view (s_env s))]" "length old = length (cpu_view (s_env s))"
  shows "\<exists>next'. next_complete len s old = Some next' \<and> length next' = length (cpu_view (s_env s))
    \<and> (\<forall>i < length (cpu_view (s_env s)). next' ! i \<longleftrightarrow> list_ex reader_eof (s_traces s) \<or> old ! i \<or> len \<le> sim_instr (cpu_view (s_env s) ! i))"
  using complete_fold[of "cpu_view (s_env s)" 0 "replicate (length old) True" len]
    complete_fold[of "cpu_view (s_env s)" 0 old len] assms
  by (cases "list_ex reader_eof (s_traces s)") (simp_all add: next_complete_def)

definition phase_ok :: "('m, 'k) phase_state \<Rightarrow> bool" where
  "phase_ok st = (let cs = cpu_view (s_env (ph_sim st)) in map o_cpu cs = [0..<length cs] \<and> length (livelock_instr st) = length cs
     \<and> length (phase_complete st) = length cs \<and> livelock_timer st < livelock_period \<and> (\<forall>i < length cs. livelock_instr st ! i \<le> sim_instr (cs ! i)))"

text \<open>What a cycle that does not stop the simulation has done.\<close>

lemma phase_cycle_done:
  assumes d: "phase_cycle M srt p quantum st = Done st'" and ok: "phase_ok st"
  defines "cs \<equiv> cpu_view (s_env (ph_sim st'))"
  shows "phase_ok st'" and "counts_on (s_env (ph_sim st)) (s_env (ph_sim st'))"
    and "global_clock (ph_sim st') = global_clock (ph_sim st) + quantum"
    and "livelock_timer st' = Suc (livelock_timer st) \<and> livelock_instr st' = livelock_instr st
       \<or> Suc (livelock_timer st) = livelock_period \<and> livelock_timer st' = 0
         \<and> (\<forall>i < length cs. livelock_instr st ! i + 100001 \<le> livelock_instr st' ! i)"
    and "\<forall>i < length cs. phase_complete st' ! i \<longleftrightarrow>
       list_ex reader_eof (s_traces (ph_sim st')) \<or> phase_complete st ! i \<or> phase_length p \<le> sim_instr (cs ! i)"
proof -
  let ?s0 = "(ph_sim st)\<lparr>global_clock := global_clock (ph_sim st) + quantum\<rparr>"
  obtain n s where c: "do_cycle M srt (trace_index p) ?s0 = Some (n, s)"
    using d by (auto simp: phase_cycle_def Let_def split: option.splits)
  obtain timer instr where l: "livelock_check s (livelock_timer st) (livelock_instr st) = Some (timer, instr, False)"
    using d c by (auto simp: phase_cycle_def Let_def split: option.splits if_splits)
  obtain "next" where x: "next_complete (phase_length p) s (phase_complete st) = Some next"
    using d c l by (auto simp: phase_cycle_def Let_def split: option.splits if_splits)
  let ?e = "fold (end_step (phase_complete st) next) [0..<length (cpu_view (s_env s))] (s_env s)"
  have st': "ph_sim st' = s\<lparr>s_env := ?e\<rparr>" "livelock_timer st' = timer" "livelock_instr st' = instr" "phase_complete st' = next"
    using d c l x by (auto simp: phase_cycle_def Let_def split: if_splits)
  have k1: "counts_on (s_env (ph_sim st)) (s_env s)" and g: "global_clock s = global_clock (ph_sim st) + quantum"
    using do_cycle_counts[OF c] by simp_all
  have k2: "counts_on (s_env s) ?e" by (rule advance_counts[OF end_steps_frame])
  show k: "counts_on (s_env (ph_sim st)) (s_env (ph_sim st'))" using counts_on_trans[OF k1 k2] by (simp add: st')
  show "global_clock (ph_sim st') = global_clock (ph_sim st) + quantum" by (simp add: st' g)
  let ?n = "length (cpu_view (s_env s))"
  have n: "length cs = ?n" using counts_on_simple[OF k2] by (simp add: cs_def st')
  have ids: "map o_cpu (cpu_view (s_env s)) = [0..<?n]" and len: "length (livelock_instr st) = ?n" "length (phase_complete st) = ?n"
    and low: "\<forall>i < ?n. livelock_instr st ! i \<le> sim_instr (cpu_view (s_env s) ! i)"
    using ok counts_on_simple[OF k1] by (auto simp: phase_ok_def Let_def intro: order_trans)
  have same: "sim_instr (cs ! i) = sim_instr (cpu_view (s_env s) ! i)" if "i < ?n" for i
  proof -
    have "map sim_instr cs = map sim_instr (cpu_view (s_env s))" by (simp add: cs_def st' end_steps_instr)
    then show ?thesis using that n by (metis nth_map)
  qed
  have lf: "fold_option livelock_step (cpu_view (s_env s)) (livelock_instr st, False) = Some (map sim_instr (cpu_view (s_env s)),
      \<exists>j < ?n. 100 * (sim_instr (cpu_view (s_env s) ! j) - livelock_instr st ! j) \<le> int livelock_period)"
    using livelock_fold[of "cpu_view (s_env s)" 0 "livelock_instr st" False] ids len(1) by simp
  have t: "timer = Suc (livelock_timer st) \<and> timer < livelock_period \<and> instr = livelock_instr st
       \<or> Suc (livelock_timer st) = livelock_period \<and> timer = 0 \<and> instr = map sim_instr (cpu_view (s_env s))
         \<and> (\<forall>i < ?n. livelock_instr st ! i + 100001 \<le> sim_instr (cpu_view (s_env s) ! i))"
    using l ok by (auto simp: livelock_check_def lf phase_ok_def Let_def livelock_period_def not_le split: if_splits)
  then show "livelock_timer st' = Suc (livelock_timer st) \<and> livelock_instr st' = livelock_instr st
       \<or> Suc (livelock_timer st) = livelock_period \<and> livelock_timer st' = 0
         \<and> (\<forall>i < length cs. livelock_instr st ! i + 100001 \<le> livelock_instr st' ! i)"
    by (auto simp: st' n)
  obtain n' where n': "next_complete (phase_length p) s (phase_complete st) = Some n'" "length n' = ?n"
    "\<forall>i < ?n. n' ! i \<longleftrightarrow> list_ex reader_eof (s_traces s) \<or> phase_complete st ! i \<or> phase_length p \<le> sim_instr (cpu_view (s_env s) ! i)"
    using next_complete_fold[OF ids len(2)] by blast
  then have "next = n'" using x by simp
  then show "\<forall>i < length cs. phase_complete st' ! i \<longleftrightarrow>
       list_ex reader_eof (s_traces (ph_sim st')) \<or> phase_complete st ! i \<or> phase_length p \<le> sim_instr (cs ! i)"
    using n' same by (simp add: st' n)
  have "map o_cpu cs = [0..<length cs]" using counts_on_simple[OF k2] ids n by (simp add: cs_def st')
  then show "phase_ok st'" using t n' \<open>next = n'\<close> low same len n
    by (auto simp: phase_ok_def Let_def st'(2-4) cs_def[symmetric] livelock_period_def)
qed


text \<open>What every cycle keeps holds when the phase is done.\<close>

lemma phase_loop_done:
  assumes "phase_loop cyc st = Some (Done st')" and "I st" and "\<And>s s'. I s \<Longrightarrow> \<not> list_all id (phase_complete s) \<Longrightarrow> cyc s = Done s' \<Longrightarrow> I s'"
  shows "I st' \<and> list_all id (phase_complete st')"
proof -
  have "cyc = cyc \<longrightarrow> I st \<longrightarrow> (\<forall>s. Done st' = Done s \<longrightarrow> I s \<and> list_all id (phase_complete s))"
  proof (rule phase_loop.raw_induct[where P = "\<lambda>c st r. c = cyc \<longrightarrow> I st \<longrightarrow> (\<forall>s. r = Done s \<longrightarrow> I s \<and> list_all id (phase_complete s))", OF _ assms(1)],
      intro impI allI)
    fix rec :: "(('a, 'b) phase_state \<Rightarrow> ('a, 'b) phase_state outcome) \<Rightarrow> ('a, 'b) phase_state \<Rightarrow> ('a, 'b) phase_state outcome option" and c st r s
    assume IH: "\<And>c st r. rec c st = Some r \<Longrightarrow> c = cyc \<longrightarrow> I st \<longrightarrow> (\<forall>s. r = Done s \<longrightarrow> I s \<and> list_all id (phase_complete s))"
      and body: "(if list_all id (phase_complete st) then Some (Done st)
        else case c st of Failed \<Rightarrow> Some Failed | Aborted \<Rightarrow> Some Aborted | Done st \<Rightarrow> rec c st) = Some r"
      and c: "c = cyc" and I: "I st" and r: "r = Done s"
    show "I s \<and> list_all id (phase_complete s)"
      using body I r IH assms(3)[OF I] c by (fastforce split: if_splits outcome.splits)
  qed
  then show ?thesis using assms(2) by simp
qed


lemma list_all_id: "list_all id xs \<longleftrightarrow> (\<forall>i < length xs. xs ! i)"
  by (simp add: list_all_length)



section \<open>The start of a phase\<close>

lemma begin_others: "(\<And>i. Cpu i \<notin> set rs) \<Longrightarrow> cpu_view (fold (ref_begin_phase w) rs e) = cpu_view e"
proof (induction rs arbitrary: e)
  case (Cons r rs)
  then show ?case by (cases r) (auto simp: stores)
qed simp

lemma begin_cpus: "k \<le> length (cpu_view e) \<Longrightarrow> cpu_view (fold (ref_begin_phase w) (map Cpu [0..<k]) e)
    = map (\<lambda>c. core_begin_phase (c\<lparr>o_warmup := w\<rparr>)) (take k (cpu_view e)) @ drop k (cpu_view e)"
proof (induction k)
  case (Suc k)
  then show ?case by (simp add: nth_append take_Suc_conv_app_nth list_update_append Cons_nth_drop_Suc[symmetric])
qed simp

lemma begin_cpu_view: "cpu_view (fold (ref_begin_phase w) (operable_view e) e) = map (\<lambda>c. core_begin_phase (c\<lparr>o_warmup := w\<rparr>)) (cpu_view e)"
proof -
  let ?os = "map Cache [0..<length (cache_view e)] @ map Ptw [0..<length (ptw_view e)] @ [Dram]"
  have "cpu_view (fold (ref_begin_phase w) (operable_view e) e) = cpu_view (fold (ref_begin_phase w) ?os (fold (ref_begin_phase w) (map Cpu [0..<length (cpu_view e)]) e))"
    by (simp only: operable_view_def fold_append comp_def)
  also have "\<dots> = cpu_view (fold (ref_begin_phase w) (map Cpu [0..<length (cpu_view e)]) e)" by (rule begin_others) auto
  finally show ?thesis by (simp add: begin_cpus)
qed

lemma begin_phase_ok:
  assumes "map o_cpu (cpu_view (s_env s)) = [0..<length (cpu_view (s_env s))]"
  shows "phase_ok (begin_phase p s)"
proof -
  have "sim_instr (core_begin_phase (c\<lparr>o_warmup := w\<rparr>)) = 0" for c :: "'a O3_CPU" and w by (simp add: sim_instr_def core_begin_phase_def)
  then show ?thesis using assms by (simp add: begin_phase_def phase_ok_def Let_def begin_cpu_view livelock_period_def comp_def)
qed


abbreviation cores_numbered :: "('m, 'k) environment \<Rightarrow> bool" where
  "cores_numbered e \<equiv> map o_cpu (cpu_view e) = [0..<length (cpu_view e)]"

lemma begin_phase_simps:
  "stalled_cycle (begin_phase p s) = 0" "livelock_timer (begin_phase p s) = 0" "s_traces (ph_sim (begin_phase p s)) = s_traces s"
  "global_clock (ph_sim (begin_phase p s)) = global_clock s" "instr_unique_id (ph_sim (begin_phase p s)) = instr_unique_id s"
  "cpu_view (s_env (ph_sim (begin_phase p s))) = map (\<lambda>c. core_begin_phase (c\<lparr>o_warmup := is_warmup p\<rparr>)) (cpu_view (s_env s))"
  "livelock_instr (begin_phase p s) = replicate (length (cpu_view (s_env s))) 0"
  "phase_complete (begin_phase p s) = replicate (length (cpu_view (s_env s))) False"
  by (simp_all add: begin_phase_def Let_def begin_cpu_view)

lemma finish_phase_Done: "finish_phase p r = Done (stats, s') \<longleftrightarrow> (\<exists>st. r = Done st \<and> s' = ph_sim st \<and> collect_stats p (s_env s') = Some stats)"
  by (cases r) (auto split: option.splits)

lemma do_phase_done:
  assumes "do_phase M srt p s = Some (Done (stats, s'))"
  obtains st where "phase_loop (phase_cycle M srt p (time_quantum (s_env (ph_sim (begin_phase p s))))) (begin_phase p s) = Some (Done st)"
    and "s' = ph_sim st"
  using assms by (auto simp: do_phase_def Let_def finish_phase_Done)


text \<open>What a phase that is done has done.\<close>

definition trace_ended :: "('m, 'k) simulation \<Rightarrow> bool" where
  "trace_ended s = list_ex reader_eof (s_traces s)"

lemma do_phase_counts:
  assumes "do_phase M srt p s = Some (Done (stats, s'))" and "cores_numbered (s_env s)"
  shows "counts_on (s_env (ph_sim (begin_phase p s))) (s_env s') \<and> cores_numbered (s_env s')
    \<and> (trace_ended s' \<or> (\<forall>i < length (cpu_view (s_env s')). phase_length p \<le> sim_instr (cpu_view (s_env s') ! i)))"
proof -
  let ?cs = "\<lambda>st :: ('a, 'b) phase_state. cpu_view (s_env (ph_sim st))"
  let ?full = "\<lambda>st. \<forall>i < length (?cs st). phase_complete st ! i \<longrightarrow> phase_length p \<le> sim_instr (?cs st ! i)"
  let ?I = "\<lambda>st. phase_ok st \<and> counts_on (s_env (ph_sim (begin_phase p s))) (s_env (ph_sim st))
    \<and> (trace_ended (ph_sim st) \<and> list_all id (phase_complete st) \<or> ?full st)"
  obtain st where st: "phase_loop (phase_cycle M srt p (time_quantum (s_env (ph_sim (begin_phase p s))))) (begin_phase p s) = Some (Done st)"
    and s': "s' = ph_sim st" using do_phase_done[OF assms(1)] .
  have "?I st \<and> list_all id (phase_complete st)"
  proof (rule phase_loop_done[OF st, where I = ?I])
    show "?I (begin_phase p s)" using begin_phase_ok[OF assms(2), of p] by (simp add: begin_phase_simps)
    fix t t' assume I: "?I t" and n: "\<not> list_all id (phase_complete t)"
      and d: "phase_cycle M srt p (time_quantum (s_env (ph_sim (begin_phase p s)))) t = Done t'"
    note f = phase_cycle_done[OF d conjunct1[OF I]]
    note c = counts_on_simple[OF f(2)]
    have len: "length (phase_complete t') = length (?cs t')" using f(1) by (simp add: phase_ok_def Let_def)
    have "?full t" using I n by blast
    then have "\<forall>i < length (?cs t'). phase_complete t ! i \<longrightarrow> phase_length p \<le> sim_instr (?cs t' ! i)" using c by (auto intro: order_trans)
    then have "trace_ended (ph_sim t') \<and> list_all id (phase_complete t') \<or> ?full t'"
      using f(5) len by (auto simp: trace_ended_def list_all_id)
    then show "?I t'" using f(1,2) I counts_on_trans by blast
  qed
  then show ?thesis by (auto simp: s' phase_ok_def Let_def list_all_id)
qed

section \<open>Ended traces\<close>

lemma ended_reads_nothing: "reader_eof r \<Longrightarrow> read_packets n u r = Some ([], u, r)"
  by (cases n) simp_all

lemma feed_core_ended: "feed_core ti i s = Some s' \<Longrightarrow> trace_ended s \<Longrightarrow> trace_ended s'"
proof -
  assume f: "feed_core ti i s = Some s'" and e: "trace_ended s"
  obtain t r n "is" u r' where r: "t < length (s_traces s)" "r = s_traces s ! t" "read_packets n (instr_unique_id s) r = Some (is, u, r')"
    and s': "s_traces s' = (s_traces s)[t := r']"
    using f by (auto simp: feed_core_def Let_def bind_eq_Some_conv vec_at_def split: if_splits)
  obtain j where j: "j < length (s_traces s)" "reader_eof (s_traces s ! j)" using e by (auto simp: trace_ended_def list_ex_length)
  have "reader_eof (s_traces s' ! j)" using j r s' by (cases "j = t") (auto simp: ended_reads_nothing)
  then show ?thesis using j(1) s' by (auto simp: trace_ended_def list_ex_length)
qed

lemma do_cycle_ended: "do_cycle M srt ti s = Some (n, s') \<Longrightarrow> trace_ended s \<Longrightarrow> trace_ended s'"
proof -
  assume a: "do_cycle M srt ti s = Some (n, s')" "trace_ended s"
  then obtain e where "fold_option (feed_core ti) [0..<length (cpu_view e)] (s\<lparr>s_env := e\<rparr>) = Some s'"
    by (auto simp: do_cycle_def bind_eq_Some_conv Let_def)
  moreover have "trace_ended (s\<lparr>s_env := e\<rparr>)" using a(2) by (simp add: trace_ended_def)
  ultimately show ?thesis by (rule fold_option_invariant[where P = trace_ended]) (rule feed_core_ended)
qed

lemma phase_cycle_ended: "phase_cycle M srt p q st = Done st' \<Longrightarrow> trace_ended (ph_sim st) \<Longrightarrow> trace_ended (ph_sim st')"
  by (auto simp: phase_cycle_def Let_def trace_ended_def split: option.splits if_splits dest!: do_cycle_ended[unfolded trace_ended_def])

section \<open>Properties of phases\<close>


text \<open>C6. When a phase is done, every core has retired the instructions of the phase, or a trace has ended.\<close>

theorem phase_retires_instructions:
  assumes "do_phase M srt p s = Some (Done (stats, s'))" and "map o_cpu (cpu_view (s_env s)) = [0..<length (cpu_view (s_env s))]"
  shows "trace_ended s' \<or> (\<forall>i < length (cpu_view (s_env s)).
    int (num_retired (cpu_view (s_env s) ! i)) + phase_length p \<le> int (num_retired (cpu_view (s_env s') ! i)))"
proof -
  note c = do_phase_counts[OF assms]
  have "sim_instr (cpu_view (s_env s') ! i) = int (num_retired (cpu_view (s_env s') ! i)) - int (num_retired (cpu_view (s_env s) ! i))"
    if "i < length (cpu_view (s_env s))" for i
    using that conjunct1[OF c] by (auto simp: counts_on_def list_all2_conv_all_nth begin_phase_simps sim_instr_def core_begin_phase_def)
  moreover have "length (cpu_view (s_env s')) = length (cpu_view (s_env s))"
    using counts_on_simple[OF conjunct1[OF c]] by (simp add: begin_phase_simps)
  ultimately show ?thesis using conjunct2[OF c] by auto
qed

text \<open>C8. Once a trace has ended, every further phase is a single cycle, whatever its length: after a warmup that uses
  up a trace nothing is measured.\<close>

theorem ended_trace_ends_phase:
  assumes "do_phase M srt p s = Some (Done (stats, s'))" and "map o_cpu (cpu_view (s_env s)) = [0..<length (cpu_view (s_env s))]"
    and "list_ex reader_eof (s_traces s)" and "cpu_view (s_env s) \<noteq> []"
  shows "global_clock s' = global_clock s + time_quantum (s_env (ph_sim (begin_phase p s)))"
proof -
  let ?st = "begin_phase p s" let ?c = "phase_cycle M srt p (time_quantum (s_env (ph_sim ?st)))"
  obtain st where st: "phase_loop ?c ?st = Some (Done st)" and s': "s' = ph_sim st" using do_phase_done[OF assms(1)] .
  have "\<not> list_all id (phase_complete ?st)" using assms(4) by (auto simp: begin_phase_simps list_all_id intro: exI[of _ 0])
  then obtain st1 where d: "?c ?st = Done st1" and l: "phase_loop ?c st1 = Some (Done st)"
    using st by (subst (asm) phase_loop.simps) (auto split: outcome.splits)
  note f = phase_cycle_done[OF d begin_phase_ok[OF assms(2)]]
  have "trace_ended (ph_sim st1)" by (rule phase_cycle_ended[OF d]) (use assms(3) in \<open>simp add: trace_ended_def begin_phase_simps\<close>)
  then have "list_all id (phase_complete st1)" using f(1,5) by (simp add: list_all_id trace_ended_def phase_ok_def Let_def)
  then have "st = st1" using l by (subst (asm) phase_loop.simps) simp
  then show ?thesis using f(3) by (simp add: s' begin_phase_simps)
qed

section \<open>The program ends\<close>


lemma initialize_cpus: "map (\<lambda>c. (o_cpu c, in_flight c, num_retired c)) (cpu_view (fold (ref_initialize M) rs e))
    = map (\<lambda>c. (o_cpu c, in_flight c, num_retired c)) (cpu_view e)"
proof (induction rs arbitrary: e)
  case (Cons r rs)
  have "map (\<lambda>c. (o_cpu c, in_flight c, num_retired c)) (cpu_view (ref_initialize M r e)) = map (\<lambda>c. (o_cpu c, in_flight c, num_retired c)) (cpu_view e)"
  proof (cases r)
    case (Cpu i)
    then show ?thesis by (cases "i < length (cpu_view e)") (simp_all add: map_update_same in_flight_def list_update_beyond)
  qed simp_all
  then show ?case using Cons.IH by simp
qed simp


section \<open>The cores retire their traces\<close>

text \<open>An instruction without the number it gets when it is read.\<close>

definition raw :: "core_instr \<Rightarrow> core_instr" where
  "raw i = i\<lparr>instr_id := 0\<rparr>"

lemma read_upto_append:
  "read_upto m r = Some (is, r1) \<Longrightarrow> length is = m \<Longrightarrow> read_upto k r1 = Some (js, r2) \<Longrightarrow> read_upto (m + k) r = Some (is @ js, r2)"
proof (induction m arbitrary: r "is")
  case (Suc m)
  then show ?case by (cases "is") (auto simp: bind_eq_Some_conv split: if_splits)
qed simp

lemma read_packets_spec:
  "read_packets n u r = Some (is, u', r') \<Longrightarrow> ids is = [u..<u'] \<and> u \<le> u' \<and> (\<exists>js. read_upto (length is) r = Some (js, r') \<and> map raw is = map raw js)"
proof (induction n arbitrary: u r "is")
  case (Suc n)
  show ?case
  proof (cases "reader_eof r")
    case False
    then obtain i r1 ks where i: "reader_next r = Some (i, r1)" and ks: "read_packets n (Suc u) r1 = Some (ks, u', r')"
      and "is": "is = i\<lparr>instr_id := u\<rparr> # ks"
      using Suc.prems by (auto simp: bind_eq_Some_conv trace_next_def)
    then show ?thesis using Suc.IH[OF ks] False by (auto simp: raw_def upt_conv_Cons)
  qed (use Suc.prems in simp)
qed simp

text \<open>The instructions that a core has been fed from its trace since the reader was at its start.\<close>

definition fed_from :: "trace_reader \<Rightarrow> trace_reader \<Rightarrow> nat \<Rightarrow> core_instr list \<Rightarrow> bool" where
  "fed_from r0 r u got = ((\<exists>is. read_upto (length got) r0 = Some (is, r) \<and> map raw got = map raw is)
     \<and> sorted_wrt (<) (ids got) \<and> (\<forall>i \<in> set got. instr_id i < u))"

lemma fed_from_start: "fed_from r r u []"
  by (simp add: fed_from_def)

lemma fed_from_later: "fed_from r0 r u got \<Longrightarrow> u \<le> u' \<Longrightarrow> fed_from r0 r u' got"
  by (auto simp: fed_from_def)

lemma fed_from_append:
  assumes "fed_from r0 r u got" and "read_packets n u r = Some (is, u', r')"
  shows "fed_from r0 r' u' (got @ is)"
proof -
  obtain js where js: "ids is = [u..<u']" "u \<le> u'" "read_upto (length is) r = Some (js, r')" "map raw is = map raw js"
    using read_packets_spec[OF assms(2)] by blast
  obtain ks where ks: "read_upto (length got) r0 = Some (ks, r)" "map raw got = map raw ks" using assms(1) by (auto simp: fed_from_def)
  have "length ks = length got" using ks(2) by (metis length_map)
  then have "read_upto (length (got @ is)) r0 = Some (ks @ js, r')" using read_upto_append[OF ks(1) _ js(3)] by simp
  moreover have "\<forall>i \<in> set is. u \<le> instr_id i \<and> instr_id i < u'" using arg_cong[OF js(1), of set] by auto
  moreover have "sorted_wrt (<) (ids is)" by (simp add: js(1))
  ultimately show ?thesis using assms(1) ks(2) js(2,4) by (fastforce simp: fed_from_def sorted_wrt_append)
qed

text \<open>Every core has been fed from its trace and has the instructions it has not retired in flight.\<close>

definition retires_traces :: "trace_reader list \<Rightarrow> ('m, 'k) simulation \<Rightarrow> bool" where
  "retires_traces rs s = (cores_numbered (s_env s) \<and> length (s_traces s) = length rs
     \<and> (\<forall>i < length (cpu_view (s_env s)). i < length rs \<longrightarrow>
       (\<exists>got. fed_from (rs ! i) (s_traces s ! i) (instr_unique_id s) got \<and> in_order (ids got) (cpu_view (s_env s) ! i))))"

lemma advance_retires:
  assumes "retires_traces rs s" "cores_advance (s_env s) e" "s_traces s' = s_traces s" "instr_unique_id s' = instr_unique_id s" "s_env s' = e"
  shows "retires_traces rs s'"
proof -
  have len: "length (cpu_view e) = length (cpu_view (s_env s))" using assms(2) by (simp add: list_all2_lengthD)
  have "\<exists>got. fed_from (rs ! i) (s_traces s' ! i) (instr_unique_id s') got \<and> in_order (ids got) (cpu_view e ! i)"
    if i: "i < length (cpu_view e)" "i < length rs" for i
  proof -
    obtain got where g: "fed_from (rs ! i) (s_traces s ! i) (instr_unique_id s) got" "in_order (ids got) (cpu_view (s_env s) ! i)"
      using assms(1) i len by (auto simp: retires_traces_def)
    moreover have "in_order (ids got) (cpu_view e ! i)"
      using g list_all2_nthD2[OF assms(2) i(1)] by (simp add: advances_def fed_from_def)
    ultimately show ?thesis using assms(3,4) by auto
  qed
  moreover have "map o_cpu (cpu_view e) = map o_cpu (cpu_view (s_env s))"
    using assms(2) by (intro nth_equalityI) (auto simp: len advances_def list_all2_conv_all_nth)
  ultimately show ?thesis using assms(1,3,5) len by (simp add: retires_traces_def)
qed

lemma feed_core_retires:
  assumes "retires_traces rs s" and "feed_core [0..<length rs] i s = Some s'" and "i < length (cpu_view (s_env s))"
  shows "retires_traces rs s' \<and> length (cpu_view (s_env s')) = length (cpu_view (s_env s))"
proof -
  let ?c = "cpu_view (s_env s) ! i"
  have "map o_cpu (cpu_view (s_env s)) ! i = [0..<length (cpu_view (s_env s))] ! i" using assms(1) by (simp add: retires_traces_def)
  then have o: "o_cpu ?c = i" using assms(3) by simp
  then obtain n "is" u r where r: "i < length rs" "read_packets n (instr_unique_id s) (s_traces s ! i) = Some (is, u, r)"
    and s': "s_traces s' = (s_traces s)[i := r]" "instr_unique_id s' = u"
      "s_env s' = (s_env s)\<lparr>cpu_view := (cpu_view (s_env s))[i := ?c\<lparr>input_queue := input_queue ?c @ is\<rparr>]\<rparr>"
    using assms(2) by (auto simp: feed_core_def Let_def bind_eq_Some_conv vec_at_def split: if_splits)
  have u: "instr_unique_id s \<le> u" using read_packets_spec[OF r(2)] by simp
  have "\<exists>got. fed_from (rs ! j) (s_traces s' ! j) (instr_unique_id s') got \<and> in_order (ids got) (cpu_view (s_env s') ! j)"
    if j: "j < length (cpu_view (s_env s))" "j < length rs" for j
  proof -
    obtain got where f: "fed_from (rs ! j) (s_traces s ! j) (instr_unique_id s) got" "in_order (ids got) (cpu_view (s_env s) ! j)"
      using assms(1) j by (auto simp: retires_traces_def)
    show ?thesis
    proof (cases "j = i")
      case True
      have "in_order (ids (got @ is)) (?c\<lparr>input_queue := input_queue ?c @ is\<rparr>)"
        using f(2) True by (auto simp: in_order_def in_flight_def)
      then show ?thesis using fed_from_append[OF f(1)[unfolded True] r(2)] True s' assms(1) j
        by (intro exI[of _ "got @ is"]) (simp add: retires_traces_def)
    next
      case False
      then show ?thesis using f fed_from_later[OF f(1) u] s' by auto
    qed
  qed
  moreover have "map o_cpu (cpu_view (s_env s')) = map o_cpu (cpu_view (s_env s))" using assms(3) by (simp add: s' map_update_same)
  ultimately show ?thesis using assms(1) by (auto simp: retires_traces_def s')
qed

lemma do_cycle_retires:
  assumes "do_cycle M srt [0..<length rs] s = Some (n, s')" and "retires_traces rs s"
  shows "retires_traces rs s'"
proof -
  obtain q e where 1: "fold_option (operate_step M (global_clock s)) (srt (\<lambda>r. ref_current_time r (s_env s)) (operable_view (s_env s))) (0, s_env s) = Some (q, e)"
    and 2: "fold_option (feed_core [0..<length rs]) [0..<length (cpu_view e)] (s\<lparr>s_env := e\<rparr>) = Some s'"
    using assms(1) by (auto simp: do_cycle_def bind_eq_Some_conv Let_def)
  have "retires_traces rs (s\<lparr>s_env := e\<rparr>)" by (rule advance_retires[OF assms(2) conjunct1[OF operate_all_frame[OF 1]]]) simp_all
  then have "retires_traces rs (s\<lparr>s_env := e\<rparr>) \<and> length (cpu_view (s_env (s\<lparr>s_env := e\<rparr>))) = length (cpu_view e)" by simp
  then have "retires_traces rs s' \<and> length (cpu_view (s_env s')) = length (cpu_view e)"
  proof (rule fold_option_invariant[OF 2])
    fix i t t'
    assume i: "i \<in> set [0..<length (cpu_view e)]" and t: "retires_traces rs t \<and> length (cpu_view (s_env t)) = length (cpu_view e)"
      and f: "feed_core [0..<length rs] i t = Some t'"
    show "retires_traces rs t' \<and> length (cpu_view (s_env t')) = length (cpu_view e)"
      using feed_core_retires[OF conjunct1[OF t] f] i t by simp
  qed
  then show ?thesis ..
qed

lemma phase_cycle_retires:
  assumes "phase_cycle M srt p q st = Done st'" and "trace_index p = [0..<length rs]" and "retires_traces rs (ph_sim st)"
  shows "retires_traces rs (ph_sim st')"
proof -
  obtain n s old "next" "is" where c: "do_cycle M srt [0..<length rs] ((ph_sim st)\<lparr>global_clock := global_clock (ph_sim st) + q\<rparr>) = Some (n, s)"
    and s: "ph_sim st' = s\<lparr>s_env := fold (end_step old next) is (s_env s)\<rparr>"
    using assms(1,2) by (auto simp: phase_cycle_def Let_def split: option.splits if_splits)
  have "retires_traces rs s" by (rule do_cycle_retires[OF c]) (use assms(3) in \<open>simp add: retires_traces_def\<close>)
  then show ?thesis by (rule advance_retires[OF _ conjunct1[OF end_steps_frame]]) (simp_all add: s)
qed

lemma do_phase_retires:
  assumes "do_phase M srt p s = Some (Done (stats, s'))" and "trace_index p = [0..<length rs]" and "retires_traces rs s"
  shows "retires_traces rs s'"
proof -
  obtain st where st: "phase_loop (phase_cycle M srt p (time_quantum (s_env (ph_sim (begin_phase p s))))) (begin_phase p s) = Some (Done st)"
    and s': "s' = ph_sim st" using do_phase_done[OF assms(1)] .
  have "map o_cpu (cpu_view (s_env (ph_sim (begin_phase p s)))) = map o_cpu (cpu_view (s_env s))"
    by (simp add: begin_phase_simps comp_def)
  then have "retires_traces rs (ph_sim (begin_phase p s))"
    using assms(3) by (simp add: retires_traces_def begin_phase_simps core_begin_phase_order comp_def)
  then show ?thesis using phase_loop_done[OF st, where I = "\<lambda>t. retires_traces rs (ph_sim t)"] phase_cycle_retires[OF _ assms(2)] s' by blast
qed

lemma do_phases_retires:
  assumes "do_phases M srt ps s = Some (Done (stats, s'))" and "\<forall>p \<in> set ps. trace_index p = [0..<length rs]" and "retires_traces rs s"
  shows "retires_traces rs s'"
  using assms
proof (induction ps arbitrary: s stats)
  case (Cons p ps)
  then obtain st t rs' where p: "do_phase M srt p s = Some (Done (st, t))" and ps: "do_phases M srt ps t = Some (Done (rs', s'))"
    by (auto split: option.splits outcome.splits)
  have "retires_traces rs t" using Cons.prems by (intro do_phase_retires[OF p]) simp_all
  then show ?case using Cons.IH[OF ps] Cons.prems(2) by simp
qed simp


lemma run_program_main: "run_program M srt env warm simu traces = do_phases M srt (setup_phases warm simu (map fst traces))
    \<lparr>s_env = fold (ref_initialize M) (operable_view env) env, s_traces = setup_traces simu (map snd traces), instr_unique_id = 0, global_clock = 0\<rparr>"
  by (simp add: run_program_def champsim_main_def)

lemma initialize_numbered: "cores_numbered e \<Longrightarrow> cores_numbered (fold (ref_initialize M) rs e)"
  using arg_cong[OF initialize_cpus[of M rs e], of "map fst"] arg_cong[OF initialize_cpus[of M rs e], of length]
  by (simp add: comp_def)

lemma initialize_empty:
  assumes "\<forall>c \<in> set (cpu_view e). num_retired c = 0 \<and> in_flight c = []" and "i < length (cpu_view (fold (ref_initialize M) rs e))"
  shows "in_order [] (cpu_view (fold (ref_initialize M) rs e) ! i)"
proof -
  let ?f = "\<lambda>c. (o_cpu c, in_flight c, num_retired c)"
  have m: "map ?f (cpu_view (fold (ref_initialize M) rs e)) = map ?f (cpu_view e)" by (rule initialize_cpus)
  then have l: "i < length (cpu_view e)" using map_eq_imp_length_eq[OF m] assms(2) by simp
  have "?f (cpu_view (fold (ref_initialize M) rs e) ! i) = ?f (cpu_view e ! i)" using arg_cong[OF m, of "\<lambda>xs. xs ! i"] assms(2) l by simp
  then show ?thesis using assms(1) l by (auto simp: in_order_def)
qed


text \<open>C3. From the trace file to retirement: when the program is done, every core has been fed the first instructions of
  its trace, repeated if the number of instructions is given, with increasing numbers, and has retired them in order
  up to those that are still in flight.\<close>

theorem cores_retire_traces:
  assumes "run_program M srt env warmup_instructions simulation_instructions traces = Some (Done (stats, s))"
    and "map o_cpu (cpu_view env) = [0..<length (cpu_view env)]"
    and "\<forall>c \<in> set (cpu_view env). num_retired c = 0 \<and> in_flight c = []"
    and "i < length (cpu_view (s_env s))" and "i < length traces" and "snd (traces ! i) \<noteq> []"
  shows "\<exists>is. let c = cpu_view (s_env s) ! i in
    map raw is = map raw (delivered_program (simulation_instructions \<noteq> None) (of_nat i) (snd (traces ! i)) (length is))
    \<and> sorted_wrt (<) (map instr_id is) \<and> num_retired c \<le> length is \<and> in_flight c = drop (num_retired c) (map instr_id is)"
proof -
  let ?rs = "setup_traces simulation_instructions (map snd traces)"
  let ?s0 = "\<lparr>s_env = fold (ref_initialize M) (operable_view env) env, s_traces = ?rs, instr_unique_id = 0, global_clock = 0\<rparr>"
  have len: "length ?rs = length traces" by (simp add: setup_traces_def)
  have "retires_traces ?rs ?s0"
    using initialize_numbered[OF assms(2), of M "operable_view env"] initialize_empty[OF assms(3)]
    by (auto simp: retires_traces_def intro!: exI[of _ "[]"] fed_from_start)
  then have "retires_traces ?rs s"
    by (rule do_phases_retires[OF assms(1)[unfolded run_program_main], rotated]) (simp add: setup_phases_def Let_def len)
  then obtain got where got: "fed_from (?rs ! i) (s_traces s ! i) (instr_unique_id s) got" "in_order (ids got) (cpu_view (s_env s) ! i)"
    using assms(4,5) len by (auto simp: retires_traces_def)
  then obtain ks where ks: "read_upto (length got) (?rs ! i) = Some (ks, s_traces s ! i)" "map raw got = map raw ks"
    by (auto simp: fed_from_def)
  have "?rs ! i = get_tracereader (snd (traces ! i)) (of_nat i) (simulation_instructions \<noteq> None)"
    using assms(5) by (simp add: setup_traces_def)
  then have "ks = delivered_program (simulation_instructions \<noteq> None) (of_nat i) (snd (traces ! i)) (length got)"
    using reader_delivers[OF assms(6), of "length got" "of_nat i" "simulation_instructions \<noteq> None"] ks(1) by simp
  then show ?thesis using got ks(2) by (intro exI[of _ got]) (simp add: Let_def fed_from_def in_order_def)
qed

section \<open>The components keep up with the global clock\<close>

lemma load_clocks:
  "o_current_time (load_core i e) = ref_current_time (Cpu i) e" "o_clock_period (load_core i e) = ref_clock_period (Cpu i) e"
  "c_current_time (load_cache i e) = ref_current_time (Cache i) e" "c_clock_period (load_cache i e) = ref_clock_period (Cache i) e"
  "p_current_time (load_ptw i e) = ref_current_time (Ptw i) e" "p_clock_period (load_ptw i e) = ref_clock_period (Ptw i) e"
  "mc_current_time (load_dram e) = ref_current_time Dram e" "mc_clock_period (load_dram e) = ref_clock_period Dram e"
  by (simp_all add: load_core_def load_cache_def load_ptw_def load_dram_def Let_def)

definition keeps_up :: "time \<Rightarrow> operable_ref \<Rightarrow> ('m, 'k) environment \<Rightarrow> ('m, 'k) environment \<Rightarrow> bool" where
  "keeps_up now r e e' = (now \<le> ref_current_time r e'
     \<and> (ref_current_time r e < now + ref_clock_period r e \<longrightarrow> ref_current_time r e' < now + ref_clock_period r e'))"

lemma ref_operate_keeps_up:
  assumes c: "\<And>i. operable c_current_time c_clock_period (cache_tick (cache_hooks_at M i))"
    and o: "ref_operate_on M now r e = Some (n, e')" and r: "r \<in> set (operable_view e)"
  shows "keeps_up now r e e'"
proof (cases r)
  case (Cpu i)
  then obtain d where d: "operate_on o_current_time (core_tick (core_hooks_at M i)) now (load_core i e) = Some (n, d)" "e' = store_core i d e"
    using o by auto
  then show ?thesis using core_operable.operate_on_caught_up[OF d(1)] core_operable.operate_on_ahead[OF d(1)] Cpu r
    by (auto simp: keeps_up_def load_clocks stores operable_view_def)
next
  case (Cache i)
  then obtain d where d: "operate_on c_current_time (cache_tick (cache_hooks_at M i)) now (load_cache i e) = Some (n, d)" "e' = store_cache i d e"
    using o by auto
  then show ?thesis using operable.operate_on_caught_up[OF c d(1)] operable.operate_on_ahead[OF c d(1)] Cache r
    by (auto simp: keeps_up_def load_clocks stores operable_view_def)
next
  case (Ptw i)
  then obtain d v where d: "operate_on (p_current_time \<circ> fst) ptw_tick now (load_ptw i e, e_vmem e) = Some (n, d, v)" "e' = (store_ptw i d e)\<lparr>e_vmem := v\<rparr>"
    using o by auto
  then show ?thesis using walker_operable.operate_on_caught_up[OF d(1)] walker_operable.operate_on_ahead[OF d(1)] Ptw r
    by (auto simp: keeps_up_def load_clocks stores operable_view_def)
next
  case Dram
  then obtain d where d: "operate_on mc_current_time mc_tick now (load_dram e) = Some (n, d)" "e' = store_dram d e"
    using o by auto
  then show ?thesis using memory_operable.operate_on_caught_up[OF d(1)] memory_operable.operate_on_ahead[OF d(1)] Dram
    by (auto simp: keeps_up_def load_clocks stores)
qed

lemma ref_operate_others:
  "ref_operate_on M now r e = Some (n, e') \<Longrightarrow> r' \<noteq> r \<Longrightarrow> ref_current_time r' e' = ref_current_time r' e \<and> ref_clock_period r' e' = ref_clock_period r' e"
  by (cases r; cases r') (auto simp: stores)

lemma operate_step_Some: "operate_step M now r (p, e) = Some y \<longleftrightarrow> (\<exists>n e'. ref_operate_on M now r e = Some (n, e') \<and> y = (p + n, e'))"
  by (auto simp: operate_step_def)

lemma operate_all_keeps_up:
  assumes "\<And>i. operable c_current_time c_clock_period (cache_tick (cache_hooks_at M i))"
    and "fold_option (operate_step M now) rs (p, e) = Some (q, e')" and "set rs \<subseteq> set (operable_view e)"
    and "ref_current_time r e < now + ref_clock_period r e" and "r \<in> set rs \<or> now \<le> ref_current_time r e"
  shows "now \<le> ref_current_time r e' \<and> ref_current_time r e' < now + ref_clock_period r e'"
  using assms(2-5)
proof (induction rs arbitrary: p e)
  case (Cons x rs)
  from Cons.prems(1) obtain n e1 where x: "ref_operate_on M now x e = Some (n, e1)" and rest: "fold_option (operate_step M now) rs (p + n, e1) = Some (q, e')"
    by (auto simp: operate_step_Some bind_eq_Some_conv)
  have v: "operable_view e1 = operable_view e" using ref_operate_frame[OF x] operable_view_shape by blast
  have "ref_current_time r e1 < now + ref_clock_period r e1 \<and> (r \<in> set rs \<or> now \<le> ref_current_time r e1)"
  proof (cases "r = x")
    case True
    then show ?thesis using ref_operate_keeps_up[OF assms(1) x] Cons.prems(2,3) by (simp add: keeps_up_def)
  next
    case False
    then show ?thesis using ref_operate_others[OF x False] Cons.prems(3,4) by auto
  qed
  then show ?case using Cons.IH[OF rest] Cons.prems(2) v by simp
qed simp

lemma feed_clocks:
  assumes "fold_option (feed_core ti) is s = Some s'"
  shows "ref_current_time r (s_env s') = ref_current_time r (s_env s) \<and> ref_clock_period r (s_env s') = ref_clock_period r (s_env s)"
proof (rule fold_option_invariant[OF assms])
  fix i t t'
  assume t: "ref_current_time r (s_env t) = ref_current_time r (s_env s) \<and> ref_clock_period r (s_env t) = ref_clock_period r (s_env s)"
    and f: "feed_core ti i t = Some t'"
  obtain "is" where "s_env t' = (s_env t)\<lparr>cpu_view := (cpu_view (s_env t))[i := (cpu_view (s_env t) ! i)\<lparr>input_queue := is\<rparr>]\<rparr>"
    using f by (auto simp: feed_core_def Let_def bind_eq_Some_conv)
  then show "ref_current_time r (s_env t') = ref_current_time r (s_env s) \<and> ref_clock_period r (s_env t') = ref_clock_period r (s_env s)"
    using t by (cases r; cases "i < length (cpu_view (s_env t))") (auto simp: nth_list_update list_update_beyond)
qed simp

text \<open>C7. After every cycle of the driver each component has caught up with the global clock and is less than one of its own
  periods ahead of it.\<close>

theorem operables_keep_up:
  assumes "\<forall>i. operable c_current_time c_clock_period (cache_tick (cache_hooks_at M i))" and "sorts srt"
    and "do_cycle M srt ti s = Some (n, s')"
    and "\<forall>r \<in> set (operable_view (s_env s)). ref_current_time r (s_env s) < global_clock s + ref_clock_period r (s_env s)"
  shows "\<forall>r \<in> set (operable_view (s_env s')). global_clock s \<le> ref_current_time r (s_env s')
    \<and> ref_current_time r (s_env s') < global_clock s + ref_clock_period r (s_env s')"
proof
  fix r assume r: "r \<in> set (operable_view (s_env s'))"
  let ?rs = "srt (\<lambda>r. ref_current_time r (s_env s)) (operable_view (s_env s))"
  obtain q e where 1: "fold_option (operate_step M (global_clock s)) ?rs (0, s_env s) = Some (q, e)"
    and 2: "fold_option (feed_core ti) [0..<length (cpu_view e)] (s\<lparr>s_env := e\<rparr>) = Some s'"
    using assms(3) by (auto simp: do_cycle_def bind_eq_Some_conv Let_def)
  have "mset ?rs = mset (operable_view (s_env s))" using assms(2) by (simp add: sorts_def)
  then have rs: "set ?rs = set (operable_view (s_env s))" by (rule mset_eq_setD)
  have "operable_view (s_env s') = operable_view (s_env s)"
    using do_cycle_counts[OF assms(3)] by (intro operable_view_shape) (simp add: counts_on_def)
  then have "r \<in> set ?rs" using r rs by simp
  then have "global_clock s \<le> ref_current_time r e \<and> ref_current_time r e < global_clock s + ref_clock_period r e"
    using assms(1,4) rs by (intro operate_all_keeps_up[OF _ 1]) auto
  then show "global_clock s \<le> ref_current_time r (s_env s') \<and> ref_current_time r (s_env s') < global_clock s + ref_clock_period r (s_env s')"
    using feed_clocks[OF 2, of r] by simp
qed


section \<open>A small system\<close>

text \<open>One core and a memory controller; the trace has three instructions.\<close>

definition sample_env :: "(address list modules, unit \<times> lru) environment" where
  "sample_env = \<lparr>e_channels = [new_channel 4 4 4 6 False, new_channel 4 4 4 6 True, sample_upper], e_vmem = sample_memory,
     cpu_view = [sample_core], cpu_wires = [\<lparr>wire_L1I = 0, wire_L1D = 1\<rparr>], cache_view = [], caches_wires = [],
     ptw_view = [], ptws_wires = [], dram_view = sample_controller, dram_wires = [2]\<rparr>"

definition sample_modules :: "(address list modules, unit \<times> lru) configured_modules" where
  "sample_modules = \<lparr>core_hooks_at = (\<lambda>_. recording_hooks), cache_hooks_at = (\<lambda>_. lru_hooks [no]), core_initialize = (\<lambda>_ m. m),
     cache_initialize = (\<lambda>_ c. c)\<rparr>"

definition sample_traces :: "(string \<times> input_instr list) list" where
  "sample_traces = [(''trace'', [sample_record 1, sample_record 2, sample_record 3])]"

definition sample_simulation :: "int option \<Rightarrow> (address list modules, unit \<times> lru) simulation" where
  "sample_simulation n = \<lparr>s_env = sample_env, s_traces = setup_traces n (map snd sample_traces), instr_unique_id = 0, global_clock = 1\<rparr>"

definition sample_phase :: "int \<Rightarrow> phase_info" where
  "sample_phase n = \<lparr>phase_name = ''Simulation'', is_warmup = False, phase_length = n, trace_index = [0], trace_names = [''trace'']\<rparr>"

lemma done_case: "map_option (\<lambda>out. case out of Done (a, b) \<Rightarrow> P a b | _ \<Rightarrow> False) x = Some True \<longleftrightarrow> (\<exists>a b. x = Some (Done (a, b)) \<and> P a b)"
  by (cases x) (auto split: outcome.splits)

lemma sample_numbered: "map o_cpu (cpu_view sample_env) = [0..<length (cpu_view sample_env)]"
  by (simp add: sample_env_def sample_core_def)

lemma sample_sim_numbered: "map o_cpu (cpu_view (s_env (sample_simulation n))) = [0..<length (cpu_view (s_env (sample_simulation n)))]"
  by (simp add: sample_simulation_def sample_numbered)

lemma sort_key_sorts: "sorts sort_key"
  by (simp add: sorts_def)



text \<open>A core with a completed instruction retires it in the first cycle.\<close>

definition busy_simulation :: "(address list modules, unit \<times> lru) simulation" where
  "busy_simulation = (sample_simulation (Some 1))
     \<lparr>s_env := sample_env\<lparr>cpu_view := [sample_core\<lparr>ROB := [(plain_instr 0 0x10)\<lparr>completed := True\<rparr>]\<rparr>]\<rparr>\<rparr>"

lemma phase_retires_instructions_witness:
  "\<exists>stats s. do_phase sample_modules sort_key (sample_phase 1) busy_simulation = Some (Done (stats, s)) \<and> 1 \<le> num_retired (cpu_view (s_env s) ! 0)"
proof -
  have "map_option (\<lambda>out. case out of Done (stats, s) \<Rightarrow> \<not> list_ex reader_eof (s_traces s) | _ \<Rightarrow> False)
      (do_phase sample_modules sort_key (sample_phase 1) busy_simulation) = Some True" by code_simp
  then obtain stats s where d: "do_phase sample_modules sort_key (sample_phase 1) busy_simulation = Some (Done (stats, s))"
    and e: "\<not> trace_ended s"
    unfolding done_case trace_ended_def by blast
  have n: "map o_cpu (cpu_view (s_env busy_simulation)) = [0..<length (cpu_view (s_env busy_simulation))]"
    by (simp add: busy_simulation_def sample_core_def)
  from phase_retires_instructions[OF d n] d e show ?thesis by (auto simp: busy_simulation_def sample_core_def sample_phase_def)
qed

lemma ended_trace_ends_phase_witness:
  "\<exists>stats s. do_phase sample_modules sort_key (sample_phase 1000)
      ((sample_simulation None)\<lparr>s_traces := [Bulk \<lparr>tr_cpu = 0, tr_eof = True, tr_file = \<lparr>tf_records = [], tf_eof = True\<rparr>, instr_buffer = []\<rparr>]\<rparr>) = Some (Done (stats, s))
    \<and> global_clock s = 2"
proof -
  let ?s = "(sample_simulation None)\<lparr>s_traces := [Bulk \<lparr>tr_cpu = 0, tr_eof = True, tr_file = \<lparr>tf_records = [], tf_eof = True\<rparr>, instr_buffer = []\<rparr>]\<rparr>"
  have "map_option (\<lambda>out. case out of Done (stats, s) \<Rightarrow> True | _ \<Rightarrow> False)
      (do_phase sample_modules sort_key (sample_phase 1000) ?s) = Some True" by code_simp
  then obtain stats s where d: "do_phase sample_modules sort_key (sample_phase 1000) ?s = Some (Done (stats, s))"
    unfolding done_case by blast
  have q: "time_quantum (s_env (ph_sim (begin_phase (sample_phase 1000) ?s))) = 1" by code_simp
  have "global_clock s = global_clock ?s + time_quantum (s_env (ph_sim (begin_phase (sample_phase 1000) ?s)))"
    by (rule ended_trace_ends_phase[OF d]) (use sample_sim_numbered[of None] in \<open>simp_all add: bulk_eof_eq\<close>,
      simp add: sample_simulation_def sample_env_def)
  then have "global_clock s = 2" unfolding q by (simp add: sample_simulation_def)
  then show ?thesis using d by blast
qed

lemma cores_retire_traces_witness:
  "\<exists>stats s is. run_program sample_modules sort_key sample_env None None sample_traces = Some (Done (stats, s))
    \<and> in_flight (cpu_view (s_env s) ! 0) = [0, 1] \<and> [0, 1] = drop (num_retired (cpu_view (s_env s) ! 0)) (ids is)"
proof -
  have "map_option (\<lambda>out. case out of Done (stats, s) \<Rightarrow> in_flight (cpu_view (s_env s) ! 0) = [0, 1] \<and> length (cpu_view (s_env s)) = 1 | _ \<Rightarrow> False)
      (run_program sample_modules sort_key sample_env None None sample_traces) = Some True" by code_simp
  then obtain stats s where d: "run_program sample_modules sort_key sample_env None None sample_traces = Some (Done (stats, s))"
    and s: "in_flight (cpu_view (s_env s) ! 0) = [0, 1]" "length (cpu_view (s_env s)) = 1"
    unfolding done_case by blast
  have "\<forall>c \<in> set (cpu_view sample_env). num_retired c = 0 \<and> in_flight c = []" by (simp add: sample_env_def sample_core_def in_flight_def)
  from cores_retire_traces[OF d sample_numbered this, of 0] s obtain "is" where
    "in_flight (cpu_view (s_env s) ! 0) = drop (num_retired (cpu_view (s_env s) ! 0)) (ids is)" by (auto simp: sample_traces_def Let_def)
  then show ?thesis using d s(1) by (intro exI[of _ stats] exI[of _ s] exI[of _ "is"]) simp
qed

lemma operables_keep_up_witness:
  "\<exists>n s. do_cycle sample_modules sort_key [0] (sample_simulation (Some 0)) = Some (n, s)
    \<and> (\<forall>r \<in> set (operable_view (s_env s)). 1 \<le> ref_current_time r (s_env s))"
proof -
  have "do_cycle sample_modules sort_key [0] (sample_simulation (Some 0)) \<noteq> None" by code_simp
  then obtain n s where d: "do_cycle sample_modules sort_key [0] (sample_simulation (Some 0)) = Some (n, s)" by fastforce
  have "\<forall>r \<in> set (operable_view (s_env (sample_simulation (Some 0)))). ref_current_time r (s_env (sample_simulation (Some 0)))
      < global_clock (sample_simulation (Some 0)) + ref_clock_period r (s_env (sample_simulation (Some 0)))" by code_simp
  from operables_keep_up[OF _ sort_key_sorts d this] d lru_cache_operable.operable_axioms show ?thesis
    by (auto simp: sample_modules_def sample_simulation_def)
qed

end
