(* ===== verification/Spec2Isabelle.thy ===== *)
theory Spec2Isabelle
  imports Prelude Fwcounter Msl_Bits Instruction Branch_Predictor Loop_Predictor Tage Tage_Correctness Ltage
    Bimodal_Gshare Perceptron Hashed_Perceptron Lru_Table Btb Replacement Replacement_Correctness Access_Type
    Register_Allocator Bandwidth Event_Counter Channel Addresses Waitable Cache Cache_Modules Cache_Correctness Cache_Fills
    Core Core_Order Core_Modules Vmem Vmem_Correctness Ptw Ptw_Correctness Dram Dram_Mapping Dram_Correctness Dram_Controller
    Spp Spp_Correctness Trace_Reader Operable Simulation Simulation_Correctness
begin

text \<open>
  \<^bold>\<open>ChampSim with the L-TAGE branch predictor: a verification library.\<close>

  ChampSim is a trace-driven simulator of a processor and its memory hierarchy.  A core (\<open>O3_CPU\<close>) takes trace
  instructions from its input queue through a pipeline; its branch predictors and branch target buffers are
  modules; its loads and stores leave through channels to caches, whose replacement policies and prefetchers are
  modules too; page table walkers serve the misses of the TLBs from the tables of the virtual memory; the
  memory controller serves the misses of the last cache.  The driver runs all components up to a global clock, cycle by cycle, feeds the
  cores from their traces and ends the phases.  All paths below are under \<open>src/ChampSim\<close>.

  \<^bold>\<open>Which theory models what.\<close>  Records and constructors keep the names of the source, one definition per function;
  a definition that models a member function takes the state as its last argument and returns it updated.

    \<^item> \<open>Prelude\<close>: the shared vocabulary: first-match and extremum searches of \<open><algorithm>\<close>, permutations, masks, the
      collections of facts.  \<open>Fwcounter\<close>, \<open>Msl_Bits\<close>, \<open>Lru_Table\<close>: \<open>inc/msl/{fwcounter,bits,lru_table}.h\<close>.
      \<open>Waitable\<close>, \<open>Event_Counter\<close>, \<open>Bandwidth\<close>, \<open>Access_Type\<close>, \<open>Addresses\<close>: the headers of \<open>inc/\<close> with these names, with
      \<open>inc/extent.h\<close> and \<open>inc/util/{span,algorithm}.h\<close>.
    \<^item> Branch prediction: \<open>Branch_Predictor\<close> (the interface), \<open>Loop_Predictor\<close>, \<open>Tage\<close>, \<open>Tage_Correctness\<close>, \<open>Ltage\<close>
      (\<open>branch/LTage\<close> and \<open>branch/Tage\<close>), \<open>Bimodal_Gshare\<close>, \<open>Perceptron\<close>, \<open>Hashed_Perceptron\<close> (\<open>branch/*\<close>), \<open>Btb\<close>
      (\<open>btb/basic_btb\<close>).
    \<^item> The core: \<open>Instruction\<close> (\<open>inc/instruction.h\<close>, \<open>inc/trace_instruction.h\<close>), \<open>Register_Allocator\<close>
      (\<open>src/register_allocator.cc\<close>), \<open>Core\<close>, \<open>Core_Order\<close>, \<open>Core_Modules\<close> (\<open>src/ooo_cpu.cc\<close>, \<open>inc/ooo_cpu.h\<close>).
    \<^item> The caches: \<open>Channel\<close> (\<open>src/channel.cc\<close>), \<open>Cache\<close>, \<open>Cache_Correctness\<close>, \<open>Cache_Fills\<close> (\<open>src/cache.cc\<close>, \<open>inc/cache.h\<close>),
      \<open>Cache_Modules\<close> (\<open>prefetcher/*\<close> and the dispatch to modules), \<open>Spp\<close>, \<open>Spp_Correctness\<close> (\<open>prefetcher/spp_dev\<close>), \<open>Replacement\<close>, \<open>Replacement_Correctness\<close>
      (\<open>replacement/*\<close>).
    \<^item> Translation: \<open>Vmem\<close>, \<open>Vmem_Correctness\<close> (\<open>src/vmem.cc\<close>), \<open>Ptw\<close>, \<open>Ptw_Correctness\<close> (\<open>src/ptw.cc\<close>).
    \<^item> Memory: \<open>Dram_Mapping\<close>, \<open>Dram\<close>, \<open>Dram_Correctness\<close>, \<open>Dram_Controller\<close> (\<open>src/dram_controller.cc\<close>,
      \<open>inc/dram_controller.h\<close>, \<open>inc/extent_set.h\<close>).
    \<^item> The driver: \<open>Trace_Reader\<close> (\<open>inc/tracereader.h\<close>, \<open>src/tracereader.cc\<close>, \<open>inc/repeatable.h\<close>), \<open>Operable\<close> (\<open>src/operable.cc\<close>),
      \<open>Simulation\<close> and \<open>Simulation_Correctness\<close> (\<open>src/champsim.cc\<close>, \<open>inc/environment.h\<close>, \<open>inc/phase_info.h\<close>, the phases of \<open>src/main.cc\<close>).
      The environment holds the channels; a component's channels are loaded into its model before it runs and stored
      back afterwards, so that the models of the single components, which own their channels, are composed as they are.

  \<^bold>\<open>Conventions.\<close>  Machine integers are words where the code relies on their width (addresses, hashes, histories, packed
  metadata) and naturals or integers with an explicit bound or modulus where an invariant keeps them in range.
  Addresses are \<open>64 word\<close>.  Times are integers, picoseconds of the simulation clock.  Arrays are lists whose length never
  changes; an access that C++ leaves undefined, a failed assertion and an exception are branches of the model: \<open>None\<close>, or
  the left side of a sum where the kind of error matters.  A hook or a parameter of a model stands for what the
  configuration supplies.

  \<^bold>\<open>Interfaces.\<close>  Each is a locale, with the client's lemmas inside and an interpretation for every provider:
  \<open>saturating\<close> (counters of width 2, 3, 4, 8, 10, 14 and signed 8), \<open>counter_map\<close> (the event counter), \<open>lookup_table\<close>
  (the LRU table and the branch target buffer), \<open>branch_predictor\<close> and its extension \<open>pure_branch_predictor\<close> (bimodal, gshare,
  perceptron, hashed perceptron, the loop predictor, TAGE, L-TAGE), \<open>replacement_policy\<close> (LRU, SRRIP, DRRIP,
  SHiP), \<open>prefetcher\<close> and \<open>cache_modules\<close> (the prefetchers, and caches with them), \<open>request_port\<close> (the three queues of a
  channel), \<open>translation_memory\<close> (the page map and the page table of virtual memory), \<open>operable\<close> (the core, caches with
  LRU and with SRRIP, the walker, the memory controller).

  \<^bold>\<open>What the lemmas show.\<close>
    \<^item> Core: whatever the modules, the caches and the buffer sizes are, instructions retire in the order of the program, each
      once (\<open>Core_Order\<close>); the predictors see exactly the program (\<open>Core_Modules\<close>); renaming loses no physical register and
      reads the youngest earlier producer (\<open>Register_Allocator\<close>).
    \<^item> Predictors: state stays in range along any run; TAGE finds the longest and second longest match, its folded
      histories are parities of the last outcomes, allocation and ageing are as documented; L-TAGE is TAGE overridden by
      confident loop predictions and predicts regular loops exactly after three executions.
    \<^item> Caches: the MSHRs are bounded and hold a block once, a miss keeps everybody who waits, a completed fill installs the
      block and answers, and the next tag check finds it; replacement never throws and its victims are ways of the set.
    \<^item> Translation: a translation never changes, no physical page serves two purposes while memory lasts, walks lose and
      duplicate nothing, answer with the translation of the virtual memory and end.
    \<^item> Memory: two addresses are in one block exactly when their coordinates agree, the controller never fails in a run and
      forgets no read.
    \<^item> The signature path prefetcher: tables and counters stay in range, prefetches stay in their page; its queues can be overrun.
    \<^item> The driver: a reader delivers its trace in order, with branch targets, but keeps the last instruction back; the components keep up
      with the global clock; every phase and the program end; a phase that is done has retired its instructions or used up a
      trace; from the trace file to retirement, every core is fed its trace in order and retires it in order.

  \<^bold>\<open>Loops.\<close>  Searches and queue passes are structural recursions.  Loops with a bound in the code are \<open>function\<close>s with a measure
  (the degree loops of the prefetchers, the ageing of re-reference values).  The bank hash of the address mapping
  (\<open>swizzle_loop\<close>) is a \<open>partial_function (option)\<close>, because it does not return when there is one bank; that it returns
  otherwise is proved.  So are \<open>operate_on\<close>, which returns if the period of the component is positive and no cycle fails, and the loop
  of a phase (\<open>phase_loop\<close>), which always returns because the check for livelocks aborts it.  The only fuel is the number of cycles or steps of a run, and every statement about runs holds for all.

  \<^bold>\<open>Parameters.\<close>  \<open>std::shuffle\<close> and \<open>std::partition\<close> permute their range; \<open>rand()\<close> is a value the step is given; the
  floating-point refresh time of the memory is a given duration; \<open>std::sort\<close> returns its range in some ascending order; a trace
  file is the sequence of its records; the modules of the cores and caches are parameters of the driver.

  \<^bold>\<open>Not modelled.\<close>  The printers of statistics and the deadlock print-outs (formatted output); the builders (records of optional
  values, given to constructors that are modelled); compile-time detection of module operations; the types of durations and sizes;
  the decompression of traces and the choice of their format; the parsing of the command line; the tracers and trace converters
  (separate programs).  A core's call of the prefetcher of its instruction cache on a branch is a hook of the core: no prefetcher of the
  repository implements it.  The manifest lists each with its reason.
\<close>

end
